(* ===== verification/TS_Prelude.thy ===== *)
theory TS_Prelude
  imports Main "HOL-Library.Word"
begin

text \<open>
  Shared vocabulary of the development: bytes, sizes, failures and the macros of
  \<^verbatim>\<open>commonlib/include/error.h\<close> that end a C function early.

  A C \<^verbatim>\<open>char\<close> is a HOL \<^typ>\<open>char\<close> (a byte); a memory block is a list of
  bytes. A \<^verbatim>\<open>size_t\<close> is a natural number below \<open>2 ^ 64\<close> whose additions and
  subtractions are \<open>size_add\<close> and \<open>size_sub\<close>, with the wrap-around written out.

  \<^verbatim>\<open>struct Error *\<close> is a sum: \<open>Inr\<close> is \<^verbatim>\<open>OK\<close>, \<open>Inl (Failed m)\<close> an allocated error. Two
  further failures are no C values: \<open>Undefined\<close> marks an access outside a block and
  \<open>Diverges\<close> a loop that does not end, so that theorems can state their absence. The
  text of an error trace is not modelled.
\<close>

section \<open>Bytes\<close>

type_synonym byte = char

abbreviation ord :: "char \<Rightarrow> nat" where
  "ord c \<equiv> of_char c"

text \<open>The control characters the sources write as \<^verbatim>\<open>'\r'\<close>, \<^verbatim>\<open>'\n'\<close>, \<^verbatim>\<open>'\t'\<close> and \<^verbatim>\<open>'\v'\<close>.\<close>

abbreviation CR :: char where "CR \<equiv> CHR 0x0D"
abbreviation LF :: char where "LF \<equiv> CHR 0x0A"
abbreviation TAB :: char where "TAB \<equiv> CHR 0x09"
abbreviation VT :: char where "VT \<equiv> CHR 0x0B"
abbreviation NUL :: char where "NUL \<equiv> CHR 0x00"

definition is_upper :: "char \<Rightarrow> bool" where
  "is_upper c \<longleftrightarrow> ord CHR ''A'' \<le> ord c \<and> ord c \<le> ord CHR ''Z''"

definition is_lower :: "char \<Rightarrow> bool" where
  "is_lower c \<longleftrightarrow> ord CHR ''a'' \<le> ord c \<and> ord c \<le> ord CHR ''z''"

definition is_digit :: "char \<Rightarrow> bool" where
  "is_digit c \<longleftrightarrow> ord CHR ''0'' \<le> ord c \<and> ord c \<le> ord CHR ''9''"

definition to_lower :: "char \<Rightarrow> char" where
  "to_lower c = (if is_upper c then char_of (ord c + 32) else c)"

section \<open>Failures and early returns\<close>

datatype failure = Failed string | Undefined | Diverges

type_synonym 'a result = "failure + 'a"

text \<open>\<^verbatim>\<open>PRET(e)\<close>: return the error of \<open>e\<close>, otherwise go on with its result.\<close>

definition pret :: "'e + 'a \<Rightarrow> ('a \<Rightarrow> 'e + 'b) \<Rightarrow> 'e + 'b" where
  "pret r k = (case r of Inl e \<Rightarrow> Inl e | Inr x \<Rightarrow> k x)"

text \<open>\<^verbatim>\<open>ARET(b)\<close>: return an error if the expression is false.\<close>

definition aret :: "bool \<Rightarrow> string \<Rightarrow> 'a result \<Rightarrow> 'a result" where
  "aret b m k = (if b then k else Inl (Failed m))"

text \<open>An access to memory that is \<open>None\<close> when it leaves its block.\<close>

definition access :: "'a option \<Rightarrow> ('a \<Rightarrow> 'b result) \<Rightarrow> 'b result" where
  "access a k = (case a of None \<Rightarrow> Inl Undefined | Some x \<Rightarrow> k x)"

lemma pret_simps [simp]: "pret (Inl e) k = Inl e" "pret (Inr x) k = k x"
  by (simp_all add: pret_def)

lemma pret_Inr_iff: "pret r k = Inr y \<longleftrightarrow> (\<exists>x. r = Inr x \<and> k x = Inr y)"
  by (auto simp: pret_def split: sum.splits)

lemma pret_InrE:
  assumes "pret r k = Inr y"
  obtains x where "r = Inr x" and "k x = Inr y"
  using assms by (auto simp: pret_Inr_iff)

lemma aret_simps [simp]: "aret True m k = k" "aret False m k = Inl (Failed m)"
  by (simp_all add: aret_def)

lemma aret_Inr_iff: "aret b m k = Inr y \<longleftrightarrow> b \<and> k = Inr y"
  by (simp add: aret_def)

lemma access_simps [simp]: "access None k = Inl Undefined" "access (Some x) k = k x"
  by (simp_all add: access_def)

lemma access_Inr_iff: "access a k = Inr y \<longleftrightarrow> (\<exists>x. a = Some x \<and> k x = Inr y)"
  by (auto simp: access_def split: option.splits)

lemmas result_iffs = pret_Inr_iff aret_Inr_iff access_Inr_iff

section \<open>Sizes\<close>

definition size_add :: "nat \<Rightarrow> nat \<Rightarrow> nat" where
  "size_add a b = (a + b) mod 2 ^ 64"

definition size_sub :: "nat \<Rightarrow> nat \<Rightarrow> nat" where
  "size_sub a b = (a + (2 ^ 64 - b)) mod 2 ^ 64"

lemma size_add_exact [simp]: "a + b < 2 ^ 64 \<Longrightarrow> size_add a b = a + b"
  by (simp add: size_add_def)

lemma size_sub_exact [simp]: "b \<le> a \<Longrightarrow> a < 2 ^ 64 \<Longrightarrow> size_sub a b = a - b"
proof -
  assume le: "b \<le> a" and lt: "a < 2 ^ 64"
  have "a + (2 ^ 64 - b) = (a - b) + 2 ^ 64" using le lt by simp
  then have "size_sub a b = (a - b) mod 2 ^ 64" unfolding size_sub_def by simp
  then show ?thesis using lt by simp
qed

lemma size_sub_0 [simp]: "a < 2 ^ 64 \<Longrightarrow> size_sub a 0 = a"
  by simp

section \<open>Blocks of memory\<close>

text \<open>
  \<^verbatim>\<open>memmove(p + dst, p + src, n)\<close> inside one block and \<^verbatim>\<open>memcpy(p + dst, source, n)\<close>
  from another one; \<open>None\<close> when the copy leaves the block.
\<close>

definition mem_put :: "byte list \<Rightarrow> nat \<Rightarrow> byte list \<Rightarrow> byte list option" where
  "mem_put buf dst xs =
     (if dst + length xs \<le> length buf
      then Some (take dst buf @ xs @ drop (dst + length xs) buf) else None)"

definition mem_read :: "byte list \<Rightarrow> nat \<Rightarrow> nat \<Rightarrow> byte list option" where
  "mem_read buf src n = (if src + n \<le> length buf then Some (take n (drop src buf)) else None)"

definition memmove :: "byte list \<Rightarrow> nat \<Rightarrow> nat \<Rightarrow> nat \<Rightarrow> byte list option" where
  "memmove buf dst src n = Option.bind (mem_read buf src n) (mem_put buf dst)"

lemma mem_put_ok [simp]:
  "dst + length xs \<le> length buf \<Longrightarrow>
     mem_put buf dst xs = Some (take dst buf @ xs @ drop (dst + length xs) buf)"
  by (simp add: mem_put_def)

lemma length_mem_put: "mem_put buf dst xs = Some buf' \<Longrightarrow> length buf' = length buf"
  by (auto simp: mem_put_def split: if_splits)

lemma mem_read_ok [simp]: "src + n \<le> length buf \<Longrightarrow> mem_read buf src n = Some (take n (drop src buf))"
  by (simp add: mem_read_def)

lemma memmove_ok:
  "src + n \<le> length buf \<Longrightarrow> dst + n \<le> length buf \<Longrightarrow>
     memmove buf dst src n = Some (take dst buf @ take n (drop src buf) @ drop (dst + n) buf)"
  by (simp add: memmove_def min_absorb2)

lemma map_nth_take_drop:
  "a + n \<le> length xs \<Longrightarrow> map (nth xs) [a..<a + n] = take n (drop a xs)"
  by (simp add: list_eq_iff_nth_eq)


section \<open>Lists\<close>

lemma length_takeWhile_less:
  "c \<in> set xs \<Longrightarrow> \<not> P c \<Longrightarrow> length (takeWhile P xs) < length xs"
  by (induction xs) auto


lemma slice_take: "a + n \<le> k \<Longrightarrow> take n (drop a (take k xs)) = take n (drop a xs)"
  by (simp add: drop_take min_absorb1)


lemma slice_append:
  assumes "length xs = c"
  shows "a + n \<le> c \<Longrightarrow> take n (drop a (xs @ ys)) = take n (drop a xs)"
    and "c \<le> a \<Longrightarrow> take n (drop a (xs @ ys)) = take n (drop (a - c) ys)"
    and "a \<le> c \<Longrightarrow> c \<le> a + n \<Longrightarrow> take n (drop a (xs @ ys)) = drop a xs @ take (n - (c - a)) ys"
  using assms by auto

lemma span_iff:
  assumes "\<And>ys. Q ys \<Longrightarrow> ys \<noteq> [] \<and> \<not> P (hd ys)"
  shows "(\<exists>xs ys. bs = xs @ ys \<and> list_all P xs \<and> Q ys \<and> S xs ys) \<longleftrightarrow>
    Q (dropWhile P bs) \<and> S (takeWhile P bs) (dropWhile P bs)" (is "?l \<longleftrightarrow> ?r")
proof
  assume ?l
  then obtain xs ys where b: "bs = xs @ ys" "list_all P xs" "Q ys" "S xs ys" by blast
  obtain y ys' where "ys = y # ys'" "\<not> P y" using assms [OF b(3)] by (cases ys) auto
  then have "dropWhile P bs = ys" "takeWhile P bs = xs"
    using b(1,2) by (auto simp: list_all_iff)
  with b show ?r by simp
next
  assume ?r
  moreover have "list_all P (takeWhile P bs)" by (auto simp: list_all_iff dest: set_takeWhileD)
  ultimately show ?l by (intro exI [of _ "takeWhile P bs"] exI [of _ "dropWhile P bs"]) simp
qed

end
