(* ===== verification/TS_Memory.thy ===== *)
theory TS_Memory
  imports TS_Prelude
begin

text \<open>
  \<^verbatim>\<open>source/memory.c\<close> (the counted allocator) and the capacity loop that \<^verbatim>\<open>ring.c\<close>,
  \<^verbatim>\<open>generic_buffer_implementation.c\<close> and \<^verbatim>\<open>string.c\<close> share. The C library's \<^verbatim>\<open>realloc\<close> is
  a parameter with its documented contract \<open>realloc_ok\<close>.
\<close>

section \<open>The counted allocator\<close>

text \<open>A pointer to a block is \<open>None\<close> for \<^verbatim>\<open>NULL\<close>; \<^verbatim>\<open>realloc\<close> answers \<open>None\<close> when it fails.\<close>

type_synonym block = "byte list option"
type_synonym allocator = "block \<Rightarrow> nat \<Rightarrow> block"

definition realloc_ok :: "allocator \<Rightarrow> bool" where
  "realloc_ok realloc \<longleftrightarrow>
     (\<forall>old n new. realloc old n = Some new \<longrightarrow> length new = n \<and>
        (\<forall>xs. old = Some xs \<longrightarrow> take (min (length xs) n) new = take n xs))"

text \<open>An allocator that always succeeds and clears the new bytes.\<close>

definition realloc_zero :: allocator where
  "realloc_zero old n =
     (case old of None \<Rightarrow> Some (replicate n NUL)
      | Some xs \<Rightarrow> Some (take n xs @ replicate (n - length xs) NUL))"

lemma realloc_ok_zero: "realloc_ok realloc_zero"
  by (auto simp: realloc_ok_def realloc_zero_def min_def split: option.splits)

lemma realloc_okD:
  assumes "realloc_ok realloc"
  shows "realloc old n = Some new \<Longrightarrow> length new = n"
    and "realloc (Some xs) n = Some new \<Longrightarrow> take (min (length xs) n) new = take n xs"
  using assms unfolding realloc_ok_def by blast+

text \<open>The counter \<^verbatim>\<open>g_memory\<close> is passed along and returned.\<close>

definition count_malloc :: "allocator \<Rightarrow> nat \<Rightarrow> nat \<Rightarrow> nat \<times> block" where
  "count_malloc realloc g new_size =
     (case realloc None new_size of None \<Rightarrow> (g, None) | Some p \<Rightarrow> (size_add g new_size, Some p))"

definition count_realloc :: "allocator \<Rightarrow> nat \<Rightarrow> block \<Rightarrow> nat \<Rightarrow> nat \<Rightarrow> nat \<times> block" where
  "count_realloc realloc g old_memory old_size new_size =
     (case realloc old_memory new_size of None \<Rightarrow> (g, None)
      | Some p \<Rightarrow> (size_add g (size_sub new_size old_size), Some p))"

definition count_free :: "nat \<Rightarrow> nat \<Rightarrow> nat" where
  "count_free g old_size = size_sub g old_size"

section \<open>The capacity loop\<close>

text \<open>
  \<^verbatim>\<open>while (size > new_capacity) new_capacity *= 2;\<close> with the wrap-around of \<^verbatim>\<open>size_t\<close>;
  \<open>None\<close> means that the loop does not end.
\<close>

partial_function (option) grow :: "nat \<Rightarrow> nat \<Rightarrow> nat option" where
  "grow sz new_capacity =
     (if sz > new_capacity then grow sz (new_capacity * 2 mod 2 ^ 64) else Some new_capacity)"

definition start_capacity :: "nat \<Rightarrow> nat" where
  "start_capacity capacity = (if capacity = 0 then 1 else capacity)"

text \<open>The capacities a structure can have: 0, or a power of two that a \<^verbatim>\<open>size_t\<close> can hold.\<close>

definition capacity_ok :: "nat \<Rightarrow> bool" where
  "capacity_ok c \<longleftrightarrow> c = 0 \<or> (\<exists>k\<le>63. c = 2 ^ k)"

lemma capacity_ok_0 [simp]: "capacity_ok 0"
  by (simp add: capacity_ok_def)

lemma capacity_ok_power: "k \<le> 63 \<Longrightarrow> capacity_ok (2 ^ k)"
  by (auto simp: capacity_ok_def)

lemma power_le_2_63: "k \<le> 63 \<Longrightarrow> (2::nat) ^ k \<le> 2 ^ 63"
  by (rule power_increasing) simp_all

lemma capacity_ok_bound: "capacity_ok c \<Longrightarrow> c \<le> 2 ^ 63"
  unfolding capacity_ok_def using power_le_2_63 by auto

lemma start_capacity_power: "capacity_ok c \<Longrightarrow> \<exists>k\<le>63. start_capacity c = 2 ^ k"
  by (auto simp: capacity_ok_def start_capacity_def intro: exI [of _ 0])

lemma grow_power:
  assumes "sz \<le> 2 ^ 63" and "k \<le> 63"
  shows "\<exists>j. k \<le> j \<and> j \<le> 63 \<and> grow sz (2 ^ k) = Some (2 ^ j) \<and> sz \<le> 2 ^ j \<and>
    (j = k \<or> 2 ^ j < 2 * sz)"
  using assms(2)
proof (induction "63 - k" arbitrary: k)
  case 0
  then have "k = 63" by simp
  then have "\<not> 2 ^ k < sz" using assms(1) by simp
  then have "grow sz (2 ^ k) = Some (2 ^ k)" by (subst grow.simps) simp
  then show ?case using \<open>k = 63\<close> assms(1) by (intro exI [of _ k]) simp
next
  case (Suc n)
  show ?case
  proof (cases "sz \<le> 2 ^ k")
    case True
    then have "grow sz (2 ^ k) = Some (2 ^ k)" by (subst grow.simps) simp
    then show ?thesis using True Suc.prems by (intro exI [of _ k]) simp
  next
    case False
    have k: "Suc k \<le> 63" "63 - Suc k = n" using Suc.hyps(2) by auto
    have "(2::nat) ^ Suc k \<le> 2 ^ 63" using power_le_2_63 [OF k(1)] .
    then have "(2::nat) ^ k * 2 mod 2 ^ 64 = 2 ^ Suc k" by simp
    then have step: "grow sz (2 ^ k) = grow sz (2 ^ Suc k)"
      using False by (subst grow.simps) simp
    obtain j where j: "Suc k \<le> j" "j \<le> 63" "grow sz (2 ^ Suc k) = Some (2 ^ j)" "sz \<le> 2 ^ j"
        "j = Suc k \<or> 2 ^ j < 2 * sz"
      using Suc.hyps(1) [OF k(2) [symmetric] k(1)] by blast
    have "2 ^ Suc k < 2 * sz" using False by simp
    with j step show ?thesis by (intro exI [of _ j]) auto
  qed
qed

text \<open>From a legal capacity the loop ends, in a legal capacity, for every size up to \<open>2 ^ 63\<close>.\<close>

lemma grow_ok:
  assumes "capacity_ok c" and "sz \<le> 2 ^ 63"
  obtains c' where "grow sz (start_capacity c) = Some c'" and "capacity_ok c'" and "0 < c'"
    and "sz \<le> c'" and "c \<le> c'" and "c' = start_capacity c \<or> c' < 2 * sz"
proof -
  obtain k where k: "k \<le> 63" "start_capacity c = 2 ^ k" using start_capacity_power [OF assms(1)] by blast
  obtain j where j: "k \<le> j" "j \<le> 63" "grow sz (2 ^ k) = Some (2 ^ j)" "sz \<le> 2 ^ j"
      "j = k \<or> 2 ^ j < 2 * sz"
    using grow_power [OF assms(2) k(1)] by blast
  have "(2::nat) ^ k \<le> 2 ^ j" using j(1) by (rule power_increasing) simp
  moreover have "c \<le> start_capacity c" by (simp add: start_capacity_def)
  ultimately have "c \<le> 2 ^ j" using k(2) by linarith
  show ?thesis
  proof (rule that)
    show "grow sz (start_capacity c) = Some (2 ^ j)" using j(3) k(2) by simp
    show "capacity_ok (2 ^ j)" using j(2) by (rule capacity_ok_power)
    show "c \<le> 2 ^ j" by fact
  qed (use j k in auto)
qed

text \<open>Whatever the loop returns is at least the size asked for.\<close>

lemma grow_ge:
  assumes "grow sz c = Some c'"
  shows "sz \<le> c'"
proof (rule grow.raw_induct [where P = "\<lambda>s c c'. s \<le> c'", OF _ assms])
  fix f and s c c' :: nat
  assume IH: "\<And>s c c'. f s c = Some c' \<Longrightarrow> s \<le> c'"
    and eq: "(if s > c then f s (c * 2 mod 2 ^ 64) else Some c) = Some c'"
  show "s \<le> c'" using IH [of s "c * 2 mod 2 ^ 64" c'] eq by (auto split: if_splits)
qed

text \<open>
  Above \<open>2 ^ 63\<close> it does not end: the doubled capacity wraps to 0 and stays there.
\<close>

lemma double_power:
  assumes "c = 0 \<or> (\<exists>k\<le>63. c = 2 ^ k)"
  shows "c * 2 mod 2 ^ 64 = 0 \<or> (\<exists>k\<le>63. c * 2 mod 2 ^ 64 = (2::nat) ^ k)"
proof (cases "c = 0 \<or> c = 2 ^ 63")
  case False
  then obtain k where k: "k \<le> 63" "c = 2 ^ k" using assms by blast
  then have "Suc k \<le> 63" using False by (cases "k = 63") auto
  then have "(2::nat) ^ Suc k \<le> 2 ^ 63" by (rule power_le_2_63)
  then have "c * 2 mod 2 ^ 64 = 2 ^ Suc k" using k by simp
  with \<open>Suc k \<le> 63\<close> show ?thesis by blast
qed auto

lemma grow_bounded:
  assumes "grow sz c = Some c'" and "c = 0 \<or> (\<exists>k\<le>63. c = 2 ^ k)"
  shows "c' \<le> 2 ^ 63"
proof -
  have "(c = 0 \<or> (\<exists>k\<le>63. c = 2 ^ k)) \<longrightarrow> c' \<le> 2 ^ 63"
  proof (rule grow.raw_induct [where P = "\<lambda>s c c'. (c = 0 \<or> (\<exists>k\<le>63. c = 2 ^ k)) \<longrightarrow> c' \<le> 2 ^ 63",
        OF _ assms(1)])
    fix f and s c c' :: nat
    assume IH: "\<And>s c c'. f s c = Some c' \<Longrightarrow> (c = 0 \<or> (\<exists>k\<le>63. c = 2 ^ k)) \<longrightarrow> c' \<le> 2 ^ 63"
      and eq: "(if s > c then f s (c * 2 mod 2 ^ 64) else Some c) = Some c'"
    show "(c = 0 \<or> (\<exists>k\<le>63. c = 2 ^ k)) \<longrightarrow> c' \<le> 2 ^ 63"
    proof
      assume c: "c = 0 \<or> (\<exists>k\<le>63. c = 2 ^ k)"
      then have "c \<le> 2 ^ 63" using power_le_2_63 by auto
      then show "c' \<le> 2 ^ 63" using IH [of s "c * 2 mod 2 ^ 64" c'] double_power [OF c] eq
        by (cases "s > c") auto
    qed
  qed
  then show ?thesis using assms(2) by blast
qed

lemma grow_diverges:
  assumes "2 ^ 63 < sz" and "capacity_ok c"
  shows "grow sz (start_capacity c) = None"
proof (rule ccontr)
  assume "grow sz (start_capacity c) \<noteq> None"
  then obtain r where r: "grow sz (start_capacity c) = Some r" by blast
  have "r \<le> 2 ^ 63" using start_capacity_power [OF assms(2)] by (intro grow_bounded [OF r]) blast
  moreover have "sz \<le> r" using grow_ge [OF r] .
  ultimately show False using assms(1) by simp
qed

end
