(* ===== verification/TS_Value.thy ===== *)
theory TS_Value
  imports TS_Prelude
begin

text \<open>
  \<^verbatim>\<open>include/value.h\<close> and \<^verbatim>\<open>source/value.c\<close>: a value is a piece of text that lies in at
  most two pieces of memory. A part is a pointer and a size, a value a list of
  \<open>VALUE_PARTS\<close> parts; the operations read the memory \<open>m\<close> through the pointers. The
  abstraction \<open>vbytes m v\<close> is the text itself, and every operation is shown to be the
  corresponding operation on the text, wherever the border of the parts lies.
\<close>

section \<open>Data\<close>

type_synonym memory = "nat \<Rightarrow> byte"

text \<open>\<^verbatim>\<open>VALUE_PARTS\<close>, and the structures of \<^verbatim>\<open>value.h\<close> (constant and mutable ones alike).\<close>

abbreviation VALUE_PARTS :: nat where "VALUE_PARTS \<equiv> 2"

record location =
  loc_offset :: nat
  loc_size :: nat

record part =
  part_p :: nat
  part_size :: nat

type_synonym parts = "part list"

definition zero_part :: part where
  "zero_part = \<lparr>part_p = 0, part_size = 0\<rparr>"

definition zero_value :: parts where
  "zero_value = [zero_part, zero_part]"

definition zero_location :: location where
  "zero_location = \<lparr>loc_offset = 0, loc_size = 0\<rparr>"

text \<open>The addresses of a value, and the abstraction: the bytes of a part and of a value.\<close>

definition addresses :: "parts \<Rightarrow> nat list" where
  "addresses v = concat (map (\<lambda>p. [part_p p..<part_p p + part_size p]) v)"

definition pbytes :: "memory \<Rightarrow> part \<Rightarrow> byte list" where
  "pbytes m p = map m [part_p p..<part_p p + part_size p]"

definition vbytes :: "memory \<Rightarrow> parts \<Rightarrow> byte list" where
  "vbytes m v = concat (map (pbytes m) v)"

section \<open>Operations of value.c\<close>

text \<open>\<^verbatim>\<open>value_size\<close>\<close>

fun value_size :: "parts \<Rightarrow> nat" where
  "value_size [] = 0"
| "value_size (p # v) = part_size p + value_size v"

text \<open>\<^verbatim>\<open>memcmp(a, b, n) == 0\<close>; the caller has compared the lengths before.\<close>

definition memcmp0 :: "memory \<Rightarrow> nat \<Rightarrow> byte list \<Rightarrow> nat \<Rightarrow> bool" where
  "memcmp0 m a b n \<longleftrightarrow> map m [a..<a + n] = take n b"

fun compare_parts :: "memory \<Rightarrow> parts \<Rightarrow> byte list \<Rightarrow> bool" where
  "compare_parts m [] b = True"
| "compare_parts m (p # v) b =
     (if \<not> memcmp0 m (part_p p) b (part_size p) then False
      else compare_parts m v (drop (part_size p) b))"

definition value_compare_mem :: "memory \<Rightarrow> parts \<Rightarrow> byte list \<Rightarrow> nat \<Rightarrow> bool" where
  "value_compare_mem m a b b_size = (if value_size a \<noteq> b_size then False else compare_parts m a b)"

text \<open>\<^verbatim>\<open>value_compare_str\<close>: \<open>b\<close> is the string without its terminator.\<close>

definition value_compare_str :: "memory \<Rightarrow> parts \<Rightarrow> byte list \<Rightarrow> bool" where
  "value_compare_str m a b = value_compare_mem m a b (length b)"

text \<open>
  \<^verbatim>\<open>value_compare_case_mem\<close>: the inner loop runs over the \<open>n\<close> bytes from address \<open>ai\<close>
  on and returns the rest of \<open>b\<close>, or \<open>None\<close> at the first difference.
\<close>

fun compare_case_bytes :: "memory \<Rightarrow> nat \<Rightarrow> nat \<Rightarrow> byte list \<Rightarrow> byte list option" where
  "compare_case_bytes m ai 0 bi = Some bi"
| "compare_case_bytes m ai (Suc n) bi =
     (let ac = (if is_upper (m ai) then char_of (ord (m ai) + (ord CHR ''a'' - ord CHR ''A'')) else m ai)
      in case bi of [] \<Rightarrow> None
         | bc # bi' \<Rightarrow> if ac \<noteq> bc then None else compare_case_bytes m (Suc ai) n bi')"

fun compare_case_parts :: "memory \<Rightarrow> parts \<Rightarrow> byte list \<Rightarrow> bool" where
  "compare_case_parts m [] bi = True"
| "compare_case_parts m (p # v) bi =
     (case compare_case_bytes m (part_p p) (part_size p) bi of
        None \<Rightarrow> False | Some bi' \<Rightarrow> compare_case_parts m v bi')"

definition value_compare_case_mem :: "memory \<Rightarrow> parts \<Rightarrow> byte list \<Rightarrow> nat \<Rightarrow> bool" where
  "value_compare_case_mem m a b b_size =
     (if value_size a \<noteq> b_size then False else compare_case_parts m a b)"

definition value_compare_case_str :: "memory \<Rightarrow> parts \<Rightarrow> byte list \<Rightarrow> bool" where
  "value_compare_case_str m a b = value_compare_case_mem m a b (length b)"

text \<open>\<^verbatim>\<open>memchr(p, c, n)\<close>: the address of the first \<open>c\<close>.\<close>

fun memchr :: "memory \<Rightarrow> nat \<Rightarrow> byte \<Rightarrow> nat \<Rightarrow> nat option" where
  "memchr m p c 0 = None"
| "memchr m p c (Suc n) = (if m p = c then Some p else memchr m (Suc p) c n)"

text \<open>
  \<^verbatim>\<open>value_parse_comma\<close>: returns what remains of \<open>a\<close>, the word cut off, and the success
  flag; \<open>success\<close> is the flag collected so far.
\<close>

fun parse_comma_parts :: "memory \<Rightarrow> parts \<Rightarrow> bool \<Rightarrow> parts \<times> parts \<times> bool" where
  "parse_comma_parts m [] success = ([], [], success)"
| "parse_comma_parts m (p # v) success =
     (let success = (success \<or> part_size p > 0)
      in case memchr m (part_p p) CHR '','' (part_size p) of
           Some found \<Rightarrow>
             (\<lparr>part_p = found + 1, part_size = part_p p + part_size p - found - 1\<rparr> # v,
              \<lparr>part_p = part_p p, part_size = found - part_p p\<rparr> # map (\<lambda>_. zero_part) v, True)
         | None \<Rightarrow>
             (case parse_comma_parts m v success of
                (a, result, s) \<Rightarrow> (zero_part # a, p # result, s)))"

definition value_parse_comma :: "memory \<Rightarrow> parts \<Rightarrow> parts \<times> parts \<times> bool" where
  "value_parse_comma m a = parse_comma_parts m a False"

text \<open>\<^verbatim>\<open>value_trim\<close>\<close>

definition is_blank :: "byte \<Rightarrow> bool" where
  "is_blank c \<longleftrightarrow> c = CHR '' '' \<or> c = TAB \<or> c = LF \<or> c = CR \<or> c = VT"

text \<open>The first loop; its flag says whether a byte that is no space was found.\<close>

fun trim_part_front :: "memory \<Rightarrow> nat \<Rightarrow> nat \<Rightarrow> part" where
  "trim_part_front m p 0 = \<lparr>part_p = p, part_size = 0\<rparr>"
| "trim_part_front m p (Suc n) =
     (if is_blank (m p) then trim_part_front m (Suc p) n else \<lparr>part_p = p, part_size = Suc n\<rparr>)"

fun trim_front :: "memory \<Rightarrow> parts \<Rightarrow> bool \<times> parts" where
  "trim_front m [] = (False, [])"
| "trim_front m (p # v) =
     (let p' = trim_part_front m (part_p p) (part_size p)
      in if part_size p' = 0 then (case trim_front m v of (f, v') \<Rightarrow> (f, p' # v'))
         else (True, p' # v))"

text \<open>The second loop runs from the last part backwards: it works on the reversed list.\<close>

fun trim_part_back :: "memory \<Rightarrow> nat \<Rightarrow> nat \<Rightarrow> part" where
  "trim_part_back m p 0 = \<lparr>part_p = p, part_size = 0\<rparr>"
| "trim_part_back m p (Suc n) =
     (if is_blank (m (p + n)) then trim_part_back m p n else \<lparr>part_p = p, part_size = Suc n\<rparr>)"

fun trim_back :: "memory \<Rightarrow> parts \<Rightarrow> parts" where
  "trim_back m [] = []"
| "trim_back m (p # v) =
     (let p' = trim_part_back m (part_p p) (part_size p)
      in if part_size p' = 0 then p' # trim_back m v else p' # v)"

definition value_trim :: "memory \<Rightarrow> parts \<Rightarrow> parts" where
  "value_trim m a =
     (case trim_front m a of (found, a') \<Rightarrow> if found then rev (trim_back m (rev a')) else a')"

text \<open>\<^verbatim>\<open>value_to_uint\<close>: \<^verbatim>\<open>unsigned int\<close> has 32 bits, the product and the sum wrap.\<close>

abbreviation UINT_MAX :: nat where "UINT_MAX \<equiv> 2 ^ 32 - 1"

fun to_uint_bytes :: "byte list \<Rightarrow> nat \<Rightarrow> nat option" where
  "to_uint_bytes [] local = Some local"
| "to_uint_bytes (c # cs) local =
     (if local \<ge> (UINT_MAX - 9) div 10 then None
      else if \<not> is_digit c then None
      else to_uint_bytes cs ((10 * local + (ord c - ord CHR ''0'')) mod 2 ^ 32))"

fun to_uint_parts :: "memory \<Rightarrow> parts \<Rightarrow> nat \<Rightarrow> nat option" where
  "to_uint_parts m [] local = Some local"
| "to_uint_parts m (p # v) local =
     (case to_uint_bytes (pbytes m p) local of None \<Rightarrow> None | Some l \<Rightarrow> to_uint_parts m v l)"

definition value_to_uint :: "memory \<Rightarrow> parts \<Rightarrow> nat option" where
  "value_to_uint m a = to_uint_parts m a 0"

text \<open>\<^verbatim>\<open>value_first\<close>, \<^verbatim>\<open>value_second\<close>, \<^verbatim>\<open>value_first_second\<close>\<close>

fun value_first :: "parts \<Rightarrow> nat \<Rightarrow> parts" where
  "value_first [] sz = []"
| "value_first (p # v) sz =
     (if part_size p > sz then p\<lparr>part_size := sz\<rparr> # value_first v 0
      else p # value_first v (sz - part_size p))"

fun value_second :: "parts \<Rightarrow> nat \<Rightarrow> parts" where
  "value_second [] sz = []"
| "value_second (p # v) sz =
     (if part_size p > sz
      then p\<lparr>part_p := part_p p + sz, part_size := part_size p - sz\<rparr> # value_second v 0
      else p\<lparr>part_size := 0\<rparr> # value_second v (sz - part_size p))"

text \<open>Returns the rest of the value and its first part.\<close>

fun value_first_second :: "parts \<Rightarrow> nat \<Rightarrow> parts \<times> parts" where
  "value_first_second [] sz = ([], [])"
| "value_first_second (p # v) sz =
     (if part_size p > sz
      then (case value_first_second v 0 of (value, first) \<Rightarrow>
              (p\<lparr>part_p := part_p p + sz, part_size := part_size p - sz\<rparr> # value,
               p\<lparr>part_size := sz\<rparr> # first))
      else (case value_first_second v (sz - part_size p) of (value, first) \<Rightarrow>
              (p\<lparr>part_size := 0\<rparr> # value, p # first)))"

text \<open>\<^verbatim>\<open>value_read\<close>: what is copied to the destination.\<close>

fun value_read :: "memory \<Rightarrow> parts \<Rightarrow> byte list" where
  "value_read m [] = []"
| "value_read m (p # v) = map m [part_p p..<part_p p + part_size p] @ value_read m v"

text \<open>\<^verbatim>\<open>value_write\<close> into the block the parts point to; \<open>None\<close> outside the block or the source.\<close>

fun value_write :: "byte list \<Rightarrow> parts \<Rightarrow> byte list \<Rightarrow> byte list option" where
  "value_write buf [] source = Some buf"
| "value_write buf (p # v) source =
     (if part_size p > length source then None
      else case mem_put buf (part_p p) (take (part_size p) source) of
             None \<Rightarrow> None
           | Some buf' \<Rightarrow> value_write buf' v (drop (part_size p) source))"

text \<open>
  \<^verbatim>\<open>value_to_continuous\<close>: a part that holds everything is returned as it is
  (\<open>Inl\<close>), otherwise the bytes are copied to the buffer (\<open>Inr\<close>).
\<close>

fun find_whole :: "parts \<Rightarrow> nat \<Rightarrow> part option" where
  "find_whole [] sz = None"
| "find_whole (p # v) sz = (if part_size p = sz then Some p else find_whole v sz)"

definition value_to_continuous :: "memory \<Rightarrow> parts \<Rightarrow> part + byte list" where
  "value_to_continuous m value =
     (let sz = value_size value
      in case find_whole value sz of Some p \<Rightarrow> Inl p | None \<Rightarrow> Inr (value_read m value))"

section \<open>What the operations do to the text\<close>

lemma vbytes_simps [simp]:
  "vbytes m [] = []" "vbytes m (p # v) = pbytes m p @ vbytes m v"
  "vbytes m (v @ w) = vbytes m v @ vbytes m w"
  by (simp_all add: vbytes_def)

lemma vbytes_addresses: "vbytes m v = map m (addresses v)"
  by (induction v) (simp_all add: addresses_def pbytes_def)

lemma addresses_simps [simp]:
  "addresses [] = []" "addresses (p # v) = [part_p p..<part_p p + part_size p] @ addresses v"
  "addresses (v @ w) = addresses v @ addresses w"
  by (simp_all add: addresses_def)

lemma length_pbytes [simp]: "length (pbytes m p) = part_size p"
  by (simp add: pbytes_def)

lemma pbytes_empty [simp]: "part_size p = 0 \<Longrightarrow> pbytes m p = []"
  by (simp add: pbytes_def)

lemma pbytes_zero_part [simp]: "pbytes m zero_part = []"
  by (simp add: zero_part_def)

lemma vbytes_zero_value [simp]: "vbytes m zero_value = []"
  by (simp add: zero_value_def)

lemma vbytes_zeros [simp]: "vbytes m (map (\<lambda>_. zero_part) v) = []"
  by (induction v) simp_all

lemma value_size_length: "value_size v = length (vbytes m v)"
  by (induction v) simp_all

lemma value_size_append [simp]: "value_size (v @ w) = value_size v + value_size w"
  by (induction v) simp_all

lemma value_size_rev [simp]: "value_size (rev v) = value_size v"
  by (induction v) simp_all

lemma value_size_zero_value [simp]: "value_size zero_value = 0"
  by (simp add: zero_value_def zero_part_def)

lemma pbytes_prefix:
  "n \<le> part_size p \<Longrightarrow> pbytes m (p\<lparr>part_size := n\<rparr>) = take n (pbytes m p)"
  by (simp add: pbytes_def take_map)

lemma pbytes_suffix:
  "n \<le> part_size p \<Longrightarrow>
     pbytes m (p\<lparr>part_p := part_p p + n, part_size := part_size p - n\<rparr>) = drop n (pbytes m p)"
  by (simp add: pbytes_def drop_map)

lemma compare_parts_iff:
  "value_size v = length b \<Longrightarrow> compare_parts m v b \<longleftrightarrow> vbytes m v = b"
proof (induction v arbitrary: b)
  case (Cons p v)
  have "memcmp0 m (part_p p) b (part_size p) \<longleftrightarrow> pbytes m p = take (part_size p) b"
    by (simp add: memcmp0_def pbytes_def)
  moreover have "vbytes m (p # v) = b \<longleftrightarrow>
      pbytes m p = take (part_size p) b \<and> vbytes m v = drop (part_size p) b"
    by (metis append_eq_conv_conj append_take_drop_id length_pbytes vbytes_simps(2))
  ultimately show ?case using Cons by simp
qed simp

lemma value_compare_mem_iff:
  "b_size = length b \<Longrightarrow> value_compare_mem m a b b_size \<longleftrightarrow> vbytes m a = b"
  by (auto simp: value_compare_mem_def compare_parts_iff value_size_length [of _ m])

lemma to_lower_eq:
  "(if is_upper c then char_of (ord c + (ord CHR ''a'' - ord CHR ''A'')) else c) = to_lower c"
  by (simp add: to_lower_def)

lemma compare_case_bytes_eq:
  "n \<le> length bi \<Longrightarrow> compare_case_bytes m ai n bi =
     (if map (to_lower \<circ> m) [ai..<ai + n] = take n bi then Some (drop n bi) else None)"
proof (induction n arbitrary: ai bi)
  case (Suc n)
  then obtain bc bi' where bi: "bi = bc # bi'" "n \<le> length bi'" by (cases bi) auto
  have "[ai..<ai + Suc n] = ai # [Suc ai..<Suc ai + n]" by (simp add: upt_conv_Cons)
  with Suc.IH [of bi' "Suc ai"] bi show ?case
    by (simp add: to_lower_eq Let_def del: upt_Suc)
qed simp

lemma compare_case_parts_iff:
  "value_size v = length bi \<Longrightarrow>
     compare_case_parts m v bi \<longleftrightarrow> map to_lower (vbytes m v) = bi"
proof (induction v arbitrary: bi)
  case (Cons p v)
  have "map to_lower (vbytes m (p # v)) = bi \<longleftrightarrow>
      map to_lower (pbytes m p) = take (part_size p) bi \<and>
      map to_lower (vbytes m v) = drop (part_size p) bi"
    by (metis append_eq_conv_conj append_take_drop_id length_map length_pbytes map_append vbytes_simps(2))
  with Cons show ?case
    by (auto simp: compare_case_bytes_eq pbytes_def)
qed simp

lemma value_compare_case_mem_iff:
  "b_size = length b \<Longrightarrow>
     value_compare_case_mem m a b b_size \<longleftrightarrow> map to_lower (vbytes m a) = b"
  by (auto simp: value_compare_case_mem_def compare_case_parts_iff value_size_length [of _ m])


subsection \<open>Cutting off a word\<close>

lemma memchr_eq:
  "memchr m p c n =
     (let xs = map m [p..<p + n] in
      if c \<in> set xs then Some (p + length (takeWhile (\<lambda>x. x \<noteq> c) xs)) else None)"
proof (induction n arbitrary: p)
  case (Suc n)
  have "[p..<p + Suc n] = p # [Suc p..<Suc p + n]" by (simp add: upt_conv_Cons)
  with Suc.IH [of "Suc p"] show ?case by (auto simp: Let_def simp del: upt_Suc)
qed simp

lemma memchr_pbytes:
  "memchr m (part_p p) c (part_size p) =
     (if c \<in> set (pbytes m p)
      then Some (part_p p + length (takeWhile (\<lambda>x. x \<noteq> c) (pbytes m p))) else None)"
  by (simp add: memchr_eq pbytes_def Let_def)

lemma parse_comma_parts_spec:
  "parse_comma_parts m v s = (a, r, t) \<Longrightarrow>
     vbytes m r = takeWhile (\<lambda>c. c \<noteq> CHR '','') (vbytes m v) \<and>
     vbytes m a = drop 1 (dropWhile (\<lambda>c. c \<noteq> CHR '','') (vbytes m v)) \<and>
     (t \<longleftrightarrow> s \<or> vbytes m v \<noteq> []) \<and> length r = length v \<and> length a = length v"
proof (induction v arbitrary: s a r t)
  case (Cons p v)
  let ?xs = "pbytes m p" and ?P = "\<lambda>c. c \<noteq> CHR '',''"
  let ?k = "length (takeWhile ?P ?xs)"
  show ?case
  proof (cases "CHR '','' \<in> set ?xs")
    case True
    then have k: "?k < part_size p"
      using length_takeWhile_less [of "CHR '',''" ?xs ?P] by simp
    have drop: "drop ?k ?xs = dropWhile ?P ?xs" by (rule dropWhile_eq_drop [symmetric])
    have res: "pbytes m \<lparr>part_p = part_p p, part_size = ?k\<rparr> = takeWhile ?P ?xs"
      using pbytes_prefix [of ?k p m] k
      by (simp add: takeWhile_eq_take [symmetric] pbytes_def)
    have "pbytes m \<lparr>part_p = part_p p + ?k + 1, part_size = part_size p - ?k - 1\<rparr> = drop (1 + ?k) ?xs"
      using pbytes_suffix [of "1 + ?k" p m] k by (simp add: pbytes_def)
    also have "\<dots> = drop 1 (drop ?k ?xs)" by (simp only: drop_drop)
    also have "\<dots> = drop 1 (dropWhile ?P ?xs)" by (simp only: drop)
    finally have rest: "pbytes m \<lparr>part_p = part_p p + ?k + 1, part_size = part_size p - ?k - 1\<rparr> =
        drop 1 (dropWhile ?P ?xs)" .
    have ne: "?xs \<noteq> []" and dw: "dropWhile ?P ?xs \<noteq> []" using True by (auto simp: dropWhile_eq_Nil_conv)
    have "drop (Suc 0) (dropWhile ?P ?xs @ ys) = drop (Suc 0) (dropWhile ?P ?xs) @ ys" for ys
      using dw by (cases "dropWhile ?P ?xs") auto
    with Cons.prems True res rest ne k show ?thesis
      by (auto simp: memchr_pbytes Let_def dropWhile_append1 takeWhile_append1)
  next
    case False
    obtain a' r' t' where rec: "parse_comma_parts m v (s \<or> part_size p > 0) = (a', r', t')"
      by (cases "parse_comma_parts m v (s \<or> part_size p > 0)") auto
    have "takeWhile ?P (?xs @ ys) = ?xs @ takeWhile ?P ys"
      "dropWhile ?P (?xs @ ys) = dropWhile ?P ys" for ys
      using False by (auto intro!: takeWhile_append2 dropWhile_append2)
    moreover have "?xs \<noteq> [] \<longleftrightarrow> part_size p > 0"
      by (metis length_greater_0_conv length_pbytes)
    ultimately show ?thesis
      using Cons.IH [OF rec] Cons.prems False rec by (auto simp: memchr_pbytes Let_def)
  qed
qed simp

lemma value_parse_comma_spec:
  assumes "value_parse_comma m v = (a, r, t)"
  shows "vbytes m r = takeWhile (\<lambda>c. c \<noteq> CHR '','') (vbytes m v)"
    and "vbytes m a = drop 1 (dropWhile (\<lambda>c. c \<noteq> CHR '','') (vbytes m v))"
    and "t \<longleftrightarrow> vbytes m v \<noteq> []"
  using parse_comma_parts_spec [OF assms [unfolded value_parse_comma_def]] by auto

text \<open>Each successful round makes the value shorter: the loops over words end.\<close>

lemma value_parse_comma_shrinks:
  assumes "value_parse_comma m v = (a, r, True)"
  shows "value_size a < value_size v"
proof -
  let ?xs = "dropWhile (\<lambda>c. c \<noteq> CHR '','') (vbytes m v)"
  have "vbytes m v \<noteq> []" "vbytes m a = drop 1 ?xs"
    using value_parse_comma_spec [OF assms] by auto
  moreover have "length ?xs \<le> length (vbytes m v)" by (rule length_dropWhile_le)
  ultimately show ?thesis
    by (cases "vbytes m v") (auto simp: value_size_length [of _ m])
qed

subsection \<open>Trimming\<close>

lemma trim_part_front_bytes:
  "pbytes m (trim_part_front m p n) = dropWhile is_blank (map m [p..<p + n])"
proof (induction n arbitrary: p)
  case (Suc n)
  have "[p..<p + Suc n] = p # [Suc p..<Suc p + n]" by (simp add: upt_conv_Cons)
  with Suc.IH [of "Suc p"] show ?case by (simp add: pbytes_def del: upt_Suc)
qed (simp add: pbytes_def)

lemma trim_part_back_bytes:
  "pbytes m (trim_part_back m p n) = rev (dropWhile is_blank (rev (map m [p..<p + n])))"
  by (induction n) (auto simp: pbytes_def)

lemma trim_front_spec:
  "trim_front m v = (f, v') \<Longrightarrow>
     vbytes m v' = dropWhile is_blank (vbytes m v) \<and>
     (f \<longleftrightarrow> (\<exists>c \<in> set (vbytes m v). \<not> is_blank c))"
proof (induction v arbitrary: f v')
  case (Cons p v)
  let ?p' = "trim_part_front m (part_p p) (part_size p)"
  have bytes: "pbytes m ?p' = dropWhile is_blank (pbytes m p)"
    by (simp add: trim_part_front_bytes pbytes_def [of m p])
  obtain f1 v1 where rec: "trim_front m v = (f1, v1)" by (cases "trim_front m v")
  show ?case
  proof (cases "part_size ?p' = 0")
    case True
    then have "dropWhile is_blank (pbytes m p) = []" using bytes by (metis pbytes_empty)
    then have "\<forall>c \<in> set (pbytes m p). is_blank c" by (simp add: dropWhile_eq_Nil_conv)
    then show ?thesis using Cons.IH [OF rec] Cons.prems rec True
      by (auto simp: Let_def dropWhile_append2)
  next
    case False
    then have "dropWhile is_blank (pbytes m p) \<noteq> []" using bytes by (metis length_pbytes list.size(3))
    then obtain c where "c \<in> set (pbytes m p)" "\<not> is_blank c" by (auto simp: dropWhile_eq_Nil_conv)
    then show ?thesis using Cons.prems False bytes by (auto simp: Let_def dropWhile_append1)
  qed
qed simp

definition trim_text :: "byte list \<Rightarrow> byte list" where
  "trim_text xs = rev (dropWhile is_blank (rev (dropWhile is_blank xs)))"

lemma vbytes_rev_singles: "vbytes m (rev (p # v)) = vbytes m (rev v) @ pbytes m p"
  by simp

lemma trim_back_spec:
  "vbytes m (rev (trim_back m v)) = rev (dropWhile is_blank (rev (vbytes m (rev v))))"
proof (induction v)
  case (Cons p v)
  let ?p' = "trim_part_back m (part_p p) (part_size p)"
  have bytes: "pbytes m ?p' = rev (dropWhile is_blank (rev (pbytes m p)))"
    by (simp add: trim_part_back_bytes pbytes_def [of m p])
  show ?case
  proof (cases "part_size ?p' = 0")
    case True
    then have "dropWhile is_blank (rev (pbytes m p)) = []"
      using bytes by (metis pbytes_empty rev_is_Nil_conv)
    then have "\<forall>c \<in> set (pbytes m p). is_blank c" by (simp add: dropWhile_eq_Nil_conv)
    then have "dropWhile is_blank (rev (pbytes m p) @ ys) = dropWhile is_blank ys" for ys
      by (intro dropWhile_append2) auto
    then show ?thesis using Cons.IH True by (simp add: Let_def)
  next
    case False
    then have "dropWhile is_blank (rev (pbytes m p)) \<noteq> []"
      using bytes by (metis length_pbytes length_rev list.size(3))
    then obtain c where "c \<in> set (pbytes m p)" "\<not> is_blank c" by (auto simp: dropWhile_eq_Nil_conv)
    then show ?thesis using False bytes by (auto simp: Let_def dropWhile_append1)
  qed
qed simp

lemma value_trim_spec: "vbytes m (value_trim m v) = trim_text (vbytes m v)"
proof -
  obtain f v' where rec: "trim_front m v = (f, v')" by (cases "trim_front m v")
  note spec = trim_front_spec [OF rec]
  show ?thesis
  proof (cases f)
    case True
    then show ?thesis using rec spec
      by (simp add: value_trim_def trim_text_def trim_back_spec)
  next
    case False
    then have "dropWhile is_blank (vbytes m v) = []" using spec by (auto simp: dropWhile_eq_Nil_conv)
    then show ?thesis using rec spec False
      by (simp add: value_trim_def trim_text_def del: dropWhile_eq_Nil_conv)
  qed
qed


subsection \<open>Numbers\<close>

text \<open>The number a text of decimal digits stands for.\<close>

definition decimal :: "byte list \<Rightarrow> nat" where
  "decimal cs = foldl (\<lambda>n c. 10 * n + (ord c - ord CHR ''0'')) 0 cs"

abbreviation digits_from :: "nat \<Rightarrow> byte list \<Rightarrow> nat" where
  "digits_from n cs \<equiv> foldl (\<lambda>n c. 10 * n + (ord c - ord CHR ''0'')) n cs"

lemma digits_from_ge: "n \<le> digits_from n cs"
proof (induction cs arbitrary: n)
  case (Cons c cs)
  have "n \<le> 10 * n + (ord c - ord CHR ''0'')" by simp
  then show ?case using Cons [of "10 * n + (ord c - ord CHR ''0'')"] by simp
qed simp

lemma digit_le_9: "is_digit c \<Longrightarrow> ord c - ord CHR ''0'' \<le> 9"
  by (auto simp: is_digit_def)

lemma to_uint_bytes_append:
  "to_uint_bytes (xs @ ys) l = (case to_uint_bytes xs l of None \<Rightarrow> None | Some l' \<Rightarrow> to_uint_bytes ys l')"
  by (induction xs l rule: to_uint_bytes.induct) auto

lemma to_uint_parts_eq: "to_uint_parts m v l = to_uint_bytes (vbytes m v) l"
  by (induction v arbitrary: l) (auto simp: to_uint_bytes_append split: option.splits)

lemma to_uint_bytes_eq:
  "l < 4294967280 \<Longrightarrow> to_uint_bytes cs l =
     (if list_all is_digit cs \<and> (cs = [] \<or> digits_from l cs < 4294967280)
      then Some (digits_from l cs) else None)"
proof (induction cs arbitrary: l)
  case (Cons c cs)
  let ?l = "10 * l + (ord c - ord CHR ''0'')"
  have limit: "(UINT_MAX - 9) div 10 = (429496728 :: nat)" by simp
  show ?case
  proof (cases "is_digit c \<and> l < 429496728")
    case False
    have "4294967280 \<le> digits_from ?l cs" if "429496728 \<le> l"
      using that digits_from_ge [of ?l cs] by linarith
    with False show ?thesis by (auto simp: limit)
  next
    case True
    then have small: "?l < 4294967280" using digit_le_9 [of c] by linarith
    then have "?l mod 2 ^ 32 = ?l" by simp
    then have "to_uint_bytes (c # cs) l = to_uint_bytes cs ?l"
      using True by (simp add: limit)
    then show ?thesis using Cons.IH [OF small] True small by auto
  qed
qed simp

lemma value_to_uint_eq:
  "value_to_uint m v =
     (let t = vbytes m v in
      if list_all is_digit t \<and> decimal t < 4294967280 then Some (decimal t) else None)"
proof -
  have "value_to_uint m v = to_uint_bytes (vbytes m v) 0"
    by (simp add: value_to_uint_def to_uint_parts_eq)
  then show ?thesis by (auto simp: to_uint_bytes_eq decimal_def Let_def)
qed

subsection \<open>Prefixes and suffixes\<close>

lemma value_first_spec: "vbytes m (value_first v n) = take n (vbytes m v)"
  by (induction v n rule: value_first.induct) (auto simp: pbytes_prefix)

lemma value_second_spec: "vbytes m (value_second v n) = drop n (vbytes m v)"
  by (induction v n rule: value_second.induct) (auto simp: pbytes_suffix)

lemma value_first_second_eq: "value_first_second v n = (value_second v n, value_first v n)"
  by (induction v n rule: value_first_second.induct) auto

lemma value_read_eq: "value_read m v = vbytes m v"
  by (induction v) (auto simp: pbytes_def)

lemma find_whole_bytes:
  assumes "find_whole v (value_size v) = Some p"
  shows "pbytes m p = vbytes m v"
proof -
  have "\<exists>a b. v = a @ p # b \<and> part_size p = n" if "find_whole v n = Some p" for n
    using that
  proof (induction v)
    case (Cons q v)
    then show ?case by (cases "part_size q = n") (auto intro: Cons_eq_appendI)
  qed simp
  then obtain a b where v: "v = a @ p # b" "part_size p = value_size v" using assms by blast
  then have "value_size a = 0" "value_size b = 0" by simp_all
  then have "vbytes m a = []" "vbytes m b = []" by (simp_all add: value_size_length [of _ m])
  then show ?thesis using v by simp
qed

lemma value_to_continuous_spec:
  "(case value_to_continuous m v of Inl p \<Rightarrow> pbytes m p | Inr bs \<Rightarrow> bs) = vbytes m v"
  by (simp add: value_to_continuous_def Let_def value_read_eq find_whole_bytes split: option.split)

subsection \<open>Writing\<close>

definition extent :: "part \<Rightarrow> nat set" where
  "extent p = {part_p p..<part_p p + part_size p}"

lemma set_addresses: "set (addresses v) = (\<Union>p \<in> set v. extent p)"
  by (induction v) (auto simp: extent_def)

fun separated :: "parts \<Rightarrow> bool" where
  "separated [] = True"
| "separated (p # v) = ((\<forall>q \<in> set v. extent p \<inter> extent q = {}) \<and> separated v)"

definition inside :: "nat \<Rightarrow> parts \<Rightarrow> bool" where
  "inside n v \<longleftrightarrow> (\<forall>p \<in> set v. part_p p + part_size p \<le> n)"

lemma pbytes_cong:
  "(\<And>i. i \<in> extent p \<Longrightarrow> m i = m' i) \<Longrightarrow> pbytes m p = pbytes m' p"
  by (simp add: pbytes_def extent_def)

lemma mem_put_nth:
  assumes "mem_put buf a xs = Some buf'"
  shows "i < a \<or> a + length xs \<le> i \<Longrightarrow> buf' ! i = buf ! i"
    and "a \<le> i \<Longrightarrow> i < a + length xs \<Longrightarrow> buf' ! i = xs ! (i - a)"
proof -
  have fit: "a + length xs \<le> length buf" and buf': "buf' = take a buf @ xs @ drop (a + length xs) buf"
    using assms by (auto simp: mem_put_def split: if_splits)
  then have len: "length (take a buf) = a" by simp
  show "buf' ! i = buf ! i" if "i < a \<or> a + length xs \<le> i"
  proof (cases "i < a")
    case False
    then have "\<not> i - a < length xs" "a + length xs + (i - a - length xs) = i" using that by auto
    then show ?thesis using False fit by (simp add: buf' nth_append len del: length_take)
  qed (simp add: buf' nth_append len del: length_take)
  show "buf' ! i = xs ! (i - a)" if "a \<le> i" "i < a + length xs"
    using that by (simp add: buf' nth_append len less_diff_conv2 add.commute del: length_take)
qed

lemma value_write_spec:
  assumes "inside (length buf) v" and "separated v" and "value_size v \<le> length src"
  shows "\<exists>buf'. value_write buf v src = Some buf' \<and> length buf' = length buf \<and>
    vbytes (nth buf') v = take (value_size v) src \<and>
    (\<forall>i. i \<notin> (\<Union>p \<in> set v. extent p) \<longrightarrow> buf' ! i = buf ! i)"
  using assms
proof (induction v arbitrary: buf src)
  case (Cons p v)
  let ?xs = "take (part_size p) src"
  have len: "length ?xs = part_size p" and fit: "part_p p + part_size p \<le> length buf"
    using Cons.prems by (auto simp: inside_def)
  then obtain b1 where b1: "mem_put buf (part_p p) ?xs = Some b1" by (simp add: mem_put_def)
  have lb1: "length b1 = length buf" by (rule length_mem_put [OF b1])
  have out1: "b1 ! i = buf ! i" if "i \<notin> extent p" for i
    using that mem_put_nth(1) [OF b1, of i] len by (auto simp: extent_def)
  have in1: "pbytes (nth b1) p = ?xs"
    using mem_put_nth(2) [OF b1] len by (simp add: pbytes_def list_eq_iff_nth_eq)
  have "value_size v \<le> length (drop (part_size p) src)" using Cons.prems(3) by simp
  then obtain b2 where b2: "value_write b1 v (drop (part_size p) src) = Some b2"
      "length b2 = length b1" "vbytes (nth b2) v = take (value_size v) (drop (part_size p) src)"
      "\<forall>i. i \<notin> (\<Union>p \<in> set v. extent p) \<longrightarrow> b2 ! i = b1 ! i"
    using Cons.IH [of b1 "drop (part_size p) src"] Cons.prems lb1 by (auto simp: inside_def)
  have "pbytes (nth b2) p = pbytes (nth b1) p"
    using Cons.prems(2) b2(4) by (intro pbytes_cong) auto
  then have "vbytes (nth b2) (p # v) = take (value_size (p # v)) src"
    using in1 b2(3) by (simp add: take_add)
  then show ?case using b1 b2 lb1 out1 len by auto
qed simp

section \<open>Properties\<close>

text \<open>
  \<^verbatim>\<open>value_parse_comma\<close> cuts a scattered value at its first comma: the word is the text
  before it, the rest the text after it, both read through the same memory; the success flag is
  set exactly for a value that is not empty, and exactly then the rest is shorter, so the loops
  that read lists of words end.
\<close>

theorem value_parse_comma_correct:
  "case value_parse_comma m v of (rest, word, success) \<Rightarrow>
     vbytes m word = takeWhile (\<lambda>c. c \<noteq> CHR '','') (vbytes m v) \<and>
     vbytes m rest = drop 1 (dropWhile (\<lambda>c. c \<noteq> CHR '','') (vbytes m v)) \<and>
     (success \<longleftrightarrow> vbytes m v \<noteq> []) \<and> (success \<longleftrightarrow> value_size rest < value_size v)"
proof -
  obtain rest word success where parse: "value_parse_comma m v = (rest, word, success)"
    by (cases "value_parse_comma m v")
  note spec = value_parse_comma_spec [OF parse]
  have "success \<longleftrightarrow> value_size rest < value_size v"
  proof (cases success)
    case True
    then show ?thesis using value_parse_comma_shrinks [of m v rest word] parse by simp
  next
    case False
    then show ?thesis using spec by (simp add: value_size_length [of _ m])
  qed
  then show ?thesis using parse spec by simp
qed

text \<open>
  \<^verbatim>\<open>value_to_uint\<close> accepts exactly the texts of decimal digits whose number is below
  4294967280 (the empty text included), and returns that number: the 32-bit arithmetic of the
  loop never wraps. (The bound is below \<^verbatim>\<open>UINT_MAX\<close>: the test before each digit is
  stricter than the width requires.)
\<close>

theorem value_to_uint_correct:
  "value_to_uint m v =
     (if list_all is_digit (vbytes m v) \<and> decimal (vbytes m v) < 4294967280
      then Some (decimal (vbytes m v)) else None)"
  by (simp add: value_to_uint_eq Let_def)

text \<open>
  C14: \<^verbatim>\<open>value_write\<close> through separate parts of a block never leaves the block, reading the
  same value afterwards returns what was written, and no other byte of the block changes.
\<close>

theorem value_write_read:
  assumes "inside (length buf) v" and "separated v" and "value_size v \<le> length src"
  shows "\<exists>buf'. value_write buf v src = Some buf' \<and> length buf' = length buf \<and>
    value_read (nth buf') v = take (value_size v) src \<and>
    (\<forall>i. i \<notin> set (addresses v) \<longrightarrow> buf' ! i = buf ! i)"
  using value_write_spec [OF assms] by (simp add: value_read_eq set_addresses)

lemma value_write_read_witness:
  "\<exists>buf'. value_write ''abcdef'' [\<lparr>part_p = 4, part_size = 2\<rparr>, \<lparr>part_p = 0, part_size = 1\<rparr>] ''xyz'' =
       Some buf' \<and>
     value_read (nth buf') [\<lparr>part_p = 4, part_size = 2\<rparr>, \<lparr>part_p = 0, part_size = 1\<rparr>] = ''xyz''"
  using value_write_read [of "''abcdef''" "[\<lparr>part_p = 4, part_size = 2\<rparr>, \<lparr>part_p = 0, part_size = 1\<rparr>]" "''xyz''"]
  by (auto simp: inside_def extent_def)

text \<open>
  The comparisons and \<^verbatim>\<open>value_trim\<close> do not depend on how a value is split into parts:
  they compare, case-insensitively on the side of the value, and trim its text.
\<close>

theorem value_text_operations:
  "(value_compare_str m v b \<longleftrightarrow> vbytes m v = b) \<and>
   (value_compare_case_str m v b \<longleftrightarrow> map to_lower (vbytes m v) = b) \<and>
   vbytes m (value_trim m v) = trim_text (vbytes m v) \<and>
   vbytes m (value_first v n) @ vbytes m (value_second v n) = vbytes m v"
  by (simp add: value_compare_str_def value_compare_case_str_def value_compare_mem_iff
      value_compare_case_mem_iff value_trim_spec value_first_spec value_second_spec)

end
