(* ===== verification/TS_String.thy ===== *)
theory TS_String
  imports TS_Memory TS_Value
begin

text \<open>
  \<^verbatim>\<open>commonlib/source/string.c\<close> (without printing) and the generic buffers of
  \<^verbatim>\<open>commonlib/source/generic_buffer_implementation.c\<close>: growing arrays on the C library's
  \<^verbatim>\<open>realloc\<close>. Strings keep a terminator behind their last character. Accesses outside the
  block are \<open>Undefined\<close>.
\<close>

section \<open>Strings\<close>

text \<open>\<^verbatim>\<open>struct CharBuffer\<close>\<close>

record char_buffer =
  cb_p :: block
  cb_size :: nat
  cb_capacity :: nat

definition zero_string :: char_buffer where
  "zero_string = \<lparr>cb_p = None, cb_size = 0, cb_capacity = 0\<rparr>"

definition cb_block :: "char_buffer \<Rightarrow> byte list" where
  "cb_block s = (case cb_p s of None \<Rightarrow> [] | Some b \<Rightarrow> b)"

definition string_store :: "char_buffer \<Rightarrow> nat \<Rightarrow> byte list \<Rightarrow> char_buffer result" where
  "string_store s i xs =
     (if xs = [] then Inr s
      else access (mem_put (cb_block s) i xs) (\<lambda>b. Inr (s\<lparr>cb_p := Some b\<rparr>)))"

definition string_memmove :: "char_buffer \<Rightarrow> nat \<Rightarrow> nat \<Rightarrow> nat \<Rightarrow> char_buffer result" where
  "string_memmove s dst src n =
     (if n = 0 then Inr s
      else access (memmove (cb_block s) dst src n) (\<lambda>b. Inr (s\<lparr>cb_p := Some b\<rparr>)))"

definition string_finalize :: "char_buffer \<Rightarrow> char_buffer" where
  "string_finalize s = zero_string"

definition string_get :: "char_buffer \<Rightarrow> byte list" where
  "string_get s = (case cb_p s of None \<Rightarrow> [] | Some b \<Rightarrow> takeWhile (\<lambda>c. c \<noteq> NUL) b)"

fun string_is_ascii_mem :: "byte list \<Rightarrow> bool" where
  "string_is_ascii_mem [] = True"
| "string_is_ascii_mem (c # cs) = (if ord c \<ge> 0x80 then False else string_is_ascii_mem cs)"

definition string_zero :: "char_buffer \<Rightarrow> char_buffer result" where
  "string_zero s =
     pret (if cb_p s \<noteq> None then string_store s 0 [NUL] else Inr s) (\<lambda>s. Inr (s\<lparr>cb_size := 0\<rparr>))"

text \<open>The growing part that \<^verbatim>\<open>string_resize\<close>, \<^verbatim>\<open>string_reserve\<close> and the printer share.\<close>

definition string_reserve :: "allocator \<Rightarrow> char_buffer \<Rightarrow> nat \<Rightarrow> char_buffer result" where
  "string_reserve realloc s capacity =
     (if size_add capacity 1 > cb_capacity s
      then case grow (size_add capacity 1) (start_capacity (cb_capacity s)) of
             None \<Rightarrow> Inl Diverges
           | Some new_capacity \<Rightarrow>
               (case realloc (cb_p s) new_capacity of
                  None \<Rightarrow> Inl (Failed ''new_p != NULL'')
                | Some new_p \<Rightarrow> Inr (s\<lparr>cb_capacity := new_capacity, cb_p := Some new_p\<rparr>))
      else Inr s)"

definition string_resize :: "allocator \<Rightarrow> char_buffer \<Rightarrow> nat \<Rightarrow> char_buffer result" where
  "string_resize realloc s n =
     pret (string_reserve realloc s n) (\<lambda>s. string_store (s\<lparr>cb_size := n\<rparr>) n [NUL])"

definition string_copy_mem :: "allocator \<Rightarrow> char_buffer \<Rightarrow> byte list \<Rightarrow> char_buffer result" where
  "string_copy_mem realloc s other =
     pret (string_resize realloc s (length other)) (\<lambda>s. string_store s 0 other)"

definition string_push :: "allocator \<Rightarrow> char_buffer \<Rightarrow> byte \<Rightarrow> char_buffer result" where
  "string_push realloc s other =
     pret (if size_add (cb_size s) 2 > cb_capacity s
           then let new_capacity = (if cb_capacity s = 0 then 1 else cb_capacity s * 2 mod 2 ^ 64)
                in case realloc (cb_p s) new_capacity of
                     None \<Rightarrow> Inl (Failed ''new_p != NULL'')
                   | Some new_p \<Rightarrow> Inr (s\<lparr>cb_capacity := new_capacity, cb_p := Some new_p\<rparr>)
           else Inr s) (\<lambda>s.
     pret (string_store s (cb_size s) [other]) (\<lambda>s.
     string_store (s\<lparr>cb_size := size_add (cb_size s) 1\<rparr>) (size_add (cb_size s) 1) [NUL]))"

definition string_append_mem :: "allocator \<Rightarrow> char_buffer \<Rightarrow> byte list \<Rightarrow> char_buffer result" where
  "string_append_mem realloc s other =
     pret (string_resize realloc s (size_add (cb_size s) (length other))) (\<lambda>s'.
     string_store s' (cb_size s) other)"

text \<open>\<^verbatim>\<open>string_trim\<close>: the numbers of spaces at both ends, and the move.\<close>

definition string_trim :: "char_buffer \<Rightarrow> char_buffer result" where
  "string_trim s =
     (let text = take (cb_size s) (cb_block s);
          beginning_spaces = length (takeWhile is_blank text)
      in if beginning_spaces = cb_size s then string_zero s
         else let ending_spaces = length (takeWhile is_blank (rev text));
                  spaces = beginning_spaces + ending_spaces
              in pret (if beginning_spaces > 0
                       then string_memmove s 0 beginning_spaces (cb_size s - spaces) else Inr s) (\<lambda>s.
                 string_store (s\<lparr>cb_size := cb_size s - spaces\<rparr>) (cb_size s - spaces) [NUL]))"

definition string_remove :: "char_buffer \<Rightarrow> nat \<Rightarrow> nat \<Rightarrow> char_buffer result" where
  "string_remove s from n =
     aret (size_add from n < cb_size s) ''begin + size < string->size''
       (pret (string_memmove s from (from + n) (cb_size s - from - n + 1)) (\<lambda>s.
        Inr (s\<lparr>cb_size := size_sub (cb_size s) n\<rparr>)))"

definition string_insert_mem :: "allocator \<Rightarrow> char_buffer \<Rightarrow> nat \<Rightarrow> byte list \<Rightarrow> char_buffer result" where
  "string_insert_mem realloc s from other =
     (if length other > 0
      then let old_size = cb_size s; new_size = size_add old_size (length other)
           in pret (string_resize realloc s new_size) (\<lambda>s.
              pret (string_memmove s (from + length other) from old_size) (\<lambda>s.
              string_store s from other))
      else string_store s from other)"

definition string_replace_mem :: "allocator \<Rightarrow> char_buffer \<Rightarrow> nat \<Rightarrow> nat \<Rightarrow> byte list \<Rightarrow> char_buffer result" where
  "string_replace_mem realloc s from n other =
     aret (size_add from n < cb_size s) ''begin + size < string->size''
       (if length other \<noteq> n
        then let old_size = cb_size s; new_size = size_sub (size_add old_size (length other)) n
             in pret (if length other > n then string_resize realloc s new_size else Inr s) (\<lambda>s.
                pret (string_memmove s (from + length other) (from + n) (old_size - n)) (\<lambda>s.
                pret (if length other < n
                      then pret (string_store s new_size [NUL]) (\<lambda>s. Inr (s\<lparr>cb_size := new_size\<rparr>))
                      else Inr s) (\<lambda>s.
                string_store s from other)))
        else string_store s from other)"

section \<open>The invariant of strings\<close>

definition string_inv :: "char_buffer \<Rightarrow> bool" where
  "string_inv s \<longleftrightarrow>
     length (cb_block s) = cb_capacity s \<and> (cb_p s = None \<longleftrightarrow> cb_capacity s = 0) \<and>
     capacity_ok (cb_capacity s) \<and>
     (if cb_capacity s = 0 then cb_size s = 0
      else cb_size s < cb_capacity s \<and> cb_block s ! cb_size s = NUL)"

definition string_bytes :: "char_buffer \<Rightarrow> byte list" where
  "string_bytes s = take (cb_size s) (cb_block s)"

lemma cb_block_simps [simp]:
  "cb_block (s\<lparr>cb_p := Some b\<rparr>) = b" "cb_block (s\<lparr>cb_size := n\<rparr>) = cb_block s"
  "cb_block (s\<lparr>cb_capacity := n\<rparr>) = cb_block s" "cb_block \<lparr>cb_p = Some b, cb_size = n, cb_capacity = c\<rparr> = b"
  "cb_block (s\<lparr>cb_p := Some b, cb_capacity := n\<rparr>) = b"
  by (simp_all add: cb_block_def)

lemma string_inv_zero: "string_inv zero_string"
  by (simp add: string_inv_def zero_string_def cb_block_def)

text \<open>The same without the terminator, which some callers cut off by setting the size alone.\<close>

definition string_shape :: "char_buffer \<Rightarrow> bool" where
  "string_shape s \<longleftrightarrow>
     length (cb_block s) = cb_capacity s \<and> (cb_p s = None \<longleftrightarrow> cb_capacity s = 0) \<and>
     capacity_ok (cb_capacity s) \<and>
     (if cb_capacity s = 0 then cb_size s = 0 else cb_size s < cb_capacity s)"

lemma string_inv_shape: "string_inv s \<Longrightarrow> string_shape s"
  by (simp add: string_inv_def string_shape_def)

lemma string_shapeD:
  assumes "string_shape s"
  shows "length (cb_block s) = cb_capacity s" "capacity_ok (cb_capacity s)" "cb_size s \<le> cb_capacity s"
    "cb_capacity s \<le> 2 ^ 63" "cb_size s < 2 ^ 63" "length (string_bytes s) = cb_size s"
    "cb_p s = None \<longleftrightarrow> cb_capacity s = 0"
proof -
  show "length (cb_block s) = cb_capacity s" "capacity_ok (cb_capacity s)" "cb_p s = None \<longleftrightarrow> cb_capacity s = 0"
    using assms by (simp_all add: string_shape_def)
  then have c: "cb_capacity s \<le> 2 ^ 63" using capacity_ok_bound by blast
  have s: "cb_size s \<le> cb_capacity s" "cb_size s < 2 ^ 63"
    using assms c by (auto simp: string_shape_def split: if_splits)
  show "cb_capacity s \<le> 2 ^ 63" "cb_size s \<le> cb_capacity s" "cb_size s < 2 ^ 63" by fact+
  then show "length (string_bytes s) = cb_size s"
    using assms by (simp add: string_bytes_def string_shape_def)
qed

lemmas string_invD = string_shapeD [OF string_inv_shape]

lemma shape_reserve_cases:
  assumes "string_shape s" and "realloc_ok realloc" and "n < 2 ^ 63"
  obtains (fail) "string_reserve realloc s n = Inl (Failed ''new_p != NULL'')"
  | (ok) s' where "string_reserve realloc s n = Inr s'" "cb_size s' = cb_size s"
      "length (cb_block s') = cb_capacity s'" "cb_p s' \<noteq> None" "capacity_ok (cb_capacity s')"
      "n < cb_capacity s'" "take (cb_capacity s) (cb_block s') = cb_block s" "cb_capacity s \<le> cb_capacity s'"
proof -
  note D = string_shapeD [OF assms(1)]
  have add: "size_add n 1 = n + 1" using assms(3) by simp
  show thesis
  proof (cases "n + 1 > cb_capacity s")
    case False
    then show ?thesis using D add by (intro ok [of s]) (auto simp: string_reserve_def)
  next
    case True
    have "n + 1 \<le> 2 ^ 63" using assms(3) by simp
    from D(2) this obtain nc where nc: "grow (n + 1) (start_capacity (cb_capacity s)) = Some nc"
      "capacity_ok nc" "n + 1 \<le> nc" "cb_capacity s \<le> nc" by (rule grow_ok) blast
    show ?thesis
    proof (cases "realloc (cb_p s) nc")
      case None
      then show ?thesis using True add nc by (intro fail) (simp add: string_reserve_def)
    next
      case (Some p)
      have len: "length p = nc" by (rule realloc_okD(1) [OF assms(2) Some])
      have "take (cb_capacity s) p = cb_block s"
      proof (cases "cb_p s")
        case None
        then show ?thesis using D by (simp add: cb_block_def)
      next
        case (Some xs)
        then have "cb_block s = xs" by (simp add: cb_block_def)
        then show ?thesis using realloc_okD(2) [OF assms(2), of xs nc p] \<open>realloc (cb_p s) nc = Some p\<close> D nc Some
          by (simp add: min_def)
      qed
      then show ?thesis using True add nc Some len
        by (intro ok [of "s\<lparr>cb_capacity := nc, cb_p := Some p\<rparr>"]) (simp_all add: string_reserve_def cb_block_def)
    qed
  qed
qed

lemma take_prefix: "take k xs = ys \<Longrightarrow> m \<le> k \<Longrightarrow> take m xs = take m ys"
  by (auto simp: min_absorb1)

text \<open>A resized string: its size, and as much of the old text as fits.\<close>

lemma shape_resize_cases:
  assumes "string_shape s" and "realloc_ok realloc" and "n < 2 ^ 63"
  obtains (fail) "string_resize realloc s n = Inl (Failed ''new_p != NULL'')"
  | (ok) s' where "string_resize realloc s n = Inr s'" "string_inv s'" "cb_size s' = n"
      "n < cb_capacity s'" "take (min n (cb_size s)) (cb_block s') = take n (string_bytes s)"
  using assms
proof (cases rule: shape_reserve_cases)
  case fail
  then show ?thesis by (intro that(1)) (simp add: string_resize_def)
next
  case (ok s1)
  note D = string_shapeD [OF assms(1)]
  let ?b = "take n (cb_block s1) @ [NUL] @ drop (Suc n) (cb_block s1)"
  let ?s = "s1\<lparr>cb_size := n, cb_p := Some ?b\<rparr>"
  have run: "string_resize realloc s n = Inr ?s"
    using ok by (simp add: string_resize_def string_store_def)
  have inv: "string_inv ?s" using ok by (auto simp: string_inv_def nth_append)
  have "take (min n (cb_size s)) (cb_block ?s) = take (min n (cb_size s)) (cb_block s1)"
    using ok(3,6) by simp
  also have "\<dots> = take (min n (cb_size s)) (cb_block s)"
    by (rule take_prefix [OF ok(7)]) (use D in simp)
  also have "\<dots> = take n (string_bytes s)" by (simp add: string_bytes_def)
  finally show ?thesis using run inv ok(6) by (intro that(2) [of ?s]) simp_all
qed

lemmas string_reserve_cases [consumes 3, case_names fail ok] = shape_reserve_cases [OF string_inv_shape]
lemmas string_resize_cases [consumes 3, case_names fail ok] = shape_resize_cases [OF string_inv_shape]

lemma string_store_ok:
  assumes "string_inv s" and "i + length xs \<le> cb_size s"
  shows "\<exists>s'. string_store s i xs = Inr s' \<and> string_inv s' \<and> cb_size s' = cb_size s \<and>
    cb_capacity s' = cb_capacity s \<and> string_bytes s' = take i (string_bytes s) @ xs @ drop (i + length xs) (string_bytes s)"
proof (cases "xs = []")
  case True
  then show ?thesis using assms by (simp add: string_store_def)
next
  case False
  note D = string_invD [OF assms(1)]
  have pos: "cb_capacity s \<noteq> 0" "cb_size s < cb_capacity s" "cb_block s ! cb_size s = NUL"
    using assms False by (auto simp: string_inv_def split: if_splits)
  let ?b = "take i (cb_block s) @ xs @ drop (i + length xs) (cb_block s)"
  have fit: "i + length xs \<le> length (cb_block s)" using assms(2) D by simp
  have "\<not> cb_size s < i" "\<not> cb_size s - i < length xs" using assms(2) by linarith+
  then have "?b ! cb_size s = NUL" using assms(2) pos D by (simp add: nth_append)
  then have "string_inv (s\<lparr>cb_p := Some ?b\<rparr>)" using D pos fit by (simp add: string_inv_def)
  moreover have "string_bytes (s\<lparr>cb_p := Some ?b\<rparr>) = take i (string_bytes s) @ xs @ drop (i + length xs) (string_bytes s)"
    using assms(2) D by (simp add: string_bytes_def min_absorb1 drop_take)
  ultimately show ?thesis using fit False by (simp add: string_store_def)
qed

text \<open>
  \<open>string_insert_mem\<close> moves \<^verbatim>\<open>old_size\<close> bytes instead of those behind the position: inserting
  far enough to the right leaves the block.
\<close>

lemma string_insert_overruns:
  assumes "string_inv s" and "realloc_ok realloc" and "cb_size s + length other < 2 ^ 63" and "other \<noteq> []"
    and "string_resize realloc s (cb_size s + length other) = Inr s1"
    and "0 < cb_size s" and "cb_capacity s1 < from + length other + cb_size s"
  shows "string_insert_mem realloc s from other = Inl Undefined"
proof -
  have "size_add (cb_size s) (length other) = cb_size s + length other" using assms(3) by simp
  moreover have "string_inv s1"
    using assms(1-3,5) by (auto elim: string_resize_cases)
  then have "memmove (cb_block s1) (from + length other) from (cb_size s) = None"
    using assms(7) string_invD(1) by (auto simp: memmove_def mem_read_def mem_put_def)
  ultimately show ?thesis using assms(4-6) by (simp add: string_insert_mem_def string_memmove_def)
qed

lemma shape_append_copy:
  assumes "string_shape s" and "realloc_ok realloc" and "cb_size s + length other < 2 ^ 63"
  shows "(case string_append_mem realloc s other of
        Inl e \<Rightarrow> e = Failed ''new_p != NULL''
      | Inr s' \<Rightarrow> string_inv s' \<and> string_bytes s' = string_bytes s @ other) \<and>
    (case string_copy_mem realloc s other of
        Inl e \<Rightarrow> e = Failed ''new_p != NULL''
      | Inr s' \<Rightarrow> string_inv s' \<and> string_bytes s' = other)"
proof
  note D = string_shapeD [OF assms(1)]
  have add: "size_add (cb_size s) (length other) = cb_size s + length other" using assms(3) by simp
  from assms show "case string_append_mem realloc s other of
        Inl e \<Rightarrow> e = Failed ''new_p != NULL''
      | Inr s' \<Rightarrow> string_inv s' \<and> string_bytes s' = string_bytes s @ other"
  proof (cases rule: shape_resize_cases)
    case fail
    then show ?thesis by (simp add: string_append_mem_def add)
  next
    case (ok s1)
    have "cb_size s + length other \<le> cb_size s1" using ok by simp
    from string_store_ok [OF ok(2) this] obtain s2 where s2: "string_store s1 (cb_size s) other = Inr s2"
      "string_inv s2" "string_bytes s2 = take (cb_size s) (string_bytes s1) @ other @
         drop (cb_size s + length other) (string_bytes s1)" by blast
    have "take (cb_size s) (string_bytes s1) = string_bytes s"
      using ok(3,5) D(6) by (simp add: string_bytes_def min_absorb1 min_absorb2)
    moreover have "drop (cb_size s + length other) (string_bytes s1) = []"
      using string_invD(6) [OF ok(2)] ok(3) by simp
    ultimately show ?thesis using ok(1) s2 by (simp add: string_append_mem_def add)
  qed
  have "length other < 2 ^ 63" using assms(3) by simp
  with assms(1,2) show "case string_copy_mem realloc s other of
        Inl e \<Rightarrow> e = Failed ''new_p != NULL''
      | Inr s' \<Rightarrow> string_inv s' \<and> string_bytes s' = other"
  proof (cases rule: shape_resize_cases)
    case fail
    then show ?thesis by (simp add: string_copy_mem_def)
  next
    case (ok s1)
    have "0 + length other \<le> cb_size s1" using ok by simp
    from string_store_ok [OF ok(2) this] obtain s2 where s2: "string_store s1 0 other = Inr s2"
      "string_inv s2" "string_bytes s2 = other @ drop (length other) (string_bytes s1)" by auto
    have "drop (length other) (string_bytes s1) = []" using string_invD(6) [OF ok(2)] ok(3) by simp
    then show ?thesis using ok(1) s2 by (simp add: string_copy_mem_def)
  qed
qed

lemmas string_append_copy_spec = shape_append_copy [OF string_inv_shape]

section \<open>Properties\<close>

text \<open>
  \<open>string_append_mem\<close> and \<open>string_copy_mem\<close> produce exactly the appended and the copied
  text, keep the terminator and the capacity rules, or report the allocator's failure.
\<close>

theorem string_append_copy:
  assumes "string_inv s" and "realloc_ok realloc" and "cb_size s + length other < 2 ^ 63"
  shows "(case string_append_mem realloc s other of
        Inl e \<Rightarrow> e = Failed ''new_p != NULL''
      | Inr s' \<Rightarrow> string_inv s' \<and> string_bytes s' = string_bytes s @ other) \<and>
    (case string_copy_mem realloc s other of
        Inl e \<Rightarrow> e = Failed ''new_p != NULL''
      | Inr s' \<Rightarrow> string_inv s' \<and> string_bytes s' = other)"
  using assms by (rule string_append_copy_spec)

lemma string_append_copy_witness:
  "string_append_mem realloc_zero \<lparr>cb_p = Some (''ab'' @ [NUL, NUL]), cb_size = 2, cb_capacity = 4\<rparr> ''c'' =
     Inr \<lparr>cb_p = Some (''abc'' @ [NUL]), cb_size = 3, cb_capacity = 4\<rparr> \<and>
   string_bytes \<lparr>cb_p = Some (''abc'' @ [NUL]), cb_size = 3, cb_capacity = 4\<rparr> = ''ab'' @ ''c''"
proof -
  let ?s = "\<lparr>cb_p = Some (''ab'' @ [NUL, NUL]), cb_size = 2, cb_capacity = 4\<rparr>"
  have run: "string_append_mem realloc_zero ?s ''c'' =
     Inr \<lparr>cb_p = Some (''abc'' @ [NUL]), cb_size = 3, cb_capacity = 4\<rparr>"
    by (simp add: string_append_mem_def string_resize_def string_reserve_def string_store_def cb_block_def)
  have "capacity_ok (2 ^ 2)" by (rule capacity_ok_power) simp
  then have "string_inv ?s" by (simp add: string_inv_def cb_block_def)
  moreover have "cb_size ?s + length ''c'' < 2 ^ 63" by simp
  ultimately show ?thesis using string_append_copy [of ?s realloc_zero "''c''"] realloc_ok_zero run
    by (simp add: string_bytes_def cb_block_def)
qed

text \<open>
  \<open>string_push\<close> appends its character to every string that has a block, but on the empty
  string of \<^verbatim>\<open>string_initialize\<close> it allocates one byte and writes the terminator behind it.
\<close>

theorem string_push_correct:
  assumes "string_inv s" and "realloc_ok realloc" and "cb_capacity s < 2 ^ 63"
  shows "case string_push realloc s c of
      Inl e \<Rightarrow> if e = Undefined then cb_capacity s = 0 else e = Failed ''new_p != NULL''
    | Inr s' \<Rightarrow> cb_capacity s \<noteq> 0 \<and> string_inv s' \<and> string_bytes s' = string_bytes s @ [c]"
proof -
  note D = string_invD [OF assms(1)]
  have body: "\<exists>s'. pret (string_store s1 (cb_size s1) [c]) (\<lambda>s.
       string_store (s\<lparr>cb_size := size_add (cb_size s) 1\<rparr>) (size_add (cb_size s) 1) [NUL]) = Inr s' \<and>
       string_inv s' \<and> string_bytes s' = string_bytes s @ [c]"
    if s1: "cb_size s1 = cb_size s" "length (cb_block s1) = cb_capacity s1" "cb_size s + 2 \<le> cb_capacity s1"
      "capacity_ok (cb_capacity s1)" "take (cb_size s) (cb_block s1) = string_bytes s" for s1
  proof -
    let ?b = "string_bytes s @ [c] @ drop (Suc (cb_size s)) (cb_block s1)"
    let ?d = "take (Suc (cb_size s)) ?b @ [NUL] @ drop (Suc (Suc (cb_size s))) ?b"
    have store: "string_store s1 (cb_size s1) [c] = Inr (s1\<lparr>cb_p := Some ?b\<rparr>)"
      using s1 by (simp add: string_store_def)
    have add: "size_add (cb_size s) 1 = Suc (cb_size s)" using D(5) by simp
    have len: "length ?b = cb_capacity s1" using s1 D(6) by simp
    have "string_store (s1\<lparr>cb_p := Some ?b, cb_size := Suc (cb_size s)\<rparr>) (Suc (cb_size s)) [NUL] =
        Inr (s1\<lparr>cb_p := Some ?d, cb_size := Suc (cb_size s)\<rparr>)"
      using s1 len by (simp add: string_store_def cb_block_def)
    moreover have "string_inv (s1\<lparr>cb_p := Some ?d, cb_size := Suc (cb_size s)\<rparr>)"
      using s1 D(6) by (simp add: string_inv_def cb_block_def nth_append)
    moreover have "string_bytes (s1\<lparr>cb_p := Some ?d, cb_size := Suc (cb_size s)\<rparr>) = string_bytes s @ [c]"
      using D(6) by (simp add: string_bytes_def [of "s1\<lparr>cb_p := p, cb_size := n\<rparr>" for p n] cb_block_def)
    ultimately show ?thesis using store add s1(1) by simp
  qed
  have add2: "size_add (cb_size s) 2 = cb_size s + 2" using D(5) by simp
  consider (empty) "cb_capacity s = 0" | (room) "cb_size s + 2 \<le> cb_capacity s"
    | (full) "cb_capacity s \<noteq> 0" "cb_capacity s < cb_size s + 2" by linarith
  then show ?thesis
  proof cases
    case empty
    then have sz: "cb_size s = 0" using assms(1) by (simp add: string_inv_def)
    show ?thesis
    proof (cases "realloc (cb_p s) 1")
      case None
      then show ?thesis using empty add2 by (simp add: string_push_def)
    next
      case (Some p)
      then have "length p = 1" by (rule realloc_okD(1) [OF assms(2)])
      then show ?thesis using empty add2 sz Some
        by (simp add: string_push_def string_store_def mem_put_def)
    qed
  next
    case room
    have "string_push realloc s c = pret (string_store s (cb_size s) [c]) (\<lambda>s.
       string_store (s\<lparr>cb_size := size_add (cb_size s) 1\<rparr>) (size_add (cb_size s) 1) [NUL])"
      using room add2 by (simp add: string_push_def)
    then show ?thesis using body [of s] room D by (auto simp: string_bytes_def)
  next
    case full
    have "cb_size s < cb_capacity s" using assms(1) full by (simp add: string_inv_def)
    then have sz: "cb_size s + 1 = cb_capacity s" using full by simp
    obtain k where k: "cb_capacity s = 2 ^ k" "k \<le> 63" using D(2) full by (auto simp: capacity_ok_def)
    have "k < 63" using k assms(3) by (cases "k = 63") auto
    then have cap: "capacity_ok (2 * cb_capacity s)" using k capacity_ok_power [of "Suc k"] by simp
    have dbl: "cb_capacity s * 2 mod 2 ^ 64 = 2 * cb_capacity s" using assms(3) by simp
    show ?thesis
    proof (cases "realloc (cb_p s) (2 * cb_capacity s)")
      case None
      then show ?thesis using full add2 dbl by (simp add: string_push_def)
    next
      case (Some p)
      obtain xs where xs: "cb_p s = Some xs" "cb_block s = xs" "length xs = cb_capacity s"
        using D(1,7) full by (auto simp: cb_block_def)
      have p: "length p = 2 * cb_capacity s" "take (cb_capacity s) p = xs"
        using realloc_okD(1) [OF assms(2) Some] realloc_okD(2) [OF assms(2), of xs "2 * cb_capacity s" p]
          Some xs by (simp_all add: min_def)
      have "take (cb_size s) p = take (cb_size s) (take (cb_capacity s) p)" using sz by simp
      then have "take (cb_size s) p = string_bytes s" using p(2) xs(2) by (simp add: string_bytes_def)
      then show ?thesis
        using body [of "s\<lparr>cb_capacity := 2 * cb_capacity s, cb_p := Some p\<rparr>"] full add2 dbl Some sz p cap
        by (auto simp: string_push_def cb_block_def)
    qed
  qed
qed

lemma string_push_correct_witness: "string_push realloc_zero zero_string CHR ''a'' = Inl Undefined"
proof -
  have cap: "cb_capacity zero_string < 2 ^ 63" "cb_capacity zero_string = 0" by (simp_all add: zero_string_def)
  have "string_push realloc_zero zero_string CHR ''a'' \<noteq> Inl (Failed ''new_p != NULL'')"
    by (simp add: string_push_def realloc_zero_def string_store_def mem_put_def zero_string_def cb_block_def)
  then show ?thesis
    using string_push_correct [OF string_inv_zero realloc_ok_zero cap(1), of "CHR ''a''"] cap(2)
    by (auto split: sum.splits if_splits)
qed

text \<open>
  \<open>string_trim\<close> removes exactly the blanks at both ends (the text that \<open>value_trim\<close> leaves),
  without leaving the block, keeps the terminator, and never fails on a well-formed string.
\<close>

theorem string_trim_correct:
  assumes "string_inv s"
  shows "\<exists>s'. string_trim s = Inr s' \<and> string_inv s' \<and>
    string_bytes s' = trim_text (string_bytes s)"
proof -
  note D = string_invD [OF assms]
  define line where "line = string_bytes s"
  define a where "a = length (takeWhile is_blank line)"
  define z where "z = length (takeWhile is_blank (rev line))"
  have len: "length line = cb_size s" using D by (simp add: line_def)
  have line: "take (cb_size s) (cb_block s) = line" by (simp add: line_def string_bytes_def)
  have drop: "dropWhile is_blank line = drop a line"
    by (simp add: a_def dropWhile_eq_drop)
  show ?thesis
  proof (cases "a = cb_size s")
    case True
    then have "dropWhile is_blank line = []" using drop len by simp
    then have "trim_text (string_bytes s) = []"
      by (simp add: trim_text_def line_def del: dropWhile_eq_Nil_conv)
    moreover have "string_trim s = string_zero s"
      using True by (simp add: string_trim_def Let_def line a_def)
    moreover have "\<exists>s'. string_zero s = Inr s' \<and> string_inv s' \<and> string_bytes s' = []"
    proof (cases "cb_p s")
      case None
      then show ?thesis using assms by (auto simp: string_zero_def string_inv_def string_bytes_def)
    next
      case (Some b)
      then have "cb_capacity s \<noteq> 0" "cb_block s = b" using D by (auto simp: cb_block_def)
      then show ?thesis using D assms
        by (auto simp: string_zero_def string_store_def string_inv_def string_bytes_def Suc_le_eq)
    qed
    ultimately show ?thesis by simp
  next
    case False
    have le: "a \<le> cb_size s" unfolding a_def len [symmetric] by (rule length_takeWhile_le)
    have "drop a line \<noteq> []" using False le len by simp
    then have behind: "takeWhile is_blank (rev line) = takeWhile is_blank (rev (drop a line))"
    proof -
      have "\<not> is_blank (hd (drop a line))"
        using \<open>drop a line \<noteq> []\<close> drop hd_dropWhile [of is_blank line] by simp
      then have "hd (drop a line) \<in> set (rev (drop a line)) \<and> \<not> is_blank (hd (drop a line))"
        using \<open>drop a line \<noteq> []\<close> by simp
      then have "takeWhile is_blank (rev (drop a line) @ rev (take a line)) = takeWhile is_blank (rev (drop a line))"
        by (intro takeWhile_append1) auto
      then show ?thesis by (metis append_take_drop_id rev_append)
    qed
    have z: "z \<le> cb_size s - a"
      using length_takeWhile_le [of is_blank "rev (drop a line)"] len by (simp add: z_def behind)
    let ?n = "cb_size s - (a + z)"
    have "rev (dropWhile is_blank (rev (drop a line))) = rev (drop z (rev (drop a line)))"
      by (simp only: z_def behind dropWhile_eq_drop)
    also have "\<dots> = take ?n (drop a line)" using rev_drop [of z "rev (drop a line)"] len by simp
    finally have result: "rev (dropWhile is_blank (rev (dropWhile is_blank line))) = take ?n (drop a line)"
      by (simp only: drop)
    have pos: "cb_capacity s \<noteq> 0" "cb_size s < cb_capacity s"
      using False le assms by (auto simp: string_inv_def split: if_splits)
    obtain b where b: "cb_p s = Some b" "cb_block s = b" using pos(1) D(7) by (auto simp: cb_block_def)
    have sl: "take ?n (drop a b) = take ?n (drop a line)"
      using line b(2) slice_take [of a ?n "cb_size s" b] le z by simp
    have move: "(if a > 0 then string_memmove s 0 a ?n else Inr s) =
        Inr (s\<lparr>cb_p := Some (take ?n (drop a b) @ drop ?n b)\<rparr>)"
    proof (cases "a > 0 \<and> ?n \<noteq> 0")
      case True
      have "memmove b 0 a ?n = Some (take ?n (drop a b) @ drop ?n b)"
        using le z pos D(1) b(2) by (subst memmove_ok) simp_all
      then show ?thesis using True b by (simp add: string_memmove_def)
    next
      case False
      then have "take ?n (drop a b) @ drop ?n b = b" by auto
      then have "s\<lparr>cb_p := Some (take ?n (drop a b) @ drop ?n b)\<rparr> = s" using b(1) by (cases s) simp
      then show ?thesis using False by (auto simp: string_memmove_def)
    qed
    let ?b = "take ?n (drop a b) @ NUL # drop (Suc ?n) b"
    have "length (take ?n (drop a b)) = ?n" using le z pos D(1) b(2) by simp
    moreover have "Suc ?n \<le> length b" using le z pos D(1) b(2) by simp
    ultimately have store: "string_store (s\<lparr>cb_p := Some (take ?n (drop a b) @ drop ?n b), cb_size := ?n\<rparr>) ?n [NUL] =
        Inr (s\<lparr>cb_p := Some ?b, cb_size := ?n\<rparr>)"
      and bytes: "string_bytes (s\<lparr>cb_p := Some ?b, cb_size := ?n\<rparr>) = take ?n (drop a b)"
      and inv: "string_inv (s\<lparr>cb_p := Some ?b, cb_size := ?n\<rparr>)"
      using pos D le z b(2)
      by (simp_all add: string_store_def cb_block_def string_bytes_def string_inv_def nth_append)
    have "string_trim s = Inr (s\<lparr>cb_p := Some ?b, cb_size := ?n\<rparr>)"
    proof -
      have "string_trim s = pret (if a > 0 then string_memmove s 0 a ?n else Inr s)
          (\<lambda>s. string_store (s\<lparr>cb_size := cb_size s - (a + z)\<rparr>) (cb_size s - (a + z)) [NUL])"
        using False by (simp only: string_trim_def Let_def line if_False flip: a_def z_def)
      also have "\<dots> = Inr (s\<lparr>cb_p := Some ?b, cb_size := ?n\<rparr>)"
        unfolding move using store by simp
      finally show ?thesis .
    qed
    then show ?thesis using bytes inv result sl by (auto simp: line_def trim_text_def)
  qed
qed

lemma string_trim_correct_witness:
  "\<exists>s'. string_trim \<lparr>cb_p = Some ('' ab '' @ replicate 4 NUL), cb_size = 4, cb_capacity = 8\<rparr> = Inr s' \<and>
     string_bytes s' = ''ab''"
proof -
  let ?s = "\<lparr>cb_p = Some ('' ab '' @ replicate 4 NUL), cb_size = 4, cb_capacity = 8\<rparr>"
  have "capacity_ok (2 ^ 3)" by (rule capacity_ok_power) simp
  then have "string_inv ?s" by (simp add: string_inv_def cb_block_def numeral_nat)
  moreover have "string_bytes ?s = '' ab ''" by (simp add: string_bytes_def cb_block_def)
  moreover have "trim_text '' ab '' = ''ab''" by (simp add: trim_text_def is_blank_def)
  ultimately show ?thesis using string_trim_correct [of ?s] by auto
qed

end
