(* ===== verification/TS_Buffer.thy ===== *)
theory TS_Buffer
  imports TS_String
begin

text \<open>
  \<^verbatim>\<open>commonlib/source/generic_buffer_implementation.c\<close>: growing arrays of elements of \<open>k\<close>
  bytes. The macros are written once, with \<open>k\<close> as an argument, where the C code has one copy
  for each element size; the structure has the fields of \<open>char_buffer\<close>, with size and capacity
  counted in elements.
\<close>

section \<open>Operations\<close>

definition generic_buffer_initialize :: char_buffer where
  "generic_buffer_initialize = \<lparr>cb_p = None, cb_size = 0, cb_capacity = 0\<rparr>"

definition generic_buffer_finalize :: "char_buffer \<Rightarrow> char_buffer" where
  "generic_buffer_finalize b = generic_buffer_initialize"

text \<open>The growth for \<open>n\<close> elements, as the macros share it.\<close>

definition buffer_grow :: "allocator \<Rightarrow> nat \<Rightarrow> char_buffer \<Rightarrow> nat \<Rightarrow> char_buffer result" where
  "buffer_grow realloc k b n =
     (if n > cb_capacity b
      then case grow n (start_capacity (cb_capacity b)) of
             None \<Rightarrow> Inl Diverges
           | Some new_capacity \<Rightarrow>
               (case realloc (cb_p b) (new_capacity * k mod 2 ^ 64) of
                  None \<Rightarrow> Inl (Failed ''new_p != NULL'')
                | Some new_p \<Rightarrow> Inr (b\<lparr>cb_capacity := new_capacity, cb_p := Some new_p\<rparr>))
      else Inr b)"

definition generic_buffer_resize :: "allocator \<Rightarrow> nat \<Rightarrow> char_buffer \<Rightarrow> nat \<Rightarrow> char_buffer result" where
  "generic_buffer_resize realloc k b n = pret (buffer_grow realloc k b n) (\<lambda>b. Inr (b\<lparr>cb_size := n\<rparr>))"

definition generic_buffer_reserve :: "allocator \<Rightarrow> nat \<Rightarrow> char_buffer \<Rightarrow> nat \<Rightarrow> char_buffer result" where
  "generic_buffer_reserve realloc k b n = pret (buffer_grow realloc k b n) (\<lambda>b. Inr (b\<lparr>cb_size := n\<rparr>))"

definition generic_buffer_append :: "allocator \<Rightarrow> nat \<Rightarrow> char_buffer \<Rightarrow> byte list \<Rightarrow> nat \<Rightarrow> char_buffer result" where
  "generic_buffer_append realloc k b data n =
     pret (buffer_grow realloc k b (size_add (cb_size b) n)) (\<lambda>b.
     pret (string_store b (cb_size b * k) (take (n * k) data)) (\<lambda>b.
     Inr (b\<lparr>cb_size := size_add (cb_size b) n\<rparr>)))"

definition generic_buffer_push :: "allocator \<Rightarrow> nat \<Rightarrow> char_buffer \<Rightarrow> byte list \<Rightarrow> char_buffer result" where
  "generic_buffer_push realloc k b data =
     pret (if size_add (cb_size b) 1 > cb_capacity b
           then let new_capacity = (if cb_capacity b = 0 then 1 else cb_capacity b * 2 mod 2 ^ 64)
                in case realloc (cb_p b) (new_capacity * k mod 2 ^ 64) of
                     None \<Rightarrow> Inl (Failed ''new_p != NULL'')
                   | Some new_p \<Rightarrow> Inr (b\<lparr>cb_capacity := new_capacity, cb_p := Some new_p\<rparr>)
           else Inr b) (\<lambda>b.
     pret (string_store b (cb_size b * k) (take k data)) (\<lambda>b.
     Inr (b\<lparr>cb_size := size_add (cb_size b) 1\<rparr>)))"

section \<open>Invariant and contents\<close>

definition buffer_inv :: "nat \<Rightarrow> char_buffer \<Rightarrow> bool" where
  "buffer_inv k b \<longleftrightarrow>
     length (cb_block b) = cb_capacity b * k \<and> (cb_p b = None \<longleftrightarrow> cb_capacity b = 0) \<and>
     capacity_ok (cb_capacity b) \<and> cb_size b \<le> cb_capacity b"

definition buffer_bytes :: "nat \<Rightarrow> char_buffer \<Rightarrow> byte list" where
  "buffer_bytes k b = take (cb_size b * k) (cb_block b)"

lemma realloc_prefix:
  assumes "realloc_ok realloc" and "realloc (cb_p b) n = Some p" and "length (cb_block b) \<le> n"
  shows "take (length (cb_block b)) p = cb_block b"
proof (cases "cb_p b")
  case None
  then show ?thesis by (simp add: cb_block_def)
next
  case (Some xs)
  then have "cb_block b = xs" by (simp add: cb_block_def)
  then show ?thesis using realloc_okD(2) [OF assms(1), of xs n p] assms Some by (simp add: min_def)
qed

lemma below_half:
  fixes n k :: nat
  assumes "0 < k" and "2 * n * k < 2 ^ 64"
  shows "n < 2 ^ 63"
proof -
  define x where "x = n * k"
  have "n \<le> x" using assms(1) by (simp add: x_def)
  moreover have "2 * x < 2 ^ 64" using assms(2) by (simp add: x_def)
  ultimately show ?thesis by simp
qed

lemma buffer_grow_cases:
  assumes "buffer_inv k b" and "realloc_ok realloc" and "0 < k" and "2 * n * k < 2 ^ 64" and "1 \<le> n"
  obtains (fail) "buffer_grow realloc k b n = Inl (Failed ''new_p != NULL'')"
  | (ok) b' where "buffer_grow realloc k b n = Inr b'" "buffer_inv k b'" "cb_size b' = cb_size b"
      "n \<le> cb_capacity b'" "buffer_bytes k b' = buffer_bytes k b"
proof (cases "n > cb_capacity b")
  case False
  then show ?thesis using assms(1) by (intro that(2) [of b]) (simp_all add: buffer_grow_def)
next
  case True
  note I = assms(1) [unfolded buffer_inv_def]
  have n63: "n \<le> 2 ^ 63" using below_half [OF assms(3,4)] by simp
  have "capacity_ok (cb_capacity b)" using I by simp
  from this n63 obtain nc where nc: "grow n (start_capacity (cb_capacity b)) = Some nc"
    "capacity_ok nc" "0 < nc" "n \<le> nc" "cb_capacity b \<le> nc"
    "nc = start_capacity (cb_capacity b) \<or> nc < 2 * n" by (rule grow_ok) blast
  have "start_capacity (cb_capacity b) \<le> n" using True assms(5) by (simp add: start_capacity_def)
  then have "nc \<le> 2 * n" using nc(6) by auto
  then have "nc * k \<le> 2 * n * k" by (rule mult_le_mono1)
  then have "nc * k < 2 ^ 64" using assms(4) by (rule le_less_trans)
  then have small: "nc * k mod 2 ^ 64 = nc * k" by (rule mod_less)
  show ?thesis
  proof (cases "realloc (cb_p b) (nc * k)")
    case None
    then show ?thesis using True nc(1) small by (intro that(1)) (simp add: buffer_grow_def)
  next
    case (Some p)
    let ?b = "b\<lparr>cb_capacity := nc, cb_p := Some p\<rparr>"
    have len: "length p = nc * k" by (rule realloc_okD(1) [OF assms(2) Some])
    have "length (cb_block b) \<le> nc * k" using I nc(5) mult_le_mono1 by simp
    from realloc_prefix [OF assms(2) Some this] have "take (cb_size b * k) p = take (cb_size b * k) (cb_block b)"
      by (rule take_prefix) (use I mult_le_mono1 in simp)
    then have "buffer_bytes k ?b = buffer_bytes k b" by (simp add: buffer_bytes_def cb_block_def)
    moreover have "buffer_inv k ?b" using I nc len by (simp add: buffer_inv_def cb_block_def)
    ultimately show ?thesis using True nc(1,4) small Some
      by (intro that(2) [of ?b]) (simp_all add: buffer_grow_def)
  qed
qed

section \<open>Properties\<close>

text \<open>
  Appending \<open>n\<close> elements of \<open>k\<close> bytes appends exactly their bytes, for every element
  size, keeps the invariant of the buffer, and reports the allocator's failure, as long as twice
  the new contents can be addressed.
\<close>

theorem generic_buffer_append_correct:
  assumes "buffer_inv k b" and "realloc_ok realloc" and "0 < k" and "0 < n" and "length data = n * k"
    and "2 * (cb_size b + n) * k < 2 ^ 64"
  shows "case generic_buffer_append realloc k b data n of
      Inl e \<Rightarrow> e = Failed ''new_p != NULL''
    | Inr b' \<Rightarrow> buffer_inv k b' \<and> cb_size b' = cb_size b + n \<and> buffer_bytes k b' = buffer_bytes k b @ data"
proof -
  have "cb_size b + n < 2 ^ 64" using below_half [OF assms(3,6)] by simp
  then have add: "size_add (cb_size b) n = cb_size b + n" by (rule size_add_exact)
  have one: "1 \<le> cb_size b + n" using assms(4) by simp
  from assms(1-3,6) one show ?thesis
  proof (cases rule: buffer_grow_cases)
    case fail
    then show ?thesis by (simp add: generic_buffer_append_def add)
  next
    case (ok b1)
    note I = ok(2) [unfolded buffer_inv_def]
    let ?d = "buffer_bytes k b @ data @ drop (cb_size b * k + n * k) (cb_block b1)"
    have bound: "cb_size b * k + n * k \<le> cb_capacity b1 * k"
      using ok(4) mult_le_mono1 [OF ok(4), of k] by (simp add: add_mult_distrib)
    have "data \<noteq> []" using assms(3-5) by auto
    then have "string_store b1 (cb_size b1 * k) (take (n * k) data) = Inr (b1\<lparr>cb_p := Some ?d\<rparr>)"
      using bound I ok(3,5) assms(5) by (simp add: string_store_def buffer_bytes_def)
    then have "generic_buffer_append realloc k b data n = Inr (b1\<lparr>cb_p := Some ?d, cb_size := cb_size b + n\<rparr>)"
      using ok(1,3) add by (simp add: generic_buffer_append_def)
    moreover have lb: "length (buffer_bytes k b) = cb_size b * k"
      using assms(1) mult_le_mono1 by (simp add: buffer_bytes_def buffer_inv_def)
    moreover have "b1 \<noteq> generic_buffer_initialize" using ok(4) one by (auto simp: generic_buffer_initialize_def)
    ultimately show ?thesis using I bound ok(4) assms(3,5) one
      by (auto simp: buffer_inv_def buffer_bytes_def [of k "b1\<lparr>cb_p := p, cb_size := m\<rparr>" for p m] cb_block_def add_mult_distrib)
  qed
qed

lemma generic_buffer_append_correct_witness:
  "generic_buffer_append realloc_zero 2 \<lparr>cb_p = Some ''abcd'', cb_size = 1, cb_capacity = 2\<rparr> ''xy'' 1 =
     Inr \<lparr>cb_p = Some ''abxy'', cb_size = 2, cb_capacity = 2\<rparr> \<and>
   buffer_bytes 2 \<lparr>cb_p = Some ''abxy'', cb_size = 2, cb_capacity = 2\<rparr> = ''ab'' @ ''xy''"
proof -
  let ?b = "\<lparr>cb_p = Some ''abcd'', cb_size = 1, cb_capacity = 2\<rparr>"
  have "capacity_ok (2 ^ 1)" by (rule capacity_ok_power) simp
  then have inv: "buffer_inv 2 ?b" by (simp add: buffer_inv_def cb_block_def)
  have run: "generic_buffer_append realloc_zero 2 ?b ''xy'' 1 =
      Inr \<lparr>cb_p = Some ''abxy'', cb_size = 2, cb_capacity = 2\<rparr>"
    by (simp add: generic_buffer_append_def buffer_grow_def string_store_def cb_block_def)
  show ?thesis
    using generic_buffer_append_correct [OF inv realloc_ok_zero, of 1 "''xy''"] run
    by (simp add: buffer_bytes_def cb_block_def)
qed

text \<open>
  \<open>generic_buffer_reserve\<close> is \<open>generic_buffer_resize\<close>: asking for a capacity sets the size,
  so reserving at most the present capacity changes the number of elements.
\<close>

theorem generic_buffer_reserve_resizes:
  assumes "n \<le> cb_capacity b"
  shows "generic_buffer_reserve realloc k b n = Inr (b\<lparr>cb_size := n\<rparr>) \<and>
    generic_buffer_reserve realloc k b m = generic_buffer_resize realloc k b m"
  using assms by (simp add: generic_buffer_reserve_def generic_buffer_resize_def buffer_grow_def)

lemma generic_buffer_reserve_resizes_witness:
  "generic_buffer_reserve realloc_zero 1 \<lparr>cb_p = Some ''abcd'', cb_size = 3, cb_capacity = 4\<rparr> 1 =
     Inr \<lparr>cb_p = Some ''abcd'', cb_size = 1, cb_capacity = 4\<rparr>"
  using generic_buffer_reserve_resizes [of 1 "\<lparr>cb_p = Some ''abcd'', cb_size = 3, cb_capacity = 4\<rparr>" realloc_zero 1 0]
  by simp

end
