(* ===== verification/TS_Queue.thy ===== *)
theory TS_Queue
  imports TS_Prelude
begin

text \<open>
  The contract of a bounded byte queue, the interface through which the server uses its
  streams: bytes go in at the end, come out at the front, in the same order, and the room is
  never exceeded. The abstract machine is \<open>list_run\<close> on a plain list; \<open>queue_run\<close>
  executes the same operations on an implementation.
\<close>

datatype queue_op = Push "byte list" | Pop nat

text \<open>The specification: a list with a bound; \<open>None\<close> when an operation is refused.\<close>

fun list_run :: "nat \<Rightarrow> byte list \<Rightarrow> queue_op list \<Rightarrow> (byte list \<times> byte list) option" where
  "list_run room c [] = Some ([], c)"
| "list_run room c (Push xs # ops) =
     (if length c + length xs \<le> room then list_run room (c @ xs) ops else None)"
| "list_run room c (Pop n # ops) =
     (if n \<le> length c
      then map_option (\<lambda>(out, rest). (take n c @ out, rest)) (list_run room (drop n c) ops)
      else None)"

fun pushed :: "queue_op list \<Rightarrow> byte list" where
  "pushed [] = []"
| "pushed (Push xs # ops) = xs @ pushed ops"
| "pushed (Pop n # ops) = pushed ops"

text \<open>First in, first out: what came out, then what is left, is what went in.\<close>

lemma list_run_fifo: "list_run room c ops = Some (out, rest) \<Longrightarrow> out @ rest = c @ pushed ops"
proof (induction room c ops arbitrary: out rest rule: list_run.induct)
  case (2 room c xs ops)
  then show ?case by (auto split: if_splits)
next
  case (3 room c n ops)
  then obtain o' where "list_run room (drop n c) ops = Some (o', rest)" "out = take n c @ o'" "n \<le> length c"
    by (auto split: if_splits)
  with 3 show ?case by (metis append.assoc append_take_drop_id pushed.simps(3))
qed simp

lemma list_run_room: "list_run room c ops = Some (out, rest) \<Longrightarrow> length c \<le> room \<Longrightarrow> length rest \<le> room"
  by (induction room c ops arbitrary: out rest rule: list_run.induct) (auto split: if_splits)

text \<open>The operations of an implementation, one after the other, stopping at the first error.\<close>

fun queue_run :: "('q \<Rightarrow> nat \<Rightarrow> byte list \<Rightarrow> 'q result) \<Rightarrow> ('q \<Rightarrow> nat \<Rightarrow> (byte list \<times> 'q) result) \<Rightarrow>
    'q \<Rightarrow> queue_op list \<Rightarrow> (byte list \<times> 'q) result" where
  "queue_run push pop q [] = Inr ([], q)"
| "queue_run push pop q (Push xs # ops) = pret (push q (length xs) xs) (\<lambda>q. queue_run push pop q ops)"
| "queue_run push pop q (Pop n # ops) =
     pret (pop q n) (\<lambda>(out, q). pret (queue_run push pop q ops) (\<lambda>(out', q). Inr (out @ out', q)))"

locale byte_queue =
  fixes inv :: "'q \<Rightarrow> bool"
    and contents :: "'q \<Rightarrow> byte list"
    and room :: "'q \<Rightarrow> nat"
    and push :: "'q \<Rightarrow> nat \<Rightarrow> byte list \<Rightarrow> 'q result"
    and pop :: "'q \<Rightarrow> nat \<Rightarrow> (byte list \<times> 'q) result"
  assumes push_ok: "inv q \<Longrightarrow> length (contents q) + n \<le> room q \<Longrightarrow> n \<le> length xs \<Longrightarrow>
      \<exists>q'. push q n xs = Inr q' \<and> inv q' \<and> contents q' = contents q @ take n xs \<and> room q' = room q"
    and pop_ok: "inv q \<Longrightarrow> n \<le> length (contents q) \<Longrightarrow>
      \<exists>q'. pop q n = Inr (take n (contents q), q') \<and> inv q' \<and> contents q' = drop n (contents q) \<and>
        room q' = room q"
begin

text \<open>The implementation does everything the abstract queue does, with the same output.\<close>

lemma run_refines:
  assumes "inv q" and "list_run (room q) (contents q) ops = Some (out, rest)"
  shows "\<exists>q'. queue_run push pop q ops = Inr (out, q') \<and> inv q' \<and> contents q' = rest \<and> room q' = room q"
  using assms
proof (induction ops arbitrary: q out)
  case (Cons op ops)
  show ?case
  proof (cases op)
    case (Push xs)
    then have fits: "length (contents q) + length xs \<le> room q"
      and run: "list_run (room q) (contents q @ xs) ops = Some (out, rest)"
      using Cons.prems by (auto split: if_splits)
    obtain q1 where q1: "push q (length xs) xs = Inr q1" "inv q1" "contents q1 = contents q @ xs"
        "room q1 = room q"
      using push_ok [OF Cons.prems(1) fits, of xs] by auto
    with Cons.IH [of q1 out] run Push show ?thesis by simp
  next
    case (Pop n)
    then obtain o' where n: "n \<le> length (contents q)" and out: "out = take n (contents q) @ o'"
      and run: "list_run (room q) (drop n (contents q)) ops = Some (o', rest)"
      using Cons.prems by (auto split: if_splits)
    obtain q1 where q1: "pop q n = Inr (take n (contents q), q1)" "inv q1"
        "contents q1 = drop n (contents q)" "room q1 = room q"
      using pop_ok [OF Cons.prems(1) n] by auto
    with Cons.IH [of q1 o'] run Pop out show ?thesis by auto
  qed
qed simp

lemma run_fifo:
  assumes "inv q" and "list_run (room q) (contents q) ops = Some (out, rest)"
  shows "\<exists>q'. queue_run push pop q ops = Inr (out, q') \<and> out @ contents q' = contents q @ pushed ops"
  using run_refines [OF assms] list_run_fifo [OF assms(2)] by auto

end

end
