(* ===== verification/TS_Error.thy ===== *)
theory TS_Error
  imports TS_Prelude
begin

text \<open>
  \<^verbatim>\<open>include/extended_error.h\<close> and \<^verbatim>\<open>source/extended_error.c\<close>: errors that carry what is to
  be done about them. The flags are a 32-bit word, as \<^verbatim>\<open>enum ExErrorFlag\<close> is, because the
  number of the fixed response travels in the same word; the numbers of \<^verbatim>\<open>enum FixedResponse\<close>
  are those the C rules give its enumerators.
\<close>

unbundle bit_operations_syntax

type_synonym flags = "32 word"

section \<open>Actions\<close>

definition PARTIAL_EEF_SEND :: flags where "PARTIAL_EEF_SEND = 1"
definition PARTIAL_EEF_SHUTDOWN :: flags where "PARTIAL_EEF_SHUTDOWN = 2"
definition PARTIAL_EEF_CLOSE :: flags where "PARTIAL_EEF_CLOSE = 4"
definition PARTIAL_EEF_LOG :: flags where "PARTIAL_EEF_LOG = 8"
definition PARTIAL_EEF_DIE :: flags where "PARTIAL_EEF_DIE = 16"

section \<open>Fixed responses\<close>

datatype fixed_response = FR_MAX_CLIENTS | FR_MAX_MEMORY | FR_MAX_UTILIZATION | FR_UNKNOWN
  | FR_REQUEST_INVALID | FR_MAX_AVAILABLE_REQUEST_STREAM | FR_MAX_REQUEST_HEADER_SIZE
  | FR_MAX_REQUEST_CONTENT_SIZE | FR_MAX_INCOMPLETE_REQUEST_TIME

text \<open>Only the first two enumerators have a shift; the others count on from the second.\<close>

fun fr_code :: "fixed_response \<Rightarrow> flags" where
  "fr_code FR_MAX_CLIENTS = push_bit 8 0"
| "fr_code FR_MAX_MEMORY = push_bit 8 1"
| "fr_code FR_MAX_UTILIZATION = push_bit 8 1 + 1"
| "fr_code FR_UNKNOWN = push_bit 8 1 + 2"
| "fr_code FR_REQUEST_INVALID = push_bit 8 1 + 3"
| "fr_code FR_MAX_AVAILABLE_REQUEST_STREAM = push_bit 8 1 + 4"
| "fr_code FR_MAX_REQUEST_HEADER_SIZE = push_bit 8 1 + 5"
| "fr_code FR_MAX_REQUEST_CONTENT_SIZE = push_bit 8 1 + 6"
| "fr_code FR_MAX_INCOMPLETE_REQUEST_TIME = push_bit 8 1 + 7"

definition EEF_SHUTDOWN_LOG :: flags where
  "EEF_SHUTDOWN_LOG = PARTIAL_EEF_SHUTDOWN OR PARTIAL_EEF_LOG"

definition EEF_SEND_SHUTDOWN_LOG :: "fixed_response \<Rightarrow> flags" where
  "EEF_SEND_SHUTDOWN_LOG fr = PARTIAL_EEF_SEND OR PARTIAL_EEF_SHUTDOWN OR PARTIAL_EEF_LOG OR fr_code fr"

definition EEF_CLOSE_LOG :: flags where
  "EEF_CLOSE_LOG = PARTIAL_EEF_CLOSE OR PARTIAL_EEF_LOG"

definition EEF_CLOSE_LOG_DIE :: flags where
  "EEF_CLOSE_LOG_DIE = PARTIAL_EEF_CLOSE OR PARTIAL_EEF_LOG OR PARTIAL_EEF_DIE"

definition EEF_SEND_CLOSE_LOG :: "fixed_response \<Rightarrow> flags" where
  "EEF_SEND_CLOSE_LOG fr = PARTIAL_EEF_SEND OR PARTIAL_EEF_CLOSE OR PARTIAL_EEF_LOG OR fr_code fr"

text \<open>The test \<^verbatim>\<open>(flags & PARTIAL_EEF_...) != 0\<close>.\<close>

definition has_flag :: "flags \<Rightarrow> flags \<Rightarrow> bool" where
  "has_flag flags partial \<longleftrightarrow> flags AND partial \<noteq> 0"

lemmas flag_defs = PARTIAL_EEF_SEND_def PARTIAL_EEF_SHUTDOWN_def PARTIAL_EEF_CLOSE_def
  PARTIAL_EEF_LOG_def PARTIAL_EEF_DIE_def EEF_SHUTDOWN_LOG_def EEF_SEND_SHUTDOWN_LOG_def
  EEF_CLOSE_LOG_def EEF_CLOSE_LOG_DIE_def EEF_SEND_CLOSE_LOG_def has_flag_def

section \<open>Extended errors\<close>

record exerror =
  ex_error :: failure
  ex_flags :: flags

type_synonym 'a exresult = "exerror + 'a"

text \<open>
  \<^verbatim>\<open>exerror_internal_allocate\<close>, \<^verbatim>\<open>exerror_internal_allocate_append_extend\<close> and
  \<^verbatim>\<open>exerror_internal_allocate_append\<close>: a new error with its flags, flags for an error that
  had none, and an error passed on (the text added to the trace is not modelled).
\<close>

definition exerror_allocate :: "flags \<Rightarrow> string \<Rightarrow> exerror" where
  "exerror_allocate flags m = \<lparr>ex_error = Failed m, ex_flags = flags\<rparr>"

definition exerror_append_extend :: "failure \<Rightarrow> flags \<Rightarrow> exerror" where
  "exerror_append_extend e flags = \<lparr>ex_error = e, ex_flags = flags\<rparr>"

definition exerror_append :: "exerror \<Rightarrow> exerror" where
  "exerror_append e = \<lparr>ex_error = ex_error e, ex_flags = ex_flags e\<rparr>"

text \<open>\<^verbatim>\<open>EXRET\<close>, \<^verbatim>\<open>EXARET\<close>, \<^verbatim>\<open>EXPRETF\<close> and \<^verbatim>\<open>EXPRET\<close>\<close>

definition exret :: "string \<Rightarrow> flags \<Rightarrow> 'a exresult" where
  "exret m flags = Inl (exerror_allocate flags m)"

definition exaret :: "bool \<Rightarrow> string \<Rightarrow> flags \<Rightarrow> 'a exresult \<Rightarrow> 'a exresult" where
  "exaret b m flags k = (if b then k else exret m flags)"

definition expretf :: "'a result \<Rightarrow> flags \<Rightarrow> ('a \<Rightarrow> 'b exresult) \<Rightarrow> 'b exresult" where
  "expretf r flags k = (case r of Inl e \<Rightarrow> Inl (exerror_append_extend e flags) | Inr x \<Rightarrow> k x)"

definition expret :: "'a exresult \<Rightarrow> ('a \<Rightarrow> 'b exresult) \<Rightarrow> 'b exresult" where
  "expret r k = (case r of Inl e \<Rightarrow> Inl (exerror_append e) | Inr x \<Rightarrow> k x)"

lemma exresult_simps [simp]:
  "exaret True m flags k = k" "exaret False m flags k = exret m flags"
  "expretf (Inl e) flags f = Inl (exerror_append_extend e flags)" "expretf (Inr x) flags f = f x"
  "expret (Inl x1) g = Inl x1" "expret (Inr y) g = g y"
  "exerror_append x1 = x1"
  by (simp_all add: exaret_def expretf_def expret_def exerror_append_def)

lemma exret_Inr [simp]: "exret m flags \<noteq> Inr y" "Inr y \<noteq> exret m flags"
  by (simp_all add: exret_def)

section \<open>Properties\<close>

text \<open>The two places that read the fixed response back (\<^verbatim>\<open>high_level.c\<close>).\<close>

definition fixed_of_flags :: "flags \<Rightarrow> flags" where
  "fixed_of_flags flags = flags AND NOT 0xFF"


end
