(* ===== verification/TS_Ring.thy ===== *)
theory TS_Ring
  imports TS_Memory TS_Value TS_Queue
begin

text \<open>
  \<^verbatim>\<open>include/ring.h\<close> and \<^verbatim>\<open>source/ring.c\<close>: the growing ring buffer behind every request
  stream, response stream and response queue. Pointers into the ring are indices into its
  block. The operations follow the C code branch by branch; the abstraction
  \<open>ring_bytes\<close> is the byte sequence the ring holds, and each operation is shown to be the
  list operation it promises to be.
\<close>

section \<open>The structure\<close>

record ring =
  ring_p :: block
  ring_size :: nat
  ring_capacity :: nat
  ring_begin :: nat

definition zero_ring :: ring where
  "zero_ring = \<lparr>ring_p = None, ring_size = 0, ring_capacity = 0, ring_begin = 0\<rparr>"

definition ring_block :: "ring \<Rightarrow> byte list" where
  "ring_block r = (case ring_p r of None \<Rightarrow> [] | Some b \<Rightarrow> b)"

text \<open>The memory that pointers into the ring read.\<close>

definition ring_memory :: "ring \<Rightarrow> memory" where
  "ring_memory r = nth (ring_block r)"

definition ring_set_block :: "ring \<Rightarrow> byte list \<Rightarrow> ring" where
  "ring_set_block r b = r\<lparr>ring_p := map_option (\<lambda>_. b) (ring_p r)\<rparr>"

section \<open>Operations of ring.c\<close>

definition ring_finalize :: "nat \<Rightarrow> ring \<Rightarrow> nat \<times> ring" where
  "ring_finalize g r =
     (if ring_p r \<noteq> None then (count_free g (ring_capacity r), zero_ring) else (g, zero_ring))"

text \<open>\<^verbatim>\<open>ring_reserve\<close>, the branch that shrinks, before the reallocation.\<close>

definition ring_shrink :: "ring \<Rightarrow> nat \<Rightarrow> ring result" where
  "ring_shrink r new_capacity =
     aret (new_capacity \<ge> ring_size r) ''Cannot shrink''
       (let continuous_after_begin = size_sub (ring_capacity r) (ring_begin r);
            continuous_size_after_begin = (ring_size r \<le> continuous_after_begin)
        in if continuous_size_after_begin
           then if size_add (ring_begin r) (ring_size r) > new_capacity
                then access (memmove (ring_block r) 0 (ring_begin r) (ring_size r)) (\<lambda>b.
                       Inr ((ring_set_block r b)\<lparr>ring_begin := 0\<rparr>))
                else Inr r
           else let shrink = size_sub (ring_capacity r) new_capacity
                in access (memmove (ring_block r) (ring_begin r - shrink) (ring_begin r)
                     continuous_after_begin) (\<lambda>b.
                     Inr ((ring_set_block r b)\<lparr>ring_begin := size_sub (ring_begin r) shrink\<rparr>)))"

text \<open>The branch that expands, after the reallocation.\<close>

definition ring_expand :: "ring \<Rightarrow> nat \<Rightarrow> ring result" where
  "ring_expand r new_capacity =
     (let continuous_after_begin = size_sub (ring_capacity r) (ring_begin r);
          continuous_size_after_begin = (ring_size r \<le> continuous_after_begin)
      in if \<not> continuous_size_after_begin
         then let expand = size_sub new_capacity (ring_capacity r)
              in access (memmove (ring_block r) (ring_begin r + expand) (ring_begin r)
                   continuous_after_begin) (\<lambda>b.
                   Inr ((ring_set_block r b)\<lparr>ring_begin := size_add (ring_begin r) expand\<rparr>))
         else Inr r)"

definition ring_reserve :: "allocator \<Rightarrow> nat \<Rightarrow> ring \<Rightarrow> nat \<Rightarrow> (nat \<times> ring) result" where
  "ring_reserve realloc g r capacity =
     (case grow capacity (start_capacity (ring_capacity r)) of
        None \<Rightarrow> Inl Diverges
      | Some new_capacity \<Rightarrow>
          if new_capacity = ring_capacity r then Inr (g, r)
          else pret (if new_capacity < ring_capacity r then ring_shrink r new_capacity else Inr r) (\<lambda>r.
            case count_realloc realloc g (ring_p r) (ring_capacity r) new_capacity of
              (g', None) \<Rightarrow> Inl (Failed ''new_p != NULL'')
            | (g', Some new_p) \<Rightarrow>
                pret (if new_capacity > ring_capacity r
                      then ring_expand (r\<lparr>ring_p := Some new_p\<rparr>) new_capacity
                      else Inr (r\<lparr>ring_p := Some new_p\<rparr>)) (\<lambda>r.
                Inr (g', r\<lparr>ring_capacity := new_capacity\<rparr>))))"

definition ring_get_all :: "ring \<Rightarrow> parts" where
  "ring_get_all r =
     (if ring_p r = None then zero_value
      else let continuous_after_begin = size_sub (ring_capacity r) (ring_begin r);
               continuous_size_after_begin = (ring_size r \<le> continuous_after_begin)
           in if continuous_size_after_begin
              then [\<lparr>part_p = ring_begin r, part_size = ring_size r\<rparr>, zero_part]
              else [\<lparr>part_p = ring_begin r, part_size = continuous_after_begin\<rparr>,
                    \<lparr>part_p = 0, part_size = size_sub (ring_size r) continuous_after_begin\<rparr>])"

definition ring_get :: "ring \<Rightarrow> location \<Rightarrow> bool \<Rightarrow> parts result" where
  "ring_get r location latest =
     aret (size_add (loc_offset location) (loc_size location) \<le> ring_size r) ''Cannot get''
     (if loc_size location = 0 then Inr zero_value
      else
        let offset = (if latest
                      then size_sub (size_sub (ring_size r) (loc_size location)) (loc_offset location)
                      else loc_offset location);
            continuous_after_begin = size_sub (ring_capacity r) (ring_begin r);
            continuous_offset_after_begin = (offset \<le> continuous_after_begin)
        in if continuous_offset_after_begin
           then let continuous_after_offset = size_sub continuous_after_begin offset
                in if continuous_after_offset = 0
                   then Inr [\<lparr>part_p = 0, part_size = loc_size location\<rparr>, zero_part]
                   else if loc_size location \<le> continuous_after_offset
                   then Inr [\<lparr>part_p = ring_begin r + offset, part_size = loc_size location\<rparr>, zero_part]
                   else Inr [\<lparr>part_p = ring_begin r + offset, part_size = continuous_after_offset\<rparr>,
                             \<lparr>part_p = 0, part_size = size_sub (loc_size location) continuous_after_offset\<rparr>]
           else Inr [\<lparr>part_p = size_sub offset continuous_after_begin,
                      part_size = loc_size location\<rparr>, zero_part])"

definition ring_push :: "ring \<Rightarrow> nat \<Rightarrow> ring result" where
  "ring_push r n =
     aret (size_add (ring_size r) n \<le> ring_capacity r) ''Cannot push''
       (Inr (r\<lparr>ring_size := size_add (ring_size r) n\<rparr>))"

definition ring_push_get :: "ring \<Rightarrow> nat \<Rightarrow> (ring \<times> parts) result" where
  "ring_push_get r n =
     pret (ring_push r n) (\<lambda>r.
     pret (ring_get r \<lparr>loc_offset = 0, loc_size = n\<rparr> True) (\<lambda>value.
     Inr (r, value)))"

text \<open>\<^verbatim>\<open>value_write\<close> through parts of the ring.\<close>

definition ring_write :: "ring \<Rightarrow> parts \<Rightarrow> byte list \<Rightarrow> ring result" where
  "ring_write r value p =
     access (value_write (ring_block r) value p) (\<lambda>b. Inr (ring_set_block r b))"

definition ring_push_write :: "ring \<Rightarrow> nat \<Rightarrow> byte list \<Rightarrow> ring result" where
  "ring_push_write r n p =
     pret (ring_push_get r n) (\<lambda>(r, value). ring_write r value p)"

definition ring_pop :: "ring \<Rightarrow> nat \<Rightarrow> ring result" where
  "ring_pop r n =
     aret (ring_size r \<ge> n) ''Cannot pop''
       (let continuous_after_begin = size_sub (ring_capacity r) (ring_begin r);
            continuous_size_after_begin = (n \<le> continuous_after_begin);
            r = r\<lparr>ring_begin := (if continuous_size_after_begin then size_add (ring_begin r) n
                                 else size_sub n continuous_after_begin)\<rparr>;
            r = r\<lparr>ring_size := size_sub (ring_size r) n\<rparr>
        in if ring_size r = 0 then Inr (r\<lparr>ring_begin := 0\<rparr>) else Inr r)"

text \<open>Returns the bytes copied to \<^verbatim>\<open>p\<close> and the ring.\<close>

definition ring_pop_read :: "ring \<Rightarrow> nat \<Rightarrow> (byte list \<times> ring) result" where
  "ring_pop_read r n =
     pret (ring_get r \<lparr>loc_offset = 0, loc_size = n\<rparr> False) (\<lambda>value.
     pret (ring_pop r n) (\<lambda>r'.
     Inr (value_read (ring_memory r) value, r')))"

definition ring_unpush :: "ring \<Rightarrow> nat \<Rightarrow> ring result" where
  "ring_unpush r n =
     aret (ring_size r \<ge> n) ''Cannot unpush'' (Inr (r\<lparr>ring_size := size_sub (ring_size r) n\<rparr>))"

section \<open>The invariant and the contents\<close>

definition ring_inv :: "ring \<Rightarrow> bool" where
  "ring_inv r \<longleftrightarrow>
     length (ring_block r) = ring_capacity r \<and> (ring_p r = None \<longleftrightarrow> ring_capacity r = 0) \<and>
     capacity_ok (ring_capacity r) \<and> ring_size r \<le> ring_capacity r \<and> ring_begin r \<le> ring_capacity r"

text \<open>The positions of the contents in the block, in order, and the contents.\<close>

definition ring_index :: "ring \<Rightarrow> nat list" where
  "ring_index r = take (ring_size r) ([ring_begin r..<ring_capacity r] @ [0..<ring_begin r])"

definition ring_bytes :: "ring \<Rightarrow> byte list" where
  "ring_bytes r = map (ring_memory r) (ring_index r)"

lemma ring_inv_zero: "ring_inv zero_ring"
  by (simp add: ring_inv_def zero_ring_def ring_block_def)

lemma ring_invD:
  assumes "ring_inv r"
  shows "length (ring_block r) = ring_capacity r" and "ring_size r \<le> ring_capacity r"
    and "ring_begin r \<le> ring_capacity r" and "capacity_ok (ring_capacity r)"
    and "ring_p r = None \<longleftrightarrow> ring_capacity r = 0"
    and "ring_capacity r \<le> 2 ^ 63" and "ring_capacity r < 2 ^ 64"
proof -
  have "ring_capacity r \<le> 2 ^ 63" using assms capacity_ok_bound by (simp add: ring_inv_def)
  then show "ring_capacity r \<le> 2 ^ 63" "ring_capacity r < 2 ^ 64" by simp_all
qed (use assms in \<open>simp_all add: ring_inv_def\<close>)

lemma length_ring_index: "ring_inv r \<Longrightarrow> length (ring_index r) = ring_size r"
  by (auto simp: ring_index_def ring_inv_def min_def)

lemma length_ring_bytes [simp]: "ring_inv r \<Longrightarrow> length (ring_bytes r) = ring_size r"
  by (simp add: ring_bytes_def length_ring_index)

lemma distinct_ring_index: "ring_inv r \<Longrightarrow> distinct (ring_index r)"
  unfolding ring_index_def by (rule distinct_take) auto

lemma ring_index_bound: "ring_inv r \<Longrightarrow> i \<in> set (ring_index r) \<Longrightarrow> i < ring_capacity r"
  unfolding ring_index_def by (drule in_set_takeD) (auto simp: ring_inv_def)

text \<open>The same contents as one list: the block cut at \<^verbatim>\<open>begin\<close> and turned around.\<close>

lemma ring_bytes_block:
  assumes "ring_inv r"
  shows "ring_bytes r =
    take (ring_size r) (drop (ring_begin r) (ring_block r) @ take (ring_begin r) (ring_block r))"
proof -
  have "length (ring_block r) = ring_capacity r" "ring_begin r \<le> ring_capacity r"
    using assms by (auto simp: ring_inv_def)
  then have "map (nth (ring_block r)) ([ring_begin r..<ring_capacity r] @ [0..<ring_begin r]) =
      drop (ring_begin r) (ring_block r) @ take (ring_begin r) (ring_block r)"
    using map_nth_take_drop [of "ring_begin r" "ring_capacity r - ring_begin r" "ring_block r"]
      map_nth_take_drop [of 0 "ring_begin r" "ring_block r"] by simp
  then show ?thesis by (simp add: ring_bytes_def ring_index_def ring_memory_def take_map [symmetric]
      del: take_append map_append)
qed

lemma ring_bytes_zero: "ring_bytes zero_ring = []"
  by (simp add: ring_bytes_def ring_index_def zero_ring_def)

lemma ring_block_set [simp]:
  "ring_p r \<noteq> None \<Longrightarrow> ring_block (ring_set_block r b) = b"
  "ring_block (r\<lparr>ring_size := n\<rparr>) = ring_block r"
  "ring_block (r\<lparr>ring_begin := n\<rparr>) = ring_block r"
  "ring_block (r\<lparr>ring_capacity := n\<rparr>) = ring_block r"
  "ring_block (r\<lparr>ring_p := Some b\<rparr>) = b"
  by (auto simp: ring_block_def ring_set_block_def split: option.splits)

lemma ring_set_block_fields [simp]:
  "ring_size (ring_set_block r b) = ring_size r"
  "ring_capacity (ring_set_block r b) = ring_capacity r"
  "ring_begin (ring_set_block r b) = ring_begin r"
  "ring_p (ring_set_block r b) = None \<longleftrightarrow> ring_p r = None"
  by (simp_all add: ring_set_block_def)


section \<open>Reading\<close>

text \<open>A well-placed value of the ring: two separate parts inside the block.\<close>

definition ring_value_ok :: "ring \<Rightarrow> parts \<Rightarrow> bool" where
  "ring_value_ok r v \<longleftrightarrow> length v = VALUE_PARTS \<and> inside (ring_capacity r) v \<and> separated v"

lemma ring_value_ok_zero [simp]: "ring_value_ok r zero_value"
  by (simp add: ring_value_ok_def inside_def zero_value_def zero_part_def extent_def)

lemma ring_get_ok:
  assumes inv: "ring_inv r" and fits: "loc_offset l + loc_size l \<le> ring_size r"
  shows "\<exists>v. ring_get r l latest = Inr v \<and> ring_value_ok r v \<and> value_size v = loc_size l \<and>
    addresses v = take (loc_size l)
      (drop (if latest then ring_size r - loc_size l - loc_offset l else loc_offset l) (ring_index r))"
proof (cases "loc_size l = 0")
  case True
  then show ?thesis using fits ring_invD [OF inv]
    by (auto simp: ring_get_def aret_def zero_value_def zero_part_def ring_value_ok_def inside_def extent_def)
next
  case False
  note D = ring_invD [OF inv]
  define c where "c = ring_capacity r - ring_begin r"
  define a where "a = (if latest then ring_size r - loc_size l - loc_offset l else loc_offset l)"
  define n where "n = loc_size l"
  have an: "a + n \<le> ring_size r" using fits by (auto simp: a_def n_def)
  have sub_c: "size_sub (ring_capacity r) (ring_begin r) = c" using D by (simp add: c_def)
  have sub_a: "(if latest then size_sub (size_sub (ring_size r) n) (loc_offset l) else loc_offset l) = a"
    using D fits by (auto simp: a_def n_def)
  have c: "c + ring_begin r = ring_capacity r" using D by (simp add: c_def)
  have c64: "c < 2 ^ 64" "a < 2 ^ 64" "n < 2 ^ 64" using c D an by linarith+
  have get: "ring_get r l latest =
      (if a \<le> c then
         if c - a = 0 then Inr [\<lparr>part_p = 0, part_size = n\<rparr>, zero_part]
         else if n \<le> c - a then Inr [\<lparr>part_p = ring_begin r + a, part_size = n\<rparr>, zero_part]
         else Inr [\<lparr>part_p = ring_begin r + a, part_size = c - a\<rparr>, \<lparr>part_p = 0, part_size = n - (c - a)\<rparr>]
       else Inr [\<lparr>part_p = a - c, part_size = n\<rparr>, zero_part])"
    using False fits D c64 by (auto simp: ring_get_def sub_c sub_a [unfolded n_def] n_def aret_def Let_def)
  have len: "length [ring_begin r..<ring_capacity r] = c" using D by (simp add: c_def)
  have index: "take n (drop a (ring_index r)) =
      take n (drop a ([ring_begin r..<ring_capacity r] @ [0..<ring_begin r]))"
    unfolding ring_index_def by (rule slice_take [OF an])
  note slice = slice_append [OF len, of a n "[0..<ring_begin r]"]
  note defs = ring_value_ok_def inside_def zero_part_def extent_def
  have "\<exists>v. ring_get r l latest = Inr v \<and> ring_value_ok r v \<and> value_size v = n \<and>
      addresses v = take n (drop a (ring_index r))"
  proof -
    consider "a = c" | "a < c" "n \<le> c - a" | "a < c" "c - a < n" | "c < a" by linarith
    then show ?thesis
    proof cases
      case 1
      have "n \<le> ring_capacity r" "n \<le> ring_begin r" using 1 an D c by linarith+
      then show ?thesis using 1 slice(2) unfolding index get by (simp add: defs take_upt)
    next
      case 2
      then have "ring_begin r + a + n \<le> ring_capacity r" using c by linarith
      with 2 show ?thesis using slice(1) unfolding index get by (simp add: defs take_upt)
    next
      case 3
      have le: "ring_begin r + a + (c - a) = ring_capacity r" "n - (c - a) \<le> ring_capacity r"
        "n - (c - a) \<le> ring_begin r" "n - (c - a) \<le> ring_begin r + a" using 3 c an D by linarith+
      have "separated [\<lparr>part_p = ring_begin r + a, part_size = c - a\<rparr>,
          \<lparr>part_p = 0, part_size = n - (c - a)\<rparr>]"
        using le(4) by (auto simp: extent_def)
      moreover have "addresses [\<lparr>part_p = ring_begin r + a, part_size = c - a\<rparr>,
          \<lparr>part_p = 0, part_size = n - (c - a)\<rparr>] = take n (drop a (ring_index r))"
        using slice(3) 3 le unfolding index by (simp add: take_upt)
      ultimately show ?thesis using 3 le unfolding get by (auto simp: ring_value_ok_def inside_def)
    next
      case 4
      have "a - c + n \<le> ring_begin r" "a - c + n \<le> ring_capacity r" using 4 an D c by linarith+
      with 4 show ?thesis using slice(2) c64 unfolding index get by (simp add: defs take_upt)
    qed
  qed
  then show ?thesis by (simp add: n_def a_def)
qed

lemma ring_get_too_far:
  assumes "loc_offset l + loc_size l < 2 ^ 64" and "ring_size r < loc_offset l + loc_size l"
  shows "ring_get r l latest = Inl (Failed ''Cannot get'')"
  using assms by (simp add: ring_get_def)

lemma ring_get_bytes:
  assumes "ring_inv r" and "loc_offset l + loc_size l \<le> ring_size r"
  shows "\<exists>v. ring_get r l latest = Inr v \<and> ring_value_ok r v \<and> value_size v = loc_size l \<and>
    vbytes (ring_memory r) v = take (loc_size l)
      (drop (if latest then ring_size r - loc_size l - loc_offset l else loc_offset l) (ring_bytes r))"
  using ring_get_ok [OF assms, of latest]
  by (auto simp: vbytes_addresses ring_bytes_def take_map drop_map)

lemma ring_get_all_ok:
  assumes "ring_inv r"
  shows "addresses (ring_get_all r) = ring_index r" and "ring_value_ok r (ring_get_all r)"
proof -
  note D = ring_invD [OF assms]
  define c where "c = ring_capacity r - ring_begin r"
  have sub: "size_sub (ring_capacity r) (ring_begin r) = c" "size_sub (ring_size r) c = ring_size r - c"
    if "c \<le> ring_size r"
    using D that by (auto simp: c_def)
  have sub': "size_sub (ring_capacity r) (ring_begin r) = c" using D by (simp add: c_def)
  have len: "length [ring_begin r..<ring_capacity r] = c" using D by (simp add: c_def)
  note slice = slice_append [OF len, of 0 "ring_size r" "[0..<ring_begin r]"]
  note defs = ring_value_ok_def inside_def zero_part_def extent_def
  have "addresses (ring_get_all r) = ring_index r \<and> ring_value_ok r (ring_get_all r)"
  proof (cases "ring_p r = None")
    case True
    then show ?thesis using D by (simp add: ring_get_all_def ring_index_def zero_value_def zero_part_def
          ring_value_ok_def inside_def extent_def)
  next
    case False
    show ?thesis
    proof (cases "ring_size r \<le> c")
      case True
      then have "ring_begin r + ring_size r \<le> ring_capacity r" using D by (simp add: c_def)
      then show ?thesis using False True slice(1)
        by (auto simp: ring_get_all_def sub' ring_index_def defs take_upt)
    next
      case wrap: False
      then have le: "ring_begin r + c = ring_capacity r" "ring_size r - c \<le> ring_begin r"
        "ring_size r - c \<le> ring_capacity r"
        using D by (auto simp: c_def)
      then show ?thesis using False wrap slice(3)
        by (auto simp: ring_get_all_def sub ring_index_def ring_value_ok_def inside_def extent_def take_upt)
    qed
  qed
  then show "addresses (ring_get_all r) = ring_index r" "ring_value_ok r (ring_get_all r)" by simp_all
qed

lemma ring_get_all_bytes:
  "ring_inv r \<Longrightarrow> vbytes (ring_memory r) (ring_get_all r) = ring_bytes r"
  by (simp add: vbytes_addresses ring_bytes_def ring_get_all_ok)

section \<open>Adding and removing\<close>

lemma ring_push_ok:
  assumes "ring_inv r" and "ring_size r + n \<le> ring_capacity r"
  shows "ring_push r n = Inr (r\<lparr>ring_size := ring_size r + n\<rparr>)"
    and "ring_inv (r\<lparr>ring_size := ring_size r + n\<rparr>)"
  using ring_invD [OF assms(1)] assms by (auto simp: ring_push_def ring_inv_def)

lemma ring_push_full:
  "ring_size r + n < 2 ^ 64 \<Longrightarrow> ring_capacity r < ring_size r + n \<Longrightarrow>
     ring_push r n = Inl (Failed ''Cannot push'')"
  by (simp add: ring_push_def)

text \<open>A push keeps the positions of the old contents and exposes new ones behind them.\<close>

lemma ring_index_pushed: "take (ring_size r) (ring_index (r\<lparr>ring_size := ring_size r + n\<rparr>)) = ring_index r"
  by (simp add: ring_index_def del: take_append)

lemma ring_push_get_ok:
  assumes "ring_inv r" and "ring_size r + n \<le> ring_capacity r"
  shows "\<exists>v. ring_push_get r n = Inr (r\<lparr>ring_size := ring_size r + n\<rparr>, v) \<and>
    ring_value_ok (r\<lparr>ring_size := ring_size r + n\<rparr>) v \<and> value_size v = n \<and>
    addresses v = drop (ring_size r) (ring_index (r\<lparr>ring_size := ring_size r + n\<rparr>))"
proof -
  let ?r = "r\<lparr>ring_size := ring_size r + n\<rparr>"
  have inv: "ring_inv ?r" using ring_push_ok [OF assms] by simp
  have "loc_offset \<lparr>loc_offset = 0, loc_size = n\<rparr> + loc_size \<lparr>loc_offset = 0, loc_size = n\<rparr> \<le> ring_size ?r"
    by simp
  from ring_get_ok [OF inv this, of True] obtain v where
    "ring_get ?r \<lparr>loc_offset = 0, loc_size = n\<rparr> True = Inr v" "ring_value_ok ?r v" "value_size v = n"
    "addresses v = take n (drop (ring_size r) (ring_index ?r))" by auto
  moreover have "take n (drop (ring_size r) (ring_index ?r)) = drop (ring_size r) (ring_index ?r)"
    using length_ring_index [OF inv] by simp
  ultimately show ?thesis using ring_push_ok [OF assms] by (simp add: ring_push_get_def)
qed

text \<open>Writing through a value of the ring changes these bytes and no others.\<close>

lemma ring_write_inside:
  assumes inv: "ring_inv r" and v: "inside (ring_capacity r) v" "separated v" and src: "value_size v \<le> length p"
  shows "\<exists>r'. ring_write r v p = Inr r' \<and> ring_inv r' \<and> ring_size r' = ring_size r \<and>
    ring_capacity r' = ring_capacity r \<and> ring_begin r' = ring_begin r \<and>
    vbytes (ring_memory r') v = take (value_size v) p \<and>
    (\<forall>i. i \<notin> set (addresses v) \<longrightarrow> ring_memory r' i = ring_memory r i)"
proof -
  have "inside (length (ring_block r)) v" "separated v"
    using v ring_invD [OF inv] by auto
  from value_write_spec [OF this src] obtain b where b: "value_write (ring_block r) v p = Some b"
    "length b = length (ring_block r)" "vbytes (nth b) v = take (value_size v) p"
    "\<forall>i. i \<notin> set (addresses v) \<longrightarrow> b ! i = ring_block r ! i" unfolding set_addresses by blast
  show ?thesis
  proof (cases "ring_p r")
    case None
    then have "b = []" "ring_block r = []" using b(2) by (auto simp: ring_block_def)
    then show ?thesis using b inv None
      by (auto simp: ring_write_def ring_set_block_def ring_memory_def ring_block_def ring_inv_def)
  next
    case (Some c)
    then have "ring_block (ring_set_block r b) = b" by simp
    then show ?thesis using b inv Some
      by (auto simp: ring_write_def ring_memory_def ring_inv_def)
  qed
qed

lemma ring_write_ok:
  assumes "ring_inv r" and "ring_value_ok r v" and "value_size v \<le> length p"
  shows "\<exists>r'. ring_write r v p = Inr r' \<and> ring_inv r' \<and> ring_size r' = ring_size r \<and>
    ring_capacity r' = ring_capacity r \<and> ring_begin r' = ring_begin r \<and>
    vbytes (ring_memory r') v = take (value_size v) p \<and>
    (\<forall>i. i \<notin> set (addresses v) \<longrightarrow> ring_memory r' i = ring_memory r i)"
  using assms by (intro ring_write_inside) (auto simp: ring_value_ok_def)


lemma ring_push_write_ok:
  assumes inv: "ring_inv r" and fits: "ring_size r + n \<le> ring_capacity r" and src: "n \<le> length p"
  shows "\<exists>r'. ring_push_write r n p = Inr r' \<and> ring_inv r' \<and> ring_bytes r' = ring_bytes r @ take n p \<and>
    ring_capacity r' = ring_capacity r \<and> ring_size r' = ring_size r + n"
proof -
  let ?r = "r\<lparr>ring_size := ring_size r + n\<rparr>"
  have inv': "ring_inv ?r" using ring_push_ok [OF inv fits] by simp
  obtain v where v: "ring_push_get r n = Inr (?r, v)" "ring_value_ok ?r v" "value_size v = n"
      "addresses v = drop (ring_size r) (ring_index ?r)"
    using ring_push_get_ok [OF inv fits] by blast
  obtain r' where r': "ring_write ?r v p = Inr r'" "ring_inv r'" "ring_size r' = ring_size r + n"
      "ring_capacity r' = ring_capacity r" "ring_begin r' = ring_begin r"
      "vbytes (ring_memory r') v = take n p"
      "\<forall>i. i \<notin> set (addresses v) \<longrightarrow> ring_memory r' i = ring_memory ?r i"
    using ring_write_ok [OF inv' v(2), of p] v(3) src by auto
  have index: "ring_index r' = ring_index r @ addresses v"
    using ring_index_pushed [of r n] append_take_drop_id [of "ring_size r" "ring_index ?r"] v(4) r'
    by (simp add: ring_index_def)
  have "distinct (ring_index r @ addresses v)" using distinct_ring_index [OF r'(2)] index by simp
  then have "map (ring_memory r') (ring_index r) = map (ring_memory ?r) (ring_index r)"
    using r'(7) by (auto simp: disjoint_iff)
  also have "\<dots> = ring_bytes r" by (simp add: ring_bytes_def ring_memory_def)
  finally have "ring_bytes r' = ring_bytes r @ take n p"
    using r'(6) by (simp add: ring_bytes_def [of r'] index vbytes_addresses)
  then show ?thesis using v r' by (simp add: ring_push_write_def)
qed

lemma ring_pop_index:
  assumes inv: "ring_inv r" and le: "n \<le> ring_size r"
  shows "\<exists>r'. ring_pop r n = Inr r' \<and> ring_inv r' \<and> ring_index r' = drop n (ring_index r) \<and>
    ring_size r' = ring_size r - n \<and> ring_capacity r' = ring_capacity r \<and> ring_memory r' = ring_memory r"
proof -
  note D = ring_invD [OF inv]
  define c where "c = ring_capacity r - ring_begin r"
  have sub: "size_sub (ring_capacity r) (ring_begin r) = c" using D by (simp add: c_def)
  define b where "b = (if n \<le> c then ring_begin r + n else n - c)"
  have bb: "b \<le> ring_capacity r" using D le by (auto simp: b_def c_def)
  have eqs: "(if n \<le> c then size_add (ring_begin r) n else size_sub n c) = b"
    "size_sub (ring_size r) n = ring_size r - n"
    using D le by (auto simp: b_def c_def)
  let ?r = "r\<lparr>ring_begin := b, ring_size := ring_size r - n\<rparr>"
  have pop: "ring_pop r n = (if ring_size r - n = 0 then Inr (?r\<lparr>ring_begin := 0\<rparr>) else Inr ?r)"
    using le eqs by (simp add: ring_pop_def sub)
  have drop: "drop n ([ring_begin r..<ring_capacity r] @ [0..<ring_begin r]) =
      [ring_begin r + n..<ring_capacity r] @ [n - c..<ring_begin r]"
    using D by (simp add: c_def)
  have "take (ring_size r - n) ([b..<ring_capacity r] @ [0..<b]) =
      take (ring_size r - n) ([ring_begin r + n..<ring_capacity r] @ [n - c..<ring_begin r])"
    using D le by (auto simp: b_def c_def take_upt min_def)
  then have index: "ring_index ?r = drop n (ring_index r)"
    by (simp add: ring_index_def drop_take drop del: take_append drop_append)
  have mem: "ring_memory ?r = ring_memory r" "ring_memory (?r\<lparr>ring_begin := 0\<rparr>) = ring_memory r"
    by (simp_all add: ring_memory_def)
  show ?thesis
  proof (cases "ring_size r - n = 0")
    case True
    moreover have "drop n (ring_index r) = []" using True length_ring_index [OF inv] by simp
    moreover have "ring_index (?r\<lparr>ring_begin := 0\<rparr>) = []" using True by (simp add: ring_index_def)
    moreover have "ring_inv (?r\<lparr>ring_begin := 0\<rparr>)" using D True by (auto simp: ring_inv_def)
    ultimately show ?thesis using pop mem le
      by (intro exI [of _ "?r\<lparr>ring_begin := 0\<rparr>"]) simp
  next
    case False
    moreover have "ring_inv ?r" using D bb by (auto simp: ring_inv_def)
    ultimately show ?thesis using pop index mem by (intro exI [of _ ?r]) simp
  qed
qed

lemma ring_pop_ok:
  assumes "ring_inv r" and "n \<le> ring_size r"
  shows "\<exists>r'. ring_pop r n = Inr r' \<and> ring_inv r' \<and> ring_bytes r' = drop n (ring_bytes r) \<and>
    ring_size r' = ring_size r - n \<and> ring_capacity r' = ring_capacity r"
  using ring_pop_index [OF assms] by (auto simp: ring_bytes_def drop_map)

lemma ring_pop_too_much: "ring_size r < n \<Longrightarrow> ring_pop r n = Inl (Failed ''Cannot pop'')"
  by (simp add: ring_pop_def)

lemma ring_pop_read_ok:
  assumes "ring_inv r" and "n \<le> ring_size r"
  shows "\<exists>r'. ring_pop_read r n = Inr (take n (ring_bytes r), r') \<and> ring_inv r' \<and>
    ring_bytes r' = drop n (ring_bytes r) \<and> ring_capacity r' = ring_capacity r"
proof -
  obtain v where "ring_get r \<lparr>loc_offset = 0, loc_size = n\<rparr> False = Inr v"
      "vbytes (ring_memory r) v = take n (ring_bytes r)"
    using ring_get_bytes [of r "\<lparr>loc_offset = 0, loc_size = n\<rparr>" False] assms by auto
  with ring_pop_ok [OF assms] show ?thesis by (auto simp: ring_pop_read_def value_read_eq)
qed

lemma ring_unpush_ok:
  assumes "ring_inv r" and "n \<le> ring_size r"
  shows "\<exists>r'. ring_unpush r n = Inr r' \<and> ring_inv r' \<and>
    ring_bytes r' = take (ring_size r - n) (ring_bytes r) \<and>
    ring_size r' = ring_size r - n \<and> ring_capacity r' = ring_capacity r"
proof -
  let ?r = "r\<lparr>ring_size := ring_size r - n\<rparr>"
  have "size_sub (ring_size r) n = ring_size r - n" using ring_invD [OF assms(1)] assms(2) by simp
  moreover have "ring_index ?r = take (ring_size r - n) (ring_index r)"
    by (simp add: ring_index_def min_absorb1 del: take_append)
  then have "ring_bytes ?r = take (ring_size r - n) (ring_bytes r)"
    by (simp add: ring_bytes_def take_map ring_memory_def)
  ultimately show ?thesis using assms by (auto simp: ring_unpush_def ring_inv_def)
qed


section \<open>Growing\<close>

lemma ring_expand_ok:
  assumes inv: "ring_inv r" and P: "length P = nc" "take (ring_capacity r) P = ring_block r"
    and nc: "capacity_ok nc" "ring_capacity r < nc"
  shows "\<exists>r'. ring_expand (r\<lparr>ring_p := Some P\<rparr>) nc = Inr r' \<and>
    ring_inv (r'\<lparr>ring_capacity := nc\<rparr>) \<and> ring_bytes (r'\<lparr>ring_capacity := nc\<rparr>) = ring_bytes r \<and>
    ring_size r' = ring_size r"
proof -
  note D = ring_invD [OF inv]
  define c where "c = ring_capacity r - ring_begin r"
  have nc64: "nc < 2 ^ 64" using capacity_ok_bound [OF nc(1)] by simp
  have sub: "size_sub (ring_capacity r) (ring_begin r) = c" using D by (simp add: c_def)
  have old: "drop (ring_begin r) (ring_block r) = take c (drop (ring_begin r) P)"
    "take (ring_begin r) (ring_block r) = take (ring_begin r) P"
    using P D by (auto simp: drop_take c_def min_absorb1 simp flip: P(2))
  have lens: "length (take c (drop (ring_begin r) P)) = c" using P nc D by (simp add: c_def)
  show ?thesis
  proof (cases "ring_size r \<le> c")
    case True
    let ?r = "r\<lparr>ring_p := Some P\<rparr>"
    have inv': "ring_inv (?r\<lparr>ring_capacity := nc\<rparr>)"
      using D P nc by (auto simp: ring_inv_def)
    have "ring_bytes (?r\<lparr>ring_capacity := nc\<rparr>) = ring_bytes r"
      using True P nc D unfolding ring_bytes_block [OF inv'] ring_bytes_block [OF inv] old
      by (simp add: c_def min_absorb1)
    then show ?thesis using True inv' sub by (intro exI [of _ ?r]) (simp add: ring_expand_def)
  next
    case False
    define e where "e = nc - ring_capacity r"
    have e: "size_sub nc (ring_capacity r) = e" "size_add (ring_begin r) e = ring_begin r + e"
      using D nc nc64 by (auto simp: e_def)
    define Q where "Q = take (ring_begin r + e) P @ take c (drop (ring_begin r) P)"
    let ?r = "r\<lparr>ring_p := Some Q, ring_begin := ring_begin r + e\<rparr>"
    have end_eq: "ring_begin r + e + c = nc" using D nc by (auto simp: e_def c_def)
    have move: "memmove P (ring_begin r + e) (ring_begin r) c = Some Q"
      using P D nc end_eq by (subst memmove_ok) (auto simp: Q_def c_def)
    have lenQ: "length Q = nc" using P end_eq lens by (simp add: Q_def)
    have exp: "ring_expand (r\<lparr>ring_p := Some P\<rparr>) nc = Inr ?r"
      using False e move by (simp add: ring_expand_def sub ring_set_block_def)
    have inv': "ring_inv (?r\<lparr>ring_capacity := nc\<rparr>)"
      using D nc lenQ end_eq by (auto simp: ring_inv_def ring_block_def)
    have blk: "ring_block (?r\<lparr>ring_capacity := nc\<rparr>) = Q" by (simp add: ring_block_def)
    have lt: "length (take (ring_begin r + e) P) = ring_begin r + e" using P end_eq by simp
    have cut: "drop (ring_begin r + e) Q = take c (drop (ring_begin r) P)"
      "take (ring_begin r + e) Q = take (ring_begin r + e) P"
      using lt by (simp_all add: Q_def del: length_take)
    have le: "ring_size r - c \<le> ring_begin r" "ring_size r - c \<le> ring_begin r + e"
      using False D by (auto simp: c_def)
    have "ring_bytes (?r\<lparr>ring_capacity := nc\<rparr>) = ring_bytes r"
      using False cut lens le unfolding ring_bytes_block [OF inv'] ring_bytes_block [OF inv] old blk
      by (simp add: min_absorb1 del: length_take)
    then show ?thesis using exp inv' by (intro exI [of _ ?r]) simp
  qed
qed

lemma ring_reserve_cases:
  assumes inv: "ring_inv r" and alloc: "realloc_ok realloc" and cap: "capacity \<le> 2 ^ 63"
  obtains (same) "ring_reserve realloc g r capacity = Inr (g, r)" "capacity \<le> ring_capacity r"
  | (fail) nc where "ring_reserve realloc g r capacity = Inl (Failed ''new_p != NULL'')"
      "realloc (ring_p r) nc = None" "ring_capacity r < nc"
  | (grown) r' where
      "ring_reserve realloc g r capacity =
         Inr (size_add g (ring_capacity r' - ring_capacity r), r')"
      "ring_inv r'" "ring_bytes r' = ring_bytes r" "ring_size r' = ring_size r"
      "capacity \<le> ring_capacity r'" "ring_capacity r < ring_capacity r'"
      "ring_capacity r' = 1 \<or> ring_capacity r' < 2 * capacity"
proof -
  note D = ring_invD [OF inv]
  obtain nc where nc: "grow capacity (start_capacity (ring_capacity r)) = Some nc" "capacity_ok nc"
      "0 < nc" "capacity \<le> nc" "ring_capacity r \<le> nc"
      "nc = start_capacity (ring_capacity r) \<or> nc < 2 * capacity"
    using grow_ok [OF D(4) cap] by metis
  show thesis
  proof (cases "nc = ring_capacity r")
    case True
    then show ?thesis using nc by (intro same) (auto simp: ring_reserve_def)
  next
    case False
    then have lt: "ring_capacity r < nc" using nc(5) by simp
    have sub: "size_sub nc (ring_capacity r) = nc - ring_capacity r"
      using lt capacity_ok_bound [OF nc(2)] by simp
    show ?thesis
    proof (cases "realloc (ring_p r) nc")
      case None
      then show ?thesis using nc lt by (intro fail) (auto simp: ring_reserve_def count_realloc_def)
    next
      case (Some P)
      have P: "length P = nc" using realloc_okD(1) [OF alloc Some] .
      have "take (ring_capacity r) P = ring_block r"
      proof (cases "ring_p r")
        case None
        then show ?thesis using D by (simp add: ring_block_def)
      next
        case blk: (Some b)
        then have "take (min (length b) nc) P = take nc b" "length b = ring_capacity r"
          using realloc_okD(2) [OF alloc, of b nc P] Some D by (simp_all add: ring_block_def)
        then show ?thesis using lt blk by (simp add: ring_block_def min_absorb1)
      qed
      from ring_expand_ok [OF inv P this nc(2) lt] obtain r' where r':
        "ring_expand (r\<lparr>ring_p := Some P\<rparr>) nc = Inr r'" "ring_inv (r'\<lparr>ring_capacity := nc\<rparr>)"
        "ring_bytes (r'\<lparr>ring_capacity := nc\<rparr>) = ring_bytes r" "ring_size r' = ring_size r" by blast
      have "nc = 1 \<or> nc < 2 * capacity" using nc(6) lt by (auto simp: start_capacity_def split: if_splits)
      then show ?thesis using Some nc lt r' sub
        by (intro grown [of "r'\<lparr>ring_capacity := nc\<rparr>"])
          (auto simp: ring_reserve_def count_realloc_def)
    qed
  qed
qed

text \<open>The growth loop starts at the present capacity: no call ever makes a ring smaller.\<close>

lemma ring_reserve_diverges:
  assumes "ring_inv r" and "2 ^ 63 < capacity"
  shows "ring_reserve realloc g r capacity = Inl Diverges"
  using grow_diverges [OF assms(2) ring_invD(4) [OF assms(1)]] by (simp add: ring_reserve_def)

lemma ring_finalize_ok:
  "snd (ring_finalize g r) = zero_ring"
  "ring_inv r \<Longrightarrow> g < 2 ^ 64 \<Longrightarrow> ring_capacity r \<le> g \<Longrightarrow> fst (ring_finalize g r) = g - ring_capacity r"
  using ring_invD [of r] by (auto simp: ring_finalize_def count_free_def)


section \<open>The ring is a byte queue\<close>

interpretation rq: byte_queue ring_inv ring_bytes ring_capacity ring_push_write ring_pop_read
proof unfold_locales
  fix q n and xs :: "byte list"
  assume "ring_inv q" "length (ring_bytes q) + n \<le> ring_capacity q" "n \<le> length xs"
  then show "\<exists>q'. ring_push_write q n xs = Inr q' \<and> ring_inv q' \<and>
      ring_bytes q' = ring_bytes q @ take n xs \<and> ring_capacity q' = ring_capacity q"
    using ring_push_write_ok [of q n xs] by auto
next
  fix q n
  assume "ring_inv q" "n \<le> length (ring_bytes q)"
  then show "\<exists>q'. ring_pop_read q n = Inr (take n (ring_bytes q), q') \<and> ring_inv q' \<and>
      ring_bytes q' = drop n (ring_bytes q) \<and> ring_capacity q' = ring_capacity q"
    using ring_pop_read_ok [of q n] by auto
qed

text \<open>
  The pattern of every caller that adds to a stream: reserve room for the new size, then
  push. It appends the bytes, or fails because the allocator did.
\<close>

definition ring_reserve_push :: "allocator \<Rightarrow> nat \<Rightarrow> ring \<Rightarrow> nat \<Rightarrow> byte list \<Rightarrow> (nat \<times> ring) result" where
  "ring_reserve_push realloc g r n p =
     pret (ring_reserve realloc g r (size_add (ring_size r) n)) (\<lambda>(g, r).
     pret (ring_push_write r n p) (\<lambda>r. Inr (g, r)))"

lemma ring_reserve_push_cases:
  assumes "ring_inv r" and "realloc_ok realloc" and "ring_size r + n \<le> 2 ^ 63" and "n \<le> length p"
  obtains (fail) "ring_reserve_push realloc g r n p = Inl (Failed ''new_p != NULL'')"
  | (ok) g' r' where "ring_reserve_push realloc g r n p = Inr (g', r')" "ring_inv r'"
      "ring_bytes r' = ring_bytes r @ take n p" "ring_size r' = ring_size r + n"
      "g' = size_add g (ring_capacity r' - ring_capacity r) \<or> g' = g \<and> ring_capacity r' = ring_capacity r"
proof -
  have add: "size_add (ring_size r) n = ring_size r + n" using assms(3) by simp
  from assms(1,2,3) show thesis
  proof (cases rule: ring_reserve_cases [where g = g])
    case same
    then show ?thesis using ring_push_write_ok [OF assms(1) same(2) assms(4)]
      by (auto simp: ring_reserve_push_def add intro: ok)
  next
    case (fail nc)
    then show ?thesis by (intro that(1)) (simp add: ring_reserve_push_def add)
  next
    case (grown r1)
    have "ring_size r1 + n \<le> ring_capacity r1" using grown by simp
    from ring_push_write_ok [OF grown(2) this assms(4)] show ?thesis
      using grown by (auto simp: ring_reserve_push_def add intro: ok)
  qed
qed

section \<open>Properties\<close>

text \<open>A ring whose contents \<^verbatim>\<open>cab\<close> wrap around the end of the block, for the witnesses.\<close>

definition sample_ring :: ring where
  "sample_ring = \<lparr>ring_p = Some ''bxca'', ring_size = 3, ring_capacity = 4, ring_begin = 2\<rparr>"

lemma sample_ring_facts:
  "ring_inv sample_ring" "ring_bytes sample_ring = ''cab''" "ring_capacity sample_ring = 4"
  "ring_size sample_ring = 3" "ring_p sample_ring = Some ''bxca''"
proof -
  have "capacity_ok (2 ^ 2)" by (rule capacity_ok_power) simp
  then show "ring_inv sample_ring" by (simp add: ring_inv_def sample_ring_def ring_block_def)
  show "ring_bytes sample_ring = ''cab''"
    by (simp add: ring_bytes_def ring_index_def ring_memory_def ring_block_def sample_ring_def upt_rec)
qed (simp_all add: sample_ring_def)

text \<open>
  C2: every sequence of pushes and pops that a bounded list allows runs on the ring
  without an error, gives the same output, leaves the same contents, and what came out followed
  by what is left is what was in the ring followed by what was pushed.
\<close>

theorem ring_refines_queue:
  assumes "ring_inv r" and "list_run (ring_capacity r) (ring_bytes r) ops = Some (out, rest)"
  shows "\<exists>r'. queue_run ring_push_write ring_pop_read r ops = Inr (out, r') \<and> ring_inv r' \<and>
    ring_bytes r' = rest \<and> ring_capacity r' = ring_capacity r \<and>
    out @ ring_bytes r' = ring_bytes r @ pushed ops"
  using rq.run_refines [OF assms] list_run_fifo [OF assms(2)] by auto

lemma ring_refines_queue_witness:
  "\<exists>r'. queue_run ring_push_write ring_pop_read sample_ring [Pop 2, Push ''xyz'', Pop 3] =
     Inr (''cabxy'', r') \<and> ring_bytes r' = ''z''"
  using ring_refines_queue [of sample_ring "[Pop 2, Push ''xyz'', Pop 3]" "''cabxy''" "''z''"]
  by (auto simp: sample_ring_facts)

text \<open>
  C3: \<^verbatim>\<open>ring_get\<close> succeeds exactly when the location lies within the contents, and then the
  two parts it returns lie inside the block, do not overlap and read the bytes of the location,
  counted from the beginning of the contents or, with \<^verbatim>\<open>latest\<close>, from their end.
\<close>

theorem ring_get_correct:
  assumes "ring_inv r" and "loc_offset l + loc_size l < 2 ^ 64"
  shows "if loc_offset l + loc_size l \<le> ring_size r
    then \<exists>v. ring_get r l latest = Inr v \<and> ring_value_ok r v \<and> value_size v = loc_size l \<and>
      vbytes (ring_memory r) v = take (loc_size l)
        (drop (if latest then ring_size r - loc_size l - loc_offset l else loc_offset l) (ring_bytes r))
    else ring_get r l latest = Inl (Failed ''Cannot get'')"
  using ring_get_bytes [OF assms(1)] ring_get_too_far [OF assms(2)] by simp

lemma ring_get_correct_witness:
  "\<exists>v. ring_get sample_ring \<lparr>loc_offset = 1, loc_size = 2\<rparr> False = Inr v \<and>
     vbytes (ring_memory sample_ring) v = ''ab''"
  using ring_get_correct [of sample_ring "\<lparr>loc_offset = 1, loc_size = 2\<rparr>" False]
  by (auto simp: sample_ring_facts)

text \<open>
  Reserving room for \<open>n\<close> more bytes and pushing them, the way every stream is written,
  either fails because the allocator returned no memory, or appends exactly these bytes; the
  counter of allocated memory moves with the capacity, which stays below twice the size needed
  or does not change. No byte is read or written outside the block.
\<close>

theorem ring_append:
  assumes "ring_inv r" and "realloc_ok realloc" and "ring_size r + length p \<le> 2 ^ 63" and "g < 2 ^ 64"
  shows "ring_reserve_push realloc g r (length p) p = Inl (Failed ''new_p != NULL'') \<or>
    (\<exists>r'. ring_reserve_push realloc g r (length p) p =
        Inr (size_add g (ring_capacity r' - ring_capacity r), r') \<and>
      ring_inv r' \<and> ring_bytes r' = ring_bytes r @ p \<and> ring_capacity r \<le> ring_capacity r' \<and>
      (ring_capacity r' = ring_capacity r \<or> ring_capacity r' = 1 \<or>
       ring_capacity r' < 2 * (ring_size r + length p)))"
proof -
  have add: "size_add (ring_size r) (length p) = ring_size r + length p" using assms(3) by simp
  from assms(1-3) show ?thesis
  proof (cases rule: ring_reserve_cases [where g = g and capacity = "ring_size r + length p"])
    case same
    then show ?thesis using ring_push_write_ok [OF assms(1) same(2), of p] assms(4)
      by (force simp: ring_reserve_push_def add)
  next
    case (fail nc)
    then show ?thesis by (simp add: ring_reserve_push_def add)
  next
    case (grown r1)
    have "ring_size r1 + length p \<le> ring_capacity r1" using grown by simp
    from ring_push_write_ok [OF grown(2) this order_refl] show ?thesis
      using grown by (force simp: ring_reserve_push_def add)
  qed
qed

lemma ring_reserve_push_zero:
  assumes "ring_inv r" and "ring_size r + length p \<le> 2 ^ 63"
  shows "ring_reserve_push realloc_zero g r (length p) p \<noteq> Inl (Failed ''new_p != NULL'')"
proof -
  have add: "size_add (ring_size r) (length p) = ring_size r + length p" using assms(2) by simp
  from assms(1) realloc_ok_zero assms(2) show ?thesis
  proof (cases rule: ring_reserve_cases [where g = g and capacity = "ring_size r + length p"])
    case same
    then show ?thesis using ring_push_write_ok [OF assms(1) same(2) order_refl]
      by (auto simp: ring_reserve_push_def add)
  next
    case (fail nc)
    then show ?thesis by (simp add: realloc_zero_def split: option.splits)
  next
    case (grown r1)
    have "ring_size r1 + length p \<le> ring_capacity r1" using grown by simp
    from ring_push_write_ok [OF grown(2) this order_refl] show ?thesis
      using grown by (auto simp: ring_reserve_push_def add)
  qed
qed

lemma ring_append_witness:
  "\<exists>g r'. ring_reserve_push realloc_zero 4 sample_ring (length ''xy'') ''xy'' = Inr (g, r') \<and>
     ring_bytes r' = ''cabxy''"
  using ring_append [of sample_ring realloc_zero "''xy''" 4] ring_reserve_push_zero [of sample_ring "''xy''" 4]
  by (auto simp: sample_ring_facts realloc_ok_zero)

text \<open>
  C8: \<^verbatim>\<open>ring_reserve\<close> with an allocator that honours its contract never shrinks the ring,
  keeps the contents on every return, and does not return at all for a capacity above
  \<open>2 ^ 63\<close>, where the doubled capacity wraps to 0.
\<close>

theorem ring_reserve_keeps:
  assumes "ring_inv r" and "realloc_ok realloc"
  shows "case ring_reserve realloc g r capacity of
      Inr (g', r') \<Rightarrow> capacity \<le> 2 ^ 63 \<and> ring_inv r' \<and> ring_bytes r' = ring_bytes r \<and>
        max capacity (ring_capacity r) \<le> ring_capacity r'
    | Inl Diverges \<Rightarrow> 2 ^ 63 < capacity
    | Inl (Failed m) \<Rightarrow> capacity \<le> 2 ^ 63 \<and> m = ''new_p != NULL''
    | Inl Undefined \<Rightarrow> False"
proof (cases "capacity \<le> 2 ^ 63")
  case True
  from assms True show ?thesis
  proof (cases rule: ring_reserve_cases [where g = g])
    case same
    then show ?thesis using True assms by simp
  next
    case (fail nc)
    then show ?thesis using True by simp
  next
    case (grown r')
    then show ?thesis using True by simp
  qed
next
  case False
  then show ?thesis using ring_reserve_diverges [OF assms(1)] by simp
qed

lemma ring_reserve_keeps_witness:
  "ring_reserve realloc_zero 4 sample_ring 0 = Inr (4, sample_ring) \<and> ring_inv sample_ring"
proof -
  have "ring_reserve realloc_zero 4 sample_ring 0 = Inr (4, sample_ring)"
    by (simp add: ring_reserve_def start_capacity_def grow.simps [of 0 4] sample_ring_facts)
  with ring_reserve_keeps [of sample_ring realloc_zero 4 0] show ?thesis
    by (simp add: sample_ring_facts realloc_ok_zero)
qed

end
