(* ===== verification/TS_Response.thy ===== *)
theory TS_Response
  imports TS_Error TS_Ring
begin

text \<open>
  \<^verbatim>\<open>struct Response\<close> and \<^verbatim>\<open>processor_construct_response\<close>: the metadata of a response,
  which waits in the client's response queue while the response itself is being sent. The queue
  is a byte ring; the structure enters it as its bytes, in the layout of the x86-64 ABI
  (little-endian, 88 bytes, the two padding bytes written as zero).
\<close>

section \<open>The structure\<close>

record response =
  rs_stream_size :: nat
  rs_size :: nat
  rs_method :: location
  rs_resource :: location
  rs_protocol :: location
  rs_chunks :: location
  rs_keep_alive :: bool
  rs_silent :: bool
  rs_first_chunk :: nat

definition zero_response :: response where
  "zero_response = \<lparr>rs_stream_size = 0, rs_size = 0, rs_method = zero_location, rs_resource = zero_location,
     rs_protocol = zero_location, rs_chunks = zero_location, rs_keep_alive = False, rs_silent = False,
     rs_first_chunk = 0\<rparr>"

definition sizeof_Response :: nat where "sizeof_Response = 88"

fun le_bytes :: "nat \<Rightarrow> nat \<Rightarrow> byte list" where
  "le_bytes 0 n = []"
| "le_bytes (Suc k) n = char_of (n mod 256) # le_bytes k (n div 256)"

fun le_value :: "byte list \<Rightarrow> nat" where
  "le_value [] = 0"
| "le_value (c # cs) = ord c + 256 * le_value cs"

definition bool_byte :: "bool \<Rightarrow> byte" where
  "bool_byte b = (if b then CHR 0x01 else NUL)"

definition location_bytes :: "location \<Rightarrow> byte list" where
  "location_bytes l = le_bytes 8 (loc_offset l) @ le_bytes 8 (loc_size l)"

definition location_of :: "byte list \<Rightarrow> location" where
  "location_of bs = \<lparr>loc_offset = le_value (take 8 bs), loc_size = le_value (take 8 (drop 8 bs))\<rparr>"

text \<open>\<^verbatim>\<open>(const char*)response\<close> and the read through \<^verbatim>\<open>(char*)&client->response\<close>.\<close>

definition response_bytes :: "response \<Rightarrow> byte list" where
  "response_bytes r = le_bytes 8 (rs_stream_size r) @ le_bytes 8 (rs_size r) @
     location_bytes (rs_method r) @ location_bytes (rs_resource r) @ location_bytes (rs_protocol r) @
     location_bytes (rs_chunks r) @ [bool_byte (rs_keep_alive r), bool_byte (rs_silent r), NUL, NUL] @
     le_bytes 4 (rs_first_chunk r)"

definition response_of :: "byte list \<Rightarrow> response" where
  "response_of bs = \<lparr>rs_stream_size = le_value (take 8 bs), rs_size = le_value (take 8 (drop 8 bs)),
     rs_method = location_of (drop 16 bs), rs_resource = location_of (drop 32 bs),
     rs_protocol = location_of (drop 48 bs), rs_chunks = location_of (drop 64 bs),
     rs_keep_alive = (bs ! 80 \<noteq> NUL), rs_silent = (bs ! 81 \<noteq> NUL),
     rs_first_chunk = le_value (take 4 (drop 84 bs))\<rparr>"

definition location_fits :: "location \<Rightarrow> bool" where
  "location_fits l \<longleftrightarrow> loc_offset l < 2 ^ 64 \<and> loc_size l < 2 ^ 64"

definition response_fits :: "response \<Rightarrow> bool" where
  "response_fits r \<longleftrightarrow> rs_stream_size r < 2 ^ 64 \<and> rs_size r < 2 ^ 64 \<and> location_fits (rs_method r) \<and>
     location_fits (rs_resource r) \<and> location_fits (rs_protocol r) \<and> location_fits (rs_chunks r) \<and>
     rs_first_chunk r < 2 ^ 32"

lemma length_le_bytes [simp]: "length (le_bytes k n) = k"
  by (induction k arbitrary: n) simp_all

lemma le_value_bytes: "n < 256 ^ k \<Longrightarrow> le_value (le_bytes k n) = n"
proof (induction k arbitrary: n)
  case (Suc k)
  then have "n div 256 < 256 ^ k" by (simp add: less_mult_imp_div_less mult.commute)
  then show ?case using Suc.IH by (simp add: mult_div_mod_eq [symmetric])
qed simp

lemma le_value_8: "n < 2 ^ 64 \<Longrightarrow> le_value (le_bytes 8 n) = n"
  by (rule le_value_bytes) simp

lemma le_value_4: "n < 2 ^ 32 \<Longrightarrow> le_value (le_bytes 4 n) = n"
  by (rule le_value_bytes) simp

lemma length_location_bytes [simp]: "length (location_bytes l) = 16"
  by (simp add: location_bytes_def)

lemma location_of_bytes: "location_fits l \<Longrightarrow> location_of (location_bytes l @ bs) = l"
  by (simp add: location_of_def location_bytes_def location_fits_def le_value_8)

lemma length_response_bytes [simp]: "length (response_bytes r) = sizeof_Response"
  by (simp add: response_bytes_def sizeof_Response_def)

lemma bool_byte_iff [simp]: "bool_byte b \<noteq> NUL \<longleftrightarrow> b"
  by (simp add: bool_byte_def)

lemma response_of_bytes:
  assumes "response_fits r"
  shows "response_of (response_bytes r @ bs) = r"
proof -
  note fits = assms [unfolded response_fits_def]
  show ?thesis using fits
    by (simp add: response_of_def response_bytes_def nth_append le_value_8 le_value_4 location_of_bytes)
qed

section \<open>Constructing a response\<close>

text \<open>
  \<^verbatim>\<open>for (i = 0; i < VALUE_PARTS; i++) EXPRETF(ring_push_write(...), PARTIAL_EEF_DIE)\<close>; the
  parts point into the memory \<open>m\<close>.
\<close>

fun push_parts :: "flags \<Rightarrow> memory \<Rightarrow> ring \<Rightarrow> parts \<Rightarrow> ring exresult" where
  "push_parts flags m q [] = Inr q"
| "push_parts flags m q (p # v) =
     expretf (ring_push_write q (part_size p) (pbytes m p)) flags (\<lambda>q. push_parts flags m q v)"

definition response_header ::
    "nat \<Rightarrow> bool \<Rightarrow> nat \<Rightarrow> nat \<Rightarrow> parts \<Rightarrow> parts \<Rightarrow> parts \<Rightarrow> response" where
  "response_header the_stream_size keep_alive first_chunk chunk_number method_value resource_value protocol_value =
     (let r = zero_response\<lparr>rs_stream_size := the_stream_size, rs_keep_alive := keep_alive,
                rs_first_chunk := first_chunk, rs_silent := False, rs_size := 0\<rparr>;
          r = r\<lparr>rs_method := \<lparr>loc_offset = rs_size r, loc_size = value_size method_value\<rparr>\<rparr>;
          r = r\<lparr>rs_size := size_add (rs_size r) (loc_size (rs_method r))\<rparr>;
          r = r\<lparr>rs_resource := \<lparr>loc_offset = rs_size r, loc_size = value_size resource_value\<rparr>\<rparr>;
          r = r\<lparr>rs_size := size_add (rs_size r) (loc_size (rs_resource r))\<rparr>;
          r = r\<lparr>rs_protocol := \<lparr>loc_offset = rs_size r, loc_size = value_size protocol_value\<rparr>\<rparr>;
          r = r\<lparr>rs_size := size_add (rs_size r) (loc_size (rs_protocol r))\<rparr>;
          r = r\<lparr>rs_chunks := \<lparr>loc_offset = rs_size r, loc_size = chunk_number\<rparr>\<rparr>
      in r\<lparr>rs_size := size_add (rs_size r) (loc_size (rs_chunks r))\<rparr>)"

text \<open>
  Returns the error or the response with the allocation counter and the queue. The last step is
  \<^verbatim>\<open>memset\<close> of both parts of the chunks with zero.
\<close>

definition processor_construct_response ::
    "allocator \<Rightarrow> nat \<Rightarrow> memory \<Rightarrow> ring \<Rightarrow> nat \<Rightarrow> bool \<Rightarrow> nat \<Rightarrow> nat \<Rightarrow> parts \<Rightarrow> parts \<Rightarrow> parts \<Rightarrow>
     (response \<times> nat \<times> ring) exresult" where
  "processor_construct_response realloc g m queue the_stream_size keep_alive first_chunk chunk_number
       method_value resource_value protocol_value =
     (let r = response_header the_stream_size keep_alive first_chunk chunk_number
                method_value resource_value protocol_value
      in expretf (ring_reserve realloc g queue (size_add (size_add (ring_size queue) sizeof_Response) (rs_size r)))
           (EEF_SEND_SHUTDOWN_LOG FR_UNKNOWN) (\<lambda>(g, q).
         expretf (ring_push_write q sizeof_Response (response_bytes r)) PARTIAL_EEF_DIE (\<lambda>q.
         expret (push_parts PARTIAL_EEF_DIE m q method_value) (\<lambda>q.
         expret (push_parts PARTIAL_EEF_DIE m q resource_value) (\<lambda>q.
         expret (push_parts PARTIAL_EEF_DIE m q protocol_value) (\<lambda>q.
         expretf (ring_push_get q (loc_size (rs_chunks r))) PARTIAL_EEF_DIE (\<lambda>(q, chunks).
         expretf (ring_write q chunks (replicate (value_size chunks) NUL)) PARTIAL_EEF_DIE (\<lambda>q.
         Inr (r, g, q)))))))))"

lemma length_pbytes': "length (pbytes m p) = part_size p"
  by (simp add: pbytes_def)

lemma push_parts_ok:
  assumes "ring_inv q" and "ring_size q + value_size v \<le> ring_capacity q"
  shows "\<exists>q'. push_parts flags m q v = Inr q' \<and> ring_inv q' \<and> ring_bytes q' = ring_bytes q @ vbytes m v \<and>
    ring_size q' = ring_size q + value_size v \<and> ring_capacity q' = ring_capacity q"
  using assms
proof (induction v arbitrary: q)
  case (Cons p v)
  have fits: "ring_size q + part_size p \<le> ring_capacity q" "part_size p \<le> length (pbytes m p)"
    using Cons.prems(2) by (simp_all add: length_pbytes')
  from ring_push_write_ok [OF Cons.prems(1) fits] obtain q1 where q1:
    "ring_push_write q (part_size p) (pbytes m p) = Inr q1" "ring_inv q1"
    "ring_bytes q1 = ring_bytes q @ pbytes m p" "ring_capacity q1 = ring_capacity q"
    "ring_size q1 = ring_size q + part_size p" by (auto simp: length_pbytes')
  then have "ring_size q1 + value_size v \<le> ring_capacity q1" using Cons.prems(2) by simp
  from Cons.IH [OF q1(2) this] q1 show ?case by auto
qed simp

lemma ring_push_zero_ok:
  assumes "ring_inv q" and "ring_size q + n \<le> ring_capacity q"
  shows "\<exists>q1 v q2. ring_push_get q n = Inr (q1, v) \<and> ring_write q1 v (replicate (value_size v) NUL) = Inr q2 \<and>
    ring_inv q2 \<and> ring_bytes q2 = ring_bytes q @ replicate n NUL \<and> ring_size q2 = ring_size q + n \<and>
    ring_capacity q2 = ring_capacity q"
proof -
  from ring_push_get_ok [OF assms] obtain v where
    v: "ring_push_get q n = Inr (q\<lparr>ring_size := ring_size q + n\<rparr>, v)" "value_size v = n" by blast
  from ring_push_write_ok [OF assms, of "replicate n NUL"] obtain q2 where
    "ring_push_write q n (replicate n NUL) = Inr q2" "ring_inv q2"
    "ring_bytes q2 = ring_bytes q @ replicate n NUL" "ring_size q2 = ring_size q + n"
    "ring_capacity q2 = ring_capacity q" by auto
  then show ?thesis using v by (auto simp: ring_push_write_def)
qed

lemma response_header_sizes:
  assumes "value_size mv + value_size rv + value_size pv + chunks < 2 ^ 64"
  shows "rs_size (response_header n ka fc chunks mv rv pv) = value_size mv + value_size rv + value_size pv + chunks"
    and "loc_size (rs_chunks (response_header n ka fc chunks mv rv pv)) = chunks"
    and "loc_offset (rs_chunks (response_header n ka fc chunks mv rv pv)) = value_size mv + value_size rv + value_size pv"
    and "rs_method (response_header n ka fc chunks mv rv pv) = \<lparr>loc_offset = 0, loc_size = value_size mv\<rparr>"
    and "rs_resource (response_header n ka fc chunks mv rv pv) = \<lparr>loc_offset = value_size mv, loc_size = value_size rv\<rparr>"
    and "rs_stream_size (response_header n ka fc chunks mv rv pv) = n"
    and "rs_keep_alive (response_header n ka fc chunks mv rv pv) = ka"
    and "\<not> rs_silent (response_header n ka fc chunks mv rv pv)"
  using assms by (simp_all add: response_header_def Let_def zero_response_def)

lemma response_header_fits:
  assumes "value_size mv + value_size rv + value_size pv + chunks < 2 ^ 64" and "n < 2 ^ 64" and "fc < 2 ^ 32"
  shows "response_fits (response_header n ka fc chunks mv rv pv)"
  using assms by (simp add: response_header_def Let_def zero_response_def response_fits_def location_fits_def)

lemma construct_response_cases:
  assumes "ring_inv queue" and "realloc_ok realloc"
    and "ring_size queue + sizeof_Response + value_size mv + value_size rv + value_size pv + chunks \<le> 2 ^ 63"
  obtains (fail) "processor_construct_response realloc g m queue n ka fc chunks mv rv pv =
      Inl \<lparr>ex_error = Failed ''new_p != NULL'', ex_flags = EEF_SEND_SHUTDOWN_LOG FR_UNKNOWN\<rparr>"
  | (ok) g' q' where "processor_construct_response realloc g m queue n ka fc chunks mv rv pv =
      Inr (response_header n ka fc chunks mv rv pv, g', q')"
    "ring_inv q'"
    "ring_bytes q' = ring_bytes queue @ response_bytes (response_header n ka fc chunks mv rv pv) @
       vbytes m mv @ vbytes m rv @ vbytes m pv @ replicate chunks NUL"
proof -
  let ?h = "response_header n ka fc chunks mv rv pv"
  define total where "total = value_size mv + value_size rv + value_size pv + chunks"
  have le: "ring_size queue + sizeof_Response + total \<le> 2 ^ 63" using assms(3) by (simp add: total_def)
  have lt: "value_size mv + value_size rv + value_size pv + chunks < 2 ^ 64"
    using le by (simp add: total_def)
  have size: "rs_size ?h = total" using response_header_sizes(1) [OF lt] by (simp add: total_def)
  have csize: "loc_size (rs_chunks ?h) = chunks" by (rule response_header_sizes(2) [OF lt])
  have add: "size_add (size_add (ring_size queue) sizeof_Response) (rs_size ?h) =
      ring_size queue + sizeof_Response + total" using le by (simp add: size)
  have run: "\<exists>q'. expretf (ring_push_write q sizeof_Response (response_bytes ?h)) PARTIAL_EEF_DIE (\<lambda>q.
         expret (push_parts PARTIAL_EEF_DIE m q mv) (\<lambda>q.
         expret (push_parts PARTIAL_EEF_DIE m q rv) (\<lambda>q.
         expret (push_parts PARTIAL_EEF_DIE m q pv) (\<lambda>q.
         expretf (ring_push_get q chunks) PARTIAL_EEF_DIE (\<lambda>(q, cs).
         expretf (ring_write q cs (replicate (value_size cs) NUL)) PARTIAL_EEF_DIE (\<lambda>q. Inr (?h, g', q))))))) =
       Inr (?h, g', q') \<and> ring_inv q' \<and>
       ring_bytes q' = ring_bytes q @ response_bytes ?h @ vbytes m mv @ vbytes m rv @ vbytes m pv @ replicate chunks NUL"
    if q: "ring_inv q" "ring_size q + sizeof_Response + total \<le> ring_capacity q" for q g'
  proof -
    have "ring_size q + sizeof_Response \<le> ring_capacity q" "sizeof_Response \<le> length (response_bytes ?h)"
      using q(2) by simp_all
    from ring_push_write_ok [OF q(1) this] obtain q1 where q1:
      "ring_push_write q sizeof_Response (response_bytes ?h) = Inr q1" "ring_inv q1"
      "ring_bytes q1 = ring_bytes q @ response_bytes ?h" "ring_capacity q1 = ring_capacity q"
      "ring_size q1 = ring_size q + sizeof_Response" by auto
    have "ring_size q1 + value_size mv \<le> ring_capacity q1" using q q1 by (simp add: total_def)
    from push_parts_ok [OF q1(2) this, of PARTIAL_EEF_DIE m] obtain q2 where q2:
      "push_parts PARTIAL_EEF_DIE m q1 mv = Inr q2" "ring_inv q2" "ring_bytes q2 = ring_bytes q1 @ vbytes m mv"
      "ring_size q2 = ring_size q1 + value_size mv" "ring_capacity q2 = ring_capacity q1" by blast
    have "ring_size q2 + value_size rv \<le> ring_capacity q2" using q q1 q2 by (simp add: total_def)
    from push_parts_ok [OF q2(2) this, of PARTIAL_EEF_DIE m] obtain q3 where q3:
      "push_parts PARTIAL_EEF_DIE m q2 rv = Inr q3" "ring_inv q3" "ring_bytes q3 = ring_bytes q2 @ vbytes m rv"
      "ring_size q3 = ring_size q2 + value_size rv" "ring_capacity q3 = ring_capacity q2" by blast
    have "ring_size q3 + value_size pv \<le> ring_capacity q3" using q q1 q2 q3 by (simp add: total_def)
    from push_parts_ok [OF q3(2) this, of PARTIAL_EEF_DIE m] obtain q4 where q4:
      "push_parts PARTIAL_EEF_DIE m q3 pv = Inr q4" "ring_inv q4" "ring_bytes q4 = ring_bytes q3 @ vbytes m pv"
      "ring_size q4 = ring_size q3 + value_size pv" "ring_capacity q4 = ring_capacity q3" by blast
    have "ring_size q4 + chunks \<le> ring_capacity q4" using q q1 q2 q3 q4 by (simp add: total_def)
    from ring_push_zero_ok [OF q4(2) this] obtain q5 cs q6 where
      "ring_push_get q4 chunks = Inr (q5, cs)" "ring_write q5 cs (replicate (value_size cs) NUL) = Inr q6"
      "ring_inv q6" "ring_bytes q6 = ring_bytes q4 @ replicate chunks NUL" by blast
    with q1 q2 q3 q4 show ?thesis by auto
  qed
  note defs = processor_construct_response_def Let_def add csize
  from assms(1,2) le show thesis
  proof (cases rule: ring_reserve_cases [where g = g])
    case same
    then show ?thesis using run [OF assms(1), of g] by (auto simp: defs intro: ok)
  next
    case (fail nc)
    then show ?thesis by (intro that(1)) (simp add: defs exerror_append_extend_def)
  next
    case (grown q')
    have "ring_size q' + sizeof_Response + total \<le> ring_capacity q'" using grown by simp
    from run [OF grown(2) this, of "size_add g (ring_capacity q' - ring_capacity queue)"] grown(1,3)
    show ?thesis by (auto simp: defs intro: ok)
  qed
qed

end
