(* ===== verification/TS_Constants.thy ===== *)
theory TS_Constants
  imports TS_Prelude
begin

text \<open>
  \<^verbatim>\<open>include/constants.h\<close>: the limits the server enforces, in bytes and seconds, and the
  numbering of the accepting sockets (two for each protocol, IPv4 and IPv6).
\<close>

definition MAX_CLIENTS :: nat where "MAX_CLIENTS = 256"
definition MAX_MEMORY_USAGE :: nat where "MAX_MEMORY_USAGE = 1073741824"
definition MAX_REQUEST_STREAM_SIZE :: nat where "MAX_REQUEST_STREAM_SIZE = 1048576"
definition MAX_RESPONSE_STREAM_SIZE :: nat where "MAX_RESPONSE_STREAM_SIZE = 1048576"
definition MAX_AVAILABLE_REQUEST_STREAM :: nat where "MAX_AVAILABLE_REQUEST_STREAM = 2 * 1048576"
definition MAX_REQUEST_SIZE :: nat where "MAX_REQUEST_SIZE = 1048576"
definition MAX_INCOMPLETE_REQUEST_TIME :: int where "MAX_INCOMPLETE_REQUEST_TIME = 60"
definition MAX_EMPTY_REQUEST_STREAM_TIME :: int where "MAX_EMPTY_REQUEST_STREAM_TIME = 10 * 60"
definition MAX_FULL_RESPONSE_STREAM_TIME :: int where "MAX_FULL_RESPONSE_STREAM_TIME = 60"
definition MAX_INCOMPLETE_RESPONSE_TIME :: int where "MAX_INCOMPLETE_RESPONSE_TIME = 60"
definition MIN_AVAILABLE_REQUEST_STREAM :: nat where "MIN_AVAILABLE_REQUEST_STREAM = 4096"
definition CHUNK_SEND_REPEAT_TIME :: int where "CHUNK_SEND_REPEAT_TIME = 1"
definition CHUNK_SEND_REPEATS :: nat where "CHUNK_SEND_REPEATS = 4"
definition CHUNK_SEND_SIMULTANEOUS :: nat where "CHUNK_SEND_SIMULTANEOUS = 4"
definition CHUNK_SIZE :: nat where "CHUNK_SIZE = 512"
definition ACCEPTING_SOCKETS :: nat where "ACCEPTING_SOCKETS = 18"

lemmas constants = MAX_CLIENTS_def MAX_MEMORY_USAGE_def MAX_REQUEST_STREAM_SIZE_def
  MAX_RESPONSE_STREAM_SIZE_def MAX_AVAILABLE_REQUEST_STREAM_def MAX_REQUEST_SIZE_def
  MAX_INCOMPLETE_REQUEST_TIME_def MAX_EMPTY_REQUEST_STREAM_TIME_def
  MAX_FULL_RESPONSE_STREAM_TIME_def MAX_INCOMPLETE_RESPONSE_TIME_def
  MIN_AVAILABLE_REQUEST_STREAM_def CHUNK_SEND_REPEAT_TIME_def CHUNK_SEND_REPEATS_def
  CHUNK_SEND_SIMULTANEOUS_def CHUNK_SIZE_def ACCEPTING_SOCKETS_def

section \<open>Accepting sockets\<close>

definition ACCEPTING_SOCKET_IS_HTTP :: "nat \<Rightarrow> bool" where
  "ACCEPTING_SOCKET_IS_HTTP i \<longleftrightarrow> i < 2"
definition ACCEPTING_SOCKET_IS_HTTPS :: "nat \<Rightarrow> bool" where
  "ACCEPTING_SOCKET_IS_HTTPS i \<longleftrightarrow> i \<ge> 2 \<and> i < 4"
definition ACCEPTING_SOCKET_IS_GOPHER :: "nat \<Rightarrow> bool" where
  "ACCEPTING_SOCKET_IS_GOPHER i \<longleftrightarrow> i \<ge> 4 \<and> i < 6"
definition ACCEPTING_SOCKET_IS_FINGER :: "nat \<Rightarrow> bool" where
  "ACCEPTING_SOCKET_IS_FINGER i \<longleftrightarrow> i \<ge> 6 \<and> i < 8"
definition ACCEPTING_SOCKET_IS_GEMINI :: "nat \<Rightarrow> bool" where
  "ACCEPTING_SOCKET_IS_GEMINI i \<longleftrightarrow> i \<ge> 8 \<and> i < 10"
definition ACCEPTING_SOCKET_IS_SPARTAN :: "nat \<Rightarrow> bool" where
  "ACCEPTING_SOCKET_IS_SPARTAN i \<longleftrightarrow> i \<ge> 10 \<and> i < 12"
definition ACCEPTING_SOCKET_IS_NEX :: "nat \<Rightarrow> bool" where
  "ACCEPTING_SOCKET_IS_NEX i \<longleftrightarrow> i \<ge> 12 \<and> i < 14"
definition ACCEPTING_SOCKET_IS_TEXT :: "nat \<Rightarrow> bool" where
  "ACCEPTING_SOCKET_IS_TEXT i \<longleftrightarrow> i \<ge> 14 \<and> i < 16"
definition ACCEPTING_SOCKET_IS_GUPPY :: "nat \<Rightarrow> bool" where
  "ACCEPTING_SOCKET_IS_GUPPY i \<longleftrightarrow> i \<ge> 16"
definition ACCEPTING_SOCKET_IS_CONNECTION :: "nat \<Rightarrow> bool" where
  "ACCEPTING_SOCKET_IS_CONNECTION i \<longleftrightarrow> i < 16"
definition ACCEPTING_SOCKET_IS_MESSAGE :: "nat \<Rightarrow> bool" where
  "ACCEPTING_SOCKET_IS_MESSAGE i \<longleftrightarrow> i \<ge> 16"

lemmas accepting_socket_defs = ACCEPTING_SOCKET_IS_HTTP_def ACCEPTING_SOCKET_IS_HTTPS_def
  ACCEPTING_SOCKET_IS_GOPHER_def ACCEPTING_SOCKET_IS_FINGER_def ACCEPTING_SOCKET_IS_GEMINI_def
  ACCEPTING_SOCKET_IS_SPARTAN_def ACCEPTING_SOCKET_IS_NEX_def ACCEPTING_SOCKET_IS_TEXT_def
  ACCEPTING_SOCKET_IS_GUPPY_def ACCEPTING_SOCKET_IS_CONNECTION_def ACCEPTING_SOCKET_IS_MESSAGE_def

end
