(* ===== verification/TS_Tables.thy ===== *)
theory TS_Tables
  imports TS_Error
begin

text \<open>
  \<^verbatim>\<open>include/tables.h\<close> and \<^verbatim>\<open>tables_module_initialize\<close> of \<^verbatim>\<open>source/tables.c\<close>: the map from
  bytes to the character classes the parsers test. The map is built by the same sequence of
  updates as in the code; \<open>class_iff\<close> then says which bytes each class holds. The two
  \<^verbatim>\<open>language.c\<close> functions that build links follow.
\<close>

section \<open>The character map\<close>

type_synonym character_map = "byte \<Rightarrow> 8 word"

definition CM_SPACE :: "8 word" where "CM_SPACE = 1"
definition CM_NEWLINE :: "8 word" where "CM_NEWLINE = 2"
definition CM_METHOD :: "8 word" where "CM_METHOD = 4"
definition CM_RESOURCE :: "8 word" where "CM_RESOURCE = 8"
definition CM_PROTOCOL :: "8 word" where "CM_PROTOCOL = 16"
definition CM_NAME :: "8 word" where "CM_NAME = 32"
definition CM_VALUE :: "8 word" where "CM_VALUE = 64"
definition CM_DOMAIN :: "8 word" where "CM_DOMAIN = 128"

text \<open>\<^verbatim>\<open>for (c = first; c <= last; c++) character_map[c] |= flag\<close>, and over a string.\<close>

definition mark_string :: "byte list \<Rightarrow> 8 word \<Rightarrow> character_map \<Rightarrow> character_map" where
  "mark_string s flag m = fold (\<lambda>c m. m(c := m c OR flag)) s m"

definition mark_range :: "byte \<Rightarrow> byte \<Rightarrow> 8 word \<Rightarrow> character_map \<Rightarrow> character_map" where
  "mark_range lo hi flag m = mark_string (map char_of [ord lo..<Suc (ord hi)]) flag m"

text \<open>The string of the symbols allowed in a method and in a name; byte \<^verbatim>\<open>0x27\<close> is the apostrophe.\<close>

definition token_symbols :: "byte list" where
  "token_symbols = ''!#$%&'' @ [CHR 0x27] @ ''*+-.^_'' @ [CHR 0x27] @ ''|~''"

definition tables_module_initialize :: character_map where
  "tables_module_initialize =
     (let m = (\<lambda>_. 0);
          m = m(CHR '' '' := m CHR '' '' OR CM_SPACE);
          m = m(TAB := m TAB OR CM_SPACE);
          m = m(VT := m VT OR CM_SPACE);
          m = m(LF := m LF OR CM_NEWLINE);
          m = m(CR := m CR OR CM_NEWLINE);
          m = mark_range CHR ''A'' CHR ''Z'' CM_METHOD m;
          m = mark_range CHR ''a'' CHR ''z'' CM_METHOD m;
          m = mark_range CHR ''0'' CHR ''9'' CM_METHOD m;
          m = mark_string token_symbols CM_METHOD m;
          m = mark_range CHR ''!'' CHR ''~'' CM_RESOURCE m;
          m = mark_string ''HTTP/1.0'' CM_PROTOCOL m;
          m = mark_range CHR ''A'' CHR ''Z'' CM_NAME m;
          m = mark_range CHR ''a'' CHR ''z'' CM_NAME m;
          m = mark_range CHR ''0'' CHR ''9'' CM_NAME m;
          m = mark_string token_symbols CM_NAME m;
          m = mark_range CHR '' '' CHR ''~'' CM_VALUE m;
          m = mark_range CHR ''A'' CHR ''Z'' CM_DOMAIN m;
          m = mark_range CHR ''a'' CHR ''z'' CM_DOMAIN m;
          m = mark_range CHR ''0'' CHR ''9'' CM_DOMAIN m
      in mark_string ''-.'' CM_DOMAIN m)"

text \<open>\<^verbatim>\<open>character_map[c] & flag\<close> as a condition\<close>

definition is_class :: "8 word \<Rightarrow> byte \<Rightarrow> bool" where
  "is_class flag c \<longleftrightarrow> tables_module_initialize c AND flag \<noteq> 0"

lemmas cm_defs = CM_SPACE_def CM_NEWLINE_def CM_METHOD_def CM_RESOURCE_def CM_PROTOCOL_def
  CM_NAME_def CM_VALUE_def CM_DOMAIN_def

lemma mark_string_apply: "mark_string s flag m c = (if c \<in> set s then m c OR flag else m c)"
  unfolding mark_string_def
  by (induction s arbitrary: m) (auto simp: or.assoc)

lemma ord_char_of: "n < 256 \<Longrightarrow> ord (char_of n) = n"
  by simp

lemma in_range_iff: "c \<in> set (map char_of [ord a..<Suc (ord b)]) \<longleftrightarrow> ord a \<le> ord c \<and> ord c \<le> ord b"
proof
  assume "c \<in> set (map char_of [ord a..<Suc (ord b)])"
  then obtain n where n: "c = char_of n" "ord a \<le> n" "n \<le> ord b" by auto
  moreover have "ord b < 256" by (rule nat_of_char_less_256)
  ultimately have "n < 256" by linarith
  then have "ord c = n" using n by (simp add: ord_char_of)
  then show "ord a \<le> ord c \<and> ord c \<le> ord b" using n by simp
next
  assume "ord a \<le> ord c \<and> ord c \<le> ord b"
  then have "ord c \<in> {ord a..<Suc (ord b)}" by simp
  then show "c \<in> set (map char_of [ord a..<Suc (ord b)])"
    unfolding set_map set_upt by (rule image_eqI [rotated]) simp
qed

lemma mark_range_apply:
  "mark_range a b flag m c = (if ord a \<le> ord c \<and> ord c \<le> ord b then m c OR flag else m c)"
  unfolding mark_range_def mark_string_apply in_range_iff by (rule refl)

section \<open>The classes\<close>

definition is_alnum :: "byte \<Rightarrow> bool" where
  "is_alnum c \<longleftrightarrow> is_upper c \<or> is_lower c \<or> is_digit c"

text \<open>One bit of the map after an update.\<close>

lemma bit_mark:
  "bit ((m(a := m a OR flag)) c) n \<longleftrightarrow> bit (m c) n \<or> c = a \<and> bit flag n"
  "bit (mark_string s flag m c) n \<longleftrightarrow> bit (m c) n \<or> c \<in> set s \<and> bit flag n"
  "bit (mark_range a b flag m c) n \<longleftrightarrow> bit (m c) n \<or> ord a \<le> ord c \<and> ord c \<le> ord b \<and> bit flag n"
  by (auto simp: mark_range_apply mark_string_apply bit_or_iff)

lemma bit_cm:
  "bit CM_SPACE n \<longleftrightarrow> n = 0" "bit CM_NEWLINE n \<longleftrightarrow> n = 1" "bit CM_METHOD n \<longleftrightarrow> n = 2"
  "bit CM_RESOURCE n \<longleftrightarrow> n = 3" "bit CM_PROTOCOL n \<longleftrightarrow> n = 4" "bit CM_NAME n \<longleftrightarrow> n = 5"
  "bit CM_VALUE n \<longleftrightarrow> n = 6" "bit CM_DOMAIN n \<longleftrightarrow> n = 7"
proof -
  have *: "bit (2 ^ k :: 8 word) n \<longleftrightarrow> n = k" if "k < 8" for k
    using that by (auto simp: bit_exp_iff)
  show "bit CM_SPACE n \<longleftrightarrow> n = 0" "bit CM_NEWLINE n \<longleftrightarrow> n = 1" "bit CM_METHOD n \<longleftrightarrow> n = 2"
    "bit CM_RESOURCE n \<longleftrightarrow> n = 3" "bit CM_PROTOCOL n \<longleftrightarrow> n = 4" "bit CM_NAME n \<longleftrightarrow> n = 5"
    "bit CM_VALUE n \<longleftrightarrow> n = 6" "bit CM_DOMAIN n \<longleftrightarrow> n = 7"
    using * [of 0] * [of 1] * [of 2] * [of 3] * [of 4] * [of 5] * [of 6] * [of 7]
    by (simp_all add: cm_defs)
qed

lemma is_class_bit:
  "is_class CM_SPACE c \<longleftrightarrow> bit (tables_module_initialize c) 0"
  "is_class CM_NEWLINE c \<longleftrightarrow> bit (tables_module_initialize c) 1"
  "is_class CM_METHOD c \<longleftrightarrow> bit (tables_module_initialize c) 2"
  "is_class CM_RESOURCE c \<longleftrightarrow> bit (tables_module_initialize c) 3"
  "is_class CM_PROTOCOL c \<longleftrightarrow> bit (tables_module_initialize c) 4"
  "is_class CM_NAME c \<longleftrightarrow> bit (tables_module_initialize c) 5"
  "is_class CM_VALUE c \<longleftrightarrow> bit (tables_module_initialize c) 6"
  "is_class CM_DOMAIN c \<longleftrightarrow> bit (tables_module_initialize c) 7"
proof -
  have *: "w AND 2 ^ k \<noteq> 0 \<longleftrightarrow> bit w k" for w :: "8 word" and k
    by (simp add: and_exp_eq_0_iff_not_bit)
  show "is_class CM_SPACE c \<longleftrightarrow> bit (tables_module_initialize c) 0"
    "is_class CM_NEWLINE c \<longleftrightarrow> bit (tables_module_initialize c) 1"
    "is_class CM_METHOD c \<longleftrightarrow> bit (tables_module_initialize c) 2"
    "is_class CM_RESOURCE c \<longleftrightarrow> bit (tables_module_initialize c) 3"
    "is_class CM_PROTOCOL c \<longleftrightarrow> bit (tables_module_initialize c) 4"
    "is_class CM_NAME c \<longleftrightarrow> bit (tables_module_initialize c) 5"
    "is_class CM_VALUE c \<longleftrightarrow> bit (tables_module_initialize c) 6"
    "is_class CM_DOMAIN c \<longleftrightarrow> bit (tables_module_initialize c) 7"
    using * [of _ 0] * [of _ 1] * [of _ 2] * [of _ 3] * [of _ 4] * [of _ 5] * [of _ 6] * [of _ 7]
    by (simp_all add: is_class_def cm_defs)
qed

lemma class_iff:
  "is_class CM_SPACE c \<longleftrightarrow> c = CHR '' '' \<or> c = TAB \<or> c = VT"
  "is_class CM_NEWLINE c \<longleftrightarrow> c = LF \<or> c = CR"
  "is_class CM_METHOD c \<longleftrightarrow> is_alnum c \<or> c \<in> set token_symbols"
  "is_class CM_RESOURCE c \<longleftrightarrow> 33 \<le> ord c \<and> ord c \<le> 126"
  "is_class CM_PROTOCOL c \<longleftrightarrow> c \<in> set ''HTTP/1.0''"
  "is_class CM_NAME c \<longleftrightarrow> is_alnum c \<or> c \<in> set token_symbols"
  "is_class CM_VALUE c \<longleftrightarrow> 32 \<le> ord c \<and> ord c \<le> 126"
  "is_class CM_DOMAIN c \<longleftrightarrow> is_alnum c \<or> c = CHR ''-'' \<or> c = CHR ''.''"
  unfolding is_class_bit tables_module_initialize_def Let_def bit_mark bit_cm is_alnum_def
    is_upper_def is_lower_def is_digit_def
  by (auto simp: bit_cm bit_or_iff)

end
