(* ===== verification/TS_Parser.thy ===== *)
theory TS_Parser
  imports TS_Error TS_Constants TS_Tables TS_Ring
begin

text \<open>
  \<^verbatim>\<open>include/parser.h\<close>: the request and the state machine that fills it, byte by byte, and
  the loop that all request parsers share. A parser is its \<^verbatim>\<open>switch\<close> (a step function); the
  loop \<open>parse_loop\<close> is the \<^verbatim>\<open>for\<close> around it. The locale \<open>request_parser\<close> states what
  \<^verbatim>\<open>parser_parse\<close> relies on in each of them.
\<close>

section \<open>Requests and parsers\<close>

record request =
  stream_size :: nat
  req_method :: location
  resource :: location
  protocol :: location
  user :: location
  language :: char
  keep_alive :: bool
  content :: location

datatype parser_state = RPS_BEGIN | RPS_END
  | RPS_WAIT_METHOD_BEGIN | RPS_WAIT_METHOD_END | RPS_WAIT_RESOURCE_BEGIN | RPS_WAIT_RESOURCE_END
  | RPS_WAIT_PROTOCOL_BEGIN | RPS_WAIT_PROTOCOL_END | RPS_WAIT_LINE_CR | RPS_WAIT_LINE_LF
  | RPS_WAIT_NAME_BEGIN | RPS_WAIT_NAME_END | RPS_WAIT_COLON | RPS_WAIT_VALUE_END
  | RPS_WAIT_FINAL_LINE_LF | RPS_WAIT_CONTENT

record parser =
  state :: parser_state
  remaining_content :: nat
  tolerated_lf :: bool
  tolerated_cr :: bool
  current_name :: location
  current_value :: location

definition zero_request :: request where
  "zero_request = \<lparr>stream_size = 0, req_method = zero_location, resource = zero_location,
     protocol = zero_location, user = zero_location, language = NUL, keep_alive = False,
     content = zero_location\<rparr>"

definition zero_parser :: parser where
  "zero_parser = \<lparr>state = RPS_BEGIN, remaining_content = 0, tolerated_lf = False, tolerated_cr = False,
     current_name = zero_location, current_value = zero_location\<rparr>"

text \<open>The assignments to locations: \<^verbatim>\<open>.size++\<close>, \<^verbatim>\<open>.size = n\<close>, \<^verbatim>\<open>.offset = n\<close>.\<close>

definition loc_more :: "location \<Rightarrow> location" where
  "loc_more l = l\<lparr>loc_size := loc_size l + 1\<rparr>"

definition loc_at :: "nat \<Rightarrow> nat \<Rightarrow> location" where
  "loc_at offset sz = \<lparr>loc_offset = offset, loc_size = sz\<rparr>"

definition loc_end :: "location \<Rightarrow> nat" where
  "loc_end l = loc_offset l + loc_size l"

lemma loc_simps [simp]:
  "loc_end (loc_more l) = loc_end l + 1" "loc_end (loc_at n s) = n + s"
  "loc_end (l\<lparr>loc_size := s\<rparr>) = loc_offset l + s" "loc_end (l\<lparr>loc_offset := n\<rparr>) = n + loc_size l"
  "loc_end zero_location = 0"
  by (simp_all add: loc_more_def loc_at_def loc_end_def zero_location_def)

section \<open>The loop\<close>

text \<open>
  One round of the \<^verbatim>\<open>switch\<close>: it breaks out (and the loop goes on with the next byte) or
  returns, with an error or with \<^verbatim>\<open>EXOK\<close>; in both cases with what it has written.
\<close>

datatype flow = Next parser request | Return "exerror option" parser request

type_synonym parse_step = "parser \<Rightarrow> request \<Rightarrow> byte \<Rightarrow> nat \<Rightarrow> flow"

text \<open>
  \<^verbatim>\<open>for (p = part->p; p < part->p + part->size; p++, request->stream_size++)\<close>; the number
  passed to the step is \<^verbatim>\<open>part->size - (p - part->p)\<close>.
\<close>

fun parse_loop :: "parse_step \<Rightarrow> parser \<Rightarrow> request \<Rightarrow> byte list \<Rightarrow> exerror option \<times> parser \<times> request" where
  "parse_loop step p r [] = (None, p, r)"
| "parse_loop step p r (c # cs) =
     (case step p r c (length (c # cs)) of
        Next p r \<Rightarrow> parse_loop step p (r\<lparr>stream_size := stream_size r + 1\<rparr>) cs
      | Return e p r \<Rightarrow> (e, p, r))"

text \<open>
  A whole parser: the first line moves a fresh state machine to the first state of the
  protocol, the loop does the rest. \<open>parse_pieces\<close> feeds the pieces of a stream one after the
  other, as the server does.
\<close>

definition start_state :: "parser_state \<Rightarrow> parser \<Rightarrow> parser" where
  "start_state first p = (if state p = RPS_BEGIN then p\<lparr>state := first\<rparr> else p)"

fun parse_pieces :: "(parser \<Rightarrow> request \<Rightarrow> byte list \<Rightarrow> exerror option \<times> parser \<times> request) \<Rightarrow>
    parser \<Rightarrow> request \<Rightarrow> byte list list \<Rightarrow> exerror option \<times> parser \<times> request" where
  "parse_pieces parse p r [] = (None, p, r)"
| "parse_pieces parse p r (xs # xss) =
     (case parse p r xs of
        (None, p', r') \<Rightarrow> parse_pieces parse p' r' xss
      | (Some e, p', r') \<Rightarrow> (Some e, p', r'))"

definition invalid_symbol :: "parser \<Rightarrow> request \<Rightarrow> flow" where
  "invalid_symbol p r =
     Return (Some (exerror_allocate (EEF_SEND_SHUTDOWN_LOG FR_REQUEST_INVALID) ''Invalid symbol'')) p r"

definition after_end :: "parser \<Rightarrow> request \<Rightarrow> flow" where
  "after_end p r = Return (Some (exerror_allocate (EEF_SEND_SHUTDOWN_LOG FR_REQUEST_INVALID)
     ''Received symbols after request end'')) p r"

section \<open>What a parser may do\<close>

text \<open>Every location found so far lies in the part of the stream that has been consumed.\<close>

definition locations_ok :: "parser \<Rightarrow> request \<Rightarrow> bool" where
  "locations_ok p r \<longleftrightarrow>
     loc_end (req_method r) \<le> stream_size r \<and> loc_end (resource r) \<le> stream_size r \<and>
     loc_end (protocol r) \<le> stream_size r \<and> loc_end (user r) \<le> stream_size r \<and>
     loc_end (content r) \<le> stream_size r \<and>
     loc_end (current_name p) \<le> stream_size r \<and> loc_end (current_value p) \<le> stream_size r"

text \<open>An error that does not stop the server.\<close>

definition survivable :: "exerror option \<Rightarrow> bool" where
  "survivable e = (case e of None \<Rightarrow> True | Some e \<Rightarrow>
     \<not> has_flag (ex_flags e) PARTIAL_EEF_DIE \<and> has_flag (ex_flags e) PARTIAL_EEF_SEND)"

lemma survivable_simps [simp]:
  "survivable None" "survivable (Some (exerror_allocate (EEF_SEND_SHUTDOWN_LOG fr) m))"
  by (cases fr; simp add: survivable_def exerror_allocate_def flag_defs push_bit_eq_mult)+

lemma locations_ok_zero: "locations_ok zero_parser zero_request"
  by (simp add: locations_ok_def zero_parser_def zero_request_def)

text \<open>
  The contract: \<open>ok\<close> is the invariant of the parser, which gives the locations when the
  request is complete.
\<close>

locale request_parser =
  fixes step :: "ring \<Rightarrow> parse_step"
    and first :: parser_state
    and ok :: "parser \<Rightarrow> request \<Rightarrow> bool"
  assumes step_next: "ring_inv ring \<Longrightarrow> ok p r \<Longrightarrow> stream_size r + n \<le> ring_size ring \<Longrightarrow> 0 < n \<Longrightarrow>
      step ring p r c n = Next p' r' \<Longrightarrow>
      stream_size r' = stream_size r \<and> ok p' (r'\<lparr>stream_size := stream_size r + 1\<rparr>)"
    and step_return: "ring_inv ring \<Longrightarrow> ok p r \<Longrightarrow> stream_size r + n \<le> ring_size ring \<Longrightarrow> 0 < n \<Longrightarrow>
      step ring p r c n = Return e p' r' \<Longrightarrow>
      stream_size r \<le> stream_size r' \<and> stream_size r' \<le> stream_size r + n \<and> ok p' r' \<and> survivable e"
    and ok_end: "ok p r \<Longrightarrow> state p = RPS_END \<Longrightarrow> locations_ok p r"
    and ok_zero: "ok zero_parser zero_request"
    and ok_start: "ok p r \<Longrightarrow> state p = RPS_BEGIN \<Longrightarrow> ok (p\<lparr>state := first\<rparr>) r"
begin

text \<open>
  A parser consumes at most what it is given, keeps its invariant, and no request makes the
  server stop.
\<close>

lemma parse_loop_ok:
  assumes "ring_inv ring" and "ok p r" and "stream_size r + length bs \<le> ring_size ring"
    and "parse_loop (step ring) p r bs = (e, p', r')"
  shows "stream_size r \<le> stream_size r' \<and> stream_size r' \<le> stream_size r + length bs \<and>
    ok p' r' \<and> survivable e"
  using assms(2-4)
proof (induction bs arbitrary: p r)
  case (Cons c cs)
  have fits: "stream_size r + length (c # cs) \<le> ring_size ring" "0 < length (c # cs)"
    using Cons.prems(2) by auto
  show ?case
  proof (cases "step ring p r c (length (c # cs))")
    case (Next p1 r1)
    note n = step_next [OF assms(1) Cons.prems(1) fits Next]
    have "parse_loop (step ring) p1 (r1\<lparr>stream_size := stream_size r + 1\<rparr>) cs = (e, p', r')"
      using Cons.prems(3) Next n by simp
    from Cons.IH [OF _ _ this] n Cons.prems(2) show ?thesis by simp
  next
    case (Return e1 p1 r1)
    then show ?thesis using step_return [OF assms(1) Cons.prems(1) fits Return] Cons.prems(3) by simp
  qed
qed simp

lemma parse_ok:
  assumes "ring_inv ring" and "ok p r" and "stream_size r + length bs \<le> ring_size ring"
    and "parse_loop (step ring) (start_state first p) r bs = (e, p', r')"
  shows "stream_size r \<le> stream_size r' \<and> stream_size r' \<le> stream_size r + length bs \<and>
    ok p' r' \<and> survivable e"
  using parse_loop_ok [OF assms(1) _ assms(3,4)] assms(2) ok_start by (auto simp: start_state_def)

end

text \<open>
  The byte-wise parsers do not look at how many bytes are at hand and do not return early
  without an error: however the network cuts a request into pieces, they do the same.
\<close>

locale bytewise_parser =
  fixes step :: parse_step
    and first :: parser_state
  assumes step_bytewise: "step p r c n = step p r c m"
    and step_no_return: "step p r c n \<noteq> Return None p' r'"
    and step_begun: "step p r c n = Next p' r' \<Longrightarrow> state p \<noteq> RPS_BEGIN \<Longrightarrow> state p' \<noteq> RPS_BEGIN"
    and first_begun: "first \<noteq> RPS_BEGIN"
begin

lemma parse_loop_append:
  "parse_loop step p r (xs @ ys) =
     (case parse_loop step p r xs of
        (None, p', r') \<Rightarrow> parse_loop step p' r' ys
      | (Some e, p', r') \<Rightarrow> (Some e, p', r'))"
proof (induction xs arbitrary: p r)
  case (Cons c xs)
  have same: "step p r c (length (c # xs @ ys)) = step p r c (length (c # xs))" by (rule step_bytewise)
  show ?case
  proof (cases "step p r c (length (c # xs))")
    case (Next p1 r1)
    then show ?thesis using same Cons.IH by simp
  next
    case (Return e p1 r1)
    then obtain e' where "e = Some e'" using step_no_return by (cases e) auto
    then show ?thesis using Return same by simp
  qed
qed simp

lemma parse_loop_begun:
  "parse_loop step p r xs = (None, p', r') \<Longrightarrow> state p \<noteq> RPS_BEGIN \<Longrightarrow> state p' \<noteq> RPS_BEGIN"
proof (induction xs arbitrary: p r)
  case (Cons c xs)
  then show ?case using step_begun step_no_return by (auto split: flow.splits)
qed simp

lemma start_state_begun: "state (start_state first p) \<noteq> RPS_BEGIN"
  using first_begun by (simp add: start_state_def)

lemma start_state_skip: "state p \<noteq> RPS_BEGIN \<Longrightarrow> start_state first p = p"
  by (simp add: start_state_def)

lemma parse_pieces_concat:
  assumes "state p \<noteq> RPS_BEGIN"
  shows "parse_pieces (\<lambda>p. parse_loop step (start_state first p)) p r xss = parse_loop step p r (concat xss)"
  using assms
proof (induction xss arbitrary: p r)
  case (Cons xs xss)
  show ?case
  proof (cases "parse_loop step p r xs")
    case (fields e p1 r1)
    then show ?thesis using Cons parse_loop_begun
      by (cases e) (simp_all add: start_state_skip parse_loop_append)
  qed
qed simp

lemma parse_pieces_all:
  assumes "xss \<noteq> []"
  shows "parse_pieces (\<lambda>p. parse_loop step (start_state first p)) p r xss =
    parse_loop step (start_state first p) r (concat xss)"
proof -
  obtain xs xss' where xss: "xss = xs # xss'" using assms by (cases xss) auto
  have "parse_pieces (\<lambda>p. parse_loop step (start_state first p)) p r xss =
      parse_pieces (\<lambda>p. parse_loop step (start_state first p)) (start_state first p) r xss"
    by (simp add: xss start_state_skip [OF start_state_begun])
  then show ?thesis using parse_pieces_concat [OF start_state_begun] by simp
qed

end

section \<open>Complete requests\<close>

text \<open>The parser accepts the stream and has seen the whole request.\<close>

definition completes :: "parse_step \<Rightarrow> parser \<Rightarrow> request \<Rightarrow> byte list \<Rightarrow> request \<Rightarrow> bool" where
  "completes step p r bs R \<longleftrightarrow> (\<exists>p'. parse_loop step p r bs = (None, p', R) \<and> state p' = RPS_END)"

text \<open>A line ends with CR LF; a bare LF is tolerated.\<close>

definition line_end :: "byte list \<Rightarrow> bool" where
  "line_end ys \<longleftrightarrow> ys = [LF] \<or> ys = [CR, LF]"

lemma completes_Nil: "completes step p r [] R \<longleftrightarrow> state p = RPS_END \<and> R = r"
  by (auto simp: completes_def)

lemma completes_Cons:
  "completes step p r (c # cs) R \<longleftrightarrow>
     (case step p r c (length (c # cs)) of
        Next p' r' \<Rightarrow> completes step p' (r'\<lparr>stream_size := stream_size r' + 1\<rparr>) cs R
      | Return e p' r' \<Rightarrow> e = None \<and> R = r' \<and> state p' = RPS_END)"
  by (auto simp: completes_def split: flow.splits)

lemma completes_error [simp]:
  "step p r c (Suc (length cs)) = invalid_symbol p' r' \<Longrightarrow> \<not> completes step p r (c # cs) R"
  "step p r c (Suc (length cs)) = after_end p' r' \<Longrightarrow> \<not> completes step p r (c # cs) R"
  by (simp_all add: completes_Cons invalid_symbol_def after_end_def)

locale line_parser = bytewise_parser +
  assumes step_final: "state p = RPS_WAIT_FINAL_LINE_LF \<Longrightarrow>
      step p r c n = (if c = LF then Next (p\<lparr>state := RPS_END\<rparr>) r else invalid_symbol p r)"
    and step_end: "state p = RPS_END \<Longrightarrow> step p r c n = after_end p r"
begin

lemma end_completes: "state p = RPS_END \<Longrightarrow> completes step p r ys R \<longleftrightarrow> ys = [] \<and> R = r"
  by (cases ys) (auto simp: completes_Nil step_end)

lemma final_completes:
  "state p = RPS_WAIT_FINAL_LINE_LF \<Longrightarrow>
     completes step p r ys R \<longleftrightarrow> ys = [LF] \<and> R = r\<lparr>stream_size := stream_size r + 1\<rparr>"
  by (cases ys) (auto simp: completes_Nil completes_Cons step_final end_completes invalid_symbol_def)

text \<open>A state that leaves the line at CR or LF.\<close>

lemma eol_completes:
  assumes "\<And>n. step p r CR n = Next (p\<lparr>state := RPS_WAIT_FINAL_LINE_LF\<rparr>) r"
    and "\<And>n. step p r LF n = Next (p\<lparr>tolerated_lf := True, state := RPS_END\<rparr>) r"
    and "c = CR \<or> c = LF"
  shows "completes step p r (c # cs) R \<longleftrightarrow>
    line_end (c # cs) \<and> R = r\<lparr>stream_size := stream_size r + length (c # cs)\<rparr>"
  using assms(3) by (subst completes_Cons) (auto simp: assms(1,2) final_completes end_completes line_end_def)

end

end
