(* ===== verification/TS_Parse_Text.thy ===== *)
theory TS_Parse_Text
  imports TS_Parser
begin

text \<open>
  The request parsers of the line protocols: \<^verbatim>\<open>parser/gopher_parser.c\<close> (gopher, nex),
  \<^verbatim>\<open>parser/finger_parser.c\<close> and \<^verbatim>\<open>parser/gemini_parser.c\<close> (gemini, guppy, text). The
  functional lemmas say exactly which streams are complete requests and where the fields are.
\<close>

section \<open>Gopher and nex\<close>

definition gopher_step :: parse_step where
  "gopher_step p r c n =
     (case state p of
        RPS_WAIT_RESOURCE_END \<Rightarrow>
          if c = CR then Next (p\<lparr>state := RPS_WAIT_FINAL_LINE_LF\<rparr>) r
          else if c = LF then Next (p\<lparr>tolerated_lf := True, state := RPS_END\<rparr>) r
          else if c \<noteq> TAB then Next p (r\<lparr>resource := loc_more (resource r)\<rparr>)
          else invalid_symbol p r
      | RPS_WAIT_FINAL_LINE_LF \<Rightarrow>
          if c = LF then Next (p\<lparr>state := RPS_END\<rparr>) r
          else invalid_symbol p r
      | _ \<Rightarrow> after_end p r)"

definition parser_parse_gopher :: "parser \<Rightarrow> request \<Rightarrow> byte list \<Rightarrow> exerror option \<times> parser \<times> request" where
  "parser_parse_gopher p r part = parse_loop gopher_step (start_state RPS_WAIT_RESOURCE_END p) r part"

definition parser_parse_nex :: "parser \<Rightarrow> request \<Rightarrow> byte list \<Rightarrow> exerror option \<times> parser \<times> request" where
  "parser_parse_nex p r part = parser_parse_gopher p r part"

section \<open>Finger\<close>

definition finger_step :: parse_step where
  "finger_step p r c n =
     (case state p of
        RPS_WAIT_METHOD_BEGIN \<Rightarrow>
          if c = CR then Next (p\<lparr>state := RPS_WAIT_FINAL_LINE_LF\<rparr>) r
          else if c = LF then Next (p\<lparr>tolerated_lf := True, state := RPS_END\<rparr>) r
          else if c = CHR ''/''
          then Next (p\<lparr>state := RPS_WAIT_METHOD_END\<rparr>) (r\<lparr>req_method := (req_method r)\<lparr>loc_size := 1\<rparr>\<rparr>)
          else Next (p\<lparr>state := RPS_WAIT_RESOURCE_END\<rparr>) (r\<lparr>resource := (resource r)\<lparr>loc_size := 1\<rparr>\<rparr>)
      | RPS_WAIT_METHOD_END \<Rightarrow>
          if c = CHR ''W''
          then Next (p\<lparr>state := RPS_WAIT_RESOURCE_BEGIN\<rparr>) (r\<lparr>req_method := (req_method r)\<lparr>loc_size := 2\<rparr>\<rparr>)
          else invalid_symbol p r
      | RPS_WAIT_RESOURCE_BEGIN \<Rightarrow>
          if c = CR then Next (p\<lparr>state := RPS_WAIT_FINAL_LINE_LF\<rparr>) r
          else if c = LF then Next (p\<lparr>tolerated_lf := True, state := RPS_END\<rparr>) r
          else if c = CHR '' '' then Next p r
          else Next (p\<lparr>state := RPS_WAIT_RESOURCE_END\<rparr>)
            (r\<lparr>req_method := (req_method r)\<lparr>loc_offset := stream_size r\<rparr>,
               resource := (resource r)\<lparr>loc_size := 1\<rparr>\<rparr>)
      | RPS_WAIT_RESOURCE_END \<Rightarrow>
          if c = CR then Next (p\<lparr>state := RPS_WAIT_FINAL_LINE_LF\<rparr>) r
          else if c = LF then Next (p\<lparr>tolerated_lf := True, state := RPS_END\<rparr>) r
          else Next p (r\<lparr>resource := loc_more (resource r)\<rparr>)
      | RPS_WAIT_FINAL_LINE_LF \<Rightarrow>
          if c = LF then Next (p\<lparr>state := RPS_END\<rparr>) r
          else invalid_symbol p r
      | _ \<Rightarrow> after_end p r)"

definition parser_parse_finger :: "parser \<Rightarrow> request \<Rightarrow> byte list \<Rightarrow> exerror option \<times> parser \<times> request" where
  "parser_parse_finger p r part = parse_loop finger_step (start_state RPS_WAIT_METHOD_BEGIN p) r part"

section \<open>Gemini, guppy and text\<close>

text \<open>\<^verbatim>\<open>protocol[n]\<close> of the string literal with its terminator.\<close>

definition literal_at :: "byte list \<Rightarrow> nat \<Rightarrow> byte" where
  "literal_at s n = (if n < length s then s ! n else NUL)"

definition gemini_step :: "byte list \<Rightarrow> parse_step" where
  "gemini_step prot p r c n =
     (case state p of
        RPS_WAIT_PROTOCOL_END \<Rightarrow>
          if c = literal_at prot (loc_size (protocol r))
          then let r = r\<lparr>protocol := loc_more (protocol r)\<rparr>
               in if loc_size (protocol r) = length prot
                  then Next (p\<lparr>state := RPS_WAIT_METHOD_END\<rparr>)
                         (r\<lparr>req_method := (req_method r)\<lparr>loc_offset := length prot\<rparr>\<rparr>)
                  else Next p r
          else invalid_symbol p r
      | RPS_WAIT_METHOD_END \<Rightarrow>
          if is_class CM_DOMAIN c \<or> c = CHR '':'' then Next p (r\<lparr>req_method := loc_more (req_method r)\<rparr>)
          else if c = CHR ''/''
          then Next (p\<lparr>state := RPS_WAIT_RESOURCE_END\<rparr>) (r\<lparr>resource := loc_at (stream_size r) 1\<rparr>)
          else if c = CR then Next (p\<lparr>state := RPS_WAIT_FINAL_LINE_LF\<rparr>) r
          else if c = LF then Next (p\<lparr>tolerated_lf := True, state := RPS_END\<rparr>) r
          else invalid_symbol p r
      | RPS_WAIT_RESOURCE_END \<Rightarrow>
          if is_class CM_RESOURCE c then Next p (r\<lparr>resource := loc_more (resource r)\<rparr>)
          else if c = CR then Next (p\<lparr>state := RPS_WAIT_FINAL_LINE_LF\<rparr>) r
          else if c = LF then Next (p\<lparr>tolerated_lf := True, state := RPS_END\<rparr>) r
          else invalid_symbol p r
      | RPS_WAIT_FINAL_LINE_LF \<Rightarrow>
          if c = LF then Next (p\<lparr>state := RPS_END\<rparr>) r
          else invalid_symbol p r
      | _ \<Rightarrow> after_end p r)"

definition parser_parse_gemini_like ::
    "parser \<Rightarrow> request \<Rightarrow> byte list \<Rightarrow> byte list \<Rightarrow> exerror option \<times> parser \<times> request" where
  "parser_parse_gemini_like p r part prot =
     parse_loop (gemini_step prot) (start_state RPS_WAIT_PROTOCOL_END p) r part"

definition parser_parse_gemini :: "parser \<Rightarrow> request \<Rightarrow> byte list \<Rightarrow> exerror option \<times> parser \<times> request" where
  "parser_parse_gemini p r part = parser_parse_gemini_like p r part ''gemini://''"

definition parser_parse_guppy :: "parser \<Rightarrow> request \<Rightarrow> byte list \<Rightarrow> exerror option \<times> parser \<times> request" where
  "parser_parse_guppy p r part = parser_parse_gemini_like p r part ''guppy://''"

definition parser_parse_text :: "parser \<Rightarrow> request \<Rightarrow> byte list \<Rightarrow> exerror option \<times> parser \<times> request" where
  "parser_parse_text p r part = parser_parse_gemini_like p r part ''text://''"

section \<open>The contracts\<close>

lemmas parse_defs = invalid_symbol_def after_end_def Let_def

text \<open>A location's end after one more byte.\<close>

lemma locations_more: "locations_ok p r \<Longrightarrow> locations_ok p (r\<lparr>stream_size := stream_size r + 1\<rparr>)"
  by (auto simp: locations_ok_def)

interpretation gopher: line_parser gopher_step RPS_WAIT_RESOURCE_END
  by unfold_locales (auto simp: gopher_step_def parse_defs split: parser_state.splits if_splits)

interpretation finger: line_parser finger_step RPS_WAIT_METHOD_BEGIN
  by unfold_locales (auto simp: finger_step_def parse_defs split: parser_state.splits if_splits)

interpretation gemini_like: line_parser "gemini_step prot" RPS_WAIT_PROTOCOL_END for prot
  by unfold_locales (auto simp: gemini_step_def parse_defs split: parser_state.splits if_splits)

text \<open>
  In the finger parser the method location is moved behind the first byte of the resource, so
  it only lies in the consumed part again when the next byte has arrived.
\<close>

definition finger_ok :: "parser \<Rightarrow> request \<Rightarrow> bool" where
  "finger_ok p r \<longleftrightarrow>
     loc_end (req_method r) \<le> stream_size r + (if state p = RPS_WAIT_RESOURCE_END then 1 else 0) \<and>
     loc_size (req_method r) \<le> 2 \<and> loc_offset (resource r) = 0 \<and>
     (state p \<in> {RPS_BEGIN, RPS_WAIT_METHOD_BEGIN, RPS_WAIT_METHOD_END, RPS_WAIT_RESOURCE_BEGIN} \<longrightarrow>
       loc_offset (req_method r) = 0) \<and>
     (state p = RPS_WAIT_METHOD_END \<longrightarrow> 1 \<le> stream_size r) \<and>
     locations_ok p (r\<lparr>req_method := zero_location\<rparr>)"

text \<open>In the gemini parsers the method location is empty until the protocol has been read.\<close>

definition gemini_ok :: "parser \<Rightarrow> request \<Rightarrow> bool" where
  "gemini_ok p r \<longleftrightarrow> locations_ok p r \<and>
     (state p \<in> {RPS_BEGIN, RPS_WAIT_PROTOCOL_END} \<longrightarrow> loc_size (req_method r) = 0)"

lemma loc_end_size: "loc_offset l = 0 \<Longrightarrow> loc_end l = loc_size l"
  by (simp add: loc_end_def)

lemma loc_size_more [simp]: "loc_size (loc_more l) = loc_size l + 1" "loc_offset (loc_more l) = loc_offset l"
  by (simp_all add: loc_more_def)

lemma loc_size_le: "loc_size l \<le> loc_end l"
  by (simp add: loc_end_def)

lemma locations_ok_start: "locations_ok (p\<lparr>state := st\<rparr>) r \<longleftrightarrow> locations_ok p r"
  by (simp add: locations_ok_def)

interpretation gopher_request: request_parser "\<lambda>_. gopher_step" RPS_WAIT_RESOURCE_END locations_ok
  by unfold_locales
    (auto simp: gopher_step_def parse_defs locations_ok_def zero_parser_def zero_request_def
      split: parser_state.splits if_splits)

interpretation finger_request: request_parser "\<lambda>_. finger_step" RPS_WAIT_METHOD_BEGIN finger_ok
  by unfold_locales
    (auto simp: finger_step_def parse_defs finger_ok_def locations_ok_def zero_parser_def zero_request_def
      loc_end_size zero_location_def split: parser_state.splits if_splits)

lemma gemini_step_next:
  assumes "gemini_ok p r" and "gemini_step prot p r c n = Next p' r'"
  shows "stream_size r' = stream_size r \<and> gemini_ok p' (r'\<lparr>stream_size := stream_size r + 1\<rparr>)"
  using assms loc_size_le [of "protocol r"]
  by (auto simp: gemini_step_def parse_defs gemini_ok_def locations_ok_def split: parser_state.splits if_splits)

interpretation gemini_request: request_parser "\<lambda>_. gemini_step prot" RPS_WAIT_PROTOCOL_END gemini_ok for prot
proof unfold_locales
  show "gemini_ok zero_parser zero_request"
    using locations_ok_zero by (simp add: gemini_ok_def) (simp add: zero_request_def zero_location_def)
qed (use gemini_step_next in blast,
    auto simp: gemini_step_def parse_defs gemini_ok_def locations_ok_def split: parser_state.splits if_splits)

section \<open>Which streams are requests\<close>

definition gopher_char :: "byte \<Rightarrow> bool" where
  "gopher_char c \<longleftrightarrow> c \<noteq> CR \<and> c \<noteq> LF \<and> c \<noteq> TAB"

lemma line_end_hd: "line_end ys \<Longrightarrow> ys \<noteq> [] \<and> (hd ys = CR \<or> hd ys = LF)"
  by (auto simp: line_end_def)

lemma line_end_Nil [simp]: "\<not> line_end []"
  by (simp add: line_end_def)

lemma gopher_completes:
  "state p = RPS_WAIT_RESOURCE_END \<Longrightarrow>
     completes gopher_step p r bs R \<longleftrightarrow>
       line_end (dropWhile gopher_char bs) \<and>
       R = r\<lparr>resource := (resource r)\<lparr>loc_size := loc_size (resource r) + length (takeWhile gopher_char bs)\<rparr>,
             stream_size := stream_size r + length bs\<rparr>"
proof (induction bs arbitrary: r)
  case Nil
  then show ?case by (simp add: completes_Nil)
next
  case (Cons c cs)
  have eol: "c = CR \<or> c = LF \<Longrightarrow> completes gopher_step p r (c # cs) R \<longleftrightarrow>
      line_end (c # cs) \<and> R = r\<lparr>stream_size := stream_size r + length (c # cs)\<rparr>"
    by (rule gopher.eol_completes) (auto simp: gopher_step_def Cons.prems)
  consider "c = CR \<or> c = LF" | "c = TAB" | "gopher_char c" by (auto simp: gopher_char_def)
  then show ?case
  proof cases
    case 1
    then show ?thesis using eol by (auto simp: gopher_char_def)
  next
    case 2
    then show ?thesis using Cons.prems by (simp add: gopher_step_def gopher_char_def line_end_def)
  next
    case 3
    then have "gopher_step p r c (length (c # cs)) = Next p (r\<lparr>resource := loc_more (resource r)\<rparr>)"
      using Cons.prems by (simp add: gopher_step_def gopher_char_def)
    then show ?thesis using 3 Cons.IH Cons.prems by (simp add: completes_Cons loc_more_def add.commute)
  qed
qed

definition gemini_host_char :: "byte \<Rightarrow> bool" where
  "gemini_host_char c \<longleftrightarrow> is_class CM_DOMAIN c \<or> c = CHR '':''"

lemma gemini_resource_completes:
  "state p = RPS_WAIT_RESOURCE_END \<Longrightarrow>
     completes (gemini_step prot) p r bs R \<longleftrightarrow>
       line_end (dropWhile (is_class CM_RESOURCE) bs) \<and>
       R = r\<lparr>resource := (resource r)\<lparr>loc_size := loc_size (resource r) +
               length (takeWhile (is_class CM_RESOURCE) bs)\<rparr>,
             stream_size := stream_size r + length bs\<rparr>"
proof (induction bs arbitrary: r)
  case Nil
  then show ?case by (simp add: completes_Nil)
next
  case (Cons c cs)
  have no: "\<not> is_class CM_RESOURCE CR" "\<not> is_class CM_RESOURCE LF" by (simp_all add: class_iff)
  have eol: "c = CR \<or> c = LF \<Longrightarrow> completes (gemini_step prot) p r (c # cs) R \<longleftrightarrow>
      line_end (c # cs) \<and> R = r\<lparr>stream_size := stream_size r + length (c # cs)\<rparr>"
    by (rule gemini_like.eol_completes) (auto simp: gemini_step_def Cons.prems no)
  consider "c = CR \<or> c = LF" | "is_class CM_RESOURCE c" | "c \<noteq> CR" "c \<noteq> LF" "\<not> is_class CM_RESOURCE c"
    by blast
  then show ?case
  proof cases
    case 1
    then show ?thesis using eol no by auto
  next
    case 2
    then have "gemini_step prot p r c (length (c # cs)) = Next p (r\<lparr>resource := loc_more (resource r)\<rparr>)"
      using Cons.prems by (simp add: gemini_step_def)
    then show ?thesis using 2 Cons.IH Cons.prems by (simp add: completes_Cons loc_more_def add.commute)
  next
    case 3
    then show ?thesis using Cons.prems by (simp add: gemini_step_def line_end_def)
  qed
qed

lemma gemini_host_completes:
  "state p = RPS_WAIT_METHOD_END \<Longrightarrow>
     completes (gemini_step prot) p r bs R \<longleftrightarrow>
       (let host = takeWhile gemini_host_char bs; rest = dropWhile gemini_host_char bs;
            path = takeWhile (is_class CM_RESOURCE) rest;
            r' = r\<lparr>req_method := (req_method r)\<lparr>loc_size := loc_size (req_method r) + length host\<rparr>,
                   stream_size := stream_size r + length bs\<rparr>
        in line_end rest \<and> R = r' \<or>
           rest \<noteq> [] \<and> hd rest = CHR ''/'' \<and> line_end (dropWhile (is_class CM_RESOURCE) rest) \<and>
           R = r'\<lparr>resource := loc_at (stream_size r + length host) (length path)\<rparr>)"
proof (induction bs arbitrary: r)
  case Nil
  then show ?case by (simp add: completes_Nil)
next
  case (Cons c cs)
  have no: "\<not> gemini_host_char CR" "\<not> gemini_host_char LF" "\<not> gemini_host_char CHR ''/''"
    "is_class CM_RESOURCE CHR ''/''"
    by (simp_all add: gemini_host_char_def class_iff is_alnum_def is_upper_def is_lower_def is_digit_def)
  have no': "\<not> is_class CM_DOMAIN CR" "\<not> is_class CM_DOMAIN LF" "\<not> is_class CM_DOMAIN CHR ''/''"
    using no by (auto simp: gemini_host_char_def)
  have eol: "c = CR \<or> c = LF \<Longrightarrow> completes (gemini_step prot) p r (c # cs) R \<longleftrightarrow>
      line_end (c # cs) \<and> R = r\<lparr>stream_size := stream_size r + length (c # cs)\<rparr>"
    by (rule gemini_like.eol_completes) (auto simp: gemini_step_def Cons.prems no')
  consider "c = CR \<or> c = LF" | "c = CHR ''/''" | "gemini_host_char c"
    | "c \<noteq> CR" "c \<noteq> LF" "\<not> gemini_host_char c" "c \<noteq> CHR ''/''" by blast
  then show ?case
  proof cases
    case 1
    then show ?thesis using eol no by auto
  next
    case 2
    then have "gemini_step prot p r c (length (c # cs)) =
        Next (p\<lparr>state := RPS_WAIT_RESOURCE_END\<rparr>) (r\<lparr>resource := loc_at (stream_size r) 1\<rparr>)"
      using Cons.prems no' by (simp add: gemini_step_def)
    then show ?thesis using 2 no
      by (auto simp: completes_Cons gemini_resource_completes loc_at_def line_end_def)
  next
    case 3
    then have "gemini_step prot p r c (length (c # cs)) = Next p (r\<lparr>req_method := loc_more (req_method r)\<rparr>)"
      using Cons.prems by (simp add: gemini_step_def gemini_host_char_def)
    then show ?thesis using 3 Cons.IH Cons.prems
      by (simp add: completes_Cons loc_more_def add.commute Let_def)
  next
    case 4
    then show ?thesis using Cons.prems
      by (simp add: gemini_step_def gemini_host_char_def line_end_def)
  qed
qed

definition finger_char :: "byte \<Rightarrow> bool" where
  "finger_char c \<longleftrightarrow> c \<noteq> CR \<and> c \<noteq> LF"

lemma finger_resource_completes:
  "state p = RPS_WAIT_RESOURCE_END \<Longrightarrow>
     completes finger_step p r bs R \<longleftrightarrow>
       line_end (dropWhile finger_char bs) \<and>
       R = r\<lparr>resource := (resource r)\<lparr>loc_size := loc_size (resource r) + length (takeWhile finger_char bs)\<rparr>,
             stream_size := stream_size r + length bs\<rparr>"
proof (induction bs arbitrary: r)
  case Nil
  then show ?case by (simp add: completes_Nil)
next
  case (Cons c cs)
  have eol: "c = CR \<or> c = LF \<Longrightarrow> completes finger_step p r (c # cs) R \<longleftrightarrow>
      line_end (c # cs) \<and> R = r\<lparr>stream_size := stream_size r + length (c # cs)\<rparr>"
    by (rule finger.eol_completes) (auto simp: finger_step_def Cons.prems)
  show ?case
  proof (cases "finger_char c")
    case False
    then show ?thesis using eol by (auto simp: finger_char_def)
  next
    case True
    then have "finger_step p r c (length (c # cs)) = Next p (r\<lparr>resource := loc_more (resource r)\<rparr>)"
      using Cons.prems by (simp add: finger_step_def finger_char_def)
    then show ?thesis using True Cons.IH Cons.prems by (simp add: completes_Cons loc_more_def add.commute)
  qed
qed

lemma finger_spaces_completes:
  "state p = RPS_WAIT_RESOURCE_BEGIN \<Longrightarrow> resource r = zero_location \<Longrightarrow> loc_size (req_method r) = 2 \<Longrightarrow>
     completes finger_step p r bs R \<longleftrightarrow>
       (let rest = dropWhile (\<lambda>c. c = CHR '' '') bs; name = takeWhile finger_char rest;
            spaces = length (takeWhile (\<lambda>c. c = CHR '' '') bs)
        in line_end (dropWhile finger_char rest) \<and>
           R = r\<lparr>stream_size := stream_size r + length bs, resource := loc_at 0 (length name),
                 req_method := (if name = [] then req_method r else loc_at (stream_size r + spaces) 2)\<rparr>)"
proof (induction bs arbitrary: r)
  case Nil
  then show ?case by (simp add: completes_Nil)
next
  case (Cons c cs)
  have zero: "r\<lparr>stream_size := n, resource := loc_at 0 0\<rparr> = r\<lparr>stream_size := n\<rparr>" for n
    using Cons.prems(2) by (simp add: loc_at_def zero_location_def)
  have eol: "c = CR \<or> c = LF \<Longrightarrow> completes finger_step p r (c # cs) R \<longleftrightarrow>
      line_end (c # cs) \<and> R = r\<lparr>stream_size := stream_size r + length (c # cs)\<rparr>"
    by (rule finger.eol_completes) (auto simp: finger_step_def Cons.prems)
  consider "c = CR \<or> c = LF" | "c = CHR '' ''" | "finger_char c" "c \<noteq> CHR '' ''"
    by (auto simp: finger_char_def)
  then show ?case
  proof cases
    case 1
    then have "\<not> finger_char c" "c \<noteq> CHR '' ''" by (auto simp: finger_char_def)
    then show ?thesis using eol 1 zero by (simp add: Let_def)
  next
    case 2
    then have "finger_step p r c (length (c # cs)) = Next p r"
      using Cons.prems by (simp add: finger_step_def)
    then show ?thesis using 2 Cons.IH [of "r\<lparr>stream_size := stream_size r + 1\<rparr>"] Cons.prems
      by (simp add: completes_Cons Let_def)
  next
    case 3
    then have "finger_step p r c (length (c # cs)) = Next (p\<lparr>state := RPS_WAIT_RESOURCE_END\<rparr>)
        (r\<lparr>req_method := (req_method r)\<lparr>loc_offset := stream_size r\<rparr>, resource := (resource r)\<lparr>loc_size := 1\<rparr>\<rparr>)"
      using Cons.prems by (simp add: finger_step_def finger_char_def)
    then show ?thesis using 3 Cons.prems
      by (cases r, cases "req_method r") (simp add: completes_Cons finger_resource_completes loc_at_def zero_location_def Let_def)
  qed
qed

text \<open>The protocol is compared byte by byte with the literal.\<close>

lemma gemini_protocol_completes:
  "state p = RPS_WAIT_PROTOCOL_END \<Longrightarrow> loc_size (protocol r) < length prot \<Longrightarrow> stream_size r = loc_size (protocol r) \<Longrightarrow>
     completes (gemini_step prot) p r bs R \<longleftrightarrow>
       (\<exists>ys. bs = drop (loc_size (protocol r)) prot @ ys \<and>
         completes (gemini_step prot) (p\<lparr>state := RPS_WAIT_METHOD_END\<rparr>)
           (r\<lparr>protocol := (protocol r)\<lparr>loc_size := length prot\<rparr>,
              req_method := (req_method r)\<lparr>loc_offset := length prot\<rparr>,
              stream_size := length prot\<rparr>) ys R)"
proof (induction bs arbitrary: r)
  case Nil
  then show ?case by (simp add: completes_Nil)
next
  case (Cons c cs)
  let ?n = "loc_size (protocol r)"
  have drop: "drop ?n prot = prot ! ?n # drop (Suc ?n) prot"
    using Cons.prems(2) by (simp add: Cons_nth_drop_Suc)
  show ?case
  proof (cases "c = prot ! ?n")
    case False
    then show ?thesis using Cons.prems drop
      by (simp add: gemini_step_def literal_at_def)
  next
    case c: True
    show ?thesis
    proof (cases "Suc ?n = length prot")
      case True
      then have "gemini_step prot p r c (length (c # cs)) = Next (p\<lparr>state := RPS_WAIT_METHOD_END\<rparr>)
          (r\<lparr>protocol := loc_more (protocol r), req_method := (req_method r)\<lparr>loc_offset := length prot\<rparr>\<rparr>)"
        using Cons.prems c by (simp add: gemini_step_def literal_at_def Let_def)
      moreover have "length prot - ?n = 1" "drop (Suc ?n) prot = []" using True by auto
      ultimately show ?thesis using c drop True Cons.prems(3) by (simp add: completes_Cons loc_more_def)
    next
      case False
      then have "gemini_step prot p r c (length (c # cs)) = Next p (r\<lparr>protocol := loc_more (protocol r)\<rparr>)"
        using Cons.prems c by (simp add: gemini_step_def literal_at_def Let_def)
      then show ?thesis
        using c drop False Cons.prems Cons.IH [of "r\<lparr>protocol := loc_more (protocol r),
          stream_size := stream_size r + 1\<rparr>"]
        by (simp add: completes_Cons loc_more_def)
    qed
  qed
qed

section \<open>Properties\<close>

text \<open>The whole stream is one complete request, and this is what the parser found.\<close>

definition parses :: "(parser \<Rightarrow> request \<Rightarrow> byte list \<Rightarrow> exerror option \<times> parser \<times> request) \<Rightarrow>
    byte list \<Rightarrow> request \<Rightarrow> bool" where
  "parses parse bs R \<longleftrightarrow>
     (\<exists>p. parse zero_parser zero_request bs = (None, p, R) \<and> state p = RPS_END)"

lemma start_zero [simp]: "state (start_state first zero_parser) = first"
  by (simp add: start_state_def zero_parser_def)

lemma parses_completes:
  "parses (\<lambda>p. parse_loop step (start_state first p)) bs R \<longleftrightarrow>
     completes step (start_state first zero_parser) zero_request bs R"
  by (simp add: parses_def completes_def)

text \<open>
  C10: the gopher (and nex) parser accepts exactly the lines without TAB that end with
  CR LF or LF and nothing behind, and reports the line without its end as the selector.
\<close>

theorem gopher_requests:
  "parses parser_parse_gopher bs R \<longleftrightarrow>
     (\<exists>selector eol. bs = selector @ eol \<and> list_all gopher_char selector \<and> line_end eol \<and>
        R = zero_request\<lparr>resource := loc_at 0 (length selector), stream_size := length bs\<rparr>)"
proof -
  have "parses parser_parse_gopher bs R \<longleftrightarrow> line_end (dropWhile gopher_char bs) \<and>
      R = zero_request\<lparr>resource := loc_at 0 (length (takeWhile gopher_char bs)), stream_size := length bs\<rparr>"
    using gopher_completes [of "start_state RPS_WAIT_RESOURCE_END zero_parser" zero_request bs R]
    by (simp add: parses_completes parser_parse_gopher_def [abs_def])
      (simp add: zero_request_def zero_location_def loc_at_def)
  also have "\<dots> \<longleftrightarrow> (\<exists>selector eol. bs = selector @ eol \<and> list_all gopher_char selector \<and> line_end eol \<and>
        R = zero_request\<lparr>resource := loc_at 0 (length selector), stream_size := length bs\<rparr>)"
    by (rule span_iff [symmetric]) (auto dest: line_end_hd simp: gopher_char_def)
  finally show ?thesis .
qed

text \<open>
  A finger query with the switch \<^verbatim>\<open>/W\<close>, blanks and a user name is accepted with
  the name's length as the size of the resource but 0 as its offset, and with the position of
  the name written to the offset of the method: the resource is read from the switch instead
  of from the name.
\<close>

theorem finger_switch_requests:
  "parses parser_parse_finger (''/W'' @ bs) R \<longleftrightarrow>
     (let spaces = takeWhile (\<lambda>c. c = CHR '' '') bs; rest = dropWhile (\<lambda>c. c = CHR '' '') bs;
          name = takeWhile finger_char rest
      in line_end (dropWhile finger_char rest) \<and>
         R = zero_request\<lparr>stream_size := 2 + length bs, resource := loc_at 0 (length name),
               req_method := (if name = [] then loc_at 0 2 else loc_at (2 + length spaces) 2)\<rparr>)"
proof -
  let ?p = "start_state RPS_WAIT_METHOD_BEGIN zero_parser"
  let ?r = "zero_request\<lparr>req_method := loc_at 0 2, stream_size := 2\<rparr>"
  have "parses parser_parse_finger (''/W'' @ bs) R \<longleftrightarrow>
      completes finger_step (?p\<lparr>state := RPS_WAIT_RESOURCE_BEGIN\<rparr>) ?r bs R"
    by (simp add: parser_parse_finger_def [abs_def] parses_completes completes_Cons finger_step_def)
      (simp add: zero_request_def zero_location_def loc_at_def numeral_2_eq_2)
  also have "\<dots> \<longleftrightarrow> (let spaces = takeWhile (\<lambda>c. c = CHR '' '') bs;
          rest = dropWhile (\<lambda>c. c = CHR '' '') bs; name = takeWhile finger_char rest
      in line_end (dropWhile finger_char rest) \<and>
         R = zero_request\<lparr>stream_size := 2 + length bs, resource := loc_at 0 (length name),
               req_method := (if name = [] then loc_at 0 2 else loc_at (2 + length spaces) 2)\<rparr>)"
    by (subst finger_spaces_completes) (simp_all add: zero_request_def loc_at_def Let_def)
  finally show ?thesis .
qed

lemma gemini_slash: "\<not> gemini_host_char CHR ''/''" "is_class CM_RESOURCE CHR ''/''"
  by (simp_all add: gemini_host_char_def class_iff is_alnum_def is_upper_def is_lower_def is_digit_def)

lemma gemini_eol:
  "c = CR \<or> c = LF \<Longrightarrow> \<not> gemini_host_char c" "c = CR \<or> c = LF \<Longrightarrow> \<not> is_class CM_RESOURCE c"
  by (auto simp: gemini_host_char_def class_iff is_alnum_def is_upper_def is_lower_def is_digit_def)

lemma takeWhile_hd: "takeWhile P xs \<noteq> [] \<Longrightarrow> hd (takeWhile P xs) = hd xs"
  by (cases xs) (auto split: if_splits)

text \<open>The line, cut from the left, and the line, put together.\<close>

lemma host_path_iff:
  "(\<exists>host path eol. ys = host @ path @ eol \<and> list_all gemini_host_char host \<and>
      (path = [] \<or> hd path = CHR ''/'' \<and> list_all (is_class CM_RESOURCE) path) \<and> line_end eol \<and> S host path) \<longleftrightarrow>
    (let host = takeWhile gemini_host_char ys; rest = dropWhile gemini_host_char ys
     in line_end rest \<and> S host [] \<or>
        rest \<noteq> [] \<and> hd rest = CHR ''/'' \<and> line_end (dropWhile (is_class CM_RESOURCE) rest) \<and>
        S host (takeWhile (is_class CM_RESOURCE) rest))" (is "?l \<longleftrightarrow> ?r")
proof -
  let ?Q = "\<lambda>rest. rest \<noteq> [] \<and> hd rest = CHR ''/'' \<and> line_end (dropWhile (is_class CM_RESOURCE) rest)"
  have path: "(\<exists>path eol. rest = path @ eol \<and> list_all (is_class CM_RESOURCE) path \<and> line_end eol \<and>
        (path \<noteq> [] \<and> hd path = CHR ''/'' \<and> S host path)) \<longleftrightarrow>
      ?Q rest \<and> S host (takeWhile (is_class CM_RESOURCE) rest)" for rest host
    by (subst span_iff [of line_end "is_class CM_RESOURCE" rest "\<lambda>path eol. path \<noteq> [] \<and> hd path = CHR ''/'' \<and> S host path"])
      (auto dest: line_end_hd simp: gemini_eol gemini_slash takeWhile_hd takeWhile_eq_Nil_iff)
  have "?l \<longleftrightarrow> (\<exists>host eol. ys = host @ eol \<and> list_all gemini_host_char host \<and> line_end eol \<and> S host []) \<or>
      (\<exists>host rest. ys = host @ rest \<and> list_all gemini_host_char host \<and>
        (\<exists>path eol. rest = path @ eol \<and> list_all (is_class CM_RESOURCE) path \<and> line_end eol \<and>
          (path \<noteq> [] \<and> hd path = CHR ''/'' \<and> S host path)))"
    by (auto; metis append_Nil)
  also have "\<dots> \<longleftrightarrow> (\<exists>host eol. ys = host @ eol \<and> list_all gemini_host_char host \<and> line_end eol \<and> S host []) \<or>
      (\<exists>host rest. ys = host @ rest \<and> list_all gemini_host_char host \<and> ?Q rest \<and>
        S host (takeWhile (is_class CM_RESOURCE) rest))"
    unfolding path by blast
  also have "\<dots> \<longleftrightarrow> ?r"
    by (subst (1 2) span_iff) (auto dest: line_end_hd simp: gemini_eol gemini_slash Let_def)
  finally show ?thesis .
qed

text \<open>
  C9: the gemini, guppy and text parsers accept exactly the lines that are the protocol, a
  host (letters, digits, dots, hyphens and colons), an optional path of visible characters that
  begins with a slash, and a line end; the locations are those of the protocol, the host and the
  path.
\<close>

theorem gemini_requests:
  assumes "prot \<noteq> []"
  shows "parses (\<lambda>p r bs. parser_parse_gemini_like p r bs prot) bs R \<longleftrightarrow>
     (\<exists>host path eol. bs = prot @ host @ path @ eol \<and> list_all gemini_host_char host \<and>
        (path = [] \<or> hd path = CHR ''/'' \<and> list_all (is_class CM_RESOURCE) path) \<and> line_end eol \<and>
        R = zero_request\<lparr>protocol := loc_at 0 (length prot), req_method := loc_at (length prot) (length host),
          resource := (if path = [] then zero_location
                       else loc_at (length prot + length host) (length path)),
          stream_size := length bs\<rparr>)"
proof -
  define n where "n = length prot"
  let ?p = "start_state RPS_WAIT_PROTOCOL_END zero_parser"
  let ?R = "\<lambda>(host :: byte list) (path :: byte list) m. zero_request\<lparr>protocol := loc_at 0 n, req_method := loc_at n (length host),
      resource := (if path = [] then zero_location else loc_at (n + length host) (length path)),
      stream_size := m\<rparr>"
  let ?r = "zero_request\<lparr>protocol := loc_at 0 n, req_method := loc_at n 0, stream_size := n\<rparr>"
  have body: "completes (gemini_step prot) (?p\<lparr>state := RPS_WAIT_METHOD_END\<rparr>) ?r ys R \<longleftrightarrow>
      (\<exists>host path eol. ys = host @ path @ eol \<and> list_all gemini_host_char host \<and>
        (path = [] \<or> hd path = CHR ''/'' \<and> list_all (is_class CM_RESOURCE) path) \<and> line_end eol \<and>
        R = ?R host path (n + length ys))" for ys
  proof -
    let ?host = "takeWhile gemini_host_char ys" and ?rest = "dropWhile gemini_host_char ys"
    let ?path = "takeWhile (is_class CM_RESOURCE) ?rest"
    let ?m = "?r\<lparr>req_method := (req_method ?r)\<lparr>loc_size := loc_size (req_method ?r) + length ?host\<rparr>,
      stream_size := stream_size ?r + length ys\<rparr>"
    have e1: "?m = ?R ?host [] (n + length ys)"
      by (simp add: zero_request_def loc_at_def zero_location_def)
    have e2: "(?R ?host [] (n + length ys))\<lparr>resource := loc_at (stream_size ?r + length ?host) (length ?path)\<rparr> =
        ?R ?host ?path (n + length ys)" if "?rest \<noteq> []" "hd ?rest = CHR ''/''"
    proof -
      have "?path \<noteq> []" using that gemini_slash(2) by (cases ?rest) auto
      then show ?thesis by (simp add: zero_request_def loc_at_def)
    qed
    have "state (?p\<lparr>state := RPS_WAIT_METHOD_END\<rparr>) = RPS_WAIT_METHOD_END" by simp
    note host = gemini_host_completes [OF this, of prot ?r ys R, unfolded Let_def e1]
    have "completes (gemini_step prot) (?p\<lparr>state := RPS_WAIT_METHOD_END\<rparr>) ?r ys R \<longleftrightarrow>
       line_end ?rest \<and> R = ?R ?host [] (n + length ys) \<or>
       ?rest \<noteq> [] \<and> hd ?rest = CHR ''/'' \<and> line_end (dropWhile (is_class CM_RESOURCE) ?rest) \<and>
         R = ?R ?host ?path (n + length ys)"
    proof (cases "?rest \<noteq> [] \<and> hd ?rest = CHR ''/''")
      case True
      then have rest: "?rest \<noteq> []" "hd ?rest = CHR ''/''" by auto
      from host show ?thesis unfolding e2 [OF rest] .
    next
      case False
      then show ?thesis using host by blast
    qed
    then show ?thesis
      using host_path_iff [of ys "\<lambda>host path. R = ?R host path (n + length ys)", unfolded Let_def]
      by (simp only:)
  qed
  have "parses (\<lambda>p r bs. parser_parse_gemini_like p r bs prot) bs R \<longleftrightarrow>
      (\<exists>ys. bs = prot @ ys \<and>
        completes (gemini_step prot) (?p\<lparr>state := RPS_WAIT_METHOD_END\<rparr>) ?r ys R)"
    using assms gemini_protocol_completes [of ?p zero_request prot bs R]
    by (simp add: parser_parse_gemini_like_def parses_completes)
      (simp add: zero_request_def zero_location_def loc_at_def n_def)
  also have "\<dots> \<longleftrightarrow> (\<exists>ys. bs = prot @ ys \<and> (\<exists>host path eol. ys = host @ path @ eol \<and>
        list_all gemini_host_char host \<and>
        (path = [] \<or> hd path = CHR ''/'' \<and> list_all (is_class CM_RESOURCE) path) \<and> line_end eol \<and>
        R = ?R host path (length bs)))"
    unfolding body by (intro ex_cong1 conj_cong refl) (simp add: n_def)
  finally show ?thesis unfolding n_def by blast
qed

lemma gemini_requests_witness:
  "parses (\<lambda>p r bs. parser_parse_gemini_like p r bs ''gemini://'')
     (''gemini://'' @ ''a.b:1'' @ ''/x'' @ [CR, LF])
     (zero_request\<lparr>protocol := loc_at 0 9, req_method := loc_at 9 5, resource := loc_at 14 2,
        stream_size := 18\<rparr>)"
proof (rule gemini_requests [THEN iffD2], simp, intro exI conjI)
  show "''gemini://'' @ ''a.b:1'' @ ''/x'' @ [CR, LF] = ''gemini://'' @ ''a.b:1'' @ ''/x'' @ [CR, LF]"
    by (rule refl)
qed (simp_all add: gemini_host_char_def class_iff is_alnum_def is_upper_def is_lower_def is_digit_def
    line_end_def eval_nat_numeral)

text \<open>
  C11: the gopher, finger and gemini parsers do not depend on how the network cuts the stream:
  fed with its pieces one after the other (stopping at the first error, as the server does) they
  return the same error or the same request as for the whole stream.
\<close>

theorem pieces_do_not_matter:
  assumes "xss \<noteq> []"
  shows "parse_pieces parser_parse_gopher p r xss = parser_parse_gopher p r (concat xss) \<and>
    parse_pieces parser_parse_finger p r xss = parser_parse_finger p r (concat xss) \<and>
    parse_pieces (\<lambda>p r bs. parser_parse_gemini_like p r bs prot) p r xss =
      parser_parse_gemini_like p r (concat xss) prot"
  using gopher.parse_pieces_all [OF assms, of p r] finger.parse_pieces_all [OF assms, of p r]
    gemini_like.parse_pieces_all [OF assms, of prot p r]
  by (simp add: parser_parse_gopher_def [abs_def] parser_parse_finger_def [abs_def]
      parser_parse_gemini_like_def)

lemma pieces_do_not_matter_witness:
  "parse_pieces parser_parse_finger zero_parser zero_request [''/'', ''W'' @ [CR], [LF]] =
     parser_parse_finger zero_parser zero_request (''/W'' @ [CR, LF])"
  using pieces_do_not_matter [of "[''/'', ''W'' @ [CR], [LF]]" zero_parser zero_request] by simp

end
