(* ===== verification/TS_Language.thy ===== *)
theory TS_Language
  imports Complex_Main TS_Tables TS_Value
begin

text \<open>
  \<^verbatim>\<open>source/language.c\<close> and the \<^verbatim>\<open>Accept-Language\<close> state machine of
  \<^verbatim>\<open>source/parser/http_parser.c\<close>. The machine computes weights in \<^verbatim>\<open>double\<close>: the model
  uses rational numbers and rounds the result of every operation with the parameter \<open>rnd\<close>,
  the rounding of the floating-point unit. (Weights too large for a \<^verbatim>\<open>double\<close> are clamped to
  1 like every weight above 1; no operation of the machine gives a NaN.)
\<close>

section \<open>language.c\<close>

definition language_explicit :: "char \<Rightarrow> char \<Rightarrow> char \<Rightarrow> bool" where
  "language_explicit lang explicit_request implicit_request =
     (let implicit_request = (if implicit_request = NUL then CHR ''e'' else implicit_request)
      in if lang \<noteq> implicit_request then True
         else if explicit_request \<noteq> NUL \<and> explicit_request = implicit_request then True
         else False)"

definition language_get :: "byte list \<Rightarrow> nat \<Rightarrow> char" where
  "language_get lang language_size =
     (if language_size = 2 \<and> lang ! 0 = CHR ''e'' \<and> lang ! 1 = CHR ''n'' then CHR ''e''
      else if language_size = 2 \<and> lang ! 0 = CHR ''d'' \<and> lang ! 1 = CHR ''e'' then CHR ''d''
      else NUL)"

definition language_question :: "char \<Rightarrow> char \<Rightarrow> char \<Rightarrow> string" where
  "language_question lang explicit_request implicit_request =
     (let is_explicit = language_explicit lang explicit_request implicit_request
      in if lang = CHR ''e'' then (if is_explicit then ''?lang=en'' else '''')
         else if lang = CHR ''d'' then (if is_explicit then ''?lang=de'' else '''')
         else '''')"

definition language_slash :: "char \<Rightarrow> char \<Rightarrow> char \<Rightarrow> string" where
  "language_slash lang explicit_request implicit_request =
     (let is_explicit = language_explicit lang explicit_request implicit_request
      in if lang = CHR ''e'' then (if is_explicit then ''/en'' else '''')
         else if lang = CHR ''d'' then (if is_explicit then ''/de'' else '''')
         else '''')"

section \<open>Accept-Language\<close>

definition MAX_LANGUAGE_SIZE :: nat where "MAX_LANGUAGE_SIZE = 2"

datatype language_parser_state = LPS_WAIT_LANGUAGE_BEGIN | LPS_WAIT_LANGUAGE_FIRST_CHARACTERS
  | LPS_WAIT_COMMA_SEMICOLON | LPS_WAIT_Q | LPS_WAIT_EQUAL | LPS_WAIT_NUMBER

record language_parser =
  lps_state :: language_parser_state
  best_language :: char
  best_q :: rat
  lps_language :: "byte list"
  lps_size :: nat
  lps_q :: rat
  q_multiplier :: rat

text \<open>The variables without an initialiser are written before they are read.\<close>

definition language_parser_begin :: language_parser where
  "language_parser_begin = \<lparr>lps_state = LPS_WAIT_LANGUAGE_BEGIN, best_language = NUL, best_q = 0,
     lps_language = [NUL, NUL], lps_size = 0, lps_q = 0, q_multiplier = 0\<rparr>"

definition language_commit :: "rat \<Rightarrow> language_parser \<Rightarrow> language_parser" where
  "language_commit q s =
     (let q = (if q > 1 then 1 else if q < 0 then 0 else q);
          result = language_get (lps_language s) (lps_size s)
      in if result \<noteq> NUL \<and> q > best_q s then s\<lparr>best_language := result, best_q := q\<rparr> else s)"

definition is_language_char :: "byte \<Rightarrow> bool" where
  "is_language_char c \<longleftrightarrow> is_upper c \<or> is_lower c \<or> c = CHR ''*''"

text \<open>One round of the \<^verbatim>\<open>switch\<close>; \<open>Inl\<close> is \<^verbatim>\<open>return best_language\<close>.\<close>

definition language_step :: "(rat \<Rightarrow> rat) \<Rightarrow> language_parser \<Rightarrow> byte \<Rightarrow> char + language_parser" where
  "language_step rnd s c =
     (case lps_state s of
        LPS_WAIT_LANGUAGE_BEGIN \<Rightarrow>
          if c = CHR '' '' then Inr s
          else if is_language_char c
          then Inr (s\<lparr>lps_language := [to_lower c, NUL], lps_size := 1, lps_q := 1, q_multiplier := -1,
                      lps_state := LPS_WAIT_LANGUAGE_FIRST_CHARACTERS\<rparr>)
          else Inl (best_language s)
      | LPS_WAIT_LANGUAGE_FIRST_CHARACTERS \<Rightarrow>
          if c = CHR '' '' \<or> c = CHR ''-'' then Inr (s\<lparr>lps_state := LPS_WAIT_COMMA_SEMICOLON\<rparr>)
          else if c = CHR '','' then Inr ((language_commit 1 s)\<lparr>lps_state := LPS_WAIT_LANGUAGE_BEGIN\<rparr>)
          else if c = CHR '';'' then Inr (s\<lparr>lps_state := LPS_WAIT_Q\<rparr>)
          else if is_language_char c
          then let s = s\<lparr>lps_language := (lps_language s)[lps_size s := to_lower c],
                         lps_size := lps_size s + 1\<rparr>
               in Inr (if lps_size s = MAX_LANGUAGE_SIZE
                       then s\<lparr>lps_state := LPS_WAIT_COMMA_SEMICOLON\<rparr> else s)
          else Inl (best_language s)
      | LPS_WAIT_COMMA_SEMICOLON \<Rightarrow>
          if c = CHR '' '' \<or> c = CHR ''-'' then Inr s
          else if c = CHR '','' then Inr ((language_commit 1 s)\<lparr>lps_state := LPS_WAIT_LANGUAGE_BEGIN\<rparr>)
          else if c = CHR '';'' then Inr (s\<lparr>lps_state := LPS_WAIT_Q\<rparr>)
          else if is_language_char c then Inr (s\<lparr>lps_size := MAX_LANGUAGE_SIZE + 1\<rparr>)
          else Inl (best_language s)
      | LPS_WAIT_Q \<Rightarrow>
          if c = CHR '' '' then Inr s
          else if c = CHR ''Q'' \<or> c = CHR ''q'' then Inr (s\<lparr>lps_state := LPS_WAIT_EQUAL\<rparr>)
          else Inl (best_language s)
      | LPS_WAIT_EQUAL \<Rightarrow>
          if c = CHR '' '' then Inr s
          else if c = CHR ''='' then Inr (s\<lparr>lps_q := 0, lps_state := LPS_WAIT_NUMBER\<rparr>)
          else Inl (best_language s)
      | LPS_WAIT_NUMBER \<Rightarrow>
          if c = CHR '' '' then Inr s
          else if c = CHR '',''
          then Inr ((language_commit (lps_q s) s)\<lparr>lps_state := LPS_WAIT_LANGUAGE_BEGIN\<rparr>)
          else if c = CHR ''.'' then Inr (s\<lparr>q_multiplier := 1\<rparr>)
          else if is_digit c
          then let digit = of_nat (ord c - ord CHR ''0'')
               in if q_multiplier s < 0 then Inr (s\<lparr>lps_q := rnd (rnd (10 * lps_q s) + digit)\<rparr>)
                  else let s = s\<lparr>q_multiplier := rnd (q_multiplier s / 10)\<rparr>
                       in Inr (s\<lparr>lps_q := rnd (lps_q s + rnd (q_multiplier s * digit))\<rparr>)
          else Inl (best_language s))"

fun language_loop :: "(rat \<Rightarrow> rat) \<Rightarrow> language_parser \<Rightarrow> byte list \<Rightarrow> char" where
  "language_loop rnd s [] =
     (if lps_state s \<noteq> LPS_WAIT_LANGUAGE_BEGIN then best_language (language_commit (lps_q s) s)
      else best_language s)"
| "language_loop rnd s (c # cs) =
     (case language_step rnd s c of Inl result \<Rightarrow> result | Inr s \<Rightarrow> language_loop rnd s cs)"

text \<open>The two loops over the parts and over their bytes run over the text of the value.\<close>

definition parser_parse_http_language :: "(rat \<Rightarrow> rat) \<Rightarrow> memory \<Rightarrow> parts \<Rightarrow> char" where
  "parser_parse_http_language rnd m accept_language =
     language_loop rnd language_parser_begin (vbytes m accept_language)"

section \<open>What comes out\<close>

text \<open>
  An entry of the header, a language of two letters with a weight of one decimal, and the
  choice among entries: a known language with a weight above the best one so far.
\<close>

datatype language_entry = Plain byte byte | Weighted byte byte nat

fun entry_text :: "language_entry \<Rightarrow> byte list" where
  "entry_text (Plain a b) = [a, b]"
| "entry_text (Weighted a b d) = [a, b] @ '';q=0.'' @ [char_of (48 + d)]"

fun entry_ok :: "language_entry \<Rightarrow> bool" where
  "entry_ok (Plain a b) \<longleftrightarrow> is_language_char a \<and> is_language_char b"
| "entry_ok (Weighted a b d) \<longleftrightarrow> is_language_char a \<and> is_language_char b \<and> d < 10"

fun entry_language :: "language_entry \<Rightarrow> char" where
  "entry_language (Plain a b) = language_get [to_lower a, to_lower b] 2"
| "entry_language (Weighted a b d) = language_get [to_lower a, to_lower b] 2"

fun entry_weight :: "(rat \<Rightarrow> rat) \<Rightarrow> language_entry \<Rightarrow> rat" where
  "entry_weight rnd (Plain a b) = 1"
| "entry_weight rnd (Weighted a b d) =
     max 0 (min 1 (rnd (rnd (rnd (10 * 0) + 0) + rnd (rnd (1 / 10) * of_nat d))))"

definition better :: "(rat \<Rightarrow> rat) \<Rightarrow> language_entry \<Rightarrow> char \<times> rat \<Rightarrow> char \<times> rat" where
  "better rnd e best =
     (if entry_language e \<noteq> NUL \<and> entry_weight rnd e > snd best
      then (entry_language e, entry_weight rnd e) else best)"

fun header_text :: "language_entry list \<Rightarrow> byte list" where
  "header_text [] = []"
| "header_text [e] = entry_text e"
| "header_text (e # es) = entry_text e @ [CHR '',''] @ header_text es"

abbreviation best :: "language_parser \<Rightarrow> char \<times> rat" where
  "best s \<equiv> (best_language s, best_q s)"

lemma commit_best:
  "best (language_commit q s) =
     (let q' = max 0 (min 1 q); l = language_get (lps_language s) (lps_size s)
      in if l \<noteq> NUL \<and> q' > best_q s then (l, q') else best s)"
  by (auto simp: language_commit_def Let_def max_def min_def)

lemma language_char_no:
  "is_language_char c \<Longrightarrow> c \<noteq> CHR '' '' \<and> c \<noteq> CHR ''-'' \<and> c \<noteq> CHR '','' \<and> c \<noteq> CHR '';''"
  by (auto simp: is_language_char_def is_upper_def is_lower_def)

lemma digit_chars:
  assumes "d < 10"
  shows "ord (char_of (48 + d)) = 48 + d" and "is_digit (char_of (48 + d))"
    and "char_of (48 + d) \<noteq> CHR '' ''" and "char_of (48 + d) \<noteq> CHR '',''" and "char_of (48 + d) \<noteq> CHR ''.''"
proof -
  show *: "ord (char_of (48 + d)) = 48 + d" using assms by (subst ord_char_of) auto
  show "is_digit (char_of (48 + d))" unfolding is_digit_def * using assms by simp
  have "ord (char_of (48 + d)) \<noteq> ord CHR '' ''" "ord (char_of (48 + d)) \<noteq> ord CHR '',''"
    "ord (char_of (48 + d)) \<noteq> ord CHR ''.''" unfolding * by simp_all
  then show "char_of (48 + d) \<noteq> CHR '' ''" "char_of (48 + d) \<noteq> CHR '',''" "char_of (48 + d) \<noteq> CHR ''.''"
    by metis+
qed

text \<open>After an entry the machine waits for a comma, with the entry's language and weight.\<close>

lemma entry_run:
  assumes "entry_ok e" and "lps_state s = LPS_WAIT_LANGUAGE_BEGIN"
  shows "\<exists>s'. (\<forall>cs. language_loop rnd s (entry_text e @ cs) = language_loop rnd s' cs) \<and>
    best s' = best s \<and> lps_size s' = 2 \<and> language_get (lps_language s') 2 = entry_language e \<and>
    max 0 (min 1 (lps_q s')) = entry_weight rnd e \<and>
    (lps_state s' = LPS_WAIT_COMMA_SEMICOLON \<and> lps_q s' = 1 \<or> lps_state s' = LPS_WAIT_NUMBER)"
proof (cases e)
  case (Plain a b)
  then show ?thesis using assms language_char_no [of a] language_char_no [of b]
    by (intro exI [of _ "s\<lparr>lps_language := [to_lower a, to_lower b], lps_size := 2, lps_q := 1,
          q_multiplier := -1, lps_state := LPS_WAIT_COMMA_SEMICOLON\<rparr>"])
      (cases s, simp add: language_step_def Let_def MAX_LANGUAGE_SIZE_def numeral_2_eq_2)
next
  case (Weighted a b d)
  then have d: "d < 10" using assms by simp
  show ?thesis using Weighted assms language_char_no [of a] language_char_no [of b] digit_chars [OF d]
    by (intro exI [of _ "s\<lparr>lps_language := [to_lower a, to_lower b], lps_size := 2,
          lps_q := rnd (rnd (rnd (10 * 0) + 0) + rnd (rnd (1 / 10) * of_nat d)),
          q_multiplier := rnd (1 / 10), lps_state := LPS_WAIT_NUMBER\<rparr>"])
      (cases s, simp add: language_step_def Let_def MAX_LANGUAGE_SIZE_def is_digit_def numeral_2_eq_2)
qed

lemma header_run:
  assumes "list_all entry_ok es" and "lps_state s = LPS_WAIT_LANGUAGE_BEGIN"
  shows "language_loop rnd s (header_text es) = fst (fold (better rnd) es (best s))"
  using assms
proof (induction es arbitrary: s rule: header_text.induct)
  case (2 e)
  then have ok: "entry_ok e" "lps_state s = LPS_WAIT_LANGUAGE_BEGIN" by auto
  from entry_run [OF ok, of rnd] obtain s' where s': "\<forall>cs. language_loop rnd s (entry_text e @ cs) = language_loop rnd s' cs"
      "best s' = best s" "lps_size s' = 2" "language_get (lps_language s') 2 = entry_language e"
      "max 0 (min 1 (lps_q s')) = entry_weight rnd e"
      "lps_state s' = LPS_WAIT_COMMA_SEMICOLON \<and> lps_q s' = 1 \<or> lps_state s' = LPS_WAIT_NUMBER"
    by blast
  then have "language_loop rnd s' [] = fst (best (language_commit (lps_q s') s'))" by auto
  moreover have "best (language_commit (lps_q s') s') = better rnd e (best s)"
    using s' commit_best [of "lps_q s'" s'] by (simp add: better_def Let_def)
  ultimately show ?case using s'(1) [rule_format, of "[]"] by simp
next
  case (3 e e' es)
  then have ok: "entry_ok e" "lps_state s = LPS_WAIT_LANGUAGE_BEGIN" by auto
  from entry_run [OF ok, of rnd] obtain s' where s': "\<forall>cs. language_loop rnd s (entry_text e @ cs) = language_loop rnd s' cs"
      "best s' = best s" "lps_size s' = 2" "language_get (lps_language s') 2 = entry_language e"
      "max 0 (min 1 (lps_q s')) = entry_weight rnd e"
      "lps_state s' = LPS_WAIT_COMMA_SEMICOLON \<and> lps_q s' = 1 \<or> lps_state s' = LPS_WAIT_NUMBER"
    by blast
  let ?s = "(language_commit (lps_q s') s')\<lparr>lps_state := LPS_WAIT_LANGUAGE_BEGIN\<rparr>"
  have "language_step rnd s' CHR '','' = Inr ?s" using s'(6) by (auto simp: language_step_def)
  moreover have "best ?s = better rnd e (best s)"
    using s' commit_best [of "lps_q s'" s'] by (simp add: better_def Let_def)
  ultimately show ?case using s'(1) 3 by simp
qed simp

lemma subtag_run:
  "list_all is_language_char sub \<Longrightarrow> lps_state s = LPS_WAIT_COMMA_SEMICOLON \<Longrightarrow> lps_size s = 3 \<Longrightarrow>
     best_language s = NUL \<Longrightarrow> language_loop rnd s sub = NUL"
proof (induction sub arbitrary: s)
  case Nil
  then show ?case by (simp add: language_commit_def language_get_def)
next
  case (Cons c sub)
  then have "language_step rnd s c = Inr (s\<lparr>lps_size := 3\<rparr>)"
    using language_char_no [of c] by (simp add: language_step_def MAX_LANGUAGE_SIZE_def)
  then show ?case using Cons by simp
qed

section \<open>Properties\<close>



text \<open>
  A language with a subtag, such as \<^verbatim>\<open>en-US\<close>, is not recognised: the letters behind
  the hyphen mark the language as too long.
\<close>

theorem language_subtag_lost:
  assumes "is_language_char a" and "is_language_char b" and "sub \<noteq> []" and "list_all is_language_char sub"
    and "vbytes m v = [a, b] @ ''-'' @ sub"
  shows "parser_parse_http_language rnd m v = NUL"
proof -
  obtain c cs where sub: "sub = c # cs" using assms(3) by (cases sub) auto
  have c: "is_language_char c" "list_all is_language_char cs" using assms(4) sub by auto
  then show ?thesis
    using assms(1,2) language_char_no [of a] language_char_no [of b] language_char_no [of c] subtag_run [OF c(2)]
    by (simp add: parser_parse_http_language_def assms(5) sub language_step_def Let_def MAX_LANGUAGE_SIZE_def
        language_parser_begin_def)
qed

lemma language_subtag_lost_witness:
  "parser_parse_http_language (\<lambda>q. q) (nth ''en-US'') [\<lparr>part_p = 0, part_size = 5\<rparr>] = NUL"
  by (rule language_subtag_lost [of "CHR ''e''" "CHR ''n''" "''US''"])
    (simp_all add: is_language_char_def is_upper_def is_lower_def pbytes_def upt_rec)

end
