(* ===== verification/TS_Parse_Http.thy ===== *)
theory TS_Parse_Http
  imports TS_Parser TS_Language
begin

text \<open>
  \<^verbatim>\<open>parser/http_parser.c\<close> and \<^verbatim>\<open>parser/spartan_parser.c\<close>: the two request parsers with
  header fields or a body. Both read values they have passed back from the request stream,
  and both take the body in bulk.
\<close>

section \<open>Header fields\<close>

type_synonym parse_result = "exerror option \<times> parser \<times> request"

text \<open>\<^verbatim>\<open>EXPRETF(ring_get(request_stream, &location, false, &value), EEF_CLOSE_LOG_DIE)\<close>\<close>

definition with_value :: "ring \<Rightarrow> location \<Rightarrow> parser \<Rightarrow> request \<Rightarrow> (parts \<Rightarrow> parse_result) \<Rightarrow> parse_result" where
  "with_value ring l p r k =
     (case ring_get ring l False of
        Inl e \<Rightarrow> (Some (exerror_append_extend e EEF_CLOSE_LOG_DIE), p, r)
      | Inr value \<Rightarrow> k value)"

definition exfail :: "string \<Rightarrow> flags \<Rightarrow> parser \<Rightarrow> request \<Rightarrow> parse_result" where
  "exfail m flags p r = (Some (exerror_allocate flags m), p, r)"

text \<open>The loop over the words of the \<^verbatim>\<open>connection\<close> field; it ends because the value shrinks.\<close>

function keep_alive_listed :: "memory \<Rightarrow> parts \<Rightarrow> bool" where
  "keep_alive_listed m value =
     (case value_parse_comma m value of
        (rest, word, parts_remaining) \<Rightarrow>
          if value_compare_case_mem m (value_trim m word) ''keep-alive'' 10 then True
          else if \<not> parts_remaining then False
          else keep_alive_listed m rest)"
  by pat_completeness auto
termination
  by (relation "measure (\<lambda>(m, value). value_size value)")
    (auto dest!: sym [of _ "value_parse_comma _ _"] value_parse_comma_shrinks)

declare keep_alive_listed.simps [simp del]

definition parser_parse_http_name_value ::
    "(rat \<Rightarrow> rat) \<Rightarrow> ring \<Rightarrow> parser \<Rightarrow> request \<Rightarrow> parse_result" where
  "parser_parse_http_name_value rnd ring p r =
     (let m = ring_memory ring in
      with_value ring (current_name p) p r (\<lambda>name.
      if value_compare_case_mem m name ''content-length'' 14
      then with_value ring (current_value p) p r (\<lambda>value.
        case value_to_uint m (value_trim m value) of
          None \<Rightarrow> exfail ''Invalid integer'' (EEF_SEND_SHUTDOWN_LOG FR_REQUEST_INVALID) p r
        | Some n \<Rightarrow>
            let p = p\<lparr>remaining_content := n\<rparr>
            in if loc_offset (current_value p) + loc_size (current_value p) + remaining_content p \<le> MAX_REQUEST_SIZE
               then (None, p, r)
               else exfail ''Promised request size exceeded''
                 (EEF_SEND_SHUTDOWN_LOG FR_MAX_REQUEST_CONTENT_SIZE) p r)
      else if value_compare_case_mem m name ''connection'' 10
      then with_value ring (current_value p) p r (\<lambda>value.
        if keep_alive_listed m value then (None, p, r\<lparr>keep_alive := True\<rparr>) else (None, p, r))
      else if value_compare_case_mem m name ''user-agent'' 10
      then (None, p, r\<lparr>user := current_value p\<rparr>)
      else if value_compare_case_mem m name ''accept-language'' 15
      then with_value ring (current_value p) p r (\<lambda>value.
        (None, p, r\<lparr>language := parser_parse_http_language rnd m value\<rparr>))
      else (None, p, r)))"

section \<open>HTTP\<close>

text \<open>\<^verbatim>\<open>(parser->remaining_content > 0) ? RPS_WAIT_CONTENT : RPS_END\<close>\<close>

definition body_or_end :: "parser \<Rightarrow> parser_state" where
  "body_or_end p = (if remaining_content p > 0 then RPS_WAIT_CONTENT else RPS_END)"

text \<open>The body, in bulk; \<open>n\<close> bytes of the part are available.\<close>

definition take_content :: "parser \<Rightarrow> request \<Rightarrow> nat \<Rightarrow> flow" where
  "take_content p r n =
     (if n \<ge> remaining_content p
      then Return None (p\<lparr>state := RPS_END\<rparr>) (r\<lparr>stream_size := stream_size r + remaining_content p\<rparr>)
      else Return None p (r\<lparr>stream_size := stream_size r + n\<rparr>))"

definition http_step :: "(rat \<Rightarrow> rat) \<Rightarrow> ring \<Rightarrow> parse_step" where
  "http_step rnd ring p r c n =
     (case state p of
        RPS_WAIT_METHOD_BEGIN \<Rightarrow>
          if is_class CM_SPACE c then Next p r
          else if is_class CM_METHOD c
          then Next (p\<lparr>state := RPS_WAIT_METHOD_END\<rparr>) (r\<lparr>req_method := loc_at (stream_size r) 1\<rparr>)
          else invalid_symbol p r
      | RPS_WAIT_METHOD_END \<Rightarrow>
          if is_class CM_SPACE c then Next (p\<lparr>state := RPS_WAIT_RESOURCE_BEGIN\<rparr>) r
          else if is_class CM_METHOD c then Next p (r\<lparr>req_method := loc_more (req_method r)\<rparr>)
          else invalid_symbol p r
      | RPS_WAIT_RESOURCE_BEGIN \<Rightarrow>
          if is_class CM_SPACE c then Next p r
          else if is_class CM_RESOURCE c
          then Next (p\<lparr>state := RPS_WAIT_RESOURCE_END\<rparr>) (r\<lparr>resource := loc_at (stream_size r) 1\<rparr>)
          else invalid_symbol p r
      | RPS_WAIT_RESOURCE_END \<Rightarrow>
          if is_class CM_SPACE c then Next (p\<lparr>state := RPS_WAIT_PROTOCOL_BEGIN\<rparr>) r
          else if is_class CM_RESOURCE c then Next p (r\<lparr>resource := loc_more (resource r)\<rparr>)
          else invalid_symbol p r
      | RPS_WAIT_PROTOCOL_BEGIN \<Rightarrow>
          if is_class CM_SPACE c then Next p r
          else if is_class CM_PROTOCOL c
          then Next (p\<lparr>state := RPS_WAIT_PROTOCOL_END\<rparr>) (r\<lparr>protocol := loc_at (stream_size r) 1\<rparr>)
          else invalid_symbol p r
      | RPS_WAIT_PROTOCOL_END \<Rightarrow>
          if is_class CM_SPACE c then Next (p\<lparr>state := RPS_WAIT_LINE_CR\<rparr>) r
          else if is_class CM_PROTOCOL c then Next p (r\<lparr>protocol := loc_more (protocol r)\<rparr>)
          else if is_class CM_NEWLINE c
          then if c = CR then Next (p\<lparr>state := RPS_WAIT_LINE_LF\<rparr>) r
               else Next (p\<lparr>tolerated_lf := True, state := RPS_WAIT_NAME_BEGIN\<rparr>) r
          else invalid_symbol p r
      | RPS_WAIT_LINE_CR \<Rightarrow>
          if is_class CM_SPACE c then Next p r
          else if is_class CM_NEWLINE c
          then if c = CR then Next (p\<lparr>state := RPS_WAIT_LINE_LF\<rparr>) r
               else Next (p\<lparr>tolerated_lf := True, state := RPS_WAIT_NAME_BEGIN\<rparr>) r
          else invalid_symbol p r
      | RPS_WAIT_LINE_LF \<Rightarrow>
          if is_class CM_SPACE c then Next (p\<lparr>tolerated_cr := True, state := RPS_WAIT_NAME_BEGIN\<rparr>) r
          else if is_class CM_NAME c
          then Next (p\<lparr>tolerated_cr := True, current_name := loc_at (stream_size r) 1,
                       state := RPS_WAIT_NAME_END\<rparr>) r
          else if is_class CM_NEWLINE c
          then if c = CR then Next (p\<lparr>tolerated_cr := True, state := body_or_end p\<rparr>) r
               else Next (p\<lparr>state := RPS_WAIT_NAME_BEGIN\<rparr>) r
          else Next p r
      | RPS_WAIT_NAME_BEGIN \<Rightarrow>
          if is_class CM_SPACE c then Next p r
          else if is_class CM_NAME c
          then Next (p\<lparr>current_name := loc_at (stream_size r) 1, state := RPS_WAIT_NAME_END\<rparr>) r
          else if is_class CM_NEWLINE c
          then if c = CR
               then if \<not> tolerated_cr p then Next (p\<lparr>state := RPS_WAIT_FINAL_LINE_LF\<rparr>) r
                    else Next (p\<lparr>state := body_or_end p\<rparr>) r
               else Next (p\<lparr>tolerated_lf := True, state := body_or_end p\<rparr>) r
          else invalid_symbol p r
      | RPS_WAIT_NAME_END \<Rightarrow>
          if is_class CM_SPACE c then Next (p\<lparr>state := RPS_WAIT_COLON\<rparr>) r
          else if is_class CM_NAME c then Next (p\<lparr>current_name := loc_more (current_name p)\<rparr>) r
          else if c = CHR '':''
          then Next (p\<lparr>current_value := loc_at (stream_size r + 1) 0, state := RPS_WAIT_VALUE_END\<rparr>) r
          else invalid_symbol p r
      | RPS_WAIT_COLON \<Rightarrow>
          if is_class CM_SPACE c then Next p r
          else if c = CHR '':''
          then Next (p\<lparr>current_value := loc_at (stream_size r + 1) 0, state := RPS_WAIT_VALUE_END\<rparr>) r
          else invalid_symbol p r
      | RPS_WAIT_VALUE_END \<Rightarrow>
          if is_class CM_VALUE c then Next (p\<lparr>current_value := loc_more (current_value p)\<rparr>) r
          else if is_class CM_NEWLINE c
          then (case parser_parse_http_name_value rnd ring p r of
                  (Some e, p, r) \<Rightarrow> Return (Some (exerror_append e)) p r
                | (None, p, r) \<Rightarrow>
                    if c = CR
                    then if \<not> tolerated_cr p then Next (p\<lparr>state := RPS_WAIT_LINE_LF\<rparr>) r
                         else Next (p\<lparr>state := RPS_WAIT_NAME_BEGIN\<rparr>) r
                    else Next (p\<lparr>tolerated_lf := True, state := RPS_WAIT_NAME_BEGIN\<rparr>) r)
          else invalid_symbol p r
      | RPS_WAIT_FINAL_LINE_LF \<Rightarrow>
          if c = LF then Next (p\<lparr>state := body_or_end p\<rparr>) r
          else invalid_symbol p r
      | RPS_WAIT_CONTENT \<Rightarrow> take_content p r n
      | _ \<Rightarrow> if keep_alive r then Return None p r else after_end p r)"

definition parser_parse_http :: "(rat \<Rightarrow> rat) \<Rightarrow> ring \<Rightarrow> parser \<Rightarrow> request \<Rightarrow> byte list \<Rightarrow> parse_result" where
  "parser_parse_http rnd ring p r part =
     parse_loop (http_step rnd ring) (start_state RPS_WAIT_METHOD_BEGIN p) r part"

section \<open>Spartan\<close>

definition spartan_step :: "ring \<Rightarrow> parse_step" where
  "spartan_step ring p r c n =
     (case state p of
        RPS_WAIT_METHOD_END \<Rightarrow>
          if c = CHR '' '' then Next (p\<lparr>state := RPS_WAIT_RESOURCE_BEGIN\<rparr>) r
          else if is_class CM_DOMAIN c then Next p (r\<lparr>req_method := loc_more (req_method r)\<rparr>)
          else invalid_symbol p r
      | RPS_WAIT_RESOURCE_BEGIN \<Rightarrow>
          if c = CHR '' '' then Next p r
          else if is_class CM_RESOURCE c
          then Next (p\<lparr>state := RPS_WAIT_RESOURCE_END\<rparr>) (r\<lparr>resource := loc_at (stream_size r) 1\<rparr>)
          else invalid_symbol p r
      | RPS_WAIT_RESOURCE_END \<Rightarrow>
          if c = CHR '' '' then Next (p\<lparr>state := RPS_WAIT_NAME_BEGIN\<rparr>) r
          else if is_class CM_RESOURCE c then Next p (r\<lparr>resource := loc_more (resource r)\<rparr>)
          else invalid_symbol p r
      | RPS_WAIT_NAME_BEGIN \<Rightarrow>
          if c = CHR '' '' then Next p r
          else if is_class CM_RESOURCE c
          then Next (p\<lparr>current_value := loc_at (stream_size r) 1, state := RPS_WAIT_NAME_END\<rparr>) r
          else invalid_symbol p r
      | RPS_WAIT_NAME_END \<Rightarrow>
          if is_class CM_RESOURCE c then Next (p\<lparr>current_value := loc_more (current_value p)\<rparr>) r
          else if is_class CM_NEWLINE c
          then (case with_value ring (current_value p) p r (\<lambda>value.
                  case value_to_uint (ring_memory ring) value of
                    None \<Rightarrow> exfail ''Invalid integer'' (EEF_SEND_SHUTDOWN_LOG FR_REQUEST_INVALID) p r
                  | Some k \<Rightarrow>
                      let p = p\<lparr>remaining_content := k\<rparr>
                      in if loc_offset (current_value p) + loc_size (current_value p) + remaining_content p
                           \<le> MAX_REQUEST_SIZE
                         then (None, p, r)
                         else exfail ''Promised request size exceeded''
                           (EEF_SEND_SHUTDOWN_LOG FR_MAX_REQUEST_CONTENT_SIZE) p r) of
                  (Some e, p, r) \<Rightarrow> Return (Some e) p r
                | (None, p, r) \<Rightarrow>
                    if c = CR then Next (p\<lparr>state := RPS_WAIT_FINAL_LINE_LF\<rparr>) r
                    else if c = LF then Next (p\<lparr>tolerated_lf := True, state := body_or_end p\<rparr>) r
                    else Next p r)
          else invalid_symbol p r
      | RPS_WAIT_FINAL_LINE_LF \<Rightarrow>
          if c = LF then Next (p\<lparr>state := body_or_end p\<rparr>) r
          else invalid_symbol p r
      | RPS_WAIT_CONTENT \<Rightarrow> take_content p r n
      | _ \<Rightarrow> after_end p r)"

definition parser_parse_spartan :: "ring \<Rightarrow> parser \<Rightarrow> request \<Rightarrow> byte list \<Rightarrow> parse_result" where
  "parser_parse_spartan ring p r part =
     parse_loop (spartan_step ring) (start_state RPS_WAIT_METHOD_END p) r part"

section \<open>The contracts\<close>

text \<open>What has been passed can be read back.\<close>

lemma with_value_ok:
  assumes "ring_inv ring" and "loc_end l \<le> stream_size r" and "stream_size r \<le> ring_size ring"
  obtains val where "\<And>k. with_value ring l p r k = k val"
    and "vbytes (ring_memory ring) val = take (loc_size l) (drop (loc_offset l) (ring_bytes ring))"
proof -
  have "loc_offset l + loc_size l \<le> ring_size ring" using assms by (simp add: loc_end_def)
  from ring_get_bytes [OF assms(1) this, of False] obtain v where
    "ring_get ring l False = Inr v"
    "vbytes (ring_memory ring) v = take (loc_size l) (drop (loc_offset l) (ring_bytes ring))" by auto
  then show ?thesis by (intro that [of v]) (simp_all add: with_value_def)
qed

lemma locations_ok_remaining [simp]:
  "locations_ok (p\<lparr>remaining_content := n\<rparr>) r \<longleftrightarrow> locations_ok p r"
  "locations_ok (p\<lparr>state := st\<rparr>) r \<longleftrightarrow> locations_ok p r"
  "locations_ok (p\<lparr>tolerated_lf := b\<rparr>) r \<longleftrightarrow> locations_ok p r"
  "locations_ok (p\<lparr>tolerated_cr := b\<rparr>) r \<longleftrightarrow> locations_ok p r"
  "locations_ok p (r\<lparr>keep_alive := b\<rparr>) \<longleftrightarrow> locations_ok p r"
  "locations_ok p (r\<lparr>language := c\<rparr>) \<longleftrightarrow> locations_ok p r"
  by (simp_all add: locations_ok_def)

definition same_place :: "parser \<Rightarrow> request \<Rightarrow> parse_result \<Rightarrow> bool" where
  "same_place p r = (\<lambda>(e, p', r'). stream_size r' = stream_size r \<and> locations_ok p' r' \<and>
     survivable e \<and> tolerated_cr p' = tolerated_cr p)"

lemma name_value_ok:
  assumes "ring_inv ring" and ok: "locations_ok p r" and "stream_size r \<le> ring_size ring"
  shows "same_place p r (parser_parse_http_name_value rnd ring p r)"
proof -
  have ends: "loc_end (current_name p) \<le> stream_size r" "loc_end (current_value p) \<le> stream_size r"
    using ok by (auto simp: locations_ok_def)
  have user: "locations_ok p (r\<lparr>user := current_value p\<rparr>)" using ok by (simp add: locations_ok_def)
  obtain name where name: "\<And>k. with_value ring (current_name p) p r k = k name"
    using with_value_ok [OF assms(1) ends(1) assms(3)] by blast
  obtain val where val: "\<And>k. with_value ring (current_value p) p r k = k val"
    using with_value_ok [OF assms(1) ends(2) assms(3)] by blast
  show ?thesis unfolding parser_parse_http_name_value_def Let_def name val
    using ok user by (auto simp: same_place_def exfail_def split: option.splits)
qed

lemma http_next:
  assumes "ring_inv ring" and "locations_ok p r" and "stream_size r + n \<le> ring_size ring"
    and "http_step rnd ring p r c n = Next p' r'"
  shows "stream_size r' = stream_size r \<and> locations_ok p' (r'\<lparr>stream_size := stream_size r + 1\<rparr>)"
proof (cases "state p = RPS_WAIT_VALUE_END \<and> \<not> is_class CM_VALUE c")
  case True
  have fits: "stream_size r \<le> ring_size ring" using assms(3) by simp
  obtain e p1 r1 where nv: "parser_parse_http_name_value rnd ring p r = (e, p1, r1)"
    by (cases "parser_parse_http_name_value rnd ring p r")
  then have "stream_size r1 = stream_size r" "locations_ok p1 r1"
    using name_value_ok [OF assms(1,2) fits, of rnd] by (auto simp: same_place_def)
  then show ?thesis using True assms(4) nv
    by (auto simp: http_step_def invalid_symbol_def locations_ok_def split: if_splits option.splits)
next
  case False
  then show ?thesis using assms(2,4)
    by (auto simp: http_step_def locations_ok_def invalid_symbol_def after_end_def take_content_def
        split: parser_state.splits if_splits)
qed

lemma take_content_ok:
  assumes "take_content p r n = Return e p' r'" and "locations_ok p r"
  shows "stream_size r \<le> stream_size r' \<and> stream_size r' \<le> stream_size r + n \<and> locations_ok p' r' \<and> survivable e"
  using assms by (auto simp: take_content_def locations_ok_def split: if_splits)

lemma http_return:
  assumes "ring_inv ring" and "locations_ok p r" and "stream_size r + n \<le> ring_size ring"
    and "http_step rnd ring p r c n = Return e p' r'"
  shows "stream_size r \<le> stream_size r' \<and> stream_size r' \<le> stream_size r + n \<and>
    locations_ok p' r' \<and> survivable e"
proof -
  have fits: "stream_size r \<le> ring_size ring" using assms(3) by simp
  obtain e1 p1 r1 where nv: "parser_parse_http_name_value rnd ring p r = (e1, p1, r1)"
    by (cases "parser_parse_http_name_value rnd ring p r")
  then have nv': "stream_size r1 = stream_size r" "locations_ok p1 r1" "survivable e1"
    using name_value_ok [OF assms(1,2) fits, of rnd] by (auto simp: same_place_def)
  consider "state p = RPS_WAIT_CONTENT" | "state p = RPS_WAIT_VALUE_END"
    | "state p \<noteq> RPS_WAIT_CONTENT" "state p \<noteq> RPS_WAIT_VALUE_END" by blast
  then show ?thesis
  proof cases
    case 1
    then show ?thesis using assms(4) take_content_ok [OF _ assms(2)] by (simp add: http_step_def)
  next
    case 2
    then show ?thesis using assms(2,4) nv nv'
      by (auto simp: http_step_def invalid_symbol_def split: if_splits option.splits)
  next
    case 3
    then show ?thesis using assms(2,4)
      by (auto simp: http_step_def invalid_symbol_def after_end_def split: parser_state.splits if_splits)
  qed
qed

interpretation http_request: request_parser "http_step rnd" RPS_WAIT_METHOD_BEGIN locations_ok for rnd
proof unfold_locales
  show "locations_ok zero_parser zero_request" by (rule locations_ok_zero)
qed (rule http_next; assumption | rule http_return; assumption | simp)+

text \<open>The size of the body of a spartan request.\<close>

lemma spartan_next:
  assumes "ring_inv ring" and "locations_ok p r" and "stream_size r + n \<le> ring_size ring"
    and "spartan_step ring p r c n = Next p' r'"
  shows "stream_size r' = stream_size r \<and> locations_ok p' (r'\<lparr>stream_size := stream_size r + 1\<rparr>)"
proof -
  have "stream_size r \<le> ring_size ring" "loc_end (current_value p) \<le> stream_size r"
    using assms(2,3) by (auto simp: locations_ok_def)
  then obtain val where val: "\<And>k. with_value ring (current_value p) p r k = k val"
    using with_value_ok [OF assms(1)] by blast
  show ?thesis using assms(2,4)
    by (auto simp: spartan_step_def val exfail_def locations_ok_def invalid_symbol_def after_end_def
        take_content_def Let_def split: parser_state.splits if_splits option.splits)
qed

lemma spartan_return:
  assumes "ring_inv ring" and "locations_ok p r" and "stream_size r + n \<le> ring_size ring"
    and "spartan_step ring p r c n = Return e p' r'"
  shows "stream_size r \<le> stream_size r' \<and> stream_size r' \<le> stream_size r + n \<and>
    locations_ok p' r' \<and> survivable e"
proof (cases "state p = RPS_WAIT_CONTENT")
  case True
  then show ?thesis using assms(4) take_content_ok [OF _ assms(2)] by (simp add: spartan_step_def)
next
  case False
  have "stream_size r \<le> ring_size ring" "loc_end (current_value p) \<le> stream_size r"
    using assms(2,3) by (auto simp: locations_ok_def)
  then obtain val where val: "\<And>k. with_value ring (current_value p) p r k = k val"
    using with_value_ok [OF assms(1)] by blast
  show ?thesis using assms(2,4) False
    by (auto simp: spartan_step_def val exfail_def invalid_symbol_def after_end_def Let_def
        split: parser_state.splits if_splits option.splits)
qed

interpretation spartan_request: request_parser spartan_step RPS_WAIT_METHOD_END locations_ok
proof unfold_locales
  show "locations_ok zero_parser zero_request" by (rule locations_ok_zero)
qed (rule spartan_next; assumption | rule spartan_return; assumption | simp)+

end
