(* ===== verification/TS_Parse.thy ===== *)
theory TS_Parse
  imports TS_Parse_Text TS_Parse_Http
begin

text \<open>
  \<^verbatim>\<open>parser/parser.c\<close>: the choice of the parser by the accepting socket, on the bytes of the
  request stream that have not been parsed yet, and what holds for every protocol.
\<close>

definition parse_part :: "(rat \<Rightarrow> rat) \<Rightarrow> nat \<Rightarrow> ring \<Rightarrow> parser \<Rightarrow> request \<Rightarrow> byte list \<Rightarrow> parse_result" where
  "parse_part rnd accepting_socket ring p r part =
     (if ACCEPTING_SOCKET_IS_HTTP accepting_socket then parser_parse_http rnd ring p r part
      else if ACCEPTING_SOCKET_IS_HTTPS accepting_socket then parser_parse_http rnd ring p r part
      else if ACCEPTING_SOCKET_IS_GOPHER accepting_socket then parser_parse_gopher p r part
      else if ACCEPTING_SOCKET_IS_FINGER accepting_socket then parser_parse_finger p r part
      else if ACCEPTING_SOCKET_IS_GEMINI accepting_socket then parser_parse_gemini p r part
      else if ACCEPTING_SOCKET_IS_SPARTAN accepting_socket then parser_parse_spartan ring p r part
      else if ACCEPTING_SOCKET_IS_NEX accepting_socket then parser_parse_nex p r part
      else if ACCEPTING_SOCKET_IS_TEXT accepting_socket then parser_parse_text p r part
      else parser_parse_guppy p r part)"

text \<open>\<^verbatim>\<open>for (i = 0; i < VALUE_PARTS; i++)\<close>\<close>

fun parse_parts :: "(rat \<Rightarrow> rat) \<Rightarrow> nat \<Rightarrow> ring \<Rightarrow> parser \<Rightarrow> request \<Rightarrow> parts \<Rightarrow> parse_result" where
  "parse_parts rnd accepting_socket ring p r [] = (None, p, r)"
| "parse_parts rnd accepting_socket ring p r (part # v) =
     (case parse_part rnd accepting_socket ring p r (pbytes (ring_memory ring) part) of
        (Some e, p, r) \<Rightarrow> (Some (exerror_append e), p, r)
      | (None, p, r) \<Rightarrow> parse_parts rnd accepting_socket ring p r v)"

definition parser_parse :: "(rat \<Rightarrow> rat) \<Rightarrow> nat \<Rightarrow> parser \<Rightarrow> request \<Rightarrow> ring \<Rightarrow> parse_result" where
  "parser_parse rnd accepting_socket p r request_stream =
     (let offset = stream_size r;
          size = (if ring_size request_stream \<ge> MAX_REQUEST_SIZE then size_sub MAX_REQUEST_SIZE offset
                  else size_sub (ring_size request_stream) offset)
      in with_value request_stream \<lparr>loc_offset = offset, loc_size = size\<rparr> p r (\<lambda>not_parsed.
         case parse_parts rnd accepting_socket request_stream p r not_parsed of
           (Some e, p, r) \<Rightarrow> (Some e, p, r)
         | (None, p, r) \<Rightarrow>
             if ring_size request_stream \<ge> MAX_REQUEST_SIZE \<and> state p \<noteq> RPS_END
             then exfail ''Actual request size exceeded'' (EEF_SEND_SHUTDOWN_LOG FR_MAX_REQUEST_HEADER_SIZE) p r
             else (None, p, r)))"

section \<open>For every protocol\<close>

definition parser_ok :: "nat \<Rightarrow> parser \<Rightarrow> request \<Rightarrow> bool" where
  "parser_ok accepting_socket p r =
     (if ACCEPTING_SOCKET_IS_FINGER accepting_socket then finger_ok p r
      else if ACCEPTING_SOCKET_IS_GEMINI accepting_socket \<or> ACCEPTING_SOCKET_IS_TEXT accepting_socket \<or>
        ACCEPTING_SOCKET_IS_GUPPY accepting_socket then gemini_ok p r
      else locations_ok p r)"

text \<open>The result of a parser that was at \<open>r\<close> and was given \<open>n\<close> bytes.\<close>

definition parsed_ok :: "nat \<Rightarrow> request \<Rightarrow> nat \<Rightarrow> parse_result \<Rightarrow> bool" where
  "parsed_ok accepting_socket r n = (\<lambda>(e, p', r'). stream_size r \<le> stream_size r' \<and>
     stream_size r' \<le> stream_size r + n \<and> parser_ok accepting_socket p' r' \<and> survivable e)"

lemma parse_part_ok:
  assumes "ring_inv ring" and "parser_ok socket p r" and "stream_size r + length part \<le> ring_size ring"
  shows "parsed_ok socket r (length part) (parse_part rnd socket ring p r part)"
proof -
  note spec = gopher_request.parse_ok [OF assms(1) _ assms(3)] finger_request.parse_ok [OF assms(1) _ assms(3)]
    gemini_request.parse_ok [OF assms(1) _ assms(3)] http_request.parse_ok [OF assms(1) _ assms(3)]
    spartan_request.parse_ok [OF assms(1) _ assms(3)]
  show ?thesis using assms(2)
    by (auto simp: parsed_ok_def parse_part_def parser_ok_def accepting_socket_defs
        parser_parse_http_def parser_parse_gopher_def parser_parse_finger_def parser_parse_gemini_def
        parser_parse_spartan_def parser_parse_nex_def parser_parse_text_def parser_parse_guppy_def
        parser_parse_gemini_like_def dest: spec split: if_splits)
qed

lemma parse_parts_ok:
  assumes "ring_inv ring"
  shows "parser_ok socket p r \<Longrightarrow> stream_size r + value_size v \<le> ring_size ring \<Longrightarrow>
    parsed_ok socket r (value_size v) (parse_parts rnd socket ring p r v)"
proof (induction v arbitrary: p r)
  case Nil
  then show ?case by (simp add: parsed_ok_def)
next
  case (Cons part v)
  have len: "length (pbytes (ring_memory ring) part) = part_size part" by (simp add: pbytes_def)
  obtain e p1 r1 where part: "parse_part rnd socket ring p r (pbytes (ring_memory ring) part) = (e, p1, r1)"
    by (cases "parse_part rnd socket ring p r (pbytes (ring_memory ring) part)")
  have "stream_size r + length (pbytes (ring_memory ring) part) \<le> ring_size ring" using Cons.prems len by simp
  from parse_part_ok [OF assms Cons.prems(1) this, of rnd]
  have ok: "stream_size r \<le> stream_size r1" "stream_size r1 \<le> stream_size r + part_size part"
    "parser_ok socket p1 r1" "survivable e" by (auto simp: parsed_ok_def part len)
  show ?case
  proof (cases e)
    case None
    have "parsed_ok socket r1 (value_size v) (parse_parts rnd socket ring p1 r1 v)"
      using Cons.IH [OF ok(3)] ok(2) Cons.prems(2) by simp
    then show ?thesis using part None ok by (auto simp: parsed_ok_def)
  next
    case (Some e')
    then show ?thesis using part ok by (simp add: parsed_ok_def)
  qed
qed

lemma parser_parse_ok:
  assumes "ring_inv ring" and "parser_ok socket p r"
    and "stream_size r \<le> ring_size ring" and "stream_size r \<le> MAX_REQUEST_SIZE"
  shows "parsed_ok socket r (min (ring_size ring) MAX_REQUEST_SIZE - stream_size r)
    (parser_parse rnd socket p r ring)"
proof -
  define n where "n = min (ring_size ring) MAX_REQUEST_SIZE - stream_size r"
  have lt: "ring_size ring < 2 ^ 64" "MAX_REQUEST_SIZE < 2 ^ 64"
    using ring_invD [OF assms(1)] by (simp_all add: constants)
  have size: "(if ring_size ring \<ge> MAX_REQUEST_SIZE then size_sub MAX_REQUEST_SIZE (stream_size r)
      else size_sub (ring_size ring) (stream_size r)) = n"
    using assms(3,4) lt by (auto simp: n_def min_def)
  have fits: "stream_size r + n \<le> ring_size ring" using assms(3,4) by (simp add: n_def)
  then obtain v where v: "ring_get ring \<lparr>loc_offset = stream_size r, loc_size = n\<rparr> False = Inr v" "value_size v = n"
    using ring_get_ok [OF assms(1), of "\<lparr>loc_offset = stream_size r, loc_size = n\<rparr>" False] by auto
  obtain e p1 r1 where parts: "parse_parts rnd socket ring p r v = (e, p1, r1)"
    by (cases "parse_parts rnd socket ring p r v")
  have ok: "parsed_ok socket r n (e, p1, r1)"
    using parse_parts_ok [OF assms(1,2), of v rnd] fits v(2) parts by simp
  show ?thesis unfolding n_def [symmetric] using ok
    by (auto simp: parser_parse_def size Let_def with_value_def v parts parsed_ok_def exfail_def
        split: option.splits)
qed

lemma parser_ok_end: "parser_ok socket p r \<Longrightarrow> state p = RPS_END \<Longrightarrow> locations_ok p r"
  by (auto simp: parser_ok_def gemini_ok_def dest: finger_request.ok_end split: if_splits)

lemma parser_ok_zero: "parser_ok socket zero_parser zero_request"
  by (simp add: parser_ok_def finger_request.ok_zero gemini_request.ok_zero locations_ok_zero)

section \<open>An HTTP request without fields\<close>

text \<open>A stretch of bytes in one state.\<close>

lemma parse_loop_stretch:
  assumes "\<And>c r n. c \<in> set xs \<Longrightarrow> step p r c n = Next p (f r)"
    and "\<And>r. g 0 r = r" and "\<And>k r. g k ((f r)\<lparr>stream_size := stream_size (f r) + 1\<rparr>) = g (Suc k) r"
  shows "parse_loop step p r (xs @ ys) = parse_loop step p (g (length xs) r) ys"
  using assms(1)
proof (induction xs arbitrary: r)
  case (Cons c xs)
  have "step p r c (length ((c # xs) @ ys)) = Next p (f r)" using Cons.prems by simp
  then show ?case using Cons assms(3) by simp
qed (simp add: assms(2))

lemma parse_loop_step:
  "step p r c (Suc (length cs)) = Next p' r' \<Longrightarrow>
     parse_loop step p r (c # cs) = parse_loop step p' (r'\<lparr>stream_size := stream_size r' + 1\<rparr>) cs"
  by simp

lemma class_no_space:
  "is_class CM_METHOD c \<Longrightarrow> \<not> is_class CM_SPACE c" "is_class CM_RESOURCE c \<Longrightarrow> \<not> is_class CM_SPACE c"
  "is_class CM_PROTOCOL c \<Longrightarrow> \<not> is_class CM_SPACE c"
  "is_class CM_SPACE CHR '' ''" "\<not> is_class CM_SPACE CR" "\<not> is_class CM_PROTOCOL CR" "is_class CM_NEWLINE CR"
  "\<not> is_class CM_SPACE LF" "\<not> is_class CM_NAME LF" "is_class CM_NEWLINE LF" "\<not> is_class CM_NAME CR"
  by (auto simp: class_iff is_alnum_def is_upper_def is_lower_def is_digit_def token_symbols_def)

lemma http_method_run:
  assumes "list_all (is_class CM_METHOD) xs" and "state p = RPS_WAIT_METHOD_END"
  shows "parse_loop (http_step rnd ring) p r (xs @ ys) = parse_loop (http_step rnd ring) p
    (r\<lparr>req_method := (req_method r)\<lparr>loc_size := loc_size (req_method r) + length xs\<rparr>, stream_size := stream_size r + length xs\<rparr>) ys"
  by (rule parse_loop_stretch [where f = "\<lambda>r. r\<lparr>req_method := loc_more (req_method r)\<rparr>"
      and g = "\<lambda>k r. r\<lparr>req_method := (req_method r)\<lparr>loc_size := loc_size (req_method r) + k\<rparr>, stream_size := stream_size r + k\<rparr>"])
    (use assms in \<open>auto simp: http_step_def list_all_iff class_no_space loc_more_def\<close>)

lemma http_resource_run:
  assumes "list_all (is_class CM_RESOURCE) xs" and "state p = RPS_WAIT_RESOURCE_END"
  shows "parse_loop (http_step rnd ring) p r (xs @ ys) = parse_loop (http_step rnd ring) p
    (r\<lparr>resource := (resource r)\<lparr>loc_size := loc_size (resource r) + length xs\<rparr>, stream_size := stream_size r + length xs\<rparr>) ys"
  by (rule parse_loop_stretch [where f = "\<lambda>r. r\<lparr>resource := loc_more (resource r)\<rparr>"
      and g = "\<lambda>k r. r\<lparr>resource := (resource r)\<lparr>loc_size := loc_size (resource r) + k\<rparr>, stream_size := stream_size r + k\<rparr>"])
    (use assms in \<open>auto simp: http_step_def list_all_iff class_no_space loc_more_def\<close>)

lemma http_protocol_run:
  assumes "list_all (is_class CM_PROTOCOL) xs" and "state p = RPS_WAIT_PROTOCOL_END"
  shows "parse_loop (http_step rnd ring) p r (xs @ ys) = parse_loop (http_step rnd ring) p
    (r\<lparr>protocol := (protocol r)\<lparr>loc_size := loc_size (protocol r) + length xs\<rparr>, stream_size := stream_size r + length xs\<rparr>) ys"
  by (rule parse_loop_stretch [where f = "\<lambda>r. r\<lparr>protocol := loc_more (protocol r)\<rparr>"
      and g = "\<lambda>k r. r\<lparr>protocol := (protocol r)\<lparr>loc_size := loc_size (protocol r) + k\<rparr>, stream_size := stream_size r + k\<rparr>"])
    (use assms in \<open>auto simp: http_step_def list_all_iff class_no_space loc_more_def\<close>)

definition request_line :: "byte list \<Rightarrow> byte list \<Rightarrow> byte list \<Rightarrow> byte list" where
  "request_line m res prot = m @ '' '' @ res @ '' '' @ prot @ [CR, LF]"

definition http_located :: "byte list \<Rightarrow> byte list \<Rightarrow> byte list \<Rightarrow> request" where
  "http_located m res prot = zero_request\<lparr>
     req_method := loc_at 0 (length m),
     resource := loc_at (length m + 1) (length res),
     protocol := loc_at (length m + length res + 2) (length prot),
     stream_size := length (request_line m res prot)\<rparr>"

lemma http_request_line:
  assumes "m \<noteq> []" and "list_all (is_class CM_METHOD) m" and "res \<noteq> []" and "list_all (is_class CM_RESOURCE) res"
    and "prot \<noteq> []" and "list_all (is_class CM_PROTOCOL) prot"
  shows "parse_loop (http_step rnd ring) (start_state RPS_WAIT_METHOD_BEGIN zero_parser) zero_request
      (request_line m res prot @ ys) =
    parse_loop (http_step rnd ring) (zero_parser\<lparr>state := RPS_WAIT_NAME_BEGIN\<rparr>) (http_located m res prot) ys"
proof -
  obtain m0 m' r0 r' p0 p' where cons: "m = m0 # m'" "res = r0 # r'" "prot = p0 # p'"
    using assms by (cases m; cases res; cases prot) auto
  have first: "is_class CM_METHOD m0" "is_class CM_RESOURCE r0" "is_class CM_PROTOCOL p0"
    and rest: "list_all (is_class CM_METHOD) m'" "list_all (is_class CM_RESOURCE) r'"
      "list_all (is_class CM_PROTOCOL) p'"
    using assms by (auto simp: cons)
  note nos = first class_no_space class_no_space(1) [OF first(1)] class_no_space(2) [OF first(2)]
    class_no_space(3) [OF first(3)]
  note runs = http_method_run [OF rest(1)] http_resource_run [OF rest(2)] http_protocol_run [OF rest(3)]
  have start: "start_state RPS_WAIT_METHOD_BEGIN zero_parser = zero_parser\<lparr>state := RPS_WAIT_METHOD_BEGIN\<rparr>"
    by (simp add: start_state_def zero_parser_def)
  have split: "request_line m res prot @ ys =
      m0 # m' @ CHR '' '' # r0 # r' @ CHR '' '' # p0 # p' @ CR # LF # ys"
    by (simp add: request_line_def cons)
  show ?thesis unfolding split start
    by (simp add: http_step_def nos runs)
      (simp add: http_located_def request_line_def cons zero_request_def zero_parser_def loc_at_def loc_more_def
        zero_location_def ac_simps)
qed

section \<open>Properties\<close>

text \<open>
  C1: whatever bytes arrive, a call of \<^verbatim>\<open>parser_parse\<close> on a stream of which the parser
  has consumed a prefix never touches memory outside the stream and never stops the server: it
  consumes at most the bytes at hand (and no more than the maximal request), keeps its invariant,
  returns only errors that send a response and do not carry the fatal flag, and when it reports a
  complete request all locations of the request lie in the bytes consumed. It never runs past
  the limit without an error.
\<close>

theorem parser_parse_safe:
  assumes "ring_inv ring" and "parser_ok socket p r"
    and "stream_size r \<le> min (ring_size ring) MAX_REQUEST_SIZE"
  shows "case parser_parse rnd socket p r ring of (e, p', r') \<Rightarrow>
    stream_size r \<le> stream_size r' \<and> stream_size r' \<le> min (ring_size ring) MAX_REQUEST_SIZE \<and>
    parser_ok socket p' r' \<and> survivable e \<and>
    (state p' = RPS_END \<longrightarrow> locations_ok p' r') \<and>
    (e = None \<longrightarrow> state p' \<noteq> RPS_END \<longrightarrow> ring_size ring < MAX_REQUEST_SIZE)"
proof -
  obtain e p' r' where result: "parser_parse rnd socket p r ring = (e, p', r')"
    by (cases "parser_parse rnd socket p r ring")
  have "stream_size r \<le> ring_size ring" "stream_size r \<le> MAX_REQUEST_SIZE" using assms(3) by auto
  from parser_parse_ok [OF assms(1,2) this, of rnd] result
  have ok: "parsed_ok socket r (min (ring_size ring) MAX_REQUEST_SIZE - stream_size r) (e, p', r')" by simp
  have "e = None \<longrightarrow> state p' \<noteq> RPS_END \<longrightarrow> ring_size ring < MAX_REQUEST_SIZE"
    using result by (auto simp: parser_parse_def with_value_def exfail_def Let_def
        split: sum.splits option.splits prod.splits if_splits)
  then show ?thesis using ok assms(3) parser_ok_end by (auto simp: parsed_ok_def result)
qed

lemma parser_parse_safe_witness:
  "case parser_parse (\<lambda>q. q) 6 zero_parser zero_request sample_ring of (e, p', r') \<Rightarrow>
     stream_size r' \<le> 3 \<and> survivable e"
proof -
  have "stream_size zero_request \<le> min (ring_size sample_ring) MAX_REQUEST_SIZE" by (simp add: zero_request_def)
  from parser_parse_safe [OF sample_ring_facts(1) parser_ok_zero this, of 6 "\<lambda>q. q"] show ?thesis
    by (auto simp: sample_ring_facts split: prod.splits)
qed

text \<open>
  A request line and the empty line after it are a complete HTTP request, with the
  method, the resource and the protocol where they stand in the stream and no body; fields
  that follow the request line start in a state that has these locations.
\<close>

theorem http_request_without_fields:
  assumes "m \<noteq> []" and "list_all (is_class CM_METHOD) m" and "res \<noteq> []" and "list_all (is_class CM_RESOURCE) res"
    and "prot \<noteq> []" and "list_all (is_class CM_PROTOCOL) prot"
  shows "parser_parse_http rnd ring zero_parser zero_request (request_line m res prot @ [CR, LF]) =
    (None, zero_parser\<lparr>state := RPS_END\<rparr>,
     (http_located m res prot)\<lparr>stream_size := length (request_line m res prot) + 2\<rparr>)"
proof -
  have "parse_loop (http_step rnd ring) (zero_parser\<lparr>state := RPS_WAIT_NAME_BEGIN\<rparr>) r [CR, LF] =
      (None, zero_parser\<lparr>state := RPS_END\<rparr>, r\<lparr>stream_size := stream_size r + 2\<rparr>)" for r
    by (simp add: http_step_def class_no_space zero_parser_def body_or_end_def)
  then show ?thesis unfolding parser_parse_http_def http_request_line [OF assms]
    by (simp add: http_located_def)
qed

lemma http_request_without_fields_witness:
  "state (fst (snd (parser_parse_http (\<lambda>q. q) zero_ring zero_parser zero_request
     (request_line ''GET'' ''/a'' ''HTTP/1.1'' @ [CR, LF])))) = RPS_END"
  by (subst http_request_without_fields)
    (simp_all add: class_iff is_alnum_def is_upper_def is_lower_def is_digit_def)

text \<open>
  C12: a body that arrives in pieces none of which is as long as the whole body never
  completes an HTTP or spartan request, however many bytes arrive: the number of bytes still
  expected is not reduced by those that were taken.
\<close>

theorem body_in_pieces_never_ends:
  assumes "state p = RPS_WAIT_CONTENT" and "list_all (\<lambda>xs. length xs < remaining_content p) xss"
  shows "parse_pieces (parser_parse_http rnd ring) p r xss =
      (None, p, r\<lparr>stream_size := stream_size r + length (concat xss)\<rparr>) \<and>
    parse_pieces (parser_parse_spartan ring) p r xss =
      (None, p, r\<lparr>stream_size := stream_size r + length (concat xss)\<rparr>)"
  using assms(2)
proof (induction xss arbitrary: r)
  case Nil
  then show ?case by simp
next
  case (Cons xs xss)
  have "parser_parse_http rnd ring p r xs = (None, p, r\<lparr>stream_size := stream_size r + length xs\<rparr>) \<and>
      parser_parse_spartan ring p r xs = (None, p, r\<lparr>stream_size := stream_size r + length xs\<rparr>)"
    using Cons.prems assms(1)
    by (cases xs) (auto simp: parser_parse_http_def parser_parse_spartan_def start_state_def http_step_def
        spartan_step_def take_content_def)
  then show ?case using Cons by (simp add: add.assoc)
qed

lemma body_in_pieces_never_ends_witness:
  "parse_pieces (parser_parse_spartan zero_ring) (zero_parser\<lparr>state := RPS_WAIT_CONTENT, remaining_content := 3\<rparr>)
     zero_request [''ab'', ''c'', ''de''] =
   (None, zero_parser\<lparr>state := RPS_WAIT_CONTENT, remaining_content := 3\<rparr>, zero_request\<lparr>stream_size := 5\<rparr>)"
  using body_in_pieces_never_ends [of "zero_parser\<lparr>state := RPS_WAIT_CONTENT, remaining_content := 3\<rparr>"
      "[''ab'', ''c'', ''de'']" "\<lambda>q. q" zero_ring zero_request]
  by (simp add: zero_request_def)

end
