(* ===== verification/TS_Client.thy ===== *)
theory TS_Client
  imports TS_Response TS_Parse "HOL-Library.Multiset"
begin

text \<open>
  \<^verbatim>\<open>include/client.h\<close> and \<^verbatim>\<open>source/client.c\<close>: the clients, the buffer that holds them and
  the short response stream, the one response that stays where the processor wrote it until it
  is sent. A pointer to a client is its index in the buffer. The handles of OpenSSL and the
  address are kept as opaque values.
\<close>

section \<open>The structures\<close>

datatype cryptography_state = CS_PENDING_HANDSHAKE | CS_OPERATIONAL | CS_PENDING_SHUTDOWN | CS_SHUTDOWN

record client =
  accepting_socket :: nat
  dead :: bool
  request_stream :: ring
  client_request :: request
  client_parser :: parser
  response_stream :: ring
  client_response :: response
  response_queue :: ring
  response_count :: nat
  last_request_complete :: int
  last_request_stream_not_empty :: int
  last_response_stream_not_full :: int
  last_response_complete :: int
  last_chunk_sent :: int
  cryptography_state :: cryptography_state
  ssl :: bool
  address :: "byte list"
  shuffle_index :: nat

definition zero_client :: client where
  "zero_client = \<lparr>accepting_socket = 0, dead = False, request_stream = zero_ring,
     client_request = zero_request, client_parser = zero_parser, response_stream = zero_ring,
     client_response = zero_response, response_queue = zero_ring, response_count = 0,
     last_request_complete = 0, last_request_stream_not_empty = 0, last_response_stream_not_full = 0,
     last_response_complete = 0, last_chunk_sent = 0, cryptography_state = CS_PENDING_HANDSHAKE,
     ssl = False, address = [], shuffle_index = 0\<rparr>"

text \<open>
  The global variables: \<^verbatim>\<open>g_short_response_stream\<close> points into the memory the processor
  wrote the response to (\<open>processor_memory\<close>), the owners are indices or \<^verbatim>\<open>NULL\<close>.
\<close>

record globals =
  short_response_stream :: parts
  short_response_owner :: "nat option"
  short_request_message :: "byte list"
  short_request_owner :: "nat option"
  short_request_size :: nat
  processor_memory :: memory
  g_memory :: nat

text \<open>A poll: its descriptor, \<^verbatim>\<open>-1\<close> when closed.\<close>

record pollfd =
  poll_fd :: int
  poll_events :: "16 word"
  poll_revents :: "16 word"

section \<open>Operations of client.c\<close>

definition client_response_stream_size :: "globals \<Rightarrow> nat \<Rightarrow> client \<Rightarrow> nat" where
  "client_response_stream_size G i c =
     (let size = ring_size (response_stream c)
      in if short_response_owner G = Some i then size_add size (value_size (short_response_stream G))
         else size)"

definition client_finalize :: "globals \<Rightarrow> nat \<Rightarrow> client \<Rightarrow> globals \<times> client" where
  "client_finalize G i c =
     (let c = c\<lparr>dead := True\<rparr>;
          G = (if short_request_owner G = Some i
               then G\<lparr>short_response_stream := zero_value, short_response_owner := None\<rparr> else G);
          c = (if ssl c then c\<lparr>ssl := False\<rparr> else c);
          (g, r) = ring_finalize (g_memory G) (request_stream c);
          c = c\<lparr>request_stream := r\<rparr>;
          (g, r) = ring_finalize g (response_queue c);
          c = c\<lparr>response_queue := r\<rparr>;
          (g, r) = ring_finalize g (response_stream c);
          c = c\<lparr>response_stream := r\<rparr>
      in (G\<lparr>g_memory := g\<rparr>, c))"

definition poll_finalize :: "pollfd \<Rightarrow> pollfd" where
  "poll_finalize p = (if poll_fd p \<ge> 0 then p\<lparr>poll_fd := -1\<rparr> else p)"

text \<open>
  \<^verbatim>\<open>clients_shuffle\<close>: first \<^verbatim>\<open>shuffle_index = i\<close>, then the exchanges from the back;
  \<open>random_rand\<close> is the random number generator, asked with the bound.
\<close>

definition swap_shuffle :: "client list \<Rightarrow> nat \<Rightarrow> nat \<Rightarrow> client list" where
  "swap_shuffle cs i j =
     (let si = shuffle_index (cs ! i);
          cs = cs[i := (cs ! i)\<lparr>shuffle_index := shuffle_index (cs ! j)\<rparr>]
      in cs[j := (cs ! j)\<lparr>shuffle_index := si\<rparr>])"

fun shuffle_from :: "(nat \<Rightarrow> nat) \<Rightarrow> client list \<Rightarrow> nat \<Rightarrow> client list" where
  "shuffle_from random_rand cs 0 = cs"
| "shuffle_from random_rand cs (Suc i) =
     shuffle_from random_rand (swap_shuffle cs (Suc i) (random_rand (Suc i + 1))) i"

definition clients_shuffle :: "(nat \<Rightarrow> nat) \<Rightarrow> client list \<Rightarrow> client list" where
  "clients_shuffle random_rand clients =
     (let cs = map (\<lambda>(i, c). c\<lparr>shuffle_index := i\<rparr>) (zip [0..<length clients] clients)
      in if cs = [] then cs else shuffle_from random_rand cs (length cs - 1))"

text \<open>
  \<^verbatim>\<open>clients_remove_finalized\<close>: the living clients and their polls move to the front, in
  order; \<open>s\<close> counts the survivors. \<open>polls\<close> here are those behind the accepting sockets.
\<close>

fun remove_finalized :: "nat option \<Rightarrow> nat \<Rightarrow> nat \<Rightarrow> client list \<Rightarrow> pollfd list \<Rightarrow>
    nat option \<times> client list \<times> pollfd list" where
  "remove_finalized owner i s (c # clients) (p # polls) =
     (if dead c then remove_finalized owner (Suc i) s clients polls
      else let owner = (if owner = Some i then Some (i - (i - s)) else owner)
           in case remove_finalized owner (Suc i) (Suc s) clients polls of
                (owner, cs, ps) \<Rightarrow> (owner, c # cs, p # ps))"
| "remove_finalized owner i s clients polls = (owner, [], [])"

definition clients_remove_finalized ::
    "globals \<Rightarrow> client list \<Rightarrow> pollfd list \<Rightarrow> globals \<times> client list \<times> pollfd list" where
  "clients_remove_finalized G clients polls =
     (case remove_finalized (short_response_owner G) 0 0 clients polls of
        (owner, cs, ps) \<Rightarrow> (G\<lparr>short_response_owner := owner\<rparr>, cs, ps))"

section \<open>Shuffling\<close>

lemma length_swap_shuffle [simp]: "length (swap_shuffle cs i j) = length cs"
  by (simp add: swap_shuffle_def Let_def)

lemma swap_shuffle_indices:
  assumes "i < length cs" and "j < length cs"
  shows "mset (map shuffle_index (swap_shuffle cs i j)) = mset (map shuffle_index cs)"
proof -
  have "map shuffle_index (swap_shuffle cs i j) =
      (map shuffle_index cs)[i := map shuffle_index cs ! j, j := map shuffle_index cs ! i]"
    using assms
    by (cases "i = j") (simp_all add: swap_shuffle_def Let_def map_update list_update_swap,
      metis list_update_id nth_map)
  then show ?thesis using assms
    by (simp del: nth_map mset_map add: mset_swap)
qed

lemma swap_shuffle_clients:
  assumes "i < length cs" and "j < length cs"
  shows "map (\<lambda>c. c\<lparr>shuffle_index := 0\<rparr>) (swap_shuffle cs i j) = map (\<lambda>c. c\<lparr>shuffle_index := 0\<rparr>) cs"
  using assms by (cases "i = j")
    (auto simp: swap_shuffle_def Let_def list_eq_iff_nth_eq nth_list_update)

lemma shuffle_from_spec:
  assumes "\<And>n. 0 < n \<Longrightarrow> random_rand n < n" and "i < length cs"
  shows "mset (map shuffle_index (shuffle_from random_rand cs i)) = mset (map shuffle_index cs) \<and>
    map (\<lambda>c. c\<lparr>shuffle_index := 0\<rparr>) (shuffle_from random_rand cs i) = map (\<lambda>c. c\<lparr>shuffle_index := 0\<rparr>) cs"
  using assms(2)
proof (induction i arbitrary: cs)
  case (Suc i)
  have "random_rand (Suc i + 1) < Suc i + 1" by (rule assms(1)) simp
  then have j: "random_rand (Suc i + 1) < length cs" using Suc.prems by simp
  have "i < length (swap_shuffle cs (Suc i) (random_rand (Suc i + 1)))" using Suc.prems by simp
  from Suc.IH [OF this] show ?case
    using swap_shuffle_indices [OF Suc.prems j] swap_shuffle_clients [OF Suc.prems j] by simp
qed simp

lemma number_clients:
  "map shuffle_index (map (\<lambda>(i, c). c\<lparr>shuffle_index := i\<rparr>) (zip [k..<k + length cs] cs)) = [k..<k + length cs]"
  "map (\<lambda>c. c\<lparr>shuffle_index := 0\<rparr>) (map (\<lambda>(i, c). c\<lparr>shuffle_index := i\<rparr>) (zip [k..<k + length cs] cs)) =
    map (\<lambda>c. c\<lparr>shuffle_index := 0\<rparr>) cs"
  by (rule nth_equalityI; simp)+

lemma clients_shuffle_spec:
  assumes "\<And>n. 0 < n \<Longrightarrow> random_rand n < n"
  shows "mset (map shuffle_index (clients_shuffle random_rand cs)) = mset [0..<length cs] \<and>
    map (\<lambda>c. c\<lparr>shuffle_index := 0\<rparr>) (clients_shuffle random_rand cs) = map (\<lambda>c. c\<lparr>shuffle_index := 0\<rparr>) cs"
proof (cases "cs = []")
  case True
  then show ?thesis by (simp add: clients_shuffle_def)
next
  case False
  define cs1 where "cs1 = map (\<lambda>(i, c). c\<lparr>shuffle_index := i\<rparr>) (zip [0..<length cs] cs)"
  have len: "length cs1 - 1 < length cs1" "cs1 \<noteq> []"
    using False by (auto simp: cs1_def)
  have eq: "clients_shuffle random_rand cs = shuffle_from random_rand cs1 (length cs1 - 1)"
    using len(2) by (simp only: clients_shuffle_def Let_def cs1_def if_False)
  show ?thesis unfolding eq
    using shuffle_from_spec [OF assms len(1)] number_clients [of 0 cs]
    by (simp only: cs1_def add_0 simp_thms)
qed

section \<open>Removing the dead\<close>

text \<open>The number of living clients in front of the index \<open>k\<close>: where the client \<open>k\<close> goes.\<close>

definition living_before :: "client list \<Rightarrow> nat \<Rightarrow> nat" where
  "living_before cs k = length (filter (\<lambda>c. \<not> dead c) (take k cs))"

definition moved_owner :: "client list \<Rightarrow> nat option \<Rightarrow> nat option" where
  "moved_owner cs owner =
     (case owner of None \<Rightarrow> None
      | Some k \<Rightarrow> Some (if k < length cs \<and> \<not> dead (cs ! k) then living_before cs k else k))"

lemma living_before_Cons:
  "living_before (c # cs) (Suc k) = (if dead c then living_before cs k else Suc (living_before cs k))"
  by (simp add: living_before_def)

lemma living_before_nth:
  assumes "k < length cs" and "\<not> dead (cs ! k)"
  shows "living_before cs k < length (filter (\<lambda>c. \<not> dead c) cs) \<and>
    filter (\<lambda>c. \<not> dead c) cs ! living_before cs k = cs ! k"
  using assms
proof (induction cs arbitrary: k)
  case (Cons c cs)
  then show ?case by (cases k) (auto simp: living_before_Cons, simp_all add: living_before_def)
qed simp

lemma remove_finalized_Cons:
  "fst (remove_finalized owner i s (c # cs) (p # ps)) =
     (if dead c then fst (remove_finalized owner (Suc i) s cs ps)
      else fst (remove_finalized (if owner = Some i then Some (i - (i - s)) else owner) (Suc i) (Suc s) cs ps))"
  "snd (remove_finalized owner i s (c # cs) (p # ps)) =
     (if dead c then snd (remove_finalized owner (Suc i) s cs ps)
      else (c # fst (snd (remove_finalized (if owner = Some i then Some (i - (i - s)) else owner) (Suc i) (Suc s) cs ps)),
            p # snd (snd (remove_finalized (if owner = Some i then Some (i - (i - s)) else owner) (Suc i) (Suc s) cs ps))))"
  by (simp_all add: Let_def split: prod.split)

lemma remove_finalized_lists:
  assumes "length clients = length polls"
  shows "snd (remove_finalized owner i s clients polls) =
    (filter (\<lambda>c. \<not> dead c) clients, map snd (filter (\<lambda>(c, p). \<not> dead c) (zip clients polls)))"
  using assms
proof (induction clients polls arbitrary: owner i s rule: list_induct2)
  case (Cons c cs p ps)
  then show ?case by (simp add: remove_finalized_Cons del: remove_finalized.simps)
qed simp

lemma remove_finalized_owner_out:
  assumes "length clients = length polls"
    and "\<And>k. owner = Some k \<Longrightarrow> k < i \<or> i + length clients \<le> k" and "s \<le> i"
  shows "fst (remove_finalized owner i s clients polls) = owner"
  using assms
proof (induction clients polls arbitrary: i s rule: list_induct2)
  case (Cons c cs p ps)
  have "owner \<noteq> Some i" using Cons.prems(1) [of i] by auto
  moreover have "fst (remove_finalized owner (Suc i) s' cs ps) = owner" if "s' \<le> Suc i" for s'
    using that Cons.prems by (intro Cons.IH) fastforce+
  ultimately show ?case using Cons.prems(2) by (simp add: remove_finalized_Cons del: remove_finalized.simps)
qed simp

lemma remove_finalized_owner_in:
  assumes "length clients = length polls" and "k < length clients" and "s \<le> i"
  shows "fst (remove_finalized (Some (i + k)) i s clients polls) =
    Some (if dead (clients ! k) then i + k else s + living_before clients k)"
  using assms
proof (induction clients polls arbitrary: i s k rule: list_induct2)
  case (Cons c cs p ps)
  show ?case
  proof (cases k)
    case 0
    have "fst (remove_finalized (Some j) (Suc i) s' cs ps) = Some j" if "j \<le> i" "s' \<le> Suc i" for j s'
      using that Cons.hyps by (intro remove_finalized_owner_out) auto
    then show ?thesis using 0 Cons.prems
      by (simp add: remove_finalized_Cons living_before_def del: remove_finalized.simps)
  next
    case (Suc j)
    have "fst (remove_finalized (Some (Suc i + j)) (Suc i) s' cs ps) =
        Some (if dead (cs ! j) then Suc i + j else s' + living_before cs j)" if "s' \<le> Suc i" for s'
      using that Cons.prems Suc by (intro Cons.IH) auto
    then show ?thesis using Suc Cons.prems
      by (simp add: remove_finalized_Cons living_before_Cons del: remove_finalized.simps)
  qed
qed simp

lemma clients_remove_finalized_eq:
  assumes "length clients = length polls"
  shows "clients_remove_finalized G clients polls =
    (G\<lparr>short_response_owner := moved_owner clients (short_response_owner G)\<rparr>,
     filter (\<lambda>c. \<not> dead c) clients, map snd (filter (\<lambda>(c, p). \<not> dead c) (zip clients polls)))"
proof -
  have "fst (remove_finalized (short_response_owner G) 0 0 clients polls) =
      moved_owner clients (short_response_owner G)"
  proof (cases "short_response_owner G")
    case None
    then show ?thesis using remove_finalized_owner_out [OF assms, of None 0 0]
      by (simp add: moved_owner_def)
  next
    case (Some k)
    then show ?thesis using remove_finalized_owner_in [OF assms, of k 0 0]
        remove_finalized_owner_out [OF assms, of "Some k" 0 0]
      by (cases "k < length clients") (auto simp: moved_owner_def)
  qed
  then show ?thesis using remove_finalized_lists [OF assms, of "short_response_owner G" 0 0]
    by (auto simp: clients_remove_finalized_def split: prod.splits)
qed

section \<open>Properties\<close>

text \<open>
  C16: \<open>clients_shuffle\<close> numbers the clients with a permutation of \<open>0 \<dots> n - 1\<close> and changes
  nothing else of them, for every random number generator that stays below its bound.
\<close>

theorem clients_shuffle_permutation:
  assumes "\<And>n. 0 < n \<Longrightarrow> random_rand n < n"
  shows "set (map shuffle_index (clients_shuffle random_rand cs)) = {0..<length cs} \<and>
    distinct (map shuffle_index (clients_shuffle random_rand cs)) \<and>
    map (\<lambda>c. c\<lparr>shuffle_index := 0\<rparr>) (clients_shuffle random_rand cs) = map (\<lambda>c. c\<lparr>shuffle_index := 0\<rparr>) cs"
proof -
  note spec = clients_shuffle_spec [OF assms, of cs]
  then have eq: "mset (map shuffle_index (clients_shuffle random_rand cs)) = mset [0..<length cs]" by blast
  show ?thesis using spec mset_eq_setD [OF eq] mset_eq_imp_distinct_iff [OF eq] by simp
qed

theorem clients_shuffle_permutation_witness:
  "distinct (map shuffle_index (clients_shuffle (\<lambda>n. n div 2) [zero_client, zero_client, zero_client]))"
  using clients_shuffle_permutation [of "\<lambda>n. n div 2" "[zero_client, zero_client, zero_client]"] by simp

text \<open>
  \<open>clients_remove_finalized\<close> keeps exactly the living clients, in order, each with the
  poll it had, and the owner of the short response, when it lives, is still the same client at
  its new index.
\<close>

theorem clients_remove_finalized_keeps:
  assumes "length clients = length polls"
    and "clients_remove_finalized G clients polls = (G', clients', polls')"
  shows "clients' = filter (\<lambda>c. \<not> dead c) clients \<and>
    zip clients' polls' = filter (\<lambda>(c, p). \<not> dead c) (zip clients polls) \<and>
    length polls' = length clients' \<and>
    (\<forall>k. short_response_owner G = Some k \<and> k < length clients \<and> \<not> dead (clients ! k) \<longrightarrow>
       (\<exists>k'. short_response_owner G' = Some k' \<and> k' < length clients' \<and> clients' ! k' = clients ! k))"
proof -
  have eq: "clients' = filter (\<lambda>c. \<not> dead c) clients"
    "polls' = map snd (filter (\<lambda>(c, p). \<not> dead c) (zip clients polls))"
    "short_response_owner G' = moved_owner clients (short_response_owner G)"
    using assms(2) by (auto simp: clients_remove_finalized_eq [OF assms(1)])
  have fst: "map fst (filter (\<lambda>(c, p). \<not> dead c) (zip clients polls)) = clients'"
    using assms(1) unfolding eq by (induction clients polls rule: list_induct2) auto
  then have "zip clients' polls' = filter (\<lambda>(c, p). \<not> dead c) (zip clients polls)"
    unfolding eq(2) by (metis zip_map_fst_snd)
  moreover have "length polls' = length clients'"
    by (simp only: fst [symmetric] eq(2) length_map)
  moreover have "\<exists>k'. short_response_owner G' = Some k' \<and> k' < length clients' \<and> clients' ! k' = clients ! k"
    if "short_response_owner G = Some k" "k < length clients" "\<not> dead (clients ! k)" for k
    using that living_before_nth [of k clients] by (simp add: eq moved_owner_def)
  ultimately show ?thesis using eq(1) by blast
qed

theorem clients_remove_finalized_keeps_witness:
  "\<exists>G'. clients_remove_finalized
      \<lparr>short_response_stream = [\<lparr>part_p = 100, part_size = 4\<rparr>, zero_part], short_response_owner = Some 1, short_request_message = [],
        short_request_owner = None, short_request_size = 0,
        processor_memory = (\<lambda>_. NUL), g_memory = 0\<rparr>
      [zero_client\<lparr>dead := True\<rparr>, zero_client\<lparr>accepting_socket := 4\<rparr>]
      [\<lparr>poll_fd = -1, poll_events = 1, poll_revents = 0\<rparr>, \<lparr>poll_fd = 7, poll_events = 1, poll_revents = 0\<rparr>] =
      (G', [zero_client\<lparr>accepting_socket := 4\<rparr>], [\<lparr>poll_fd = 7, poll_events = 1, poll_revents = 0\<rparr>]) \<and>
    short_response_owner G' = Some 0"
proof -
  let ?G = "\<lparr>short_response_stream = [\<lparr>part_p = 100, part_size = 4\<rparr>, zero_part], short_response_owner = Some 1, short_request_message = [],
        short_request_owner = None, short_request_size = 0,
        processor_memory = (\<lambda>_. NUL), g_memory = 0\<rparr>"
  let ?cs = "[zero_client\<lparr>dead := True\<rparr>, zero_client\<lparr>accepting_socket := 4\<rparr>]"
  let ?ps = "[\<lparr>poll_fd = -1, poll_events = 1, poll_revents = 0\<rparr>, \<lparr>poll_fd = 7, poll_events = 1, poll_revents = 0\<rparr>]"
  obtain G' cs ps where run: "clients_remove_finalized ?G ?cs ?ps = (G', cs, ps)"
    using prod_cases3 by blast
  have "length ?cs = length ?ps" by simp
  from clients_remove_finalized_keeps [OF this run] run show ?thesis
    by (auto simp: clients_remove_finalized_def zero_client_def)
qed

text \<open>
  C17: \<open>client_finalize\<close> tests the owner of the short request message instead of the owner of
  the short response stream: the response of a finalized client stays in place, and after the dead
  clients are removed the same index owns it, so the next client in the buffer counts (and sends)
  the dead client's response; and finalizing the owner of the request message drops the response
  stream, whoever owns it.
\<close>

theorem finalized_owner_dangles:
  assumes "short_response_owner G = Some i" and "short_request_owner G \<noteq> Some i"
    and "i < length cs" and "length cs = length ps"
    and "client_finalize G i (cs ! i) = (G1, c)"
    and "clients_remove_finalized G1 (cs[i := c]) ps = (G2, cs2, ps2)"
  shows "short_response_owner G2 = Some i \<and> short_response_stream G2 = short_response_stream G \<and>
    client_response_stream_size G2 i (cs2 ! i) =
      size_add (ring_size (response_stream (cs2 ! i))) (value_size (short_response_stream G)) \<and>
    (\<forall>j d. short_request_owner G = Some j \<longrightarrow>
       short_response_stream (fst (client_finalize G j d)) = zero_value \<and>
       short_response_owner (fst (client_finalize G j d)) = None)"
proof -
  have G1: "short_response_owner G1 = Some i" "short_response_stream G1 = short_response_stream G" "dead c"
    using assms(1,2,5) by (auto simp: client_finalize_def Let_def split: prod.splits if_splits)
  have "length (cs[i := c]) = length ps" using assms(4) by simp
  from clients_remove_finalized_eq [OF this, of G1] assms(6)
  have G2: "short_response_owner G2 = moved_owner (cs[i := c]) (Some i)"
    "short_response_stream G2 = short_response_stream G" by (auto simp: G1)
  have own: "short_response_owner G2 = Some i" using G1(3) assms(3) by (simp add: G2 moved_owner_def)
  have "short_response_stream (fst (client_finalize G j d)) = zero_value \<and>
      short_response_owner (fst (client_finalize G j d)) = None" if "short_request_owner G = Some j" for j d
    using that by (auto simp: client_finalize_def Let_def split: prod.splits)
  then show ?thesis using own G2(2) by (simp add: client_response_stream_size_def)
qed

theorem finalized_owner_dangles_witness:
  "\<exists>G2. clients_remove_finalized
      (fst (client_finalize \<lparr>short_response_stream = [\<lparr>part_p = 100, part_size = 4\<rparr>, zero_part], short_response_owner = Some 0,
        short_request_message = [], short_request_owner = None, short_request_size = 0,
        processor_memory = (\<lambda>_. NUL), g_memory = 0\<rparr> 0 zero_client))
      [zero_client\<lparr>dead := True\<rparr>, zero_client\<lparr>accepting_socket := 4\<rparr>]
      [\<lparr>poll_fd = -1, poll_events = 1, poll_revents = 0\<rparr>, \<lparr>poll_fd = 7, poll_events = 1, poll_revents = 0\<rparr>] =
      (G2, [zero_client\<lparr>accepting_socket := 4\<rparr>], [\<lparr>poll_fd = 7, poll_events = 1, poll_revents = 0\<rparr>]) \<and>
    client_response_stream_size G2 0 (zero_client\<lparr>accepting_socket := 4\<rparr>) = 4"
proof -
  let ?G = "\<lparr>short_response_stream = [\<lparr>part_p = 100, part_size = 4\<rparr>, zero_part], short_response_owner = Some 0, short_request_message = [],
        short_request_owner = None, short_request_size = 0,
        processor_memory = (\<lambda>_. NUL), g_memory = 0\<rparr>"
  let ?cs = "[zero_client, zero_client\<lparr>accepting_socket := 4\<rparr>]"
  let ?ps = "[\<lparr>poll_fd = -1, poll_events = 1, poll_revents = 0\<rparr>, \<lparr>poll_fd = 7, poll_events = 1, poll_revents = 0\<rparr>]"
  have fin: "client_finalize ?G 0 (?cs ! 0) = (?G, zero_client\<lparr>dead := True\<rparr>)"
    by (simp add: client_finalize_def zero_client_def zero_ring_def ring_finalize_def Let_def)
  obtain G2 cs ps where run: "clients_remove_finalized ?G (?cs[0 := zero_client\<lparr>dead := True\<rparr>]) ?ps = (G2, cs, ps)"
    using prod_cases3 by blast
  have "short_response_owner ?G = Some 0" "short_request_owner ?G \<noteq> Some 0" "0 < length ?cs"
    "length ?cs = length ?ps" by simp_all
  from finalized_owner_dangles [OF this fin run] run fin show ?thesis
    by (auto simp: clients_remove_finalized_def zero_client_def zero_ring_def zero_part_def)
qed

end
