(* ===== verification/TS_Low_Level.thy ===== *)
theory TS_Low_Level
  imports TS_Error TS_Ring
begin

text \<open>
  \<^verbatim>\<open>source/server/low_level.c\<close>, the stream functions: sending the parts of a value through a
  socket and receiving into a ring. The system calls \<^verbatim>\<open>send\<close> and \<^verbatim>\<open>read\<close> are parameters:
  they see the number of the part and return the number the call returned, whether
  \<^verbatim>\<open>errno\<close> says that the call would block, and what was read.
\<close>

section \<open>Connection flags\<close>

record connection_flags =
  cf_saturated :: bool
  cf_exhausted :: bool
  cf_closed :: bool

definition CF_NO :: connection_flags where
  "CF_NO = \<lparr>cf_saturated = False, cf_exhausted = False, cf_closed = False\<rparr>"

section \<open>Sending\<close>

type_synonym send_call = "nat \<Rightarrow> byte list \<Rightarrow> int \<times> bool"

text \<open>\<^verbatim>\<open>send\<close> reports at most what it was given.\<close>

definition send_ok :: "send_call \<Rightarrow> bool" where
  "send_ok send \<longleftrightarrow> (\<forall>i bs. fst (send i bs) \<le> int (length bs))"

text \<open>
  \<^verbatim>\<open>server_send_stream\<close>: returns the rest of the stream, the bytes that went out and the
  flags.
\<close>

fun send_parts :: "send_call \<Rightarrow> memory \<Rightarrow> nat \<Rightarrow> parts \<Rightarrow> connection_flags \<Rightarrow>
    (parts \<times> byte list \<times> connection_flags) result" where
  "send_parts send m i [] flags = Inr ([], [], flags)"
| "send_parts send m i (p # v) flags =
     (if part_size p = 0
      then pret (send_parts send m (Suc i) v flags) (\<lambda>(v', out, flags). Inr (p # v', out, flags))
      else case send i (pbytes m p) of (signed_sent, would_block) \<Rightarrow>
        if signed_sent > 0
        then let sent = nat signed_sent;
                 out = take sent (pbytes m p);
                 p = \<lparr>part_p = part_p p + sent, part_size = size_sub (part_size p) sent\<rparr>
             in if part_size p > 0 then Inr (p # v, out, flags\<lparr>cf_saturated := True\<rparr>)
                else pret (send_parts send m (Suc i) v flags) (\<lambda>(v', out', flags). Inr (p # v', out @ out', flags))
        else aret would_block ''send() failed'' (Inr (p # v, [], flags\<lparr>cf_saturated := True\<rparr>)))"

definition server_send_stream :: "send_call \<Rightarrow> memory \<Rightarrow> parts \<Rightarrow> connection_flags \<Rightarrow>
    (parts \<times> byte list \<times> connection_flags) result" where
  "server_send_stream send m stream flags = send_parts send m 0 stream flags"

section \<open>Receiving\<close>

type_synonym read_call = "nat \<Rightarrow> nat \<Rightarrow> int \<times> bool \<times> byte list"

text \<open>\<^verbatim>\<open>read\<close> returns at most what it was asked for, and as many bytes as it says.\<close>

definition read_ok :: "read_call \<Rightarrow> bool" where
  "read_ok read \<longleftrightarrow>
     (\<forall>i n. fst (read i n) \<le> int n \<and> length (snd (snd (read i n))) = nat (fst (read i n)))"

text \<open>The loop of \<^verbatim>\<open>server_receive_stream\<close>: the ring, what is left of the parts, the flags.\<close>

fun receive_parts :: "read_call \<Rightarrow> nat \<Rightarrow> ring \<Rightarrow> parts \<Rightarrow> connection_flags \<Rightarrow>
    (ring \<times> parts \<times> connection_flags) exresult" where
  "receive_parts read i r [] flags = Inr (r, [], flags)"
| "receive_parts read i r (p # v) flags =
     (if part_size p = 0
      then expret (receive_parts read (Suc i) r v flags) (\<lambda>(r, v', flags). Inr (r, p # v', flags))
      else case read i (part_size p) of (signed_received, would_block, bytes) \<Rightarrow>
        if signed_received = 0 then Inr (r, p # v, flags\<lparr>cf_closed := True\<rparr>)
        else if signed_received > 0
        then expretf (ring_write r [p\<lparr>part_size := nat signed_received\<rparr>] bytes) 0 (\<lambda>r.
             let received = nat signed_received;
                 p = \<lparr>part_p = part_p p + received, part_size = size_sub (part_size p) received\<rparr>
             in if part_size p > 0 then Inr (r, p # v, flags\<lparr>cf_exhausted := True\<rparr>)
                else expret (receive_parts read (Suc i) r v flags) (\<lambda>(r, v', flags). Inr (r, p # v', flags)))
        else exaret would_block ''read() failed'' EEF_CLOSE_LOG
          (Inr (r, p # v, flags\<lparr>cf_exhausted := True\<rparr>)))"

definition server_receive_stream :: "allocator \<Rightarrow> read_call \<Rightarrow> nat \<Rightarrow> ring \<Rightarrow> nat \<Rightarrow> connection_flags \<Rightarrow>
    (nat \<times> ring \<times> connection_flags) exresult" where
  "server_receive_stream realloc read g stream n flags =
     expretf (ring_reserve realloc g stream (size_add (ring_size stream) n)) EEF_CLOSE_LOG (\<lambda>(g, stream).
     expretf (ring_push_get stream n) EEF_CLOSE_LOG_DIE (\<lambda>(stream, value).
     expret (receive_parts read 0 stream value flags) (\<lambda>(stream, value, flags).
     expretf (ring_unpush stream (value_size value)) EEF_CLOSE_LOG_DIE (\<lambda>stream.
     Inr (g, stream, flags)))))"

section \<open>Sending sends a prefix\<close>

lemma send_parts_ok:
  assumes "send_ok send" and "value_size v < 2 ^ 64" and "send_parts send m i v flags = Inr (v', out, flags')"
  shows "vbytes m v = out @ vbytes m v' \<and> value_size v' + length out = value_size v \<and>
    (if value_size v' = 0 then flags' = flags else flags' = flags\<lparr>cf_saturated := True\<rparr>) \<and>
    length v' = length v"
  using assms(2,3)
proof (induction v arbitrary: i v' out)
  case (Cons p v)
  let ?n = "fst (send i (pbytes m p))"
  have n: "?n \<le> int (part_size p)" using assms(1) unfolding send_ok_def by (metis length_pbytes)
  have sub: "size_sub (part_size p) (nat ?n) = part_size p - nat ?n"
    using n Cons.prems(1) by (intro size_sub_exact) auto
  have suffix: "pbytes m \<lparr>part_p = part_p p + nat ?n, part_size = part_size p - nat ?n\<rparr> =
      drop (nat ?n) (pbytes m p)"
    using pbytes_suffix [of "nat ?n" p m] n by (simp add: pbytes_def)
  have lt: "value_size v < 2 ^ 64" using Cons.prems(1) by simp
  note IH = Cons.IH [OF lt]
  show ?case
  proof (cases "part_size p = 0")
    case True
    then obtain v1 where v1: "send_parts send m (Suc i) v flags = Inr (v1, out, flags')" "v' = p # v1"
      using Cons.prems(2) by (auto simp: pret_Inr_iff)
    from IH [OF v1(1)] v1(2) True show ?thesis by simp
  next
    case nonempty: False
    show ?thesis
    proof (cases "?n > 0 \<and> nat ?n = part_size p")
      case True
      then have pos: "0 < ?n" and all: "nat ?n = part_size p" by simp_all
      have "send_parts send m i (p # v) flags =
          pret (send_parts send m (Suc i) v flags) (\<lambda>(v', out', flags).
            Inr (\<lparr>part_p = part_p p + part_size p, part_size = 0\<rparr> # v', pbytes m p @ out', flags))"
        using nonempty pos sub all by (cases "send i (pbytes m p)") (simp add: Let_def)
      then obtain v1 out1 where v1: "send_parts send m (Suc i) v flags = Inr (v1, out1, flags')"
        "v' = \<lparr>part_p = part_p p + part_size p, part_size = 0\<rparr> # v1" "out = pbytes m p @ out1"
        using Cons.prems(2) by (auto simp: pret_Inr_iff)
      from IH [OF v1(1)] v1(2,3) True show ?thesis by simp
    next
      case False
      then consider (some) "?n > 0" "nat ?n < part_size p" | (none) "?n \<le> 0" using n by linarith
      then show ?thesis
      proof cases
        case some
        then show ?thesis using Cons.prems(2) nonempty sub suffix
          by (cases "send i (pbytes m p)") (auto simp: Let_def)
      next
        case none
        then show ?thesis using Cons.prems(2) nonempty
          by (cases "send i (pbytes m p)") (auto simp: aret_Inr_iff)
      qed
    qed
  qed
qed simp

lemma send_parts_fails:
  "send_parts send m i v flags = Inl e \<Longrightarrow>
     e = Failed ''send() failed'' \<and> (\<exists>j bs. fst (send j bs) \<le> 0 \<and> \<not> snd (send j bs))"
proof (induction v arbitrary: i)
  case (Cons p v)
  obtain n b where send: "send i (pbytes m p) = (n, b)" by fastforce
  show ?case
  proof (cases "send_parts send m (Suc i) v flags = Inl e")
    case False
    then have "\<not> n > 0" "\<not> b" "e = Failed ''send() failed''"
      using Cons.prems send
      by (auto simp: Let_def pret_def aret_def split: if_splits sum.splits)
    then show ?thesis using send by (metis fst_conv linorder_not_le snd_conv)
  qed (rule Cons.IH)
qed simp

section \<open>Receiving appends\<close>

text \<open>What the operating system hands over for parts of these sizes, up to the first short read.\<close>

fun os_input :: "read_call \<Rightarrow> nat \<Rightarrow> nat list \<Rightarrow> byte list" where
  "os_input read i [] = []"
| "os_input read i (n # ns) =
     (if n = 0 then os_input read (Suc i) ns
      else if nat (fst (read i n)) < n then snd (snd (read i n))
      else snd (snd (read i n)) @ os_input read (Suc i) ns)"

lemma read_okD:
  assumes "read_ok read"
  shows "length (snd (snd (read i n))) = nat (fst (read i n))" and "nat (fst (read i n)) \<le> n"
  using assms unfolding read_ok_def by (auto simp: nat_le_iff)

lemma length_os_input: "read_ok read \<Longrightarrow> length (os_input read i ns) \<le> sum_list ns"
proof (induction ns arbitrary: i)
  case (Cons n ns)
  show ?case using read_okD [OF Cons.prems, of i n] Cons.IH [OF Cons.prems, of "Suc i"] by auto
qed simp

lemma pbytes_frame:
  assumes "\<forall>j. j \<notin> set (addresses v) \<longrightarrow> m' j = m j" and "\<forall>q\<in>set v. extent p \<inter> extent q = {}"
  shows "pbytes m' p = pbytes m p"
  using assms by (intro pbytes_cong) (auto simp: set_addresses)

lemma receive_parts_ok:
  assumes "read_ok read"
    and "ring_inv r" and "inside (ring_capacity r) v" and "separated v" and "value_size v < 2 ^ 64"
  shows "(receive_parts read i r v flags = exret ''read() failed'' EEF_CLOSE_LOG) \<or>
    (\<exists>r' v' flags'. receive_parts read i r v flags = Inr (r', v', flags') \<and> ring_inv r' \<and>
       ring_size r' = ring_size r \<and> ring_capacity r' = ring_capacity r \<and> ring_begin r' = ring_begin r \<and>
       value_size v' + length (os_input read i (map part_size v)) = value_size v \<and>
       take (length (os_input read i (map part_size v))) (vbytes (ring_memory r') v) =
         os_input read i (map part_size v) \<and>
       (\<forall>j. j \<notin> set (addresses v) \<longrightarrow> ring_memory r' j = ring_memory r j))"
  using assms(2-)
proof (induction v arbitrary: i r)
  case (Cons p v)
  obtain n b bs where read: "read i (part_size p) = (n, b, bs)" by (metis prod.exhaust)
  have lbs: "length bs = nat n" and n: "nat n \<le> part_size p"
    using read_okD [OF assms(1), of i "part_size p"] read by simp_all
  have rest: "inside (ring_capacity r) v" "separated v" "value_size v < 2 ^ 64"
    "\<forall>q\<in>set v. extent p \<inter> extent q = {}" "part_size p < 2 ^ 64"
    using Cons.prems by (auto simp: inside_def)
  consider (empty) "part_size p = 0" | (stop) "part_size p \<noteq> 0" "n \<le> 0" | (got) "part_size p \<noteq> 0" "n > 0"
    by linarith
  then show ?case
  proof cases
    case empty
    then show ?thesis using Cons.IH [OF Cons.prems(1) rest(1-3), of "Suc i"]
      by (auto simp: exret_def)
  next
    case stop
    then have "bs = []" using lbs by simp
    then show ?thesis using stop read Cons.prems(1) by (cases b) auto
  next
    case got
    have ins: "inside (ring_capacity r) [p\<lparr>part_size := nat n\<rparr>]"
      "separated [p\<lparr>part_size := nat n\<rparr>]" "value_size [p\<lparr>part_size := nat n\<rparr>] \<le> length bs"
      using Cons.prems(2) n lbs by (auto simp: inside_def extent_def)
    from ring_write_inside [OF Cons.prems(1) ins] obtain r1 where r1:
      "ring_write r [p\<lparr>part_size := nat n\<rparr>] bs = Inr r1" "ring_inv r1" "ring_size r1 = ring_size r"
      "ring_capacity r1 = ring_capacity r" "ring_begin r1 = ring_begin r"
      "pbytes (ring_memory r1) (p\<lparr>part_size := nat n\<rparr>) = bs"
      "\<forall>j. j \<notin> set (addresses [p\<lparr>part_size := nat n\<rparr>]) \<longrightarrow> ring_memory r1 j = ring_memory r j"
      using lbs by auto
    have pre: "take (nat n) (pbytes (ring_memory r1) p) = bs" using r1(6) n pbytes_prefix by metis
    have out: "\<forall>j. j \<notin> set (addresses (p # v)) \<longrightarrow> ring_memory r1 j = ring_memory r j"
      using r1(7) n by auto
    have sub: "size_sub (part_size p) (nat n) = part_size p - nat n" using n rest(5) by simp
    show ?thesis
    proof (cases "nat n < part_size p")
      case True
      then have "take (nat n) (vbytes (ring_memory r1) (p # v)) = bs" using pre by simp
      then show ?thesis using True got read r1 sub lbs out by (auto simp: Let_def)
    next
      case False
      then have all: "nat n = part_size p" using n by simp
      have step: "receive_parts read i r (p # v) flags =
          expret (receive_parts read (Suc i) r1 v flags)
            (\<lambda>(r, v', flags). Inr (r, \<lparr>part_p = part_p p + nat n, part_size = 0\<rparr> # v', flags))"
        using got read r1(1) sub all by (simp add: Let_def)
      have input: "os_input read i (map part_size (p # v)) = bs @ os_input read (Suc i) (map part_size v)"
        using got read False by simp
      from Cons.IH [OF r1(2), of "Suc i"] rest(1-3) r1(4) consider
        (fail) "receive_parts read (Suc i) r1 v flags = exret ''read() failed'' EEF_CLOSE_LOG"
        | (ok) r' v' flags' where "receive_parts read (Suc i) r1 v flags = Inr (r', v', flags')" "ring_inv r'"
          "ring_size r' = ring_size r1" "ring_capacity r' = ring_capacity r1" "ring_begin r' = ring_begin r1"
          "value_size v' + length (os_input read (Suc i) (map part_size v)) = value_size v"
          "take (length (os_input read (Suc i) (map part_size v))) (vbytes (ring_memory r') v) =
             os_input read (Suc i) (map part_size v)"
          "\<forall>j. j \<notin> set (addresses v) \<longrightarrow> ring_memory r' j = ring_memory r1 j"
        by auto
      then show ?thesis
      proof cases
        case fail
        then show ?thesis using step by (simp add: exret_def)
      next
        case ok
        have "pbytes (ring_memory r') p = bs"
          using pbytes_frame [OF ok(8) rest(4)] pre all by simp
        then have "take (length (os_input read i (map part_size (p # v)))) (vbytes (ring_memory r') (p # v)) =
            os_input read i (map part_size (p # v))"
          unfolding input using ok(7) by simp
        moreover have "\<forall>j. j \<notin> set (addresses (p # v)) \<longrightarrow> ring_memory r' j = ring_memory r j"
          using ok(8) out by simp
        ultimately show ?thesis using step ok(1-6) r1(3-5) input lbs all by simp
      qed
    qed
  qed
qed simp

section \<open>Properties\<close>

text \<open>
  \<open>server_send_stream\<close> sends a prefix of the stream and keeps the rest, in whatever pieces
  the socket takes it: nothing is lost or sent twice; the saturated flag is raised exactly when
  something is left, and the only error is a failed \<^verbatim>\<open>send\<close> that would not just block.
\<close>

theorem server_send_stream_prefix:
  assumes "send_ok send" and "value_size stream < 2 ^ 64"
  shows "case server_send_stream send m stream flags of
      Inl e \<Rightarrow> e = Failed ''send() failed'' \<and> (\<exists>i bs. fst (send i bs) \<le> 0 \<and> \<not> snd (send i bs))
    | Inr (rest, out, flags') \<Rightarrow>
        vbytes m stream = out @ vbytes m rest \<and> value_size rest + length out = value_size stream \<and>
        flags' = (if value_size rest = 0 then flags else flags\<lparr>cf_saturated := True\<rparr>)"
proof (cases "server_send_stream send m stream flags")
  case (Inl e)
  then show ?thesis using send_parts_fails [of send m 0 stream flags e] by (simp add: server_send_stream_def)
next
  case (Inr r)
  obtain rest out flags' where r: "r = (rest, out, flags')" by (cases r)
  have "send_parts send m 0 stream flags = Inr (rest, out, flags')"
    using Inr r by (simp add: server_send_stream_def)
  from send_parts_ok [OF assms this] Inr r show ?thesis by auto
qed

lemma server_send_stream_prefix_witness:
  "server_send_stream (\<lambda>i bs. (int (min 3 (length bs)), True)) (\<lambda>a. if a < 10 then CHR ''a'' else CHR ''b'')
     [\<lparr>part_p = 7, part_size = 2\<rparr>, \<lparr>part_p = 20, part_size = 5\<rparr>] CF_NO =
     Inr ([\<lparr>part_p = 9, part_size = 0\<rparr>, \<lparr>part_p = 23, part_size = 2\<rparr>], ''aabbb'', CF_NO\<lparr>cf_saturated := True\<rparr>) \<and>
   vbytes (\<lambda>a. if a < 10 then CHR ''a'' else CHR ''b'') [\<lparr>part_p = 7, part_size = 2\<rparr>, \<lparr>part_p = 20, part_size = 5\<rparr>] =
     ''aabbb'' @ ''bb''"
proof -
  let ?send = "\<lambda>i bs. (int (min 3 (length bs)), True)"
  let ?m = "\<lambda>a. if a < 10 then CHR ''a'' else CHR ''b''"
  let ?v = "[\<lparr>part_p = 7, part_size = 2\<rparr>, \<lparr>part_p = 20, part_size = 5\<rparr>]"
  have run: "server_send_stream ?send ?m ?v CF_NO =
      Inr ([\<lparr>part_p = 9, part_size = 0\<rparr>, \<lparr>part_p = 23, part_size = 2\<rparr>], ''aabbb'', CF_NO\<lparr>cf_saturated := True\<rparr>)"
    by (simp add: server_send_stream_def pbytes_def upt_rec Let_def size_sub_def)
  have "send_ok ?send" by (simp add: send_ok_def)
  moreover have "value_size ?v < 2 ^ 64" by simp
  ultimately show ?thesis using server_send_stream_prefix [of ?send ?v ?m CF_NO] run
    by (simp add: pbytes_def upt_rec)
qed

text \<open>
  \<open>server_receive_stream\<close> appends to the ring exactly the bytes the socket delivered, for
  some border \<open>a\<close> of the two parts of the free space, and nothing of the part of the free
  space that was not filled; it fails only when the allocator or the socket fails.
\<close>

theorem server_receive_stream_appends:
  assumes "ring_inv stream" and "realloc_ok realloc" and "read_ok read" and "ring_size stream + n \<le> 2 ^ 63"
  shows "case server_receive_stream realloc read g stream n flags of
      Inl e \<Rightarrow> ex_flags e = EEF_CLOSE_LOG \<and>
        (ex_error e = Failed ''new_p != NULL'' \<or> ex_error e = Failed ''read() failed'')
    | Inr (g', stream', flags') \<Rightarrow> ring_inv stream' \<and>
        (\<exists>a\<le>n. ring_bytes stream' = ring_bytes stream @ os_input read 0 [a, n - a]) \<and>
        ring_size stream' \<le> ring_size stream + n"
proof -
  have add: "size_add (ring_size stream) n = ring_size stream + n" using assms(4) by simp
  have body: "case (expretf (ring_push_get r n) EEF_CLOSE_LOG_DIE (\<lambda>(r, value).
        expret (receive_parts read 0 r value flags) (\<lambda>(r, value, flags).
        expretf (ring_unpush r (value_size value)) EEF_CLOSE_LOG_DIE (\<lambda>r. Inr (g', r, flags))))) of
      Inl e \<Rightarrow> ex_flags e = EEF_CLOSE_LOG \<and>
        (ex_error e = Failed ''new_p != NULL'' \<or> ex_error e = Failed ''read() failed'')
    | Inr (g', stream', flags') \<Rightarrow> ring_inv stream' \<and>
        (\<exists>a\<le>n. ring_bytes stream' = ring_bytes stream @ os_input read 0 [a, n - a]) \<and>
        ring_size stream' \<le> ring_size stream + n"
    if r: "ring_inv r" "ring_bytes r = ring_bytes stream" "ring_size r = ring_size stream"
      "ring_size stream + n \<le> ring_capacity r" for r g'
  proof -
    have fits: "ring_size r + n \<le> ring_capacity r" using r by simp
    let ?r = "r\<lparr>ring_size := ring_size r + n\<rparr>"
    have inv: "ring_inv ?r" using ring_push_ok [OF r(1) fits] by simp
    from ring_push_get_ok [OF r(1) fits] obtain v where v: "ring_push_get r n = Inr (?r, v)"
      "ring_value_ok ?r v" "value_size v = n" "addresses v = drop (ring_size r) (ring_index ?r)" by blast
    have vr: "inside (ring_capacity ?r) v" "separated v" "value_size v < 2 ^ 64"
      using v(2,3) assms(4) by (auto simp: ring_value_ok_def)
    obtain p q where pq: "v = [p, q]"
      using v(2) by (auto simp: ring_value_ok_def numeral_2_eq_2 length_Suc_conv)
    let ?in = "os_input read 0 (map part_size v)"
    have io: "?in = os_input read 0 [part_size p, n - part_size p]" "part_size p \<le> n" using pq v(3) by auto
    from receive_parts_ok [OF assms(3) inv vr, of 0 flags] show ?thesis
    proof (elim disjE exE conjE, goal_cases)
      case 1
      then show ?case using v(1) by (simp add: exret_def exerror_allocate_def)
    next
      case (2 r' v' flags')
      have "value_size v' \<le> ring_size r'" using 2(3,6) v(3) by simp
      from ring_unpush_ok [OF 2(2) this] obtain r2 where r2: "ring_unpush r' (value_size v') = Inr r2"
        "ring_inv r2" "ring_bytes r2 = take (ring_size r' - value_size v') (ring_bytes r')"
        "ring_size r2 = ring_size r' - value_size v'" by blast
      have size: "ring_size r' - value_size v' = ring_size stream + length ?in"
        using 2(3,6) v(3) r(3) by simp
      have index: "ring_index r' = ring_index r @ addresses v"
        using ring_index_pushed [of r n] append_take_drop_id [of "ring_size r" "ring_index ?r"] v(4) 2(3-5)
        by (simp add: ring_index_def)
      have "distinct (ring_index r @ addresses v)" using distinct_ring_index [OF 2(2)] index by simp
      then have "map (ring_memory r') (ring_index r) = map (ring_memory ?r) (ring_index r)"
        using 2(8) by (auto simp: disjoint_iff)
      also have "\<dots> = ring_bytes stream" unfolding r(2) [symmetric] by (simp add: ring_bytes_def ring_memory_def)
      finally have bytes: "ring_bytes r' = ring_bytes stream @ vbytes (ring_memory r') v"
        by (simp add: ring_bytes_def [of r'] index vbytes_addresses)
      have len: "length (ring_bytes stream) = ring_size stream"
        using length_ring_bytes [OF r(1)] r(2,3) by simp
      have "ring_bytes r2 = ring_bytes stream @ ?in"
        using 2(7) by (simp add: r2(3) size bytes len)
      then have "\<exists>a\<le>n. ring_bytes r2 = ring_bytes stream @ os_input read 0 [a, n - a]"
        unfolding io(1) using io(2) by blast
      moreover have "ring_size r2 \<le> ring_size stream + n" using size 2(6) v(3) by (simp add: r2(4))
      ultimately show ?case by (simp add: v(1) 2(1) r2(1,2))
    qed
  qed
  have bound: "ring_size stream + n \<le> 2 ^ 63" by (rule assms(4))
  from assms(1,2) bound show ?thesis
  proof (cases rule: ring_reserve_cases [where g = g])
    case same
    then show ?thesis using body [of stream g] assms(1) by (simp add: server_receive_stream_def add)
  next
    case (fail nc)
    then show ?thesis by (simp add: server_receive_stream_def add exerror_append_extend_def)
  next
    case (grown r')
    then show ?thesis using body [of r' "size_add g (ring_capacity r' - ring_capacity stream)"]
      by (simp add: server_receive_stream_def add)
  qed
qed

lemma server_receive_stream_appends_witness:
  "case server_receive_stream realloc_zero (\<lambda>i n. (int (min n 5), True, take n ''hello'')) 0 zero_ring 8 CF_NO of
     Inl e \<Rightarrow> ex_flags e = EEF_CLOSE_LOG \<and>
        (ex_error e = Failed ''new_p != NULL'' \<or> ex_error e = Failed ''read() failed'')
   | Inr (g', r, fl) \<Rightarrow> ring_inv r \<and>
       (\<exists>a\<le>8. ring_bytes r = os_input (\<lambda>i n. (int (min n 5), True, take n ''hello'')) 0 [a, 8 - a]) \<and>
       ring_size r \<le> 8"
proof -
  let ?read = "\<lambda>i n. (int (min n 5), True, take n ''hello'')"
  have read: "read_ok ?read" by (simp add: read_ok_def min.commute eval_nat_numeral)
  have size: "ring_size zero_ring + 8 \<le> 2 ^ 63" by (simp add: zero_ring_def)
  have "ring_size zero_ring = 0" by (simp add: zero_ring_def)
  with server_receive_stream_appends [OF ring_inv_zero realloc_ok_zero read size, of 0 CF_NO]
  show ?thesis by (simp only: ring_bytes_zero append_Nil add_0)
qed

end
