(* ===== verification/TS_Message.thy ===== *)
theory TS_Message
  imports TS_Error TS_Ring TS_Constants
begin

text \<open>
  The messages of the guppy protocol: \<^verbatim>\<open>int_length\<close> (\<^verbatim>\<open>source/utility.c\<close>) and
  \<^verbatim>\<open>server_send_message\<close> (\<^verbatim>\<open>source/server/low_level.c\<close>), which sends the chunks of a
  response that the client has not acknowledged.
\<close>

section \<open>Decimal numbers\<close>

text \<open>\<^verbatim>\<open>int_length\<close>; the threshold is a \<^verbatim>\<open>size_t\<close> and wraps.\<close>

partial_function (option) int_length_loop :: "nat \<Rightarrow> nat \<Rightarrow> nat \<Rightarrow> nat option" where
  "int_length_loop a threshold n =
     (if a \<ge> threshold then int_length_loop a (threshold * 10 mod 2 ^ 64) (n + 1) else Some n)"

definition int_length :: "nat \<Rightarrow> nat option" where
  "int_length a = int_length_loop a 10 1"

text \<open>\<^verbatim>\<open>%u\<close>\<close>

definition digit_char :: "nat \<Rightarrow> byte" where
  "digit_char d = char_of (ord CHR ''0'' + d)"

fun decimal_text :: "nat \<Rightarrow> byte list" where
  "decimal_text n = (if n < 10 then [digit_char n] else decimal_text (n div 10) @ [digit_char (n mod 10)])"

declare decimal_text.simps [simp del]

lemma length_decimal_text: "10 ^ k \<le> n \<Longrightarrow> n < 10 ^ Suc k \<Longrightarrow> length (decimal_text n) = Suc k"
proof (induction k arbitrary: n)
  case 0
  then show ?case by (subst decimal_text.simps) simp
next
  case (Suc k)
  have "(1::nat) \<le> 10 ^ k" by simp
  moreover have "10 * 10 ^ k \<le> n" using Suc.prems(1) by simp
  ultimately have "\<not> n < 10" by linarith
  moreover have "10 ^ k \<le> n div 10" "n div 10 < 10 ^ Suc k" using Suc.prems by (simp_all add: div_le_mono less_mult_imp_div_less)
  ultimately show ?case using Suc.IH [of "n div 10"] by (subst decimal_text.simps) simp
qed

lemma length_decimal_text_small: "n < 10 \<Longrightarrow> length (decimal_text n) = 1"
  by (subst decimal_text.simps) simp

lemma int_length_loop_ok:
  assumes "a < 10 ^ 19" and "k < 19" and "10 ^ k \<le> a \<or> k = 0"
  shows "int_length_loop a (10 ^ Suc k) (Suc k) = Some (length (decimal_text a))"
  using assms(2,3)
proof (induction "18 - k" arbitrary: k)
  case 0
  then have k: "k = 18" by simp
  then show ?case using assms(1) 0 length_decimal_text [of 18 a]
    by (subst int_length_loop.simps) simp
next
  case (Suc n)
  show ?case
  proof (cases "a < 10 ^ Suc k")
    case True
    then have "length (decimal_text a) = Suc k"
      using Suc.prems(2) length_decimal_text [of k a] length_decimal_text_small [of a] by auto
    then show ?thesis using True by (subst int_length_loop.simps) simp
  next
    case False
    have "Suc k < 19" using Suc.hyps(2) Suc.prems(1) by simp
    then have "(10::nat) ^ Suc (Suc k) \<le> 10 ^ 19" by (intro power_increasing) simp_all
    also have "\<dots> < 2 ^ 64" by simp
    finally have wrap: "10 ^ Suc k * 10 mod 2 ^ 64 = (10::nat) ^ Suc (Suc k)" by (simp add: mult.commute)
    have "int_length_loop a (10 ^ Suc k) (Suc k) = int_length_loop a (10 ^ Suc (Suc k)) (Suc (Suc k))"
      using False wrap by (subst int_length_loop.simps) simp
    also have "\<dots> = Some (length (decimal_text a))"
      using Suc.hyps(2) \<open>Suc k < 19\<close> False by (intro Suc.hyps(1)) auto
    finally show ?thesis .
  qed
qed

lemma int_length_ok: "a < 10 ^ 19 \<Longrightarrow> int_length a = Some (length (decimal_text a))"
  using int_length_loop_ok [of a 0] by (simp add: int_length_def)

section \<open>Sending chunks\<close>

text \<open>The counters of the chunks are \<^verbatim>\<open>signed char\<close>: \<open>-1\<close> for an acknowledged chunk.\<close>

definition signed_char :: "byte \<Rightarrow> int" where
  "signed_char c = (if ord c < 128 then int (ord c) else int (ord c) - 256)"

text \<open>\<^verbatim>\<open>value_to_continuous\<close> into \<^verbatim>\<open>char buffer[CHUNK_SIZE]\<close>\<close>

definition continuous_chunk :: "memory \<Rightarrow> parts \<Rightarrow> byte list result" where
  "continuous_chunk m value =
     (case value_to_continuous m value of
        Inl p \<Rightarrow> Inr (pbytes m p)
      | Inr bs \<Rightarrow> if length bs \<le> CHUNK_SIZE then Inr bs else Inl Undefined)"

text \<open>
  The loop over the counters: \<open>dry\<close> when there is no address; returns the counters, the
  datagrams sent, and the number of acknowledged chunks, or \<open>None\<close> for the early return.
\<close>

fun send_chunks :: "bool \<Rightarrow> memory \<Rightarrow> (nat \<Rightarrow> nat) \<Rightarrow> nat \<Rightarrow> parts \<Rightarrow> nat \<Rightarrow> nat \<Rightarrow> byte list \<Rightarrow>
    (byte list \<times> byte list list \<times> nat option) exresult" where
  "send_chunks dry m sizes chunk local sent acknowledged [] = Inr ([], [], Some acknowledged)"
| "send_chunks dry m sizes chunk local sent acknowledged (p # ps) =
     (let chunk_size = sizes chunk;
          next_chunk = (chunk + 1) mod 2 ^ 32
      in case value_first_second local chunk_size of (local, value) \<Rightarrow>
         expretf (continuous_chunk m value) 0 (\<lambda>continuous.
         exaret (signed_char p < int CHUNK_SEND_REPEATS) ''*p < CHUNK_SEND_REPEATS'' EEF_SHUTDOWN_LOG
           (if signed_char p < 0
            then expret (send_chunks dry m sizes next_chunk local sent (acknowledged + 1) ps)
                   (\<lambda>(ps, out, a). Inr (p # ps, out, a))
            else if dry
            then expret (send_chunks dry m sizes next_chunk local sent acknowledged ps)
                   (\<lambda>(ps, out, a). Inr (p # ps, out, a))
            else if chunk_size > length continuous then expretf (Inl Undefined) 0 (\<lambda>x. x)
            else let datagram = take chunk_size continuous;
                     p = char_of (ord p + 1)
                 in if sent + 1 = CHUNK_SEND_SIMULTANEOUS then Inr (p # ps, [datagram], None)
                    else expret (send_chunks dry m sizes next_chunk local (sent + 1) acknowledged ps)
                           (\<lambda>(ps, out, a). Inr (p # ps, datagram # out, a)))))"

text \<open>
  The size of a chunk by its number; \<^verbatim>\<open>chunk_number\<close>, \<^verbatim>\<open>last_chunk\<close> and
  \<^verbatim>\<open>second_last_chunk\<close> are \<^verbatim>\<open>unsigned int\<close>.
\<close>

definition chunk_sizes :: "nat \<Rightarrow> nat \<Rightarrow> nat \<Rightarrow> nat \<Rightarrow> nat \<Rightarrow> nat" where
  "chunk_sizes message_size first_chunk chunk_number last_chunk_size chunk =
     (let last_chunk = (first_chunk + chunk_number + (2 ^ 32 - 1)) mod 2 ^ 32;
          second_last_chunk = (first_chunk + chunk_number + (2 ^ 32 - 2)) mod 2 ^ 32;
          second_last_chunk_size = size_sub (size_sub message_size last_chunk_size)
            (CHUNK_SIZE * ((chunk_number + (2 ^ 32 - 2)) mod 2 ^ 32) mod 2 ^ 32)
      in if chunk = second_last_chunk then second_last_chunk_size
         else if chunk = last_chunk then last_chunk_size else CHUNK_SIZE)"

text \<open>
  \<^verbatim>\<open>server_send_message\<close>: the counters lie in the response queue. Returns the queue, the rest
  of the message and the datagrams.
\<close>

definition server_send_message :: "bool \<Rightarrow> memory \<Rightarrow> parts \<Rightarrow> nat \<Rightarrow> ring \<Rightarrow> parts \<Rightarrow> nat \<Rightarrow>
    (ring \<times> parts \<times> byte list list) exresult" where
  "server_send_message dry m message first_chunk queue chunks last_chunk_size =
     (let chunk_number = value_size chunks mod 2 ^ 32;
          sizes = chunk_sizes (value_size message) first_chunk chunk_number last_chunk_size
      in expret (send_chunks dry m sizes first_chunk message 0 0 (value_read (ring_memory queue) chunks))
           (\<lambda>(counters, out, acknowledged).
         expretf (ring_write queue chunks counters) 0 (\<lambda>queue.
         Inr (queue,
           if acknowledged = Some chunk_number then map (\<lambda>p. p\<lparr>part_size := 0\<rparr>) message else message,
           out))))"

section \<open>What is sent\<close>

definition acked :: "byte \<Rightarrow> bool" where
  "acked c \<longleftrightarrow> signed_char c < 0"

text \<open>The chunks that are not acknowledged, and the counters after \<open>n\<close> of them were sent.\<close>

definition unacknowledged :: "byte list list \<Rightarrow> byte list \<Rightarrow> byte list list" where
  "unacknowledged cs ps = map fst (filter (\<lambda>(c, p). \<not> acked p) (zip cs ps))"

fun bump :: "nat \<Rightarrow> byte list \<Rightarrow> byte list" where
  "bump n [] = []"
| "bump n (p # ps) =
     (if acked p then p # bump n ps
      else case n of 0 \<Rightarrow> p # ps | Suc n \<Rightarrow> char_of (ord p + 1) # bump n ps)"

lemma bump_0 [simp]: "bump 0 ps = ps"
  by (induction ps) simp_all

lemma unacknowledged_simps [simp]:
  "unacknowledged [] ps = []"
  "unacknowledged (c # cs) (p # ps) = (if acked p then unacknowledged cs ps else c # unacknowledged cs ps)"
  by (simp_all add: unacknowledged_def)

lemma continuous_chunk_ok:
  assumes "value_size v \<le> CHUNK_SIZE"
  shows "continuous_chunk m v = Inr (vbytes m v)"
proof -
  have "(case value_to_continuous m v of Inl p \<Rightarrow> pbytes m p | Inr bs \<Rightarrow> bs) = vbytes m v"
    by (rule value_to_continuous_spec)
  moreover have "length (vbytes m v) \<le> CHUNK_SIZE" using assms by (simp add: value_size_length [of v m])
  ultimately show ?thesis by (auto simp: continuous_chunk_def split: sum.splits)
qed

lemma send_chunks_spec:
  assumes "vbytes m local = concat cs" and "length ps = length cs"
    and "\<forall>j<length cs. sizes (chunk + j) = length (cs ! j) \<and> length (cs ! j) \<le> CHUNK_SIZE"
    and "chunk + length cs \<le> 2 ^ 32" and "\<forall>p\<in>set ps. signed_char p < 4" and "sent < 4"
  shows "send_chunks dry m sizes chunk local sent a ps =
    Inr (if dry then ps else bump (4 - sent) ps, if dry then [] else take (4 - sent) (unacknowledged cs ps),
      if \<not> dry \<and> 4 - sent \<le> length (unacknowledged cs ps) then None else Some (a + length (filter acked ps)))"
  using assms
proof (induction ps arbitrary: cs chunk local sent a)
  case (Cons p ps)
  obtain c cs' where cs: "cs = c # cs'" using Cons.prems(2) by (cases cs) auto
  have sz: "sizes chunk = length c" "length c \<le> CHUNK_SIZE" using Cons.prems(3) [rule_format, of 0] cs by auto
  have fs: "value_first_second local (length c) = (value_second local (length c), value_first local (length c))"
    by (rule value_first_second_eq)
  have first: "vbytes m (value_first local (length c)) = c" and rest: "vbytes m (value_second local (length c)) = concat cs'"
    using Cons.prems(1) cs by (simp_all add: value_first_spec value_second_spec)
  have "value_size (value_first local (length c)) = length c"
    using arg_cong [OF first, of length] by (simp only: value_size_length [of _ m])
  then have cont: "continuous_chunk m (value_first local (length c)) = Inr c"
    using sz continuous_chunk_ok [of "value_first local (length c)" m] first by simp
  have IH: "send_chunks dry m sizes ((chunk + 1) mod 2 ^ 32) (value_second local (length c)) s a' ps =
    Inr (if dry then ps else bump (4 - s) ps, if dry then [] else take (4 - s) (unacknowledged cs' ps),
      if \<not> dry \<and> 4 - s \<le> length (unacknowledged cs' ps) then None else Some (a' + length (filter acked ps)))"
    if "s < 4" for s a'
  proof (cases "ps = []")
    case True
    then show ?thesis using Cons.prems(2) cs that by simp
  next
    case False
    then have "cs' \<noteq> []" using Cons.prems(2) cs by auto
    then have "chunk + 1 < 2 ^ 32" using Cons.prems(4) cs by (cases cs') auto
    then have next_chunk: "(chunk + 1) mod 2 ^ 32 = chunk + 1" by simp
    show ?thesis unfolding next_chunk
      using Cons.prems cs rest that by (intro Cons.IH) auto
  qed
  have limit: "signed_char p < int CHUNK_SEND_REPEATS" using Cons.prems(5) by (simp add: CHUNK_SEND_REPEATS_def)
  have four: "CHUNK_SEND_SIMULTANEOUS = 4" by (simp add: CHUNK_SEND_SIMULTANEOUS_def)
  obtain n where n: "4 - sent = Suc n" using Cons.prems(6) by (cases "4 - sent") auto
  consider (acked) "acked p" | (dry) "\<not> acked p" dry | (last) "\<not> acked p" "\<not> dry" "sent = 3"
    | (send) "\<not> acked p" "\<not> dry" "sent < 3" using Cons.prems(6) by linarith
  then show ?case
  proof cases
    case acked
    then show ?thesis using IH [OF Cons.prems(6), of "a + 1"] limit cont sz cs
      by (simp add: fs Let_def acked_def)
  next
    case dry
    then show ?thesis using IH [OF Cons.prems(6), of a] limit cont sz cs
      by (simp add: fs Let_def acked_def)
  next
    case last
    then show ?thesis using limit cont sz cs by (simp add: fs Let_def acked_def four)
  next
    case send
    then have "sent + 1 < 4" "4 - sent = Suc (4 - (sent + 1))" by simp_all
    then show ?thesis using IH [OF \<open>sent + 1 < 4\<close>, of a] send limit cont sz cs
      by (simp add: fs Let_def acked_def four)
  qed
qed simp

lemma chunk_sizes_ok:
  assumes "cs \<noteq> []" and "first_chunk + length cs \<le> 2 ^ 32" and "length (concat cs) < 2 ^ 32"
    and "\<forall>j. j + 2 < length cs \<longrightarrow> length (cs ! j) = CHUNK_SIZE" and "j < length cs"
  shows "chunk_sizes (length (concat cs)) first_chunk (length cs) (length (last cs)) (first_chunk + j) = length (cs ! j)"
proof -
  obtain init where init: "cs = init @ [last cs]" using assms(1) by (metis append_butlast_last_id)
  then have n: "length cs = Suc (length init)" by (metis length_append_singleton)
  have last_chunk: "(first_chunk + length cs + (2 ^ 32 - 1)) mod 2 ^ 32 = first_chunk + length init"
    using assms(2) n by simp
  show ?thesis
  proof (cases "init = []")
    case True
    then have "j = 0" using assms(5) n by simp
    moreover have "cs ! 0 = last cs" using True init by (metis append_Nil nth_Cons_0)
    moreover have "(first_chunk + length cs + (2 ^ 32 - 2)) mod 2 ^ 32 \<noteq> first_chunk"
    proof (cases first_chunk)
      case (Suc f)
      then show ?thesis using True n assms(2) by simp
    qed (use True n in simp)
    ultimately show ?thesis using last_chunk True by (simp add: chunk_sizes_def Let_def)
  next
    case False
    then obtain front where front: "init = front @ [last init]" by (metis append_butlast_last_id)
    then have m: "length init = Suc (length front)" by (metis length_append_singleton)
    have second: "(first_chunk + length cs + (2 ^ 32 - 2)) mod 2 ^ 32 = first_chunk + length front"
      using assms(2) n m by simp
    have whole: "length (cs ! i) = CHUNK_SIZE" if "i < length front" for i
      using assms(4) that n m by auto
    have "map length front = replicate (length front) CHUNK_SIZE"
    proof (rule nth_equalityI)
      fix i assume "i < length (map length front)"
      then show "map length front ! i = replicate (length front) CHUNK_SIZE ! i"
        using whole [of i] init front by (metis length_map nth_append nth_map nth_replicate length_append_singleton less_SucI)
    qed simp
    then have sum: "length (concat front) = length front * CHUNK_SIZE" by (simp add: length_concat sum_list_replicate)
    have total: "length (concat cs) = length front * CHUNK_SIZE + length (last init) + length (last cs)"
      using sum by (subst init, subst front) simp
    have "length front * CHUNK_SIZE < 2 ^ 32" using total assms(3) by simp
    moreover have "(length cs + (2 ^ 32 - 2)) mod 2 ^ 32 = length front"
      using n m assms(2) by simp
    ultimately have size: "size_sub (size_sub (length (concat cs)) (length (last cs)))
        (CHUNK_SIZE * ((length cs + (2 ^ 32 - 2)) mod 2 ^ 32) mod 2 ^ 32) = length (last init)"
      using total assms(3) by (simp add: mult.commute)
    consider "j < length front" | "j = length front" | "j = length init" using assms(5) n m by linarith
    then show ?thesis
    proof cases
      case 1
      then show ?thesis using whole [OF 1] second last_chunk m by (simp add: chunk_sizes_def Let_def)
    next
      case 2
      then have "cs ! j = last init" using init front by (metis nth_append nth_append_length length_append_singleton lessI)
      then show ?thesis using 2 second size by (simp add: chunk_sizes_def Let_def)
    next
      case 3
      then have "cs ! j = last cs" using init by (metis nth_append_length)
      then show ?thesis using 3 second last_chunk m by (simp add: chunk_sizes_def Let_def)
    qed
  qed
qed

section \<open>Properties\<close>

text \<open>
  \<open>int_length\<close> is the number of characters \<^verbatim>\<open>%u\<close> prints, for every number below
  \<open>10 ^ 19\<close>; all sequence numbers are \<^verbatim>\<open>unsigned int\<close>, so the loop ends for them.
\<close>

theorem int_length_decimal:
  assumes "a < 2 ^ 32"
  shows "int_length a = Some (length (decimal_text a))"
proof -
  have "a < 10 ^ 19" using assms by simp
  then show ?thesis by (rule int_length_ok)
qed

lemma int_length_decimal_witness: "int_length 1234 = Some (length (decimal_text 1234)) \<and> decimal_text 1234 = ''1234''"
proof -
  have "(1234::nat) < 2 ^ 32" by simp
  moreover have "decimal_text 1234 = ''1234''" by (simp add: decimal_text.simps digit_char_def char_of_def bit_0)
  ultimately show ?thesis using int_length_decimal [of 1234] by simp
qed

text \<open>
  C20: \<open>server_send_message\<close> cuts the message at the borders of its chunks, sends the first four
  chunks that are not acknowledged (none in a dry run), counts exactly these, and drops the
  message as soon as every chunk is acknowledged, and only then.
\<close>

theorem server_send_message_resends:
  assumes "ring_inv queue" and "ring_value_ok queue chunks" and "vbytes m message = concat cs"
    and "cs \<noteq> []" and "value_size chunks = length cs" and "first_chunk + length cs < 2 ^ 32"
    and "length (concat cs) < 2 ^ 32" and "\<forall>c\<in>set cs. length c \<le> CHUNK_SIZE"
    and "\<forall>j. j + 2 < length cs \<longrightarrow> length (cs ! j) = CHUNK_SIZE"
    and "ps = vbytes (ring_memory queue) chunks" and "\<forall>p\<in>set ps. signed_char p < int CHUNK_SEND_REPEATS"
  shows "\<exists>queue'. server_send_message dry m message first_chunk queue chunks (length (last cs)) =
      Inr (queue', if list_all acked ps then map (\<lambda>p. p\<lparr>part_size := 0\<rparr>) message else message,
        if dry then [] else take CHUNK_SEND_SIMULTANEOUS (unacknowledged cs ps)) \<and>
    ring_inv queue' \<and> ring_size queue' = ring_size queue \<and>
    vbytes (ring_memory queue') chunks = (if dry then ps else bump CHUNK_SEND_SIMULTANEOUS ps)"
proof -
  let ?counters = "if dry then ps else bump 4 ps"
  have len: "length ps = length cs" using assms(5,10) by (simp add: value_size_length [of _ "ring_memory queue"])
  have lb: "length (bump k ps) = length ps" for k
    by (induction k ps rule: bump.induct) (auto split: nat.split)
  have size: "value_size message = length (concat cs)"
    using assms(3) by (simp only: value_size_length [of _ m])
  have cs_pos: "\<forall>j<length cs. length (cs ! j) \<le> CHUNK_SIZE" using assms(8) by simp
  let ?sizes = "chunk_sizes (value_size message) first_chunk (length cs) (length (last cs))"
  have sizes: "\<forall>j<length cs. ?sizes (first_chunk + j) = length (cs ! j) \<and> length (cs ! j) \<le> CHUNK_SIZE"
    unfolding size using chunk_sizes_ok [OF assms(4) _ assms(7,9)] assms(6) cs_pos by simp
  have lim: "\<forall>p\<in>set ps. signed_char p < 4" using assms(11) by (simp add: CHUNK_SEND_REPEATS_def)
  note run = send_chunks_spec [OF assms(3) len sizes less_imp_le [OF assms(6)] lim, of 0 dry 0]
  have "value_size chunks \<le> length ?counters" using assms(5) len lb by simp
  from ring_write_ok [OF assms(1,2) this] obtain q where q: "ring_write queue chunks ?counters = Inr q"
    "ring_inv q" "ring_size q = ring_size queue"
    "vbytes (ring_memory q) chunks = take (value_size chunks) ?counters" by blast
  have all: "(if \<not> dry \<and> 4 \<le> length (unacknowledged cs ps) then None else Some (length (filter acked ps))) =
      Some (length cs) \<longleftrightarrow> list_all acked ps"
  proof
    assume "list_all acked ps"
    then have "unacknowledged cs ps = []" "filter acked ps = ps"
      using len by (auto simp: unacknowledged_def filter_empty_conv list_all_iff dest: set_zip_rightD)
    then show "(if \<not> dry \<and> 4 \<le> length (unacknowledged cs ps) then None else Some (length (filter acked ps))) =
      Some (length cs)" using len by simp
  next
    assume "(if \<not> dry \<and> 4 \<le> length (unacknowledged cs ps) then None else Some (length (filter acked ps))) =
      Some (length cs)"
    then have "length (filter acked ps) = length ps" using len by (auto split: if_splits)
    then show "list_all acked ps" by (metis filter_id_conv length_filter_less list_all_iff less_irrefl)
  qed
  have wrap: "length cs mod 2 ^ 32 = length cs" using assms(6) by simp
  have reads: "value_read (ring_memory queue) chunks = ps" using assms(10) by (simp add: value_read_eq)
  have "server_send_message dry m message first_chunk queue chunks (length (last cs)) =
      Inr (q, if list_all acked ps then map (\<lambda>p. p\<lparr>part_size := 0\<rparr>) message else message,
        if dry then [] else take 4 (unacknowledged cs ps))"
    by (simp only: server_send_message_def Let_def assms(5) wrap reads run exresult_simps prod.case
        q(1) all add_0 diff_zero)
  then show ?thesis using q(2-4) assms(5) len lb by (simp add: CHUNK_SEND_SIMULTANEOUS_def)
qed

lemma server_send_message_resends_witness:
  "\<exists>queue'. server_send_message False (nth (''6 ab7'' @ [CR, LF])) [\<lparr>part_p = 0, part_size = 7\<rparr>, zero_part] 6
      \<lparr>ring_p = Some [NUL, CHR 0xFF], ring_size = 2, ring_capacity = 2, ring_begin = 0\<rparr>
      [\<lparr>part_p = 0, part_size = 2\<rparr>, zero_part] 3 =
    Inr (queue', [\<lparr>part_p = 0, part_size = 7\<rparr>, zero_part], [''6 ab'']) \<and>
    vbytes (ring_memory queue') [\<lparr>part_p = 0, part_size = 2\<rparr>, zero_part] = [CHR 0x01, CHR 0xFF]"
proof -
  let ?q = "\<lparr>ring_p = Some [NUL, CHR 0xFF], ring_size = 2, ring_capacity = 2, ring_begin = 0\<rparr>"
  let ?v = "[\<lparr>part_p = 0, part_size = 2\<rparr>, zero_part]"
  let ?m = "nth (''6 ab7'' @ [CR, LF])"
  let ?msg = "[\<lparr>part_p = 0, part_size = 7\<rparr>, zero_part]"
  let ?cs = "[''6 ab'', ''7'' @ [CR, LF]]"
  let ?ps = "[NUL, CHR 0xFF]"
  have "capacity_ok (2 ^ 1)" by (rule capacity_ok_power) simp
  then have q: "ring_inv ?q" by (simp add: ring_inv_def ring_block_def)
  have v: "ring_value_ok ?q ?v" by (auto simp: ring_value_ok_def inside_def zero_part_def extent_def)
  have msg: "vbytes ?m ?msg = concat ?cs" by (simp add: pbytes_def upt_rec zero_part_def)
  have ps: "?ps = vbytes (ring_memory ?q) ?v"
    by (simp add: pbytes_def upt_rec ring_memory_def ring_block_def zero_part_def)
  have ack: "\<not> acked NUL" "acked (CHR 0xFF)" by (simp_all add: acked_def signed_char_def)
  have out: "unacknowledged ?cs ?ps = [''6 ab'']" "bump 4 ?ps = [CHR 0x01, CHR 0xFF]" "\<not> list_all acked ?ps"
    using ack by (simp_all add: char_of_def bit_0 split: nat.split)
  have "?cs \<noteq> []" "value_size ?v = length ?cs" "6 + length ?cs < 2 ^ 32" "length (concat ?cs) < 2 ^ 32"
    "\<forall>c\<in>set ?cs. length c \<le> CHUNK_SIZE" "\<forall>j. j + 2 < length ?cs \<longrightarrow> length (?cs ! j) = CHUNK_SIZE"
    "\<forall>p\<in>set ?ps. signed_char p < int CHUNK_SEND_REPEATS"
    by (simp_all add: zero_part_def CHUNK_SIZE_def CHUNK_SEND_REPEATS_def signed_char_def)
  note spec = server_send_message_resends [OF q v msg this(1-6) ps this(7), of False]
  have len: "length (last ?cs) = 3" and one: "take 4 [''6 ab''] = [''6 ab'']" by simp_all
  show ?thesis using spec unfolding len out CHUNK_SEND_SIMULTANEOUS_def one
    by (simp only: out(3) if_False) blast
qed

text \<open>
  A message without chunks is dropped at once and nothing is sent.
\<close>

lemma server_send_message_without_chunks:
  assumes "ring_inv queue" and "ring_value_ok queue chunks" and "value_size chunks = 0"
  shows "\<exists>queue'. server_send_message dry m message first_chunk queue chunks last_chunk_size =
    Inr (queue', map (\<lambda>p. p\<lparr>part_size := 0\<rparr>) message, [])"
proof -
  have "value_size chunks \<le> length []" using assms(3) by simp
  from ring_write_ok [OF assms(1,2) this] obtain q where "ring_write queue chunks [] = Inr q" by blast
  moreover have "value_read (ring_memory queue) chunks = []"
    using assms(3) by (simp add: value_read_eq value_size_length [of _ "ring_memory queue"])
  ultimately show ?thesis using assms(3) by (simp add: server_send_message_def Let_def)
qed

lemma server_send_message_without_chunks_witness:
  "\<exists>queue'. server_send_message False (nth ''4 Parser error'') [\<lparr>part_p = 0, part_size = 14\<rparr>, zero_part] 0
      zero_ring zero_value 11 = Inr (queue', [\<lparr>part_p = 0, part_size = 0\<rparr>, zero_part], [])"
  using server_send_message_without_chunks [OF ring_inv_zero ring_value_ok_zero value_size_zero_value,
      of False "nth ''4 Parser error''" "[\<lparr>part_p = 0, part_size = 14\<rparr>, zero_part]" 0 11]
  by (simp add: zero_part_def)

end
