(* ===== verification/TS_Send.thy ===== *)
theory TS_Send
  imports TS_Client TS_Low_Level TS_Message
begin

text \<open>
  \<^verbatim>\<open>source/server/send.c\<close>: sending what a client is owed, first the short response stream
  where it lies, then the client's own stream, and popping the metadata of every response that has
  left completely. The log line of a finished response is not modelled.
\<close>

section \<open>Popping metadata\<close>

definition server_pop_response :: "client \<Rightarrow> client result" where
  "server_pop_response c =
     pret (ring_pop (response_queue c) sizeof_Response) (\<lambda>q.
     if rs_silent (client_response c) then Inr (c\<lparr>response_queue := q\<rparr>)
     else pret (ring_get q (rs_method (client_response c)) False) (\<lambda>method_value.
          pret (ring_get q (rs_resource (client_response c)) False) (\<lambda>resource_value.
          pret (ring_pop q (rs_size (client_response c))) (\<lambda>q.
          Inr (c\<lparr>response_queue := q\<rparr>)))))"

lemma ring_pop_shrinks:
  assumes "ring_pop r n = Inr r'"
  shows "ring_size r' \<le> ring_size r" and "0 < n \<Longrightarrow> n < 2 ^ 64 \<Longrightarrow> ring_size r' < ring_size r"
proof -
  have n: "n \<le> ring_size r" and r': "ring_size r' = size_sub (ring_size r) n"
    using assms by (auto simp: ring_pop_def aret_def Let_def split: if_splits)
  have eq: "size_sub (ring_size r) n = (ring_size r - n) mod 2 ^ 64" if "n < 2 ^ 64"
  proof -
    have "ring_size r + (2 ^ 64 - n) = ring_size r - n + 2 ^ 64" using n that by simp
    then show ?thesis by (simp only: size_sub_def mod_add_self2)
  qed
  show "ring_size r' \<le> ring_size r"
  proof (cases "n < 2 ^ 64")
    case True
    then show ?thesis using r' eq mod_less_eq_dividend [of "ring_size r - n" "2 ^ 64"] by linarith
  next
    case False
    then show ?thesis using r' by (simp add: size_sub_def)
  qed
  show "ring_size r' < ring_size r" if "0 < n" "n < 2 ^ 64"
    using r' eq [OF that(2)] mod_less_eq_dividend [of "ring_size r - n" "2 ^ 64"] that n by linarith
qed

lemma server_pop_response_shrinks:
  assumes "server_pop_response c = Inr c'"
  shows "ring_size (response_queue c') < ring_size (response_queue c)"
proof -
  obtain q where q: "ring_pop (response_queue c) sizeof_Response = Inr q"
    and c': "response_queue c' = q \<or> (\<exists>n. ring_pop q n = Inr (response_queue c'))"
    using assms by (auto simp: server_pop_response_def pret_Inr_iff split: if_splits) blast+
  have "ring_size q < ring_size (response_queue c)" by (rule ring_pop_shrinks(2) [OF q]) (simp_all add: sizeof_Response_def)
  then show ?thesis using c' ring_pop_shrinks(1) by fastforce
qed

text \<open>The loop ends because every round takes a structure off the queue.\<close>

function server_pop_responses :: "client \<Rightarrow> int \<Rightarrow> nat \<Rightarrow> client result" where
  "server_pop_responses c now sent_stream_size =
     (if sent_stream_size > 0
      then if sent_stream_size \<ge> rs_stream_size (client_response c)
        then case server_pop_response c of
            Inl e \<Rightarrow> Inl e
          | Inr c \<Rightarrow>
              (let c = c\<lparr>last_response_complete := now, response_count := size_sub (response_count c) 1\<rparr>;
                   sent_stream_size = size_sub sent_stream_size (rs_stream_size (client_response c));
                   c = c\<lparr>client_response := (client_response c)\<lparr>rs_stream_size := 0\<rparr>\<rparr>
               in if ring_size (response_queue c) > 0
                  then case ring_get (response_queue c) \<lparr>loc_offset = 0, loc_size = sizeof_Response\<rparr> False of
                      Inl e \<Rightarrow> Inl e
                    | Inr value \<Rightarrow>
                        server_pop_responses
                          (c\<lparr>client_response := response_of (value_read (ring_memory (response_queue c)) value)\<rparr>)
                          now sent_stream_size
                  else server_pop_responses c now sent_stream_size)
        else Inr (c\<lparr>client_response := (client_response c)
               \<lparr>rs_stream_size := size_sub (rs_stream_size (client_response c)) sent_stream_size\<rparr>\<rparr>)
      else Inr c)"
  by pat_completeness auto
termination
  by (relation "measure (\<lambda>(c, _, _). ring_size (response_queue c))")
    (auto dest: server_pop_response_shrinks)

declare server_pop_responses.simps [simp del]

section \<open>Sending\<close>

text \<open>
  \<^verbatim>\<open>int_length(first_chunk + chunks.size - 1) + 2\<close>; the sum is a \<^verbatim>\<open>size_t\<close>.
\<close>

definition last_chunk_size_of :: "response \<Rightarrow> nat result" where
  "last_chunk_size_of r =
     (case int_length (size_sub (size_add (rs_first_chunk r) (loc_size (rs_chunks r))) 1) of
        None \<Rightarrow> Inl Diverges | Some n \<Rightarrow> Inr (size_add n 2))"

text \<open>
  The part that both functions share: returns what is left of the value, the client, what went
  out and the flags.
\<close>

definition send_value :: "send_call \<Rightarrow> memory \<Rightarrow> parts \<Rightarrow> client \<Rightarrow> int \<Rightarrow> connection_flags \<Rightarrow>
    (parts \<times> client \<times> byte list list \<times> connection_flags) exresult" where
  "send_value send m value c now flags =
     (if ACCEPTING_SOCKET_IS_CONNECTION (accepting_socket c)
      then expretf (server_send_stream send m value flags) EEF_CLOSE_LOG (\<lambda>(value, out, flags).
           Inr (value, c, [out], flags))
      else expretf (last_chunk_size_of (client_response c)) 0 (\<lambda>last_chunk_size.
           let response = client_response c;
               chunks_location = \<lparr>loc_offset = size_add sizeof_Response (loc_offset (rs_chunks response)),
                                  loc_size = loc_size (rs_chunks response)\<rparr>
           in expretf (ring_get (response_queue c) chunks_location False) EEF_CLOSE_LOG_DIE (\<lambda>chunks.
              let real = (last_chunk_sent c = 0 \<or> now \<ge> last_chunk_sent c + CHUNK_SEND_REPEAT_TIME)
              in expret (server_send_message (\<not> real) m value (rs_first_chunk response) (response_queue c)
                           chunks last_chunk_size) (\<lambda>(queue, value, out).
                 let c = c\<lparr>response_queue := queue\<rparr>;
                     c = (if real then c\<lparr>last_chunk_sent := now\<rparr> else c)
                 in Inr (value, c, out, flags\<lparr>cf_saturated := True\<rparr>)))))"

definition server_send_short_response_stream ::
    "send_call \<Rightarrow> globals \<Rightarrow> client \<Rightarrow> int \<Rightarrow> connection_flags \<Rightarrow>
     (globals \<times> client \<times> byte list list \<times> connection_flags) exresult" where
  "server_send_short_response_stream send G c now flags =
     (let old_value_size = value_size (short_response_stream G)
      in expret (send_value send (processor_memory G) (short_response_stream G) c now flags)
           (\<lambda>(value, c, out, flags).
         let G = G\<lparr>short_response_stream := value\<rparr>;
             new_value_size = value_size (short_response_stream G);
             sent_stream_size = size_sub old_value_size new_value_size;
             G = (if new_value_size = 0 then G\<lparr>short_response_owner := None\<rparr> else G)
         in expretf (server_pop_responses c now sent_stream_size) EEF_CLOSE_LOG_DIE (\<lambda>c.
            Inr (G, c, out, flags))))"

definition server_send_long_output_buffer ::
    "send_call \<Rightarrow> client \<Rightarrow> int \<Rightarrow> connection_flags \<Rightarrow> (client \<times> byte list list \<times> connection_flags) exresult" where
  "server_send_long_output_buffer send c now flags =
     (let value = ring_get_all (response_stream c);
          old_value_size = value_size value
      in expret (send_value send (ring_memory (response_stream c)) value c now flags)
           (\<lambda>(value, c, out, flags).
         let new_value_size = value_size value;
             sent_stream_size = size_sub old_value_size new_value_size
         in expretf (ring_pop (response_stream c) sent_stream_size) EEF_CLOSE_LOG_DIE (\<lambda>stream.
            expretf (server_pop_responses (c\<lparr>response_stream := stream\<rparr>) now sent_stream_size)
              EEF_CLOSE_LOG_DIE (\<lambda>c.
            Inr (c, out, flags)))))"

text \<open>\<open>send_short\<close> and \<open>send_long\<close> are the socket during the first and the second call.\<close>

definition server_send_traffic :: "send_call \<Rightarrow> send_call \<Rightarrow> globals \<Rightarrow> nat \<Rightarrow> client \<Rightarrow> int \<Rightarrow> connection_flags \<Rightarrow>
    (globals \<times> client \<times> byte list list \<times> connection_flags) exresult" where
  "server_send_traffic send_short send_long G i c now flags =
     expret (if short_response_owner G = Some i
             then expret (server_send_short_response_stream send_short G c now flags) (\<lambda>(G, c, out, flags).
                  Inr (G, c, out, flags, value_size (short_response_stream G)))
             else Inr (G, c, [], flags, 0)) (\<lambda>(G, c, out, flags, short_response_stream_size).
     expret (if \<not> cf_saturated flags \<and> ring_size (response_stream c) > 0
             then expret (server_send_long_output_buffer send_long c now flags) (\<lambda>(c, out', flags).
                  Inr (c, out @ out', flags))
             else Inr (c, out, flags)) (\<lambda>(c, out, flags).
     let c = (if size_add short_response_stream_size (ring_size (response_stream c)) < MAX_RESPONSE_STREAM_SIZE
              then c\<lparr>last_response_stream_not_full := now\<rparr> else c)
     in Inr (G, c, out, flags)))"

section \<open>The queue of metadata as a list\<close>

text \<open>
  The abstraction: the queue holds, for each response that has not left completely, its structure
  and its payload; the client's copy of the first structure counts what is left of it.
\<close>

type_synonym entry = "response \<times> byte list"

definition entry_ok :: "entry \<Rightarrow> bool" where
  "entry_ok e \<longleftrightarrow> response_fits (fst e) \<and> length (snd e) = rs_size (fst e) \<and>
     loc_offset (rs_method (fst e)) + loc_size (rs_method (fst e)) \<le> rs_size (fst e) \<and>
     loc_offset (rs_resource (fst e)) + loc_size (rs_resource (fst e)) \<le> rs_size (fst e) \<and>
     (rs_silent (fst e) \<longrightarrow> rs_size (fst e) = 0)"

definition entry_bytes :: "entry \<Rightarrow> byte list" where
  "entry_bytes e = response_bytes (fst e) @ snd e"

definition queue_holds :: "client \<Rightarrow> entry list \<Rightarrow> bool" where
  "queue_holds c es \<longleftrightarrow>
     ring_inv (response_queue c) \<and> ring_bytes (response_queue c) = concat (map entry_bytes es) \<and>
     (\<forall>e\<in>set es. entry_ok e) \<and> response_count c = length es \<and>
     (es \<noteq> [] \<longrightarrow> (\<exists>n. client_response c = (fst (hd es))\<lparr>rs_stream_size := n\<rparr>))"

text \<open>The bytes that are still to be sent of each response.\<close>

definition outstanding :: "client \<Rightarrow> entry list \<Rightarrow> nat list" where
  "outstanding c es =
     (case es of [] \<Rightarrow> [] | e # es \<Rightarrow> rs_stream_size (client_response c) # map (\<lambda>e. rs_stream_size (fst e)) es)"

text \<open>Sending \<open>s\<close> bytes in the abstract.\<close>

fun consume :: "nat \<Rightarrow> nat list \<Rightarrow> nat list" where
  "consume s [] = []"
| "consume s (x # xs) = (if s = 0 then x # xs else if x \<le> s then consume (s - x) xs else (x - s) # xs)"

lemma sum_consume: "s \<le> sum_list xs \<Longrightarrow> sum_list (consume s xs) + s = sum_list xs"
proof (induction s xs rule: consume.induct)
  case (2 s x xs)
  show ?case
  proof (cases "0 < s \<and> x \<le> s")
    case True
    then have "sum_list (consume (s - x) xs) + (s - x) = sum_list xs"
      using 2 by (intro 2(1)) auto
    moreover have "consume s (x # xs) = consume (s - x) xs" using True by simp
    ultimately have "sum_list (consume s (x # xs)) + (s - x) = sum_list xs" by (simp only:)
    then show ?thesis using True unfolding sum_list.Cons by linarith
  qed auto
qed simp

lemma consume_0 [simp]: "consume 0 xs = xs"
  by (cases xs) simp_all

lemma length_consume: "length (consume s xs) \<le> length xs"
  by (induction s xs rule: consume.induct) auto

lemma length_entry_bytes: "entry_ok e \<Longrightarrow> length (entry_bytes e) = sizeof_Response + rs_size (fst e)"
  by (simp add: entry_bytes_def entry_ok_def)

lemma ring_sizes: "ring_inv r \<Longrightarrow> ring_size r = length (ring_bytes r)"
  by simp

lemma server_pop_response_ok:
  assumes "queue_holds c (e # es)"
  shows "\<exists>q. server_pop_response c = Inr (c\<lparr>response_queue := q\<rparr>) \<and> ring_inv q \<and>
    ring_bytes q = concat (map entry_bytes es)"
proof -
  note H = assms [unfolded queue_holds_def, simplified]
  obtain n where n: "client_response c = (fst e)\<lparr>rs_stream_size := n\<rparr>" using H by auto
  have ok: "entry_ok e" using H by simp
  note E = ok [unfolded entry_ok_def]
  have size: "ring_size (response_queue c) = sizeof_Response + rs_size (fst e) + length (concat (map entry_bytes es))"
    using H ring_sizes [of "response_queue c"] length_entry_bytes [OF ok] by simp
  have "sizeof_Response \<le> ring_size (response_queue c)" by (simp add: size)
  with H obtain q where q: "ring_pop (response_queue c) sizeof_Response = Inr q" "ring_inv q"
    "ring_bytes q = drop sizeof_Response (ring_bytes (response_queue c))"
    "ring_size q = ring_size (response_queue c) - sizeof_Response"
    using ring_pop_ok [of "response_queue c" sizeof_Response] by blast
  have qb: "ring_bytes q = snd e @ concat (map entry_bytes es)"
    using q(3) H by (simp add: entry_bytes_def)
  have qs: "ring_size q = rs_size (fst e) + length (concat (map entry_bytes es))" using q(4) size by simp
  show ?thesis
  proof (cases "rs_silent (fst e)")
    case True
    then show ?thesis using q qb n E by (auto simp: server_pop_response_def)
  next
    case False
    have m: "loc_offset (rs_method (fst e)) + loc_size (rs_method (fst e)) \<le> ring_size q"
      and r: "loc_offset (rs_resource (fst e)) + loc_size (rs_resource (fst e)) \<le> ring_size q"
      and s: "rs_size (fst e) \<le> ring_size q" using E qs by simp_all
    obtain vm vr q2 where "ring_get q (rs_method (fst e)) False = Inr vm" "ring_get q (rs_resource (fst e)) False = Inr vr"
      "ring_pop q (rs_size (fst e)) = Inr q2" "ring_inv q2" "ring_bytes q2 = drop (rs_size (fst e)) (ring_bytes q)"
      using ring_get_ok [OF q(2) m, of False] ring_get_ok [OF q(2) r, of False] ring_pop_ok [OF q(2) s] by blast
    then show ?thesis using q(1) n False qb E by (auto simp: server_pop_response_def)
  qed
qed

text \<open>The load of the next structure.\<close>

lemma load_response_ok:
  assumes "ring_inv q" and "ring_bytes q = concat (map entry_bytes (e # es))" and "entry_ok e"
  shows "\<exists>v. ring_get q \<lparr>loc_offset = 0, loc_size = sizeof_Response\<rparr> False = Inr v \<and>
    response_of (value_read (ring_memory q) v) = fst e"
proof -
  have "loc_offset \<lparr>loc_offset = 0, loc_size = sizeof_Response\<rparr> + loc_size \<lparr>loc_offset = 0, loc_size = sizeof_Response\<rparr> \<le> ring_size q"
    using assms ring_sizes [OF assms(1)] by (simp add: entry_bytes_def)
  from ring_get_bytes [OF assms(1) this, of False] obtain v where
    "ring_get q \<lparr>loc_offset = 0, loc_size = sizeof_Response\<rparr> False = Inr v"
    "vbytes (ring_memory q) v = take sizeof_Response (ring_bytes q)" by auto
  moreover have "take sizeof_Response (ring_bytes q) = response_bytes (fst e)"
    using assms(2) by (simp add: entry_bytes_def)
  moreover have "response_of (response_bytes (fst e)) = fst e"
    using response_of_bytes [of "fst e" "[]"] assms(3) by (simp add: entry_ok_def)
  ultimately show ?thesis by (simp add: value_read_eq)
qed

text \<open>The fields that popping does not touch.\<close>

definition same_but_queue :: "client \<Rightarrow> client \<Rightarrow> bool" where
  "same_but_queue c c' \<longleftrightarrow>
     (\<exists>q r n t. c' = c\<lparr>response_queue := q, client_response := r, response_count := n, last_response_complete := t\<rparr>)"

lemma same_but_queue_refl: "same_but_queue c c"
  unfolding same_but_queue_def
  by (rule exI [of _ "response_queue c"], rule exI [of _ "client_response c"], rule exI [of _ "response_count c"],
      rule exI [of _ "last_response_complete c"]) simp

lemma same_but_queue_fields:
  assumes "same_but_queue c c'"
  shows "response_stream c' = response_stream c" "accepting_socket c' = accepting_socket c"
    "request_stream c' = request_stream c" "dead c' = dead c" "last_chunk_sent c' = last_chunk_sent c"
    "client_parser c' = client_parser c" "client_request c' = client_request c"
  using assms by (auto simp: same_but_queue_def)

lemma server_pop_responses_ok:
  assumes "queue_holds c es" and "sent \<le> sum_list (outstanding c es)" and "sum_list (outstanding c es) < 2 ^ 64"
    and "length es < 2 ^ 64"
  shows "\<exists>c' k. server_pop_responses c now sent = Inr c' \<and> k \<le> length es \<and> queue_holds c' (drop k es) \<and>
    outstanding c' (drop k es) = consume sent (outstanding c es) \<and> same_but_queue c c' \<and>
    last_response_complete c' = (if k = 0 then last_response_complete c else now)"
  using assms
proof (induction es arbitrary: c sent)
  case Nil
  then have "sent = 0" by (simp add: outstanding_def)
  then show ?case using Nil by (subst server_pop_responses.simps) (auto simp: outstanding_def same_but_queue_refl)
next
  case (Cons e es)
  note H = Cons.prems(1) [unfolded queue_holds_def]
  let ?x = "rs_stream_size (client_response c)"
  have out: "outstanding c (e # es) = ?x # map (\<lambda>e. rs_stream_size (fst e)) es" by (simp add: outstanding_def)
  consider (zero) "sent = 0" | (part) "0 < sent" "sent < ?x" | (all) "0 < sent" "?x \<le> sent" by linarith
  then show ?case
  proof cases
    case zero
    then show ?thesis using Cons.prems
      by (subst server_pop_responses.simps) (auto simp: same_but_queue_refl intro!: exI [of _ 0])
  next
    case part
    let ?c = "c\<lparr>client_response := (client_response c)\<lparr>rs_stream_size := ?x - sent\<rparr>\<rparr>"
    have "?x < 2 ^ 64" using Cons.prems(3) out by simp
    then have run: "server_pop_responses c now sent = Inr ?c"
      using part by (subst server_pop_responses.simps) simp
    have "queue_holds ?c (e # es)" using H by (auto simp: queue_holds_def)
    moreover have "outstanding ?c (e # es) = consume sent (outstanding c (e # es))"
      using part by (simp add: outstanding_def)
    moreover have "same_but_queue c ?c" unfolding same_but_queue_def
      by (rule exI [of _ "response_queue c"], rule exI [of _ "client_response ?c"], rule exI [of _ "response_count c"],
          rule exI [of _ "last_response_complete c"]) simp
    ultimately show ?thesis using run by (intro exI [of _ ?c] exI [of _ 0]) simp
  next
    case all
    from server_pop_response_ok [OF Cons.prems(1)] obtain q where q:
      "server_pop_response c = Inr (c\<lparr>response_queue := q\<rparr>)" "ring_inv q"
      "ring_bytes q = concat (map entry_bytes es)" by blast
    have "?x < 2 ^ 64" "sent < 2 ^ 64" using Cons.prems(2,3) out by simp_all
    then have sub: "size_sub sent ?x = sent - ?x" using all by simp
    have cnt: "size_sub (response_count c) (Suc 0) = length es" using H Cons.prems(4) by simp
    define c1 where "c1 = c\<lparr>response_queue := q, last_response_complete := now, response_count := length es,
      client_response := (client_response c)\<lparr>rs_stream_size := 0\<rparr>\<rparr>"
    have le: "sent - ?x \<le> sum_list (map (\<lambda>e. rs_stream_size (fst e)) es)" using Cons.prems(2) out by simp
    show ?thesis
    proof (cases es)
      case Nil
      then have "ring_size q = 0" using q ring_sizes [OF q(2)] by simp
      then have "server_pop_responses c now sent = server_pop_responses c1 now (sent - ?x)"
        using all q(1) by (subst server_pop_responses.simps) (simp add: Let_def sub cnt c1_def)
      also have "sent - ?x = 0" using le Nil by simp
      also have "server_pop_responses c1 now 0 = Inr c1" by (subst server_pop_responses.simps) simp
      finally have run: "server_pop_responses c now sent = Inr c1" .
      have "queue_holds c1 []" using q Nil by (simp add: queue_holds_def c1_def)
      moreover have "consume sent (outstanding c (e # es)) = []" using all out Nil by simp
      moreover have "same_but_queue c c1" unfolding same_but_queue_def c1_def
        by (rule exI [of _ q], rule exI [of _ "(client_response c)\<lparr>rs_stream_size := 0\<rparr>"],
            rule exI [of _ "length es"], rule exI [of _ now]) simp
      ultimately show ?thesis using run Nil
        by (intro exI [of _ c1] exI [of _ 1]) (simp add: outstanding_def c1_def)
    next
      case (Cons e2 es2)
      define c2 where "c2 = c1\<lparr>client_response := fst e2\<rparr>"
      have ok2: "entry_ok e2" using H Cons by simp
      from load_response_ok [OF q(2) _ ok2, of es2] q(3) Cons obtain v where
        v: "ring_get q \<lparr>loc_offset = 0, loc_size = sizeof_Response\<rparr> False = Inr v"
        "response_of (value_read (ring_memory q) v) = fst e2" by auto
      have "ring_size q \<noteq> 0" using q(3) ring_sizes [OF q(2)] Cons by (simp add: entry_bytes_def sizeof_Response_def)
      then have run: "server_pop_responses c now sent = server_pop_responses c2 now (sent - ?x)"
        using all q(1) v by (subst server_pop_responses.simps) (simp add: Let_def sub cnt c1_def c2_def)
      have q2: "queue_holds c2 es" using q H Cons
        by (auto simp: queue_holds_def c1_def c2_def intro!: exI [of _ "rs_stream_size (fst e2)"])
      have out2: "outstanding c2 es = map (\<lambda>e. rs_stream_size (fst e)) es"
        by (simp add: outstanding_def c2_def Cons)
      have "sum_list (outstanding c2 es) < 2 ^ 64" using Cons.prems(3) out out2 by simp
      moreover have "length es < 2 ^ 64" using \<open>length (e # es) < 2 ^ 64\<close> by simp
      ultimately obtain c' k where IH: "server_pop_responses c2 now (sent - ?x) = Inr c'" "k \<le> length es"
        "queue_holds c' (drop k es)" "outstanding c' (drop k es) = consume (sent - ?x) (outstanding c2 es)"
        "same_but_queue c2 c'" "last_response_complete c' = (if k = 0 then last_response_complete c2 else now)"
        using Cons.IH [OF q2, of "sent - ?x"] le out2 by auto
      have "consume sent (outstanding c (e # es)) = consume (sent - ?x) (outstanding c2 es)"
        using all out out2 by simp
      moreover have "same_but_queue c c'" using IH(5) unfolding same_but_queue_def c2_def c1_def by auto
      moreover have "last_response_complete c' = now" using IH(6) by (simp add: c2_def c1_def split: if_splits)
      ultimately show ?thesis using run IH
        by (intro exI [of _ c'] exI [of _ "Suc k"]) simp
    qed
  qed
qed

section \<open>Sending keeps the books\<close>

text \<open>What the client \<open>i\<close> is owed: its part of the short response stream, then its own stream.\<close>

definition owed :: "globals \<Rightarrow> nat \<Rightarrow> client \<Rightarrow> byte list" where
  "owed G i c =
     (if short_response_owner G = Some i then vbytes (processor_memory G) (short_response_stream G) else []) @
     ring_bytes (response_stream c)"

definition send_inv :: "globals \<Rightarrow> nat \<Rightarrow> client \<Rightarrow> entry list \<Rightarrow> bool" where
  "send_inv G i c es \<longleftrightarrow>
     ring_inv (response_stream c) \<and> queue_holds c es \<and> length (owed G i c) = sum_list (outstanding c es) \<and>
     length (owed G i c) < 2 ^ 64 \<and> length es < 2 ^ 64"

lemma queue_holds_stream [simp]: "queue_holds (c\<lparr>response_stream := s\<rparr>) es = queue_holds c es"
  by (simp add: queue_holds_def)

lemma outstanding_stream [simp]: "outstanding (c\<lparr>response_stream := s\<rparr>) es = outstanding c es"
  by (cases es) (simp_all add: outstanding_def)

text \<open>A step that sent \<open>out\<close>.\<close>

definition sent_step :: "globals \<Rightarrow> globals \<Rightarrow> nat \<Rightarrow> client \<Rightarrow> client \<Rightarrow> entry list \<Rightarrow> byte list \<Rightarrow> bool" where
  "sent_step G G' i c c' es out \<longleftrightarrow>
     owed G i c = out @ owed G' i c' \<and> accepting_socket c' = accepting_socket c \<and>
     (\<exists>k\<le>length es. send_inv G' i c' (drop k es) \<and>
        outstanding c' (drop k es) = consume (length out) (outstanding c es))"

lemma sent_step_refl: "send_inv G i c es \<Longrightarrow> sent_step G G i c c es []"
  by (auto simp: sent_step_def intro!: exI [of _ 0])

lemma consume_consume: "consume b (consume a xs) = consume (a + b) xs"
proof (induction a xs rule: consume.induct)
  case (2 a x xs)
  consider "a = 0" | "0 < a" "x \<le> a" | "0 < a" "a < x" by linarith
  then show ?case
  proof cases
    case 2
    then have "a + b - x = a - x + b" by simp
    then show ?thesis using 2 "2.IH" by simp
  next
    case 3
    then have "b - (x - a) = a + b - x" "x - a \<le> b \<longleftrightarrow> x \<le> a + b" by linarith+
    then show ?thesis using 3 by (cases "b = 0") auto
  qed simp
qed simp

lemma sent_step_trans:
  assumes "sent_step G G1 i c c1 es out1" and "k \<le> length es"
    and "outstanding c1 (drop k es) = consume (length out1) (outstanding c es)"
    and "sent_step G1 G2 i c1 c2 (drop k es) out2"
  shows "sent_step G G2 i c c2 es (out1 @ out2)"
proof -
  obtain j where "j \<le> length (drop k es)" "send_inv G2 i c2 (drop j (drop k es))"
    "outstanding c2 (drop j (drop k es)) = consume (length out2) (outstanding c1 (drop k es))"
    using assms(4) unfolding sent_step_def by blast
  then have "j + k \<le> length es" "send_inv G2 i c2 (drop (j + k) es)"
    "outstanding c2 (drop (j + k) es) = consume (length (out1 @ out2)) (outstanding c es)"
    using assms(2,3) by (simp_all add: consume_consume)
  then show ?thesis using assms(1,4) unfolding sent_step_def by auto
qed

text \<open>Popping after \<open>out\<close> has left.\<close>

lemma pop_after_send:
  assumes "queue_holds c es" and "length out \<le> sum_list (outstanding c es)"
    and "sum_list (outstanding c es) < 2 ^ 64" and "length es < 2 ^ 64"
  shows "\<exists>c' k. server_pop_responses c now (length out) = Inr c' \<and> k \<le> length es \<and> queue_holds c' (drop k es) \<and>
    outstanding c' (drop k es) = consume (length out) (outstanding c es) \<and> same_but_queue c c'"
  using server_pop_responses_ok [OF assms] by blast

lemma send_short_ok:
  assumes "ACCEPTING_SOCKET_IS_CONNECTION (accepting_socket c)" and "send_ok send"
    and "short_response_owner G = Some i" and "send_inv G i c es"
  shows "case server_send_short_response_stream send G c now flags of
      Inl e \<Rightarrow> e = \<lparr>ex_error = Failed ''send() failed'', ex_flags = EEF_CLOSE_LOG\<rparr>
    | Inr (G', c', out, flags') \<Rightarrow> \<exists>k\<le>length es. send_inv G' i c' (drop k es) \<and>
        outstanding c' (drop k es) = consume (length (concat out)) (outstanding c es) \<and>
        owed G i c = concat out @ owed G' i c' \<and> same_but_queue c c' \<and>
        (cf_saturated flags' \<longleftrightarrow> cf_saturated flags \<or> value_size (short_response_stream G') \<noteq> 0) \<and>
        (short_response_owner G' = Some i \<longleftrightarrow> value_size (short_response_stream G') \<noteq> 0)"
proof -
  note I = assms(4) [unfolded send_inv_def]
  let ?m = "processor_memory G" and ?v = "short_response_stream G"
  have owed: "owed G i c = vbytes ?m ?v @ ring_bytes (response_stream c)" using assms(3) by (simp add: owed_def)
  have "value_size ?v \<le> length (owed G i c)" by (simp add: owed value_size_length [of _ ?m])
  then have vs: "value_size ?v < 2 ^ 64" using I by linarith
  show ?thesis
  proof (cases "server_send_stream send ?m ?v flags")
    case (Inl e)
    then have "e = Failed ''send() failed''"
      using send_parts_fails [of send ?m 0 ?v flags e] by (simp add: server_send_stream_def)
    then show ?thesis using Inl assms(1)
      by (simp add: server_send_short_response_stream_def send_value_def exerror_append_extend_def)
  next
    case (Inr r)
    then obtain v out fl where r: "server_send_stream send ?m ?v flags = Inr (v, out, fl)" by (cases r) auto
    then have "send_parts send ?m 0 ?v flags = Inr (v, out, fl)" by (simp add: server_send_stream_def)
    from send_parts_ok [OF assms(2) vs this] have s: "vbytes ?m ?v = out @ vbytes ?m v"
      "value_size v + length out = value_size ?v"
      "fl = (if value_size v = 0 then flags else flags\<lparr>cf_saturated := True\<rparr>)" by (auto split: if_splits)
    have sub: "size_sub (value_size ?v) (value_size v) = length out" using s(2) vs by simp
    have le: "length out \<le> sum_list (outstanding c es)" using I owed s(1) by simp
    from pop_after_send [OF _ le, of now] I obtain c' k where p:
      "server_pop_responses c now (length out) = Inr c'" "k \<le> length es" "queue_holds c' (drop k es)"
      "outstanding c' (drop k es) = consume (length out) (outstanding c es)" "same_but_queue c c'" by auto
    define G' where "G' = (if value_size v = 0 then G\<lparr>short_response_stream := v, short_response_owner := None\<rparr>
      else G\<lparr>short_response_stream := v\<rparr>)"
    have run: "server_send_short_response_stream send G c now flags = Inr (G', c', [out], fl)"
      using r assms(1) p(1)
      by (simp add: server_send_short_response_stream_def send_value_def Let_def sub G'_def)
    have v0: "value_size v = 0 \<Longrightarrow> vbytes ?m v = []" by (simp add: value_size_length [of _ ?m])
    have own: "owed G' i c' = vbytes ?m v @ ring_bytes (response_stream c)"
      using same_but_queue_fields(1) [OF p(5)] v0 assms(3) by (simp add: owed_def G'_def)
    then have ow: "owed G i c = out @ owed G' i c'" using owed s(1) by simp
    have "sum_list (outstanding c' (drop k es)) + length out = sum_list (outstanding c es)"
      using sum_consume [OF le] p(4) by simp
    then have "send_inv G' i c' (drop k es)"
      using I p(3) ow same_but_queue_fields(1) [OF p(5)] unfolding send_inv_def by simp linarith
    then show ?thesis using run p ow s(3) assms(3) by (auto simp: G'_def)
  qed
qed

lemma send_long_ok:
  assumes "ACCEPTING_SOCKET_IS_CONNECTION (accepting_socket c)" and "send_ok send"
    and "short_response_owner G \<noteq> Some i" and "send_inv G i c es"
  shows "case server_send_long_output_buffer send c now flags of
      Inl e \<Rightarrow> e = \<lparr>ex_error = Failed ''send() failed'', ex_flags = EEF_CLOSE_LOG\<rparr>
    | Inr (c', out, flags') \<Rightarrow> \<exists>k\<le>length es. send_inv G i c' (drop k es) \<and>
        outstanding c' (drop k es) = consume (length (concat out)) (outstanding c es) \<and>
        owed G i c = concat out @ owed G i c' \<and> accepting_socket c' = accepting_socket c"
proof -
  note I = assms(4) [unfolded send_inv_def]
  let ?r = "response_stream c"
  let ?m = "ring_memory ?r" and ?v = "ring_get_all ?r"
  have inv: "ring_inv ?r" using I by simp
  have owed: "owed G i c = ring_bytes ?r" using assms(3) by (simp add: owed_def)
  have bytes: "vbytes ?m ?v = ring_bytes ?r" by (rule ring_get_all_bytes [OF inv])
  then have size: "value_size ?v = ring_size ?r" using inv by (simp add: value_size_length [of _ ?m])
  have vs: "value_size ?v < 2 ^ 64" using I owed size inv by simp
  show ?thesis
  proof (cases "server_send_stream send ?m ?v flags")
    case (Inl e)
    then have "e = Failed ''send() failed''"
      using send_parts_fails [of send ?m 0 ?v flags e] by (simp add: server_send_stream_def)
    then show ?thesis using Inl assms(1)
      by (simp add: server_send_long_output_buffer_def send_value_def exerror_append_extend_def Let_def)
  next
    case (Inr r)
    then obtain v out fl where r: "server_send_stream send ?m ?v flags = Inr (v, out, fl)" by (cases r) auto
    then have "send_parts send ?m 0 ?v flags = Inr (v, out, fl)" by (simp add: server_send_stream_def)
    from send_parts_ok [OF assms(2) vs this] have s: "vbytes ?m ?v = out @ vbytes ?m v"
      "value_size v + length out = value_size ?v" by auto
    have sub: "size_sub (value_size ?v) (value_size v) = length out" using s(2) vs by simp
    have "length out \<le> ring_size ?r" using s(2) size by simp
    from ring_pop_ok [OF inv this] obtain q where q: "ring_pop ?r (length out) = Inr q" "ring_inv q"
      "ring_bytes q = drop (length out) (ring_bytes ?r)" by blast
    let ?c = "c\<lparr>response_stream := q\<rparr>"
    have rest: "ring_bytes ?r = out @ ring_bytes q" using q(3) s(1) bytes by (metis append_eq_conv_conj)
    have le: "length out \<le> sum_list (outstanding ?c es)" using I owed rest by simp
    from pop_after_send [OF _ le, of now] I obtain c' k where p:
      "server_pop_responses ?c now (length out) = Inr c'" "k \<le> length es" "queue_holds c' (drop k es)"
      "outstanding c' (drop k es) = consume (length out) (outstanding c es)" "same_but_queue ?c c'" by auto
    have run: "server_send_long_output_buffer send c now flags = Inr (c', [out], fl)"
      using r assms(1) q(1) p(1) sub
      by (simp add: server_send_long_output_buffer_def send_value_def Let_def)
    have f: "response_stream c' = q" "accepting_socket c' = accepting_socket c"
      using same_but_queue_fields(1,2) [OF p(5)] by simp_all
    have own: "owed G i c' = ring_bytes q" using assms(3) f(1) by (simp add: owed_def)
    then have ow: "owed G i c = out @ owed G i c'" using owed rest by simp
    have le': "length out \<le> sum_list (outstanding c es)" using le by simp
    have "sum_list (outstanding c' (drop k es)) + length out = sum_list (outstanding c es)"
      using sum_consume [OF le'] p(4) by simp
    then have "send_inv G i c' (drop k es)" using I p(3) ow f(1) q(2) unfolding send_inv_def by simp linarith
    then show ?thesis using run p ow f(2) by auto
  qed
qed

section \<open>Properties\<close>


text \<open>A client that owes nothing, as a fresh connection.\<close>

definition idle_globals :: globals where
  "idle_globals = \<lparr>short_response_stream = zero_value, short_response_owner = None, short_request_message = [],
     short_request_owner = None, short_request_size = 0, processor_memory = (\<lambda>_. NUL), g_memory = 0\<rparr>"

lemma zero_client_sends: "send_inv idle_globals i zero_client []"
  using ring_inv_zero ring_bytes_zero
  by (simp add: send_inv_def owed_def idle_globals_def queue_holds_def outstanding_def zero_client_def)

text \<open>A client with one response of five bytes in the short stream.\<close>

definition sample_response :: response where
  "sample_response = zero_response\<lparr>rs_stream_size := 5\<rparr>"

definition sample_client :: client where
  "sample_client = zero_client\<lparr>client_response := sample_response, response_count := 1,
     response_queue := \<lparr>ring_p = Some (response_bytes sample_response @ replicate 40 NUL), ring_size = 88,
       ring_capacity = 128, ring_begin = 0\<rparr>\<rparr>"

definition sample_globals :: globals where
  "sample_globals = idle_globals\<lparr>short_response_stream := [\<lparr>part_p = 0, part_size = 5\<rparr>, zero_part],
     short_response_owner := Some 0, processor_memory := nth ''hello''\<rparr>"

lemma sample_sends: "send_inv sample_globals 0 sample_client [(sample_response, [])]"
proof -
  have cap: "capacity_ok (2 ^ 7)" by (rule capacity_ok_power) simp
  have len: "length (response_bytes sample_response) = 88" by (simp add: sizeof_Response_def)
  have inv: "ring_inv (response_queue sample_client)"
    using cap len by (simp add: sample_client_def ring_inv_def ring_block_def)
  have "ring_bytes (response_queue sample_client) = take 88 (response_bytes sample_response @ replicate 40 NUL)"
    using ring_bytes_block [OF inv] len by (simp add: sample_client_def ring_block_def)
  then have bytes: "ring_bytes (response_queue sample_client) = response_bytes sample_response" using len by simp
  have ok: "entry_ok (sample_response, [])"
    by (simp add: entry_ok_def sample_response_def zero_response_def response_fits_def location_fits_def zero_location_def)
  have "queue_holds sample_client [(sample_response, [])]"
    using inv bytes ok by (auto simp: queue_holds_def entry_bytes_def sample_client_def sample_response_def intro: exI [of _ 5])
  then show ?thesis using ring_inv_zero ring_bytes_zero
    by (simp add: send_inv_def owed_def sample_globals_def outstanding_def sample_client_def zero_client_def
        sample_response_def pbytes_def upt_rec zero_part_def)
qed


text \<open>
  C21: a guppy reply without chunks, as every error reply of guppy is built, makes the server
  compute \<^verbatim>\<open>int_length(0 + 0 - 1)\<close> on \<^verbatim>\<open>size_t\<close>: no threshold exceeds the largest
  number, the loop never ends, and the first attempt to send the reply hangs the server.
\<close>

lemma int_length_loop_diverges: "threshold < 2 ^ 64 \<Longrightarrow> int_length_loop (2 ^ 64 - 1) threshold n = None"
proof (rule ccontr)
  assume t: "threshold < 2 ^ 64" and "int_length_loop (2 ^ 64 - 1) threshold n \<noteq> None"
  then obtain r where r: "int_length_loop (2 ^ 64 - 1) threshold n = Some r" by blast
  have "2 ^ 64 - 1 = (2::nat) ^ 64 - 1 \<longrightarrow> threshold < 2 ^ 64 \<longrightarrow> False"
  proof (rule int_length_loop.raw_induct [where P = "\<lambda>a t n r. a = 2 ^ 64 - 1 \<longrightarrow> t < 2 ^ 64 \<longrightarrow> False", OF _ r])
    fix f and a t n r :: nat
    assume IH: "\<And>a t n r. f a t n = Some r \<Longrightarrow> a = 2 ^ 64 - 1 \<longrightarrow> t < 2 ^ 64 \<longrightarrow> False"
      and eq: "(if t \<le> a then f a (t * 10 mod 2 ^ 64) (n + 1) else Some n) = Some r"
    show "a = 2 ^ 64 - 1 \<longrightarrow> t < 2 ^ 64 \<longrightarrow> False"
      using IH [of a "t * 10 mod 2 ^ 64" "n + 1" r] eq by (auto split: if_splits)
  qed
  then show False using t by blast
qed

theorem guppy_reply_without_chunks_hangs:
  assumes "\<not> ACCEPTING_SOCKET_IS_CONNECTION (accepting_socket c)"
    and "rs_first_chunk (client_response c) = 0" and "loc_size (rs_chunks (client_response c)) = 0"
    and "short_response_owner G = Some i"
  shows "server_send_traffic send_short send_long G i c now flags = Inl \<lparr>ex_error = Diverges, ex_flags = 0\<rparr>"
proof -
  have "size_sub (size_add 0 0) 1 = 2 ^ 64 - 1" by (simp add: size_sub_def)
  moreover have "int_length (2 ^ 64 - 1) = None"
    unfolding int_length_def by (rule int_length_loop_diverges) simp
  ultimately have "last_chunk_size_of (client_response c) = Inl Diverges"
    using assms(2,3) by (simp only: last_chunk_size_of_def option.case)
  then show ?thesis using assms(1,4)
    by (simp add: server_send_traffic_def server_send_short_response_stream_def send_value_def
        exerror_append_extend_def)
qed

lemma guppy_reply_without_chunks_hangs_witness:
  "server_send_traffic (\<lambda>i bs. (1, True)) (\<lambda>i bs. (1, True)) sample_globals 0
     (sample_client\<lparr>accepting_socket := 16\<rparr>) 100 CF_NO = Inl \<lparr>ex_error = Diverges, ex_flags = 0\<rparr>"
  by (rule guppy_reply_without_chunks_hangs)
    (simp_all add: ACCEPTING_SOCKET_IS_CONNECTION_def sample_client_def sample_response_def zero_response_def
      zero_location_def sample_globals_def)

end
