(* ===== verification/TS_Crypto.thy ===== *)
theory TS_Crypto
  imports TS_Send
begin

text \<open>
  \<^verbatim>\<open>source/cryptography.c\<close>: what the server does around OpenSSL. The library itself is a parameter, a record
  of the calls the code makes on the handles of one client (their state has the type \<open>'s\<close>); the code here moves
  bytes between the rings of the client and these handles and keeps the books of the responses.
\<close>

section \<open>The library\<close>

datatype ssl_error = SSL_ERROR_ZERO_RETURN | SSL_ERROR_WANT_READ | SSL_ERROR_WANT_WRITE | SSL_ERROR_OTHER

text \<open>
  Each call returns its result and the new state; the reading ones also the bytes. \<^verbatim>\<open>BIO_read\<close> is only ever
  called on \<^verbatim>\<open>write_bio\<close> and \<^verbatim>\<open>BIO_write\<close> on \<^verbatim>\<open>read_bio\<close>; \<open>BIO_new\<close> is asked twice.
\<close>

record 's openssl =
  BIO_new :: "nat \<Rightarrow> bool"
  SSL_new :: "'s option"
  SSL_accept :: "'s \<Rightarrow> int \<times> 's"
  SSL_read :: "'s \<Rightarrow> nat \<Rightarrow> int \<times> byte list \<times> 's"
  SSL_write :: "'s \<Rightarrow> byte list \<Rightarrow> int \<times> 's"
  SSL_shutdown :: "'s \<Rightarrow> int \<times> 's"
  SSL_get_error :: "'s \<Rightarrow> int \<Rightarrow> ssl_error"
  BIO_read :: "'s \<Rightarrow> nat \<Rightarrow> int \<times> byte list \<times> 's"
  BIO_write :: "'s \<Rightarrow> byte list \<Rightarrow> int \<times> 's"

text \<open>\<^verbatim>\<open>error == SSL_ERROR_WANT_READ || error == SSL_ERROR_WANT_WRITE\<close>\<close>

definition wants :: "ssl_error \<Rightarrow> bool" where
  "wants error \<longleftrightarrow> error = SSL_ERROR_WANT_READ \<or> error = SSL_ERROR_WANT_WRITE"

section \<open>From the handles to a ring\<close>

text \<open>
  The inner loop of \<^verbatim>\<open>cryptography_pump_to_ring\<close>: the first component says whether it jumped to
  \<^verbatim>\<open>breakbreak\<close>, the last is \<^verbatim>\<open>*connection_closed\<close>.
\<close>

fun pump_parts :: "'s openssl \<Rightarrow> bool \<Rightarrow> 's \<Rightarrow> ring \<Rightarrow> parts \<Rightarrow> bool \<Rightarrow> (bool \<times> 's \<times> ring \<times> parts \<times> bool) exresult" where
  "pump_parts L from_ssl h r [] shut = Inr (False, h, r, [], shut)"
| "pump_parts L from_ssl h r (p # v) shut =
     (if part_size p = 0
      then expret (pump_parts L from_ssl h r v shut) (\<lambda>(stop, h, r, v', shut). Inr (stop, h, r, p # v', shut))
      else case (if from_ssl then SSL_read L h (part_size p) else BIO_read L h (part_size p)) of (signed_received, bytes, h) \<Rightarrow>
        if signed_received > 0
        then expretf (ring_write r [p\<lparr>part_size := nat signed_received\<rparr>] bytes) 0 (\<lambda>r.
             let received = nat signed_received;
                 p = \<lparr>part_p = part_p p + received, part_size = size_sub (part_size p) received\<rparr>
             in if part_size p > 0 then Inr (True, h, r, p # v, shut)
                else expret (pump_parts L from_ssl h r v shut) (\<lambda>(stop, h, r, v', shut). Inr (stop, h, r, p # v', shut)))
        else if from_ssl
        then let error = SSL_get_error L h signed_received
             in exaret (error = SSL_ERROR_ZERO_RETURN \<or> wants error) ''SSL_read() failed'' EEF_CLOSE_LOG
                  (Inr (True, h, r, p # v, shut \<or> error = SSL_ERROR_ZERO_RETURN))
        else Inr (True, h, r, p # v, shut))"

text \<open>The outer loop; \<^const>\<open>None\<close> when it never ends.\<close>

partial_function (option) pump_loop :: "allocator \<Rightarrow> 's openssl \<Rightarrow> bool \<Rightarrow> nat \<Rightarrow> 's \<Rightarrow> ring \<Rightarrow> bool \<Rightarrow>
    ((nat \<times> 's \<times> ring \<times> bool) exresult) option" where
  "pump_loop realloc L from_ssl g h r shut =
     (case ring_reserve realloc g r (size_add (ring_size r) MIN_AVAILABLE_REQUEST_STREAM) of
        Inl e \<Rightarrow> Some (Inl (exerror_append_extend e EEF_CLOSE_LOG))
      | Inr (g, r) \<Rightarrow>
         (case ring_push_get r MIN_AVAILABLE_REQUEST_STREAM of
            Inl e \<Rightarrow> Some (Inl (exerror_append_extend e EEF_CLOSE_LOG_DIE))
          | Inr (r, value) \<Rightarrow>
             (case pump_parts L from_ssl h r value shut of
                Inl e \<Rightarrow> Some (Inl e)
              | Inr (stop, h, r, value, shut) \<Rightarrow>
                  if stop
                  then Some (expretf (ring_unpush r (value_size value)) EEF_CLOSE_LOG_DIE (\<lambda>r. Inr (g, h, r, shut)))
                  else pump_loop realloc L from_ssl g h r shut)))"

definition cryptography_pump_to_ring :: "allocator \<Rightarrow> 's openssl \<Rightarrow> bool \<Rightarrow> nat \<Rightarrow> 's \<Rightarrow> ring \<Rightarrow> (nat \<times> 's \<times> ring \<times> bool) exresult" where
  "cryptography_pump_to_ring realloc L from_ssl g h r =
     (case pump_loop realloc L from_ssl g h r False of
        None \<Rightarrow> Inl \<lparr>ex_error = Diverges, ex_flags = 0\<rparr>
      | Some result \<Rightarrow> result)"

section \<open>The books\<close>

definition silent_response :: "nat \<Rightarrow> response" where
  "silent_response n = zero_response\<lparr>rs_stream_size := n, rs_silent := True\<rparr>"

definition cryptography_create_silent_response :: "allocator \<Rightarrow> nat \<Rightarrow> client \<Rightarrow> nat \<Rightarrow> (nat \<times> client) exresult" where
  "cryptography_create_silent_response realloc g c silent_size =
     (if silent_size = 0 then Inr (g, c)
      else let silent = silent_response silent_size
        in expretf (ring_reserve realloc g (response_queue c) (size_add (ring_size (response_queue c)) sizeof_Response))
             EEF_CLOSE_LOG (\<lambda>(g, q).
           expretf (ring_push_write q sizeof_Response (response_bytes silent)) EEF_CLOSE_LOG_DIE (\<lambda>q.
           let c = c\<lparr>response_queue := q\<rparr>;
               c = (if response_count c = 0 then c\<lparr>client_response := silent\<rparr> else c)
           in Inr (g, c\<lparr>response_count := size_add (response_count c) 1\<rparr>))))"

text \<open>
  The end of several functions: what the library has written goes to the response stream, as a silent response.
\<close>

definition flush_silently :: "allocator \<Rightarrow> 's openssl \<Rightarrow> nat \<Rightarrow> client \<Rightarrow> 's \<Rightarrow> (nat \<times> client \<times> 's) exresult" where
  "flush_silently realloc L g c h =
     (let old_stream_size = ring_size (response_stream c)
      in expret (cryptography_pump_to_ring realloc L False g h (response_stream c)) (\<lambda>(g, h, stream, _).
         let c = c\<lparr>response_stream := stream\<rparr>;
             new_stream_size = ring_size (response_stream c);
             encrypted_value_size = size_sub new_stream_size old_stream_size
         in expret (cryptography_create_silent_response realloc g c encrypted_value_size) (\<lambda>(g, c).
            Inr (g, c, h))))"

section \<open>Opening\<close>

text \<open>
  What \<^verbatim>\<open>SSL_free\<close> and \<^verbatim>\<open>BIO_free\<close> are called for when \<^verbatim>\<open>cryptography_initialize\<close> fails. Two BIOs that were given
  to a handle with \<^verbatim>\<open>SSL_set_bio\<close> belong to it, and \<^verbatim>\<open>SSL_free\<close> frees them too.
\<close>

datatype handle = The_SSL | The_read_bio | The_write_bio

definition freed_on_failure :: "bool \<Rightarrow> bool \<Rightarrow> bool \<Rightarrow> bool \<Rightarrow> bool \<Rightarrow> handle list" where
  "freed_on_failure new_ssl new_read_bio new_write_bio given bound =
     (if new_ssl then The_SSL # (if given then [The_read_bio, The_write_bio] else []) else []) @
     (if \<not> bound \<and> new_read_bio then [The_read_bio] else []) @
     (if \<not> bound \<and> new_write_bio then [The_write_bio] else [])"

text \<open>A failure comes with the handles that were freed.\<close>

definition cryptography_initialize :: "allocator \<Rightarrow> 's openssl \<Rightarrow> nat \<Rightarrow> client \<Rightarrow> (exerror \<times> handle list) + (nat \<times> client \<times> 's)" where
  "cryptography_initialize realloc L g c =
     (if \<not> BIO_new L 0 then Inl (exerror_allocate EEF_CLOSE_LOG ''BIO_new() failed'', freed_on_failure False False False False False)
      else if \<not> BIO_new L 1 then Inl (exerror_allocate EEF_CLOSE_LOG ''BIO_new() failed'', freed_on_failure False True False False False)
      else case SSL_new L of
          None \<Rightarrow> Inl (exerror_allocate EEF_CLOSE_LOG ''SSL_new() failed'', freed_on_failure False True True False False)
        | Some h \<Rightarrow>
           (case expret (cryptography_pump_to_ring realloc L False g h (response_stream c)) (\<lambda>(g, h, stream, _).
                 let c = c\<lparr>response_stream := stream\<rparr>
                 in expret (cryptography_create_silent_response realloc g c (ring_size (response_stream c))) (\<lambda>(g, c).
                    Inr (g, c, h))) of
              Inl e \<Rightarrow> Inl (e, freed_on_failure True True True True False)
            | Inr (g, c, h) \<Rightarrow> Inr (g, c\<lparr>ssl := True\<rparr>, h)))"

section \<open>Closing\<close>

text \<open>\<^verbatim>\<open>SSL_shutdown\<close>: a negative code is an error unless the library waits for the other side.\<close>

definition shutdown_code :: "'s openssl \<Rightarrow> 's \<Rightarrow> (int \<times> 's) exresult" where
  "shutdown_code L h =
     (case SSL_shutdown L h of (code, h) \<Rightarrow>
        if code < 0 then exaret (wants (SSL_get_error L h code)) ''SSL_shutdown() failed'' EEF_CLOSE_LOG (Inr (code, h))
        else Inr (code, h))"

definition cryptography_finalize :: "allocator \<Rightarrow> 's openssl \<Rightarrow> nat \<Rightarrow> client \<Rightarrow> 's \<Rightarrow> (nat \<times> client) exresult" where
  "cryptography_finalize realloc L g c h =
     (if cryptography_state c \<noteq> CS_SHUTDOWN
      then expret (shutdown_code L h) (\<lambda>(code, h).
           let c = (if code \<le> 0 then c\<lparr>cryptography_state := CS_PENDING_SHUTDOWN\<rparr> else c);
               c = (if code > 0 then c\<lparr>cryptography_state := CS_SHUTDOWN\<rparr> else c)
           in expret (flush_silently realloc L g c h) (\<lambda>(g, c, h). Inr (g, c\<lparr>ssl := False\<rparr>)))
      else Inr (g, c\<lparr>ssl := False\<rparr>))"

section \<open>Decrypting\<close>

fun bio_write_parts :: "'s openssl \<Rightarrow> memory \<Rightarrow> 's \<Rightarrow> parts \<Rightarrow> 's exresult" where
  "bio_write_parts L m h [] = Inr h"
| "bio_write_parts L m h (p # v) =
     (if part_size p = 0 then bio_write_parts L m h v
      else case BIO_write L h (pbytes m p) of (written, h) \<Rightarrow>
        exaret (written = int (part_size p)) ''BIO_write() failed'' EEF_CLOSE_LOG (bio_write_parts L m h v))"

definition handshake :: "'s openssl \<Rightarrow> client \<Rightarrow> 's \<Rightarrow> (client \<times> 's) exresult" where
  "handshake L c h =
     (if cryptography_state c = CS_PENDING_HANDSHAKE
      then case SSL_accept L h of (code, h) \<Rightarrow>
        (let c = (if code > 0 then c\<lparr>cryptography_state := CS_OPERATIONAL\<rparr> else c);
             c = (if code = 0 then c\<lparr>cryptography_state := CS_SHUTDOWN\<rparr> else c)
         in if code < 0 then exaret (wants (SSL_get_error L h code)) ''SSL_accept() failed'' EEF_CLOSE_LOG (Inr (c, h))
            else Inr (c, h))
      else Inr (c, h))"

definition decrypt_operational :: "allocator \<Rightarrow> 's openssl \<Rightarrow> nat \<Rightarrow> client \<Rightarrow> 's \<Rightarrow> (nat \<times> client \<times> 's) exresult" where
  "decrypt_operational realloc L g c h =
     (if cryptography_state c = CS_OPERATIONAL
      then expret (cryptography_pump_to_ring realloc L True g h (request_stream c)) (\<lambda>(g, h, stream, connection_closed).
           let c = c\<lparr>request_stream := stream\<rparr>
           in Inr (g, if connection_closed then c\<lparr>cryptography_state := CS_SHUTDOWN\<rparr> else c, h))
      else Inr (g, c, h))"

definition cryptography_decrypt :: "allocator \<Rightarrow> 's openssl \<Rightarrow> nat \<Rightarrow> client \<Rightarrow> 's \<Rightarrow> nat \<Rightarrow> (nat \<times> client \<times> 's) exresult" where
  "cryptography_decrypt realloc L g c h old_request_stream_size =
     (let location = \<lparr>loc_offset = 0, loc_size = size_sub (ring_size (request_stream c)) old_request_stream_size\<rparr>
      in expretf (ring_get (request_stream c) location True) EEF_CLOSE_LOG_DIE (\<lambda>value.
         expret (bio_write_parts L (ring_memory (request_stream c)) h value) (\<lambda>h.
         expretf (ring_unpush (request_stream c) (loc_size location)) EEF_CLOSE_LOG_DIE (\<lambda>stream.
         let c = c\<lparr>request_stream := stream\<rparr>
         in expret (handshake L c h) (\<lambda>(c, h).
            expret (decrypt_operational realloc L g c h) (\<lambda>(g, c, h).
            expret (if cryptography_state c = CS_PENDING_SHUTDOWN
                    then expret (shutdown_code L h) (\<lambda>(code, h).
                         Inr (if code > 0 then c\<lparr>cryptography_state := CS_SHUTDOWN\<rparr> else c, h))
                    else Inr (c, h)) (\<lambda>(c, h).
            flush_silently realloc L g c h)))))))"

section \<open>Encrypting\<close>

fun ssl_write_parts :: "'s openssl \<Rightarrow> memory \<Rightarrow> 's \<Rightarrow> parts \<Rightarrow> 's exresult" where
  "ssl_write_parts L m h [] = Inr h"
| "ssl_write_parts L m h (p # v) =
     (if part_size p = 0 then ssl_write_parts L m h v
      else case SSL_write L h (pbytes m p) of (code, h) \<Rightarrow>
        exaret (code = int (part_size p)) ''SSL_write() failed'' EEF_CLOSE_LOG (ssl_write_parts L m h v))"

text \<open>
  The stream size is the first field of the structure: it lies \<^verbatim>\<open>response->size\<close> and the rest of the structure
  before the end of the queue.
\<close>

definition cryptography_encrypt :: "allocator \<Rightarrow> 's openssl \<Rightarrow> nat \<Rightarrow> client \<Rightarrow> 's \<Rightarrow> response \<Rightarrow> memory \<Rightarrow> parts \<Rightarrow>
    (nat \<times> client \<times> 's) exresult" where
  "cryptography_encrypt realloc L g c h r m stream =
     expret (ssl_write_parts L m h stream) (\<lambda>h.
     let old_stream_size = ring_size (response_stream c)
     in expret (cryptography_pump_to_ring realloc L False g h (response_stream c)) (\<lambda>(g, h, ring, _).
        let c = c\<lparr>response_stream := ring\<rparr>;
            new_stream_size = ring_size (response_stream c);
            encrypted_value_size = size_sub new_stream_size old_stream_size;
            location = \<lparr>loc_offset = size_add (rs_size r) (sizeof_Response - 8), loc_size = 8\<rparr>
        in expretf (ring_get (response_queue c) location True) EEF_CLOSE_LOG_DIE (\<lambda>value.
           expretf (ring_write (response_queue c) value (le_bytes 8 encrypted_value_size)) 0 (\<lambda>q.
           let c = c\<lparr>response_queue := q\<rparr>
           in Inr (g, if response_count c = 0
                      then c\<lparr>client_response := (client_response c)\<lparr>rs_stream_size := encrypted_value_size\<rparr>\<rparr> else c, h)))))"

section \<open>The pump moves what the library hands out\<close>

abbreviation read_handle :: "'s openssl \<Rightarrow> bool \<Rightarrow> 's \<Rightarrow> nat \<Rightarrow> int \<times> byte list \<times> 's" where
  "read_handle L from_ssl h n \<equiv> if from_ssl then SSL_read L h n else BIO_read L h n"

text \<open>
  A handle from which the bytes \<open>avail\<close> can be read: a successful read takes some of them off the front, an
  unsuccessful one leaves them.
\<close>

definition source_ok :: "'s openssl \<Rightarrow> bool \<Rightarrow> ('s \<Rightarrow> byte list) \<Rightarrow> bool" where
  "source_ok L from_ssl avail \<longleftrightarrow>
     (\<forall>h n. 0 < n \<longrightarrow> (case read_handle L from_ssl h n of (k, bytes, h') \<Rightarrow>
        if k > 0 then nat k \<le> n \<and> length bytes = nat k \<and> avail h = bytes @ avail h' else avail h' = avail h))"

lemma source_okD:
  assumes "source_ok L from_ssl avail" and "0 < n" and "read_handle L from_ssl h n = (k, bytes, h')"
  shows "k > 0 \<Longrightarrow> nat k \<le> n \<and> length bytes = nat k \<and> avail h = bytes @ avail h'" and "\<not> k > 0 \<Longrightarrow> avail h' = avail h"
  using assms unfolding source_ok_def by (fastforce dest!: spec [of _ h] spec [of _ n])+

text \<open>The read that made the pump stop returned less than it was asked for.\<close>

definition short_read :: "'s openssl \<Rightarrow> bool \<Rightarrow> 's \<Rightarrow> bool" where
  "short_read L from_ssl h' \<longleftrightarrow> (\<exists>h n k bytes. 0 < n \<and> read_handle L from_ssl h n = (k, bytes, h') \<and> k < int n)"

definition ssl_read_failure :: exerror where
  "ssl_read_failure = \<lparr>ex_error = Failed ''SSL_read() failed'', ex_flags = EEF_CLOSE_LOG\<rparr>"

lemma pump_parts_ok:
  assumes "source_ok L from_ssl avail"
    and "ring_inv r" and "inside (ring_capacity r) v" and "separated v" and "value_size v < 2 ^ 64"
  shows "(from_ssl \<and> pump_parts L from_ssl h r v shut = Inl ssl_read_failure) \<or>
    (\<exists>stop h' r' v' shut' got. pump_parts L from_ssl h r v shut = Inr (stop, h', r', v', shut') \<and> ring_inv r' \<and>
       ring_size r' = ring_size r \<and> ring_capacity r' = ring_capacity r \<and> ring_begin r' = ring_begin r \<and>
       value_size v' + length got = value_size v \<and> avail h = got @ avail h' \<and> (\<not> from_ssl \<longrightarrow> shut' = shut) \<and>
       take (length got) (vbytes (ring_memory r') v) = got \<and>
       (stop \<longrightarrow> short_read L from_ssl h') \<and> (\<not> stop \<longrightarrow> value_size v' = 0) \<and>
       (\<forall>j. j \<notin> set (addresses v) \<longrightarrow> ring_memory r' j = ring_memory r j))"
  using assms(2-)
proof (induction v arbitrary: h r)
  case (Cons p v)
  obtain k bs h1 where read: "read_handle L from_ssl h (part_size p) = (k, bs, h1)" by (metis prod.exhaust)
  have rest: "inside (ring_capacity r) v" "separated v" "value_size v < 2 ^ 64"
    "\<forall>q\<in>set v. extent p \<inter> extent q = {}" "part_size p < 2 ^ 64"
    using Cons.prems by (auto simp: inside_def)
  consider (empty) "part_size p = 0" | (stop) "0 < part_size p" "\<not> k > 0" | (got) "0 < part_size p" "k > 0" by blast
  then show ?case
  proof cases
    case empty
    then show ?thesis using Cons.IH [OF Cons.prems(1) rest(1-3), of h] by (auto simp: ssl_read_failure_def)
  next
    case stop
    have "short_read L from_ssl h1" using stop read by (auto simp: short_read_def intro!: exI [of _ h] exI [of _ "part_size p"])
    moreover have "avail h1 = avail h" by (rule source_okD(2) [OF assms(1) stop(1) read stop(2)])
    moreover have "(from_ssl \<and> pump_parts L from_ssl h r (p # v) shut = Inl ssl_read_failure) \<or>
        (\<exists>shut'. pump_parts L from_ssl h r (p # v) shut = Inr (True, h1, r, p # v, shut') \<and> (\<not> from_ssl \<longrightarrow> shut' = shut))"
      using stop read by (simp add: Let_def exaret_def exret_def exerror_allocate_def ssl_read_failure_def)
    ultimately show ?thesis using Cons.prems(1) by auto
  next
    case got
    note B = source_okD(1) [OF assms(1) got(1) read got(2)]
    have ins: "inside (ring_capacity r) [p\<lparr>part_size := nat k\<rparr>]"
      "separated [p\<lparr>part_size := nat k\<rparr>]" "value_size [p\<lparr>part_size := nat k\<rparr>] \<le> length bs"
      using Cons.prems(2) B by (auto simp: inside_def extent_def)
    from ring_write_inside [OF Cons.prems(1) ins] obtain r1 where r1:
      "ring_write r [p\<lparr>part_size := nat k\<rparr>] bs = Inr r1" "ring_inv r1" "ring_size r1 = ring_size r"
      "ring_capacity r1 = ring_capacity r" "ring_begin r1 = ring_begin r"
      "pbytes (ring_memory r1) (p\<lparr>part_size := nat k\<rparr>) = bs"
      "\<forall>j. j \<notin> set (addresses [p\<lparr>part_size := nat k\<rparr>]) \<longrightarrow> ring_memory r1 j = ring_memory r j"
      using B by auto
    have kp: "nat k \<le> part_size p" using B by simp
    have pre: "take (nat k) (pbytes (ring_memory r1) p) = bs" using r1(6) kp pbytes_prefix by metis
    have out: "\<forall>j. j \<notin> set (addresses (p # v)) \<longrightarrow> ring_memory r1 j = ring_memory r j"
      using r1(7) kp by auto
    have sub: "size_sub (part_size p) (nat k) = part_size p - nat k" using kp rest(5) by simp
    show ?thesis
    proof (cases "nat k < part_size p")
      case True
      have run: "pump_parts L from_ssl h r (p # v) shut =
          Inr (True, h1, r1, \<lparr>part_p = part_p p + nat k, part_size = part_size p - nat k\<rparr> # v, shut)"
        using True got read r1(1) sub by (simp add: Let_def)
      have "take (length bs) (vbytes (ring_memory r1) (p # v)) = bs" using pre True B by simp
      moreover have "short_read L from_ssl h1" using True got read
        by (auto simp: short_read_def intro!: exI [of _ h] exI [of _ "part_size p"])
      ultimately show ?thesis using run r1(2-5) out B True
        by (intro disjI2 exI [of _ True] exI [of _ h1] exI [of _ r1]) (auto intro!: exI [of _ bs])
    next
      case False
      then have all: "nat k = part_size p" using kp by simp
      have step: "pump_parts L from_ssl h r (p # v) shut = expret (pump_parts L from_ssl h1 r1 v shut)
            (\<lambda>(stop, h, r, v', shut). Inr (stop, h, r, \<lparr>part_p = part_p p + nat k, part_size = 0\<rparr> # v', shut))"
        using got read r1(1) sub all by (simp add: Let_def)
      have ins1: "inside (ring_capacity r1) v" using rest(1) r1(4) by simp
      from Cons.IH [OF r1(2) ins1 rest(2,3), of h1] consider
        (fail) "from_ssl" "pump_parts L from_ssl h1 r1 v shut = Inl ssl_read_failure"
        | (ok) stop h' r' v' shut' got where
        "pump_parts L from_ssl h1 r1 v shut = Inr (stop, h', r', v', shut')" "ring_inv r'"
        "ring_size r' = ring_size r1" "ring_capacity r' = ring_capacity r1" "ring_begin r' = ring_begin r1"
        "value_size v' + length got = value_size v" "avail h1 = got @ avail h'" "\<not> from_ssl \<longrightarrow> shut' = shut"
        "take (length got) (vbytes (ring_memory r') v) = got"
        "stop \<longrightarrow> short_read L from_ssl h'" "\<not> stop \<longrightarrow> value_size v' = 0"
        "\<forall>j. j \<notin> set (addresses v) \<longrightarrow> ring_memory r' j = ring_memory r1 j"
        by blast
      then show ?thesis
      proof cases
        case fail
        then show ?thesis using step by (simp add: ssl_read_failure_def)
      next
        case ok
        have pb: "pbytes (ring_memory r') p = bs" using pbytes_frame [OF ok(12) rest(4)] pre all by simp
        have len: "length bs = part_size p" using B all by simp
        have "take (length (bs @ got)) (vbytes (ring_memory r') (p # v)) = bs @ got"
          using ok(9) by (simp add: pb len)
        moreover have "\<forall>j. j \<notin> set (addresses (p # v)) \<longrightarrow> ring_memory r' j = ring_memory r j" using ok(12) out by simp
        moreover have "value_size (\<lparr>part_p = part_p p + nat k, part_size = 0\<rparr> # v') + length (bs @ got) = value_size (p # v)"
          using ok(6) len by simp
        ultimately show ?thesis using step ok(1-5,7,8,10,11) r1(3-5) B
          by (intro disjI2 exI [of _ stop] exI [of _ h'] exI [of _ r']) (auto intro!: exI [of _ "bs @ got"])
      qed
    qed
  qed
next
  case Nil
  then show ?case by (intro disjI2 exI [of _ False]) (auto intro!: exI [of _ "[]"])
qed

text \<open>One turn of the outer loop on a ring with room.\<close>

lemma pump_turn:
  assumes "source_ok L from_ssl avail" and "ring_inv r" and "ring_size r + n \<le> ring_capacity r" and "n < 2 ^ 64"
  obtains r1 v where "ring_push_get r n = Inr (r1, v)" "from_ssl" "pump_parts L from_ssl h r1 v shut = Inl ssl_read_failure"
  | r1 v stop h' r2 v' shut' got where "ring_push_get r n = Inr (r1, v)"
    "pump_parts L from_ssl h r1 v shut = Inr (stop, h', r2, v', shut')"
    "ring_inv r2" "value_size v' \<le> ring_size r2" "ring_size r2 = ring_size r + n"
    "value_size v' + length got = n" "avail h = got @ avail h'" "\<not> from_ssl \<longrightarrow> shut' = shut"
    "take (ring_size r2 - value_size v') (ring_bytes r2) = ring_bytes r @ got"
    "stop \<Longrightarrow> short_read L from_ssl h'" "\<not> stop \<Longrightarrow> value_size v' = 0"
proof -
  let ?r = "r\<lparr>ring_size := ring_size r + n\<rparr>"
  have inv: "ring_inv ?r" using ring_push_ok [OF assms(2,3)] by simp
  from ring_push_get_ok [OF assms(2,3)] obtain v where v: "ring_push_get r n = Inr (?r, v)"
    "ring_value_ok ?r v" "value_size v = n" "addresses v = drop (ring_size r) (ring_index ?r)" by blast
  have vr: "inside (ring_capacity ?r) v" "separated v" "value_size v < 2 ^ 64"
    using v(2,3) assms(4) by (auto simp: ring_value_ok_def)
  from pump_parts_ok [OF assms(1) inv vr, of h shut] show thesis
  proof (elim disjE exE conjE, goal_cases)
    case 1
    then show ?case using that(1) [OF v(1)] by simp
  next
    case (2 stop h' r2 v' shut' got)
    have index: "ring_index r2 = ring_index r @ addresses v"
      using ring_index_pushed [of r n] append_take_drop_id [of "ring_size r" "ring_index ?r"] v(4) 2(3-5)
      by (simp add: ring_index_def)
    have "distinct (ring_index r @ addresses v)" using distinct_ring_index [OF 2(2)] index by simp
    then have "map (ring_memory r2) (ring_index r) = map (ring_memory ?r) (ring_index r)"
      using 2(12) by (auto simp: disjoint_iff)
    then have bytes: "ring_bytes r2 = ring_bytes r @ vbytes (ring_memory r2) v"
      by (simp add: ring_bytes_def index vbytes_addresses) (simp add: ring_memory_def)
    have len: "length (ring_bytes r) = ring_size r" using length_ring_bytes [OF assms(2)] .
    have sizes: "ring_size r2 - value_size v' = ring_size r + length got" "value_size v' \<le> ring_size r2" "ring_size r2 = ring_size r + n"
      "value_size v' + length got = n"
      using 2(3,6) v(3) by simp_all
    have taken: "take (ring_size r2 - value_size v') (ring_bytes r2) = ring_bytes r @ got"
      unfolding sizes(1) by (simp add: bytes len 2(9))
    show ?case
      by (rule that(2) [OF v(1) 2(1,2) sizes(2-4) 2(7,8) taken]) (use 2(10,11) in auto)
  qed
qed

text \<open>
  The pump ends, because every turn that goes on has moved a whole reserve; what it moves is a prefix of what can
  be read, and it stops after a short read.
\<close>

lemma pump_loop_ok:
  assumes "source_ok L from_ssl avail" and "realloc_ok realloc" and "ring_inv r" and "ring_size r + length (avail h) + MIN_AVAILABLE_REQUEST_STREAM \<le> 2 ^ 63"
  shows "(\<exists>e. pump_loop realloc L from_ssl g h r shut = Some (Inl e) \<and>
       (e = \<lparr>ex_error = Failed ''new_p != NULL'', ex_flags = EEF_CLOSE_LOG\<rparr> \<or> from_ssl \<and> e = ssl_read_failure)) \<or>
    (\<exists>g' h' r' shut' got. pump_loop realloc L from_ssl g h r shut = Some (Inr (g', h', r', shut')) \<and> ring_inv r' \<and>
       ring_bytes r' = ring_bytes r @ got \<and> avail h = got @ avail h' \<and> short_read L from_ssl h' \<and> (\<not> from_ssl \<longrightarrow> shut' = shut))"
  using assms(3,4)
proof (induction "length (avail h)" arbitrary: g h r shut rule: less_induct)
  case less
  let ?n = MIN_AVAILABLE_REQUEST_STREAM
  have n: "?n < 2 ^ 64" "0 < ?n" by (simp_all add: constants)
  have add: "size_add (ring_size r) ?n = ring_size r + ?n" and cap: "ring_size r + ?n \<le> 2 ^ 63" using less.prems by simp_all
  define rest where "rest = (\<lambda>q g'. case ring_push_get q ?n of
            Inl e \<Rightarrow> Some (Inl (exerror_append_extend e EEF_CLOSE_LOG_DIE))
          | Inr (r, value) \<Rightarrow>
             (case pump_parts L from_ssl h r value shut of
                Inl e \<Rightarrow> Some (Inl e)
              | Inr (stop, h, r, value, shut) \<Rightarrow>
                  if stop
                  then Some (expretf (ring_unpush r (value_size value)) EEF_CLOSE_LOG_DIE (\<lambda>r. Inr (g', h, r, shut)))
                  else pump_loop realloc L from_ssl g' h r shut))"
  have turn: "(\<exists>e. rest q g' = Some (Inl e) \<and>
       (e = \<lparr>ex_error = Failed ''new_p != NULL'', ex_flags = EEF_CLOSE_LOG\<rparr> \<or> from_ssl \<and> e = ssl_read_failure)) \<or>
    (\<exists>g1 h' r' shut' got. rest q g' = Some (Inr (g1, h', r', shut')) \<and> ring_inv r' \<and>
       ring_bytes r' = ring_bytes r @ got \<and> avail h = got @ avail h' \<and> short_read L from_ssl h' \<and> (\<not> from_ssl \<longrightarrow> shut' = shut))"
    if q: "ring_inv q" "ring_bytes q = ring_bytes r" "ring_size q = ring_size r" "ring_size r + ?n \<le> ring_capacity q" for q g'
  proof (rule pump_turn [OF assms(1) q(1) _ n(1), of h shut])
    fix r1 v assume "ring_push_get q ?n = Inr (r1, v)" "from_ssl" "pump_parts L from_ssl h r1 v shut = Inl ssl_read_failure"
    then show ?thesis by (simp add: rest_def)
  next
    fix r1 v stop h' r2 v' shut' got
    assume t: "ring_push_get q ?n = Inr (r1, v)" "pump_parts L from_ssl h r1 v shut = Inr (stop, h', r2, v', shut')"
      "ring_inv r2" "value_size v' \<le> ring_size r2" "ring_size r2 = ring_size q + ?n" "value_size v' + length got = ?n"
      "avail h = got @ avail h'" "\<not> from_ssl \<longrightarrow> shut' = shut"
      "take (ring_size r2 - value_size v') (ring_bytes r2) = ring_bytes q @ got"
      "stop \<Longrightarrow> short_read L from_ssl h'" "\<not> stop \<Longrightarrow> value_size v' = 0"
    show ?thesis
    proof (cases stop)
      case True
      from ring_unpush_ok [OF t(3,4)] obtain r3 where r3: "ring_unpush r2 (value_size v') = Inr r3" "ring_inv r3"
        "ring_bytes r3 = take (ring_size r2 - value_size v') (ring_bytes r2)" by blast
      then show ?thesis using True t(1,2,7-9) t(10) [OF True] q(2) by (simp add: rest_def)
    next
      case False
      have g: "length got = ?n" using t(6) t(11) [OF False] by simp
      have b: "ring_bytes r2 = ring_bytes r @ got"
        using t(9) t(11) [OF False] q(2) length_ring_bytes [OF t(3)] by simp
      have less': "length (avail h') < length (avail h)" using t(7) g n(2) by simp
      have room: "ring_size r2 + length (avail h') + ?n \<le> 2 ^ 63" using t(5,7) q(3) less.prems(2) g by simp
      have "rest q g' = pump_loop realloc L from_ssl g' h' r2 shut'" using t(1,2) False by (simp add: rest_def)
      then show ?thesis using less.hyps [OF less' t(3) room, of g' shut'] b t(7,8) by auto
    qed
  qed (use q in simp)
  have bound: "ring_size r + ?n \<le> 2 ^ 63" using cap .
  show ?case
  proof (rule ring_reserve_cases [OF less.prems(1) assms(2) bound, of g], goal_cases)
    case 1
    then have "pump_loop realloc L from_ssl g h r shut = rest r g" by (subst pump_loop.simps) (simp add: add rest_def)
    then show ?case using turn [of r g] less.prems(1) 1 by simp
  next
    case (2 nc)
    then show ?case by (subst (1) pump_loop.simps) (simp add: add exerror_append_extend_def)
  next
    case (3 r')
    then have "pump_loop realloc L from_ssl g h r shut = rest r' (size_add g (ring_capacity r' - ring_capacity r))"
      by (subst pump_loop.simps) (simp add: add rest_def)
    then show ?case using turn [of r' "size_add g (ring_capacity r' - ring_capacity r)"] 3 by simp
  qed
qed

section \<open>The pump empties a memory BIO\<close>

text \<open>A memory BIO as OpenSSL documents it: it hands out what was written to it, in order.\<close>

definition bio_ok :: "'s openssl \<Rightarrow> ('s \<Rightarrow> byte list) \<Rightarrow> bool" where
  "bio_ok L pending \<longleftrightarrow>
     (\<forall>h n. 0 < n \<longrightarrow> (case BIO_read L h n of (k, bytes, h') \<Rightarrow>
        if pending h = [] then k \<le> 0 \<and> pending h' = []
        else k = int (min n (length (pending h))) \<and> bytes = take n (pending h) \<and> pending h' = drop n (pending h)))"

lemma bio_okD:
  assumes "bio_ok L pending" and "0 < n" and "BIO_read L h n = (k, bytes, h')"
  shows "pending h = [] \<Longrightarrow> k \<le> 0 \<and> pending h' = []"
    and "pending h \<noteq> [] \<Longrightarrow> k = int (min n (length (pending h))) \<and> bytes = take n (pending h) \<and> pending h' = drop n (pending h)"
  using assms unfolding bio_ok_def by (auto dest!: spec [of _ h] spec [of _ n])

lemma bio_source:
  assumes "bio_ok L pending"
  shows "source_ok L False pending"
  unfolding source_ok_def
proof (intro allI impI)
  fix h n assume n: "(0::nat) < n"
  obtain k bytes h' where r: "BIO_read L h n = (k, bytes, h')" by (metis prod.exhaust)
  show "case read_handle L False h n of (k, bytes, h') \<Rightarrow>
      if k > 0 then nat k \<le> n \<and> length bytes = nat k \<and> pending h = bytes @ pending h' else pending h' = pending h"
    using bio_okD [OF assms n r] r n by (cases "pending h = []") auto
qed

lemma bio_short:
  assumes "bio_ok L pending" and "short_read L False h'"
  shows "pending h' = []"
proof -
  obtain h n k bytes where r: "0 < n" "BIO_read L h n = (k, bytes, h')" "k < int n"
    using assms(2) unfolding short_read_def by auto
  show ?thesis using bio_okD [OF assms(1) r(1,2)] r(3) by (cases "pending h = []") auto
qed

lemma pump_bio:
  assumes "bio_ok L pending" and "realloc_ok realloc" and "ring_inv r" and "ring_size r + length (pending h) + MIN_AVAILABLE_REQUEST_STREAM \<le> 2 ^ 63"
  obtains (fail) "cryptography_pump_to_ring realloc L False g h r = Inl \<lparr>ex_error = Failed ''new_p != NULL'', ex_flags = EEF_CLOSE_LOG\<rparr>"
  | (ok) g' h' r' where "cryptography_pump_to_ring realloc L False g h r = Inr (g', h', r', False)" "ring_inv r'"
      "ring_bytes r' = ring_bytes r @ pending h" "pending h' = []"
  using pump_loop_ok [OF bio_source [OF assms(1)] assms(2-4), of g False] bio_short [OF assms(1)]
  by (auto simp: cryptography_pump_to_ring_def)

section \<open>Overwriting a part of the contents\<close>

lemma ring_overwrite:
  assumes "ring_inv r" and "loc_offset l + loc_size l \<le> ring_size r" and "length p = loc_size l"
    and "pos = (if latest then ring_size r - loc_size l - loc_offset l else loc_offset l)"
  obtains v r' where "ring_get r l latest = Inr v" "ring_write r v p = Inr r'" "ring_inv r'" "ring_size r' = ring_size r"
    "ring_bytes r' = take pos (ring_bytes r) @ p @ drop (pos + loc_size l) (ring_bytes r)"
proof -
  from ring_get_ok [OF assms(1,2), of latest] obtain v where v: "ring_get r l latest = Inr v" "ring_value_ok r v"
    "value_size v = loc_size l" "addresses v = take (loc_size l) (drop pos (ring_index r))"
    unfolding assms(4) by blast
  from ring_write_ok [OF assms(1) v(2), of p] assms(3) v(3) obtain r' where r': "ring_write r v p = Inr r'" "ring_inv r'"
    "ring_size r' = ring_size r" "ring_capacity r' = ring_capacity r" "ring_begin r' = ring_begin r"
    "vbytes (ring_memory r') v = p" "\<forall>i. i \<notin> set (addresses v) \<longrightarrow> ring_memory r' i = ring_memory r i" by auto
  let ?ix = "ring_index r" and ?n = "loc_size l"
  have ix: "ring_index r' = ?ix" using r'(3-5) by (simp add: ring_index_def)
  have split: "?ix = take pos ?ix @ addresses v @ drop (pos + ?n) ?ix"
    by (simp add: v(4)) (metis append_take_drop_id add.commute drop_drop)
  have "distinct (take pos ?ix @ addresses v @ drop (pos + ?n) ?ix)"
    using distinct_ring_index [OF assms(1)] split by simp
  then have same: "map (ring_memory r') (take pos ?ix) = map (ring_memory r) (take pos ?ix)"
    "map (ring_memory r') (drop (pos + ?n) ?ix) = map (ring_memory r) (drop (pos + ?n) ?ix)"
    using r'(7) by (auto simp: disjoint_iff)
  have "ring_bytes r' = map (ring_memory r') (take pos ?ix @ addresses v @ drop (pos + ?n) ?ix)"
    by (simp add: ring_bytes_def ix flip: split)
  also have "\<dots> = take pos (ring_bytes r) @ p @ drop (pos + ?n) (ring_bytes r)"
    using r'(6) unfolding map_append same vbytes_addresses by (simp add: ring_bytes_def take_map drop_map)
  finally show thesis using that v(1) r'(1-3) by blast
qed

section \<open>Encrypting keeps the queue\<close>

lemma stream_size_field:
  "drop 8 (response_bytes r) = drop 8 (response_bytes (r\<lparr>rs_stream_size := n\<rparr>))"
  "response_bytes (r\<lparr>rs_stream_size := n\<rparr>) = le_bytes 8 n @ drop 8 (response_bytes r)"
  by (simp_all add: response_bytes_def)

text \<open>
  The queue ends with the new response: its stream size becomes the length of what the library wrote, which is
  appended to the response stream.
\<close>

lemma encrypt_cases:
  assumes "bio_ok L pending" and "realloc_ok realloc" and "ssl_write_parts L m h stream = Inr h1"
    and "ring_inv (response_stream c)" and "ring_size (response_stream c) + length (pending h1) + MIN_AVAILABLE_REQUEST_STREAM \<le> 2 ^ 63"
    and "ring_inv (response_queue c)" and "ring_bytes (response_queue c) = pre @ response_bytes r @ payload" and "length payload = rs_size r"
    and "rs_size r + sizeof_Response < 2 ^ 63"
  obtains (fail) "cryptography_encrypt realloc L g c h r m stream =
      Inl \<lparr>ex_error = Failed ''new_p != NULL'', ex_flags = EEF_CLOSE_LOG\<rparr>"
  | (ok) g' h' ring q where "cryptography_encrypt realloc L g c h r m stream = Inr (g',
      (let c = c\<lparr>response_stream := ring, response_queue := q\<rparr>
       in if response_count c = 0
          then c\<lparr>client_response := (client_response c)\<lparr>rs_stream_size := length (pending h1)\<rparr>\<rparr> else c), h')"
      "ring_inv ring" "ring_bytes ring = ring_bytes (response_stream c) @ pending h1" "ring_inv q"
      "ring_bytes q = pre @ response_bytes (r\<lparr>rs_stream_size := length (pending h1)\<rparr>) @ payload" "pending h' = []"
  using assms(1,2,4,5)
proof (rule pump_bio [where g = g])
  let ?fail = "\<lparr>ex_error = Failed ''new_p != NULL'', ex_flags = EEF_CLOSE_LOG\<rparr>"
  assume "cryptography_pump_to_ring realloc L False g h1 (response_stream c) = Inl ?fail"
  then show thesis by (intro fail) (simp add: cryptography_encrypt_def assms(3) exerror_append_def)
next
  fix g' h' ring
  assume p: "cryptography_pump_to_ring realloc L False g h1 (response_stream c) = Inr (g', h', ring, False)" "ring_inv ring"
    "ring_bytes ring = ring_bytes (response_stream c) @ pending h1" "pending h' = []"
  let ?q = "response_queue c" and ?n = "length (pending h1)"
  have sizes: "ring_size ring = ring_size (response_stream c) + ?n"
    using p(3) length_ring_bytes [OF p(2)] length_ring_bytes [OF assms(4)] by simp
  have sub: "size_sub (ring_size ring) (ring_size (response_stream c)) = ?n"
    using sizes assms(5) by simp
  have add: "size_add (rs_size r) 80 = rs_size r + 80" using assms(9) by (simp add: sizeof_Response_def)
  have qs: "ring_size ?q = length pre + sizeof_Response + rs_size r"
    using length_ring_bytes [OF assms(6)] assms(7,8) by simp
  let ?l = "\<lparr>loc_offset = rs_size r + 80, loc_size = 8\<rparr>"
  have fits: "loc_offset ?l + loc_size ?l \<le> ring_size ?q" using qs by (simp add: sizeof_Response_def)
  have len: "length (le_bytes 8 ?n) = loc_size ?l" by simp
  have pos: "length pre = (if True then ring_size ?q - loc_size ?l - loc_offset ?l else loc_offset ?l)"
    using qs by (simp add: sizeof_Response_def)
  show thesis
  proof (rule ring_overwrite [OF assms(6) fits len pos])
    fix v q assume w: "ring_get ?q ?l True = Inr v" "ring_write ?q v (le_bytes 8 ?n) = Inr q" "ring_inv q"
      "ring_bytes q = take (length pre) (ring_bytes ?q) @ le_bytes 8 ?n @ drop (length pre + loc_size ?l) (ring_bytes ?q)"
    have "ring_bytes q = pre @ response_bytes (r\<lparr>rs_stream_size := ?n\<rparr>) @ payload"
      using w(4) assms(7) by (simp add: stream_size_field(2) sizeof_Response_def)
    then show thesis using w(1-3) p by (intro ok [where g' = g' and ring = ring and q = q and h' = h'])
      (simp_all add: cryptography_encrypt_def assms(3) sub add sizeof_Response_def Let_def)
  qed
qed

section \<open>The books stay balanced\<close>

lemma queue_append:
  assumes "queue_holds c es" and "entry_ok (r, payload)" and "ring_inv q"
    and "ring_bytes q = ring_bytes (response_queue c) @ response_bytes r @ payload" and "length es < 2 ^ 63"
    and "c' = c\<lparr>response_queue := q, client_response := (if response_count c = 0 then r else client_response c),
      response_count := size_add (response_count c) 1\<rparr>"
  shows "queue_holds c' (es @ [(r, payload)])" and "outstanding c' (es @ [(r, payload)]) = outstanding c es @ [rs_stream_size r]"
proof -
  note H = assms(1) [unfolded queue_holds_def]
  have count: "size_add (response_count c) 1 = length es + 1" using H assms(5) by simp
  have bytes: "ring_bytes q = concat (map entry_bytes (es @ [(r, payload)]))" using H assms(4) by (simp add: entry_bytes_def)
  show "queue_holds c' (es @ [(r, payload)])"
  proof (cases "es = []")
    case True
    then have "client_response c' = (fst (hd (es @ [(r, payload)])))\<lparr>rs_stream_size := rs_stream_size r\<rparr>"
      using H assms(6) by simp
    then show ?thesis using H assms(2,3,6) bytes count unfolding queue_holds_def by auto
  next
    case False
    then show ?thesis using H assms(2,3,6) bytes count unfolding queue_holds_def by auto
  qed
  show "outstanding c' (es @ [(r, payload)]) = outstanding c es @ [rs_stream_size r]"
    using H assms(6) by (cases es) (simp_all add: outstanding_def)
qed

text \<open>The books of a client depend on four of its fields.\<close>

lemma send_inv_cong:
  assumes "response_stream c' = response_stream c" and "response_queue c' = response_queue c"
    and "client_response c' = client_response c" and "response_count c' = response_count c"
  shows "queue_holds c' es = queue_holds c es" and "outstanding c' es = outstanding c es"
    and "owed G i c' = owed G i c" and "send_inv G i c' es = send_inv G i c es"
proof -
  show q: "queue_holds c' es = queue_holds c es" using assms by (simp add: queue_holds_def)
  show o: "outstanding c' es = outstanding c es" using assms by (cases es) (simp_all add: outstanding_def)
  show w: "owed G i c' = owed G i c" using assms by (simp add: owed_def)
  show "send_inv G i c' es = send_inv G i c es" using assms by (simp add: send_inv_def q o w)
qed

lemma silent_entry_ok: "n < 2 ^ 64 \<Longrightarrow> entry_ok (silent_response n, [])"
  by (simp add: entry_ok_def silent_response_def zero_response_def response_fits_def location_fits_def zero_location_def)

text \<open>Only the output side of a client changes.\<close>

definition only_output :: "client \<Rightarrow> client \<Rightarrow> bool" where
  "only_output c c' \<longleftrightarrow>
     (\<exists>s q r n. c' = c\<lparr>response_stream := s, response_queue := q, client_response := r, response_count := n\<rparr>)"

lemma only_outputI:
  "c' = c\<lparr>response_stream := s, response_queue := q, client_response := r, response_count := n\<rparr> \<Longrightarrow> only_output c c'"
  unfolding only_output_def by blast

lemma only_output_fields:
  assumes "only_output c c'"
  shows "accepting_socket c' = accepting_socket c" "dead c' = dead c" "request_stream c' = request_stream c"
    "client_parser c' = client_parser c" "client_request c' = client_request c" "ssl c' = ssl c"
    "cryptography_state c' = cryptography_state c"
  using assms by (auto simp: only_output_def)

definition silent_entries :: "nat \<Rightarrow> entry list" where
  "silent_entries n = (if n = 0 then [] else [(silent_response n, [])])"

lemma create_silent_cases:
  assumes "queue_holds c es" and "realloc_ok realloc" and "ring_size (response_queue c) + sizeof_Response \<le> 2 ^ 63"
    and "length es < 2 ^ 63" and "n < 2 ^ 64"
  obtains (fail) "cryptography_create_silent_response realloc g c n = Inl \<lparr>ex_error = Failed ''new_p != NULL'', ex_flags = EEF_CLOSE_LOG\<rparr>"
  | (ok) g' c' where "cryptography_create_silent_response realloc g c n = Inr (g', c')" "queue_holds c' (es @ silent_entries n)"
      "outstanding c' (es @ silent_entries n) = outstanding c es @ (if n = 0 then [] else [n])"
      "response_stream c' = response_stream c" "only_output c c'"
proof (cases "n = 0")
  case True
  have "only_output c c"
    by (rule only_outputI [where s = "response_stream c" and q = "response_queue c" and r = "client_response c" and n = "response_count c"]) simp
  then show ?thesis using True assms(1) by (intro ok [of g c]) (simp_all add: cryptography_create_silent_response_def silent_entries_def)
next
  case False
  note H = assms(1) [unfolded queue_holds_def]
  have inv: "ring_inv (response_queue c)" using H by simp
  have add: "size_add (ring_size (response_queue c)) sizeof_Response = ring_size (response_queue c) + sizeof_Response"
    using assms(3) by simp
  have push: ?thesis
    if reserve: "ring_reserve realloc g (response_queue c) (ring_size (response_queue c) + sizeof_Response) = Inr (g', q)"
      "ring_inv q" "ring_bytes q = ring_bytes (response_queue c)" "ring_size q + sizeof_Response \<le> ring_capacity q" for g' q
  proof -
    have "sizeof_Response \<le> length (response_bytes (silent_response n))" by simp
    from ring_push_write_ok [OF reserve(2,4) this] obtain q2 where q2:
      "ring_push_write q sizeof_Response (response_bytes (silent_response n)) = Inr q2" "ring_inv q2"
      "ring_bytes q2 = ring_bytes (response_queue c) @ response_bytes (silent_response n) @ []" using reserve(3) by auto
    define c' where "c' = c\<lparr>response_queue := q2, client_response := (if response_count c = 0 then silent_response n else client_response c),
      response_count := size_add (response_count c) 1\<rparr>"
    have run: "cryptography_create_silent_response realloc g c n = Inr (g', c')"
      using False reserve(1) q2(1) unfolding cryptography_create_silent_response_def add by (simp add: Let_def c'_def)
    have stream: "rs_stream_size (silent_response n) = n" by (simp add: silent_response_def)
    have "only_output c c'"
      by (rule only_outputI [where s = "response_stream c" and q = q2 and r = "client_response c'" and n = "response_count c'"]) (simp add: c'_def)
    then show ?thesis using queue_append [OF assms(1) silent_entry_ok [OF assms(5)] q2(2,3) assms(4) c'_def] False stream
      by (intro ok [OF run]) (simp_all add: silent_entries_def c'_def)
  qed
  show ?thesis
  proof (rule ring_reserve_cases [OF inv assms(2,3), of g], goal_cases)
    case 1
    then show ?case using push inv by simp
  next
    case (2 nc)
    then show ?case using False by (intro fail) (simp add: cryptography_create_silent_response_def add Let_def exerror_append_extend_def)
  next
    case (3 q)
    then show ?case using push [of _ q] by simp
  qed
qed

lemma owed_stream:
  "response_stream c' = s \<Longrightarrow> ring_bytes s = ring_bytes (response_stream c) @ bs \<Longrightarrow> owed G i c' = owed G i c @ bs"
  by (simp add: owed_def)

text \<open>What the library has written is owed to the client, and accounted for.\<close>

lemma flush_silently_ok:
  assumes "bio_ok L pending" and "realloc_ok realloc" and "send_inv G i c es"
    and "length (owed G i c) + length (pending h) + MIN_AVAILABLE_REQUEST_STREAM \<le> 2 ^ 63"
    and "ring_size (response_queue c) + sizeof_Response \<le> 2 ^ 63" and "length es < 2 ^ 63"
  shows "case flush_silently realloc L g c h of
      Inl e \<Rightarrow> e = \<lparr>ex_error = Failed ''new_p != NULL'', ex_flags = EEF_CLOSE_LOG\<rparr>
    | Inr (g', c', h') \<Rightarrow> pending h' = [] \<and> owed G i c' = owed G i c @ pending h \<and> only_output c c' \<and>
        send_inv G i c' (es @ silent_entries (length (pending h)))"
proof -
  note I = assms(3) [unfolded send_inv_def]
  have inv: "ring_inv (response_stream c)" using I by simp
  have le: "ring_size (response_stream c) \<le> length (owed G i c)" using length_ring_bytes [OF inv] by (simp add: owed_def)
  have room: "ring_size (response_stream c) + length (pending h) + MIN_AVAILABLE_REQUEST_STREAM \<le> 2 ^ 63"
    using assms(4) le by simp
  show ?thesis
  proof (rule pump_bio [OF assms(1,2) inv room, of g], goal_cases)
    case 1
    then show ?case by (simp add: flush_silently_def exerror_append_def)
  next
    case (2 g' h' r')
    let ?n = "length (pending h)" and ?c = "c\<lparr>response_stream := r'\<rparr>"
    have size: "ring_size r' = ring_size (response_stream c) + ?n"
      using 2(3) length_ring_bytes [OF 2(2)] length_ring_bytes [OF inv] by simp
    have sub: "size_sub (ring_size r') (ring_size (response_stream c)) = ?n" using size room by simp
    have n: "?n < 2 ^ 64" using assms(4) by simp
    have Q: "queue_holds ?c es" "ring_size (response_queue ?c) + sizeof_Response \<le> 2 ^ 63" using I assms(5) by simp_all
    show ?case
    proof (rule create_silent_cases [OF Q(1) assms(2) Q(2) assms(6) n, of g'], goal_cases)
      case 1
      then show ?case using 2 by (simp add: flush_silently_def Let_def sub exerror_append_def)
    next
      case (2 g2 c2)
      have run: "flush_silently realloc L g c h = Inr (g2, c2, h')"
        using \<open>cryptography_pump_to_ring realloc L False g h (response_stream c) = Inr (g', h', r', False)\<close> 2(1)
        by (simp add: flush_silently_def Let_def sub)
      have stream: "response_stream c2 = r'" using 2(4) by simp
      have owed: "owed G i c2 = owed G i c @ pending h"
        by (rule owed_stream [OF stream \<open>ring_bytes r' = ring_bytes (response_stream c) @ pending h\<close>])
      have out: "sum_list (outstanding c2 (es @ silent_entries ?n)) = sum_list (outstanding c es) + ?n"
        using 2(3) by (auto simp: outstanding_def split: list.splits)
      obtain s q r k where c2: "c2 = ?c\<lparr>response_stream := s, response_queue := q, client_response := r, response_count := k\<rparr>"
        using 2(5) unfolding only_output_def by blast
      have "only_output c c2" by (rule only_outputI [where s = s and q = q and r = r and n = k]) (simp add: c2)
      moreover have "length (silent_entries ?n) \<le> 1" by (simp add: silent_entries_def)
      ultimately show ?case using run owed out 2(2) \<open>ring_inv r'\<close> \<open>pending h' = []\<close> I assms(4,6) stream
        by (simp add: send_inv_def)
    qed
  qed
qed

section \<open>What can be wrong\<close>

text \<open>
  \<^verbatim>\<open>SSL_read\<close> returns at most one record of the protocol. A record that does not fill the room makes the pump stop,
  whatever else could be read.
\<close>

lemma pump_stops_after_record:
  assumes "SSL_read L h MIN_AVAILABLE_REQUEST_STREAM = (int (length rec), rec, h')"
    and "0 < length rec" and "length rec < MIN_AVAILABLE_REQUEST_STREAM"
    and "ring_inv r" and "ring_size r = 0" and "ring_begin r = 0" and "MIN_AVAILABLE_REQUEST_STREAM \<le> ring_capacity r"
  shows "\<exists>r'. cryptography_pump_to_ring realloc L True g h r = Inr (g, h', r', False) \<and> ring_bytes r' = rec"
proof -
  let ?n = MIN_AVAILABLE_REQUEST_STREAM
  note D = ring_invD [OF assms(4)]
  have n: "?n < 2 ^ 64" "0 < ?n" by (simp_all add: constants)
  have reserve: "ring_reserve realloc g r ?n = Inr (g, r)"
    using assms(7) n(2) by (simp add: ring_reserve_def grow.simps [of ?n] start_capacity_def)
  let ?r = "r\<lparr>ring_size := ?n\<rparr>" and ?p = "\<lparr>part_p = 0, part_size = ?n\<rparr>"
  have push: "ring_push_get r ?n = Inr (?r, [?p, zero_part])"
    using assms(5-7) n D by (simp add: ring_push_get_def ring_push_def ring_get_def aret_def Let_def)
  have inv: "ring_inv ?r" using ring_push_ok [OF assms(4), of ?n] assms(5,7) by simp
  have "inside (ring_capacity ?r) [\<lparr>part_p = 0, part_size = length rec\<rparr>]" "separated [\<lparr>part_p = 0, part_size = length rec\<rparr>]"
    "value_size [\<lparr>part_p = 0, part_size = length rec\<rparr>] \<le> length rec"
    using assms(3,7) by (auto simp: inside_def extent_def)
  from ring_write_inside [OF inv this] obtain r1 where r1: "ring_write ?r [\<lparr>part_p = 0, part_size = length rec\<rparr>] rec = Inr r1"
    "ring_inv r1" "ring_size r1 = ?n" "ring_capacity r1 = ring_capacity r" "ring_begin r1 = 0"
    "pbytes (ring_memory r1) \<lparr>part_p = 0, part_size = length rec\<rparr> = rec" using assms(6) by auto
  have sub: "size_sub ?n (length rec) = ?n - length rec" using assms(3) n(1) by simp
  let ?v = "[\<lparr>part_p = length rec, part_size = ?n - length rec\<rparr>, zero_part]"
  have parts: "pump_parts L True h ?r [?p, zero_part] False = Inr (True, h', r1, ?v, False)"
    using assms(1-3) n(2) r1(1) sub by (simp add: Let_def)
  have left: "value_size ?v = ?n - length rec" by (simp add: zero_part_def)
  have z: "part_size zero_part = 0" "size_add 0 ?n = ?n" by (simp_all add: zero_part_def constants)
  have "?n - length rec \<le> ring_size r1" by (simp add: r1(3))
  from ring_unpush_ok [OF r1(2) this] obtain r2 where r2: "ring_unpush r1 (?n - length rec) = Inr r2"
    "ring_bytes r2 = take (?n - (?n - length rec)) (ring_bytes r1)" unfolding r1(3) by blast
  have "ring_index r1 = [0..<?n]" using r1(3-5) assms(7) by (simp add: ring_index_def take_upt)
  then have "take (length rec) (ring_bytes r1) = map (ring_memory r1) [0..<length rec]"
    using assms(3) by (simp add: ring_bytes_def take_map take_upt)
  also have "\<dots> = rec" using r1(6) by (simp add: pbytes_def)
  finally have "ring_bytes r2 = rec" using r2(2) assms(3) by simp
  moreover have "pump_loop realloc L True g h r False = Some (Inr (g, h', r2, False))"
    using r2(1) by (subst pump_loop.simps) (simp add: assms(5) reserve push parts z del: pump_parts.simps)
  ultimately show ?thesis by (simp add: cryptography_pump_to_ring_def)
qed

lemma pump_no_memory: "cryptography_pump_to_ring (\<lambda>_ _. None) L from_ssl g h zero_ring = Inl \<lparr>ex_error = Failed ''new_p != NULL'', ex_flags = EEF_CLOSE_LOG\<rparr>"
proof -
  have size: "size_add (ring_size zero_ring) MIN_AVAILABLE_REQUEST_STREAM = MIN_AVAILABLE_REQUEST_STREAM"
    "MIN_AVAILABLE_REQUEST_STREAM \<le> 2 ^ 63" "realloc_ok (\<lambda>_ _. None)"
    by (simp_all add: zero_ring_def constants realloc_ok_def)
  have "ring_reserve (\<lambda>_ _. None) g zero_ring MIN_AVAILABLE_REQUEST_STREAM = Inl (Failed ''new_p != NULL'')"
  proof (rule ring_reserve_cases [OF ring_inv_zero size(3,2), of g], goal_cases)
    case 1
    then show ?case by (simp add: zero_ring_def constants)
  next
    case (3 r')
    then show ?case by (auto simp: ring_reserve_def count_realloc_def pret_def split: option.splits if_splits sum.splits prod.splits)
  qed
  then have "pump_loop (\<lambda>_ _. None) L from_ssl g h zero_ring False = Some (Inl \<lparr>ex_error = Failed ''new_p != NULL'', ex_flags = EEF_CLOSE_LOG\<rparr>)"
    by (subst pump_loop.simps) (simp add: size(1) exerror_append_extend_def)
  then show ?thesis by (simp add: cryptography_pump_to_ring_def)
qed

section \<open>Closing keeps the books\<close>

lemma cryptography_finalize_ok:
  assumes "bio_ok L pending" and "realloc_ok realloc" and "send_inv G i c es" and "SSL_shutdown L h = (code, h1)"
    and "length (owed G i c) + length (pending h1) + MIN_AVAILABLE_REQUEST_STREAM \<le> 2 ^ 63"
    and "ring_size (response_queue c) + sizeof_Response \<le> 2 ^ 63" and "length es < 2 ^ 63" and "cryptography_state c \<noteq> CS_SHUTDOWN"
  shows "case cryptography_finalize realloc L g c h of
      Inl e \<Rightarrow> ex_flags e = EEF_CLOSE_LOG \<and> (\<exists>m. ex_error e = Failed m)
    | Inr (g', c') \<Rightarrow> \<not> ssl c' \<and> cryptography_state c' = (if code > 0 then CS_SHUTDOWN else CS_PENDING_SHUTDOWN) \<and>
        owed G i c' = owed G i c @ pending h1 \<and> send_inv G i c' (es @ silent_entries (length (pending h1))) \<and>
        request_stream c' = request_stream c \<and> client_parser c' = client_parser c"
proof (cases "code < 0 \<and> \<not> wants (SSL_get_error L h1 code)")
  case True
  then show ?thesis using assms(4,8)
    by (simp add: cryptography_finalize_def shutdown_code_def exaret_def exret_def exerror_allocate_def exerror_append_def)
next
  case False
  define c1 where "c1 = (if code > 0 then c\<lparr>cryptography_state := CS_SHUTDOWN\<rparr> else c\<lparr>cryptography_state := CS_PENDING_SHUTDOWN\<rparr>)"
  have code: "shutdown_code L h = Inr (code, h1)" using False assms(4) by (auto simp: shutdown_code_def exaret_def)
  have run: "cryptography_finalize realloc L g c h = expret (flush_silently realloc L g c1 h1) (\<lambda>(g, c, h). Inr (g, c\<lparr>ssl := False\<rparr>))"
    using assms(8) by (auto simp: cryptography_finalize_def code c1_def Let_def)
  have same: "owed G i c1 = owed G i c" "response_queue c1 = response_queue c" "request_stream c1 = request_stream c"
    "client_parser c1 = client_parser c" "cryptography_state c1 = (if code > 0 then CS_SHUTDOWN else CS_PENDING_SHUTDOWN)"
    by (simp_all add: c1_def owed_def)
  have inv: "send_inv G i c1 es" using assms(3) by (subst send_inv_cong(4) [of _ c]) (simp_all add: c1_def)
  have close: "owed G i (c2\<lparr>ssl := False\<rparr>) = owed G i c2" "send_inv G i (c2\<lparr>ssl := False\<rparr>) es' = send_inv G i c2 es'" for c2 es'
    by (rule send_inv_cong; simp)+
  show ?thesis
    using flush_silently_ok [OF assms(1,2) inv, of h1 g] assms(5-7) unfolding run same(1,2)
    by (auto split: sum.splits simp: exerror_append_def close same dest: only_output_fields)
qed

section \<open>Properties\<close>

text \<open>
  C32: the pump from a memory BIO ends, moves exactly the bytes that are pending behind the ones the ring holds, and
  leaves nothing pending; only a failed allocation stops it. This holds whatever the ring's free part looks like,
  in particular when it wraps around and the pump has to fill two parts or to come back for another round.
\<close>

theorem pump_moves_everything:
  assumes "bio_ok L pending" and "realloc_ok realloc" and "ring_inv r"
    and "ring_size r + length (pending h) + MIN_AVAILABLE_REQUEST_STREAM \<le> 2 ^ 63"
  shows "case cryptography_pump_to_ring realloc L False g h r of
      Inl e \<Rightarrow> e = \<lparr>ex_error = Failed ''new_p != NULL'', ex_flags = EEF_CLOSE_LOG\<rparr>
    | Inr (g', h', r', connection_closed) \<Rightarrow> ring_inv r' \<and> ring_bytes r' = ring_bytes r @ pending h \<and> pending h' = [] \<and>
        \<not> connection_closed"
  by (rule pump_bio [OF assms, of g]) simp_all


text \<open>
  C35: when the first flight of bytes cannot be stored, both BIOs are freed twice: once by \<^verbatim>\<open>SSL_free\<close>, which owns
  them after \<^verbatim>\<open>SSL_set_bio\<close>, and once by the handler of the failure itself.
\<close>

theorem initialize_frees_twice:
  assumes "BIO_new L 0" and "BIO_new L 1" and "SSL_new L = Some h" and "response_stream c = zero_ring"
  shows "\<exists>e. cryptography_initialize (\<lambda>_ _. None) L g c = Inl (e, [The_SSL, The_read_bio, The_write_bio, The_read_bio, The_write_bio])"
  using assms(1,2) by (simp add: cryptography_initialize_def assms(3,4) pump_no_memory freed_on_failure_def)

text \<open>
  C33: closing keeps the books. What the library still had to write (the close notification) is appended to what the
  client is owed, one silent response accounts for it unless it is empty, and the client no longer uses
  cryptography.
\<close>

theorem cryptography_finalize_balanced:
  assumes "bio_ok L pending" and "realloc_ok realloc" and "send_inv G i c es" and "SSL_shutdown L h = (code, h1)"
    and "length (owed G i c) + length (pending h1) + MIN_AVAILABLE_REQUEST_STREAM \<le> 2 ^ 63"
    and "ring_size (response_queue c) + sizeof_Response \<le> 2 ^ 63" and "length es < 2 ^ 63" and "cryptography_state c \<noteq> CS_SHUTDOWN"
  shows "case cryptography_finalize realloc L g c h of
      Inl e \<Rightarrow> ex_flags e = EEF_CLOSE_LOG \<and> (\<exists>m. ex_error e = Failed m)
    | Inr (g', c') \<Rightarrow> \<not> ssl c' \<and> owed G i c' = owed G i c @ pending h1 \<and>
        send_inv G i c' (es @ silent_entries (length (pending h1)))"
  using cryptography_finalize_ok [OF assms, of g] by (auto split: sum.splits)

section \<open>Witnesses\<close>

text \<open>
  A library whose handle is the records that were decrypted and the bytes that wait to be sent: reading takes one
  record, closing writes the notification.
\<close>

type_synonym sample_handle = "byte list list \<times> byte list"

definition sample_openssl :: "sample_handle openssl" where
  "sample_openssl = \<lparr>BIO_new = (\<lambda>_. True), SSL_new = Some ([], []), SSL_accept = (\<lambda>h. (1, h)),
     SSL_read = (\<lambda>(rs, out) n. case rs of [] \<Rightarrow> (- 1, [], (rs, out))
        | b # rs' \<Rightarrow> (int (min n (length b)), take n b, (if length b \<le> n then rs' else drop n b # rs', out))),
     SSL_write = (\<lambda>(rs, out) b. (int (length b), (rs, out @ b))), SSL_shutdown = (\<lambda>(rs, out). (0, (rs, out @ ''bye''))),
     SSL_get_error = (\<lambda>_ _. SSL_ERROR_WANT_READ),
     BIO_read = (\<lambda>(rs, out) n. if out = [] then (- 1, [], (rs, out)) else (int (min n (length out)), take n out, (rs, drop n out))),
     BIO_write = (\<lambda>(rs, out) b. (int (length b), (rs @ [b], out)))\<rparr>"

lemma sample_bio_ok: "bio_ok sample_openssl snd"
  by (auto simp: bio_ok_def sample_openssl_def split: prod.splits)

definition record_ring :: ring where
  "record_ring = \<lparr>ring_p = Some (replicate 4096 NUL), ring_size = 0, ring_capacity = 4096, ring_begin = 0\<rparr>"

lemma record_ring_inv: "ring_inv record_ring"
proof -
  have "capacity_ok (2 ^ 12)" by (rule capacity_ok_power) simp
  then show ?thesis by (simp add: ring_inv_def record_ring_def ring_block_def)
qed

lemma pump_moves_everything_witness:
  "case cryptography_pump_to_ring realloc_zero sample_openssl False 0 ([], ''hello'') zero_ring of
      Inl e \<Rightarrow> ex_error e = Failed ''new_p != NULL''
    | Inr (g', h', r', connection_closed) \<Rightarrow> ring_bytes r' = ''hello'' \<and> snd h' = []"
  using pump_moves_everything [OF sample_bio_ok realloc_ok_zero ring_inv_zero, of "([], ''hello'')" 0] ring_bytes_zero
  by (auto simp: zero_ring_def constants split: sum.splits)

definition tls_client :: client where
  "tls_client = zero_client\<lparr>request_stream := record_ring, cryptography_state := CS_OPERATIONAL\<rparr>"


lemma initialize_frees_twice_witness:
  "\<exists>e. cryptography_initialize (\<lambda>_ _. None) sample_openssl 0 zero_client =
      Inl (e, [The_SSL, The_read_bio, The_write_bio, The_read_bio, The_write_bio])"
  by (rule initialize_frees_twice [where h = "([], [])"]) (simp_all add: sample_openssl_def zero_client_def)

lemma cryptography_finalize_balanced_witness:
  "case cryptography_finalize realloc_zero sample_openssl 0 zero_client ([], ''data'') of
      Inl e \<Rightarrow> ex_flags e = EEF_CLOSE_LOG
    | Inr (g', c') \<Rightarrow> \<not> ssl c' \<and> owed idle_globals 0 c' = ''databye'' \<and>
        send_inv idle_globals 0 c' [(silent_response (length ''databye''), [])]"
proof -
  have shutdown: "SSL_shutdown sample_openssl ([], ''data'') = (0, ([], ''databye''))" by (simp add: sample_openssl_def)
  have start: "owed idle_globals 0 zero_client = []" "cryptography_state zero_client \<noteq> CS_SHUTDOWN" "ring_size (response_queue zero_client) = 0"
    using ring_bytes_zero by (simp_all add: owed_def idle_globals_def zero_client_def zero_ring_def)
  show ?thesis
    using cryptography_finalize_balanced [OF sample_bio_ok realloc_ok_zero zero_client_sends [of 0] shutdown _ _ _ start(2), of 0]
    by (auto simp: start(1,3) silent_entries_def constants sizeof_Response_def split: sum.splits)
qed

end
