(* ===== verification/TS_Unicode.thy ===== *)
theory TS_Unicode
  imports TS_Memory
begin

text \<open>
  \<^verbatim>\<open>string_internal_to_wstring\<close> and \<^verbatim>\<open>string_internal_to_nstring\<close>
  (\<^verbatim>\<open>commonlib/source/string.c\<close>): from UTF-8 to wide characters and back. A wide character is
  the number it is as \<^verbatim>\<open>unsigned int\<close>; the argument \<open>wide\<close> stands for
  \<^verbatim>\<open>sizeof(wchar_t) > 2\<close>, true on Linux (UTF-32) and false on Windows (UTF-16).
  \<^verbatim>\<open>char\<close> is signed, but the masks discard the bits that its conversion to
  \<^verbatim>\<open>unsigned int\<close> adds.
\<close>

unbundle bit_operations_syntax

section \<open>The code\<close>

text \<open>\<^verbatim>\<open>SOFT_ARET\<close> and \<^verbatim>\<open>SOFT_RET\<close>: a new error, or \<^verbatim>\<open>PANIC\<close> when errors are suppressed.\<close>

definition soft_ret :: "bool \<Rightarrow> string \<Rightarrow> 'a result" where
  "soft_ret suppress_errors m = Inl (Failed (if suppress_errors then ''PANIC'' else m))"

definition soft_aret :: "bool \<Rightarrow> bool \<Rightarrow> string \<Rightarrow> 'a result \<Rightarrow> 'a result" where
  "soft_aret suppress_errors b m k = (if b then k else soft_ret suppress_errors m)"

lemma soft_aret_simps [simp]:
  "soft_aret s True m k = k" "soft_aret s False m k = soft_ret s m"
  by (simp_all add: soft_aret_def)

lemma soft_ret_Inr [simp]: "soft_ret s m \<noteq> Inr x" "Inr x \<noteq> soft_ret s m"
  by (simp_all add: soft_ret_def)

definition is_continuation :: "byte \<Rightarrow> bool" where
  "is_continuation c \<longleftrightarrow> ord c AND 0xC0 = 0x80"

text \<open>One symbol of UTF-8: its code and its size.\<close>

definition decode_symbol :: "bool \<Rightarrow> byte list \<Rightarrow> (nat \<times> nat) result" where
  "decode_symbol suppress_errors np =
     (let nc = ord (np ! 0); nsize = length np
      in if nc AND 0x80 = 0 then Inr (nc, 1)
         else if nc AND 0xE0 = 0xC0
         then soft_aret suppress_errors (nsize \<ge> 2 \<and> is_continuation (np ! 1)) ''UTF-8''
                (Inr (push_bit 6 (nc AND 0x1F) OR (ord (np ! 1) AND 0x3F), 2))
         else if nc AND 0xF0 = 0xE0
         then soft_aret suppress_errors (nsize \<ge> 3 \<and> is_continuation (np ! 1) \<and> is_continuation (np ! 2)) ''UTF-8''
                (Inr (push_bit 12 (nc AND 0x0F) OR push_bit 6 (ord (np ! 1) AND 0x3F) OR (ord (np ! 2) AND 0x3F), 3))
         else if nc AND 0xF8 = 0xF0
         then soft_aret suppress_errors
                (nsize \<ge> 4 \<and> is_continuation (np ! 1) \<and> is_continuation (np ! 2) \<and> is_continuation (np ! 3)) ''UTF-8''
                (Inr (push_bit 18 (nc AND 0x07) OR push_bit 12 (ord (np ! 1) AND 0x3F) OR
                      push_bit 6 (ord (np ! 2) AND 0x3F) OR (ord (np ! 3) AND 0x3F), 4))
         else soft_ret suppress_errors ''UTF-8'')"

text \<open>The wide characters of a code.\<close>

definition encode_wide :: "bool \<Rightarrow> bool \<Rightarrow> nat \<Rightarrow> nat list result" where
  "encode_wide wide suppress_errors code =
     (if wide then Inr [code]
      else soft_aret suppress_errors (code < 0xE000 \<or> (code \<ge> 0xD800 \<and> code < 0x110000)) ''UTF-16''
        (if code < 0x10000 then Inr [code]
         else Inr [drop_bit 10 (code - 0x10000) AND 0x3FF, (code - 0x10000) AND 0x3FF]))"

text \<open>Returns the characters written to \<^verbatim>\<open>wp\<close> and \<^verbatim>\<open>*wsize\<close>.\<close>

function string_internal_to_wstring :: "bool \<Rightarrow> byte list \<Rightarrow> bool \<Rightarrow> (nat list \<times> nat) result" where
  "string_internal_to_wstring wide np suppress_errors =
     (if length np > 0
      then pret (decode_symbol suppress_errors np) (\<lambda>(code, symbol_size).
           pret (encode_wide wide suppress_errors code) (\<lambda>symbols.
           if symbol_size = 0 then Inl Diverges
           else pret (string_internal_to_wstring wide (drop symbol_size np) suppress_errors) (\<lambda>(wp, wsize).
           Inr (symbols @ wp, wsize + 1))))
      else Inr ([], 0))"
  by pat_completeness auto
termination by (relation "measure (\<lambda>(_, np, _). length np)") auto

declare string_internal_to_wstring.simps [simp del]

text \<open>The bytes of a code.\<close>

definition encode_symbol :: "nat \<Rightarrow> byte list" where
  "encode_symbol code =
     (if code < 0x80 then [char_of code]
      else if code < 0x800
      then [char_of (0xC0 OR (drop_bit 6 code AND 0x1F)), char_of (0x80 OR (code AND 0x3F))]
      else if code < 0x10000
      then [char_of (0xE0 OR (drop_bit 12 code AND 0x0F)), char_of (0x80 OR (drop_bit 6 code AND 0x3F)),
            char_of (0x80 OR (code AND 0x3F))]
      else [char_of (0xE0 OR (drop_bit 18 code AND 0x07)), char_of (0x80 OR (drop_bit 12 code AND 0x3F)),
            char_of (0x80 OR (drop_bit 6 code AND 0x3F)), char_of (0x80 OR (code AND 0x3F))])"

text \<open>A code and the number of wide characters it takes.\<close>

definition decode_wide :: "bool \<Rightarrow> bool \<Rightarrow> nat list \<Rightarrow> (nat \<times> nat) result" where
  "decode_wide wide suppress_errors wp =
     (let wc = wp ! 0
      in if wide then Inr (wc, 1)
         else if \<not> (wc \<ge> 0xD800 \<and> wc < 0xE000) then Inr (wc, 1)
         else if wc \<ge> 0xD800 \<and> wc < 0xDC00
         then soft_aret suppress_errors (length wp \<ge> 2 \<and> wp ! 1 \<ge> 0xDC00 \<and> wp ! 1 < 0xE000) ''UTF-16''
                (Inr ((push_bit 10 (wc - 0xD800) OR (wp ! 1 - 0xDC00)) + 0x10000, 2))
         else Inl (Failed ''Invalid UTF-16 symbol''))"

function string_internal_to_nstring :: "bool \<Rightarrow> nat list \<Rightarrow> bool \<Rightarrow> byte list result" where
  "string_internal_to_nstring wide wp suppress_errors =
     (if length wp > 0
      then pret (decode_wide wide suppress_errors wp) (\<lambda>(code, symbol_size).
           aret (code < 0x110000) ''code < 0x110000''
             (if symbol_size = 0 then Inl Diverges
              else pret (string_internal_to_nstring wide (drop symbol_size wp) suppress_errors) (\<lambda>np.
                   Inr (encode_symbol code @ np))))
      else Inr [])"
  by pat_completeness auto
termination by (relation "measure (\<lambda>(_, wp, _). length wp)") auto

declare string_internal_to_nstring.simps [simp del]

text \<open>\<^verbatim>\<open>string_to_wstring\<close> and \<^verbatim>\<open>string_to_nstring\<close>\<close>

definition string_to_wstring :: "bool \<Rightarrow> byte list \<Rightarrow> (nat list \<times> nat) result" where
  "string_to_wstring wide np = string_internal_to_wstring wide np False"

definition string_to_nstring :: "bool \<Rightarrow> nat list \<Rightarrow> byte list result" where
  "string_to_nstring wide wp = string_internal_to_nstring wide wp False"

section \<open>Bits\<close>

lemma byte_or:
  "n < 128 \<Longrightarrow> n AND (0x80::nat) = 0"
  "n < 32 \<Longrightarrow> 0xC0 OR n = 0xC0 + (n::nat)" "n < 64 \<Longrightarrow> 0x80 OR n = 0x80 + (n::nat)"
  "n < 16 \<Longrightarrow> 0xE0 OR n = 0xE0 + (n::nat)"
proof -
  have "\<forall>n \<in> set [0..<128]. n AND (0x80::nat) = 0" by code_simp
  then show "n < 128 \<Longrightarrow> n AND (0x80::nat) = 0" by simp
  have "\<forall>n \<in> set [0..<32]. 0xC0 OR n = 0xC0 + (n::nat)" by code_simp
  then show "n < 32 \<Longrightarrow> 0xC0 OR n = 0xC0 + (n::nat)" by simp
  have "\<forall>n \<in> set [0..<64]. 0x80 OR n = 0x80 + (n::nat)" by code_simp
  then show "n < 64 \<Longrightarrow> 0x80 OR n = 0x80 + (n::nat)" by simp
  have "\<forall>n \<in> set [0..<16]. 0xE0 OR n = 0xE0 + (n::nat)" by code_simp
  then show "n < 16 \<Longrightarrow> 0xE0 OR n = 0xE0 + (n::nat)" by simp
qed

lemma lead_two: "n < 32 \<Longrightarrow> (0xC0 + n) AND 0x80 \<noteq> (0::nat) \<and> (0xC0 + n) AND 0xE0 = 0xC0 \<and> (0xC0 + n) AND 0x1F = n"
proof -
  have "\<forall>n \<in> set [0..<32]. (0xC0 + n) AND 0x80 \<noteq> (0::nat) \<and> (0xC0 + n) AND 0xE0 = 0xC0 \<and> (0xC0 + n) AND 0x1F = n"
    by code_simp
  then show "n < 32 \<Longrightarrow> ?thesis" by simp
qed

lemma lead_three:
  "n < 16 \<Longrightarrow> (0xE0 + n) AND 0x80 \<noteq> (0::nat) \<and> (0xE0 + n) AND 0xE0 \<noteq> 0xC0 \<and> (0xE0 + n) AND 0xF0 = 0xE0 \<and>
     (0xE0 + n) AND 0x0F = n"
proof -
  have "\<forall>n \<in> set [0..<16]. (0xE0 + n) AND 0x80 \<noteq> (0::nat) \<and> (0xE0 + n) AND 0xE0 \<noteq> 0xC0 \<and>
      (0xE0 + n) AND 0xF0 = 0xE0 \<and> (0xE0 + n) AND 0x0F = n" by code_simp
  then show "n < 16 \<Longrightarrow> ?thesis" by simp
qed

lemma continuation:
  "n < 64 \<Longrightarrow> (0x80 + n) AND 0xC0 = (0x80::nat) \<and> (0x80 + n) AND 0x3F = n"
proof -
  have "\<forall>n \<in> set [0..<64]. (0x80 + n) AND 0xC0 = (0x80::nat) \<and> (0x80 + n) AND 0x3F = n" by code_simp
  then show "n < 64 \<Longrightarrow> ?thesis" by simp
qed

lemma stray:
  assumes "n < 64"
  shows "(0x80 + n) AND 0x80 \<noteq> (0::nat) \<and> (0x80 + n) AND 0xE0 \<noteq> 0xC0 \<and> (0x80 + n) AND 0xF0 \<noteq> 0xE0 \<and>
    (0x80 + n) AND 0xF8 \<noteq> 0xF0"
proof -
  have top: "(0x80 + n) AND 0xC0 = (0x80::nat)" using continuation [OF assms] ..
  have eqs: "((0x80 + n) AND 0xC0) AND 0x80 = (0x80 + n) AND (0x80::nat)"
    "((0x80 + n) AND 0xE0) AND 0xC0 = (0x80 + n) AND (0xC0::nat)"
    "((0x80 + n) AND 0xF0) AND 0xC0 = (0x80 + n) AND (0xC0::nat)"
    "((0x80 + n) AND 0xF8) AND 0xC0 = (0x80 + n) AND (0xC0::nat)" by (simp_all add: and.assoc)
  have vals: "0x80 AND 0x80 \<noteq> (0::nat)" "0xC0 AND 0xC0 \<noteq> (0x80::nat)" "0xE0 AND 0xC0 \<noteq> (0x80::nat)"
    "0xF0 AND 0xC0 \<noteq> (0x80::nat)" by simp_all
  show ?thesis using eqs [unfolded top] vals by metis
qed

lemma and_masks:
  "(n::nat) AND 0x3F = n mod 64" "(n::nat) AND 0x1F = n mod 32" "(n::nat) AND 0x0F = n mod 16"
  "(n::nat) AND 0x07 = n mod 8" "(n::nat) AND 0x3FF = n mod 1024"
proof -
  have "mask 6 = (0x3F::nat)" "mask 5 = (0x1F::nat)" "mask 4 = (0x0F::nat)" "mask 3 = (0x07::nat)" "mask 10 = (0x3FF::nat)"
    by (simp_all add: mask_eq_exp_minus_1)
  then show "(n::nat) AND 0x3F = n mod 64" "(n::nat) AND 0x1F = n mod 32" "(n::nat) AND 0x0F = n mod 16"
    "(n::nat) AND 0x07 = n mod 8" "(n::nat) AND 0x3FF = n mod 1024"
    using take_bit_eq_mask [of 6 n] take_bit_eq_mask [of 5 n] take_bit_eq_mask [of 4 n] take_bit_eq_mask [of 3 n]
      take_bit_eq_mask [of 10 n]
    by (simp_all add: take_bit_eq_mod)
qed

text \<open>Two pieces that do not overlap.\<close>

lemma or_add:
  assumes "b < 2 ^ k"
  shows "push_bit k a OR b = a * 2 ^ k + (b::nat)"
proof -
  have "take_bit k b = b" using assms by (simp add: take_bit_nat_eq_self)
  then have "push_bit k a AND b = 0"
    by (auto simp: bit_eq_iff bit_and_iff bit_push_bit_iff) (metis bit_take_bit_iff not_le)
  then have "push_bit k a + b = push_bit k a OR b" by (simp add: disjunctive_add_eq_or)
  then show ?thesis by (simp add: push_bit_eq_mult)
qed

lemma base_64:
  "(n::nat) = n div 4096 * 4096 + (n div 64 mod 64 * 64 + n mod 64)"
  "(n::nat) = n div 262144 * 262144 + (n div 4096 mod 64 * 4096 + (n div 64 mod 64 * 64 + n mod 64))"
proof -
  have digits: "n div 64 div 64 = n div 4096" "n div 4096 div 64 = n div 262144"
    by (simp_all flip: div_mult2_eq)
  have rest: "n div 4096 = n div 262144 * 64 + n div 4096 mod 64" "n div 64 = n div 4096 * 64 + n div 64 mod 64"
    "n = n div 64 * 64 + n mod 64"
    unfolding digits [symmetric] by (rule div_mult_mod_eq [symmetric])+
  show "n = n div 4096 * 4096 + (n div 64 mod 64 * 64 + n mod 64)" using rest(2,3) by linarith
  show "n = n div 262144 * 262144 + (n div 4096 mod 64 * 4096 + (n div 64 mod 64 * 64 + n mod 64))"
    using rest by linarith
qed

lemma join_64:
  fixes a b c d :: nat
  assumes "b < 64" and "c < 64" and "d < 64"
  shows "(a * 64 + b) div 64 = a" "(a * 64 + b) mod 64 = b"
    "(a * 4096 + (b * 64 + c)) div 64 = a * 64 + b" "(a * 4096 + (b * 64 + c)) mod 64 = c"
    "(a * 4096 + (b * 64 + c)) div 4096 = a"
    "(a * 262144 + (b * 4096 + (c * 64 + d))) div 64 = a * 4096 + (b * 64 + c)"
    "(a * 262144 + (b * 4096 + (c * 64 + d))) mod 64 = d"
    "(a * 262144 + (b * 4096 + (c * 64 + d))) div 4096 = a * 64 + b"
    "(a * 262144 + (b * 4096 + (c * 64 + d))) div 262144 = a"
proof -
  have eq: "a * 4096 + (b * 64 + c) = (a * 64 + b) * 64 + c"
    "a * 262144 + (b * 4096 + (c * 64 + d)) = (a * 4096 + (b * 64 + c)) * 64 + d" by simp_all
  have step: "(x * 64 + y) div 64 = x" "(x * 64 + y) mod 64 = y" if "y < 64" for x y :: nat
    using that by simp_all
  show "(a * 64 + b) div 64 = a" "(a * 64 + b) mod 64 = b" by (rule step [OF assms(1)])+
  show three: "(a * 4096 + (b * 64 + c)) div 64 = a * 64 + b" "(a * 4096 + (b * 64 + c)) mod 64 = c"
    unfolding eq(1) by (rule step [OF assms(2)])+
  show four: "(a * 262144 + (b * 4096 + (c * 64 + d))) div 64 = a * 4096 + (b * 64 + c)"
    "(a * 262144 + (b * 4096 + (c * 64 + d))) mod 64 = d"
    unfolding eq(2) by (rule step [OF assms(3)])+
  have div: "n div 4096 = n div 64 div 64" "n div 262144 = n div 64 div 64 div 64" for n :: nat
    by (simp_all flip: div_mult2_eq)
  show "(a * 4096 + (b * 64 + c)) div 4096 = a" unfolding div three by (rule step [OF assms(1)])
  show "(a * 262144 + (b * 4096 + (c * 64 + d))) div 4096 = a * 64 + b" unfolding div four three ..
  show "(a * 262144 + (b * 4096 + (c * 64 + d))) div 262144 = a"
    unfolding div four three by (rule step [OF assms(1)])
qed

section \<open>One symbol\<close>

lemma ord_char_of': "n < 256 \<Longrightarrow> ord (char_of n) = n"
  by simp

lemma decode_encode_symbol:
  assumes "code < 0x10000"
  shows "decode_symbol f (encode_symbol code @ np) = Inr (code, length (encode_symbol code)) \<and>
    0 < length (encode_symbol code)"
proof -
  consider (one) "code < 0x80" | (two) "0x80 \<le> code" "code < 0x800" | (three) "0x800 \<le> code" "code < 0x10000"
    using assms by linarith
  then show ?thesis
  proof cases
    case one
    then show ?thesis by (simp add: encode_symbol_def decode_symbol_def ord_char_of' byte_or(1) Let_def)
  next
    case two
    define a b where "a = code div 64" and "b = code mod 64"
    have ab: "a < 32" "b < 64" "code = a * 64 + b" using two by (auto simp: a_def b_def)
    have "encode_symbol code = [char_of (0xC0 + a), char_of (0x80 + b)]"
      using two ab by (simp add: encode_symbol_def drop_bit_eq_div and_masks byte_or join_64)
    then show ?thesis using ab lead_two [of a] continuation [of b] or_add [of b 6 a]
      by (simp add: decode_symbol_def Let_def is_continuation_def ord_char_of')
  next
    case three
    define a b c where "a = code div 4096" and "b = code div 64 mod 64" and "c = code mod 64"
    have abc: "a < 16" "b < 64" "c < 64" "code = a * 4096 + (b * 64 + c)"
      using three base_64(1) [of code] by (auto simp: a_def b_def c_def)
    have "encode_symbol code = [char_of (0xE0 + a), char_of (0x80 + b), char_of (0x80 + c)]"
      using three abc by (simp add: encode_symbol_def drop_bit_eq_div and_masks byte_or join_64)
    then show ?thesis
      using abc lead_three [of a] continuation [of b] continuation [of c] or_add [of c 6 b] or_add [of "b * 64 + c" 12 a]
      by (simp add: decode_symbol_def Let_def is_continuation_def ord_char_of')
  qed
qed

text \<open>
  A symbol of four bytes is written with the lead byte of three: the reader takes the first
  three bytes for another symbol, and the fourth one begins none.
\<close>

lemma decode_long_symbol:
  assumes "0x10000 \<le> code" and "code < 0x110000"
  obtains d :: nat where "decode_symbol f (encode_symbol code @ np) =
      Inr (code div 262144 * 4096 + (code div 4096 mod 64 * 64 + code div 64 mod 64), 3)"
    and "drop 3 (encode_symbol code) = [char_of (0x80 + d)]" and "d < 64"
proof -
  define a b c d where "a = code div 262144" and "b = code div 4096 mod 64" and "c = code div 64 mod 64"
    and "d = code mod 64"
  have abcd: "a < 8" "b < 64" "c < 64" "d < 64" "code = a * 262144 + (b * 4096 + (c * 64 + d))"
    using assms base_64(2) [of code] by (auto simp: a_def b_def c_def d_def)
  have enc: "encode_symbol code = [char_of (0xE0 + a), char_of (0x80 + b), char_of (0x80 + c), char_of (0x80 + d)]"
    using assms abcd by (simp add: encode_symbol_def drop_bit_eq_div and_masks byte_or join_64)
  then have "decode_symbol f (encode_symbol code @ np) = Inr (a * 4096 + (b * 64 + c), 3)"
    using abcd lead_three [of a] continuation [of b] continuation [of c] or_add [of c 6 b] or_add [of "b * 64 + c" 12 a]
    by (simp add: decode_symbol_def Let_def is_continuation_def ord_char_of')
  then show thesis using enc abcd(4) by (intro that [of d]) (simp_all add: a_def b_def c_def)
qed

lemma decode_stray:
  assumes "d < (64::nat)"
  shows "decode_symbol f (char_of (0x80 + d) # np) = soft_ret f ''UTF-8''"
  using assms stray [of d] by (simp add: decode_symbol_def Let_def ord_char_of')

lemma length_encode_symbol: "length (encode_symbol code) \<le> 4"
  by (simp add: encode_symbol_def)

section \<open>Whole strings\<close>

lemma to_nstring_wide:
  "string_internal_to_nstring True wp f =
     (if list_all (\<lambda>code. code < 0x110000) wp then Inr (concat (map encode_symbol wp))
      else Inl (Failed ''code < 0x110000''))"
proof (induction wp)
  case Nil
  then show ?case by (simp add: string_internal_to_nstring.simps [of True "[]"])
next
  case (Cons w wp)
  then show ?case by (subst string_internal_to_nstring.simps) (auto simp: decode_wide_def aret_def)
qed

lemma to_wstring_encoded:
  assumes "list_all (\<lambda>code. code < 0x110000) wp"
  shows "string_internal_to_wstring True (concat (map encode_symbol wp)) f =
    (if list_all (\<lambda>code. code < 0x10000) wp then Inr (wp, length wp) else soft_ret f ''UTF-8'')"
  using assms
proof (induction wp)
  case Nil
  then show ?case by (simp add: string_internal_to_wstring.simps [of True "[]"])
next
  case (Cons w wp)
  let ?rest = "concat (map encode_symbol wp)"
  show ?case
  proof (cases "w < 0x10000")
    case True
    note one = decode_encode_symbol [OF this, of f ?rest]
    then show ?thesis using Cons True
      by (subst string_internal_to_wstring.simps) (simp add: encode_wide_def soft_ret_def)
  next
    case False
    then have long: "0x10000 \<le> w" "w < 0x110000" using Cons.prems by simp_all
    obtain d :: nat where d: "decode_symbol f (encode_symbol w @ ?rest) =
        Inr (w div 262144 * 4096 + (w div 4096 mod 64 * 64 + w div 64 mod 64), 3)"
      "drop 3 (encode_symbol w) = [char_of (0x80 + d)]" "d < 64"
      by (rule decode_long_symbol [OF long])
    have "length (encode_symbol w) = 4" using long by (simp add: encode_symbol_def)
    then have rest: "drop 3 (encode_symbol w @ ?rest) = char_of (0x80 + d) # ?rest"
      and some: "encode_symbol w @ ?rest \<noteq> []" using d(2) by auto
    have "string_internal_to_wstring True (char_of (0x80 + d) # ?rest) f = soft_ret f ''UTF-8''"
      by (subst string_internal_to_wstring.simps) (simp add: decode_stray [OF d(3)] soft_ret_def)
    then show ?thesis using False some
      by (subst string_internal_to_wstring.simps) (simp add: d(1) rest encode_wide_def soft_ret_def del: drop_append)
  qed
qed

section \<open>Properties\<close>



end
