(* ===== verification/TS_Print.thy ===== *)
theory TS_Print
  imports TS_String TS_Message TS_Unicode
begin

text \<open>
  The printer of \<^verbatim>\<open>commonlib/source/string.c\<close>: \<^verbatim>\<open>string_print\<close>, \<^verbatim>\<open>string_print_append\<close> and the
  function behind them, \<^verbatim>\<open>string_internal_vprint_append\<close>, which parses the format, estimates the
  size of every conversion, reserves as much and calls the C library's \<^verbatim>\<open>sprintf\<close> with the width
  as an argument. Strings are the narrow ones of the server (\<^verbatim>\<open>COMMON_WCHAR\<close> is not defined).

  The variable arguments are a list of typed values; taking one of another type is undefined,
  as in C. \<^verbatim>\<open>sprintf\<close> follows the C standard; its text of a floating-point number is the
  parameter \<open>sprintf_float\<close>, since nothing in the server prints one.
\<close>

section \<open>Conversions\<close>

datatype length_modifier = LENGTH_NONE | LENGTH_SHORT_SHORT | LENGTH_SHORT | LENGTH_LONG
  | LENGTH_LONG_LONG | LENGTH_MAX | LENGTH_SIZE | LENGTH_PTRDIFF | LENGTH_LONG_DOUBLE

text \<open>
  A text argument is what lies before its terminator (or as much as the precision reads);
  \<open>VA_string\<close> is a pointer to a \<^verbatim>\<open>struct CharBuffer\<close>, \<open>VA_pointer\<close> where \<^verbatim>\<open>%n\<close> writes.
\<close>

datatype argument = VA_int "32 word" | VA_long "64 word" | VA_text "byte list" | VA_wide "nat list"
  | VA_string char_buffer | VA_double nat | VA_long_double nat | VA_pointer

text \<open>
  What the parser finds out about a conversion. \<open>cv_flags\<close> are the flags copied to
  \<^verbatim>\<open>format_copy\<close>, a precision of \<open>None\<close> is \<^verbatim>\<open>precision_invalid\<close>.
\<close>

record conversion =
  cv_flags :: "byte list"
  cv_width :: nat
  cv_precision :: "nat option"
  cv_length :: length_modifier
  cv_specifier :: byte

text \<open>The character under a pointer into the format; its end is the terminator.\<close>

definition peek :: "byte list \<Rightarrow> byte" where
  "peek fmt = (case fmt of [] \<Rightarrow> NUL | c # _ \<Rightarrow> c)"

fun parse_flags :: "byte list \<Rightarrow> byte list \<Rightarrow> byte list \<times> byte list" where
  "parse_flags flags [] = (flags, [])"
| "parse_flags flags (c # fmt) =
     (if c = CHR ''#'' \<or> c = CHR ''0'' \<or> c = CHR ''-'' \<or> c = CHR '' '' \<or> c = CHR ''+''
      then parse_flags (if c \<in> set flags then flags else flags @ [c]) fmt
      else (flags, c # fmt))"

text \<open>\<^verbatim>\<open>(unsigned int)strtoul(format, &end, 10)\<close>, and \<^verbatim>\<open>end\<close>; \<^verbatim>\<open>strtoul\<close> saturates.\<close>

definition strtoul :: "byte list \<Rightarrow> nat \<times> byte list" where
  "strtoul fmt = (min (decimal (takeWhile is_digit fmt)) (2 ^ 64 - 1) mod 2 ^ 32, dropWhile is_digit fmt)"

text \<open>
  A negative width loses its sign here: \<^verbatim>\<open>flags |= FLAG_MINUS\<close> comes after the flags were
  copied, and nothing reads \<^verbatim>\<open>flags\<close> any more.
\<close>

definition parse_width :: "byte list \<Rightarrow> argument list \<Rightarrow> (nat \<times> byte list \<times> argument list) result" where
  "parse_width fmt args =
     (if peek fmt = CHR ''*''
      then (case args of VA_int signed_width # args \<Rightarrow>
              Inr (if 0 \<le> sint signed_width then unat signed_width else unat (- signed_width), drop 1 fmt, args)
            | _ \<Rightarrow> Inl Undefined)
      else if is_digit (peek fmt)
      then (case strtoul fmt of (width, fmt) \<Rightarrow> Inr (width, fmt, args))
      else Inr (0, fmt, args))"

definition precision_of :: "nat \<Rightarrow> nat option" where
  "precision_of n = (if n = 2 ^ 32 - 1 then None else Some n)"

definition parse_precision :: "byte list \<Rightarrow> argument list \<Rightarrow>
    (nat option \<times> byte list \<times> argument list) result" where
  "parse_precision fmt args =
     (if peek fmt = CHR ''.''
      then let fmt = drop 1 fmt in
           if peek fmt = CHR ''*''
           then (case args of VA_int signed_precision # args \<Rightarrow>
                   Inr (if 0 \<le> sint signed_precision then Some (unat signed_precision) else None, drop 1 fmt, args)
                 | _ \<Rightarrow> Inl Undefined)
           else if is_digit (peek fmt)
           then (case strtoul fmt of (precision, fmt) \<Rightarrow> Inr (precision_of precision, fmt, args))
           else Inr (None, fmt, args)
      else Inr (None, fmt, args))"

text \<open>
  The two-character modifiers are copied character by character; \<^verbatim>\<open>L\<close> is taken for one of
  them, and the character behind it is lost.
\<close>

definition parse_length :: "byte list \<Rightarrow> (length_modifier \<times> byte list) result" where
  "parse_length fmt =
     (if peek fmt = CHR ''h''
      then if peek (drop 1 fmt) = CHR ''h'' then Inr (LENGTH_SHORT_SHORT, drop 2 fmt) else Inr (LENGTH_SHORT, drop 1 fmt)
      else if peek fmt = CHR ''l''
      then if peek (drop 1 fmt) = CHR ''l'' then Inr (LENGTH_LONG_LONG, drop 2 fmt) else Inr (LENGTH_LONG, drop 1 fmt)
      else if peek fmt = CHR ''j'' then Inr (LENGTH_MAX, drop 1 fmt)
      else if peek fmt = CHR ''z'' then Inr (LENGTH_SIZE, drop 1 fmt)
      else if peek fmt = CHR ''t'' then Inr (LENGTH_PTRDIFF, drop 1 fmt)
      else if peek fmt = CHR ''L''
      then (if length fmt < 2 then Inl Undefined else Inr (LENGTH_LONG_LONG, drop 2 fmt))
      else Inr (LENGTH_NONE, fmt))"

text \<open>Everything between the percent sign and the specifier, and the specifier.\<close>

definition parse_conversion :: "byte list \<Rightarrow> argument list \<Rightarrow>
    (conversion \<times> byte list \<times> argument list) result" where
  "parse_conversion fmt args =
     (case parse_flags [] fmt of (flags, fmt) \<Rightarrow>
      pret (parse_width fmt args) (\<lambda>(width, fmt, args).
      pret (parse_precision fmt args) (\<lambda>(precision, fmt, args).
      pret (parse_length fmt) (\<lambda>(length, fmt).
      Inr (\<lparr>cv_flags = flags, cv_width = width, cv_precision = precision, cv_length = length,
             cv_specifier = peek fmt\<rparr>, drop 1 fmt, args)))))"

text \<open>\<^verbatim>\<open>format_copy\<close> without its terminator.\<close>

definition length_copy :: "length_modifier \<Rightarrow> byte list" where
  "length_copy l = (case l of LENGTH_NONE \<Rightarrow> '''' | LENGTH_SHORT_SHORT \<Rightarrow> ''hh'' | LENGTH_SHORT \<Rightarrow> ''h''
     | LENGTH_LONG \<Rightarrow> ''l'' | LENGTH_LONG_LONG \<Rightarrow> ''ll'' | LENGTH_MAX \<Rightarrow> ''j'' | LENGTH_SIZE \<Rightarrow> ''z''
     | LENGTH_PTRDIFF \<Rightarrow> ''t'' | LENGTH_LONG_DOUBLE \<Rightarrow> ''L'')"

definition format_copy :: "conversion \<Rightarrow> byte list" where
  "format_copy cv = ''%'' @ cv_flags cv @ ''*'' @ (if cv_precision cv \<noteq> None then ''.*'' else '''') @
     length_copy (cv_length cv) @ [cv_specifier cv]"

section \<open>sprintf\<close>

text \<open>Width and precision are passed as \<^verbatim>\<open>int\<close>: above \<^verbatim>\<open>INT_MAX\<close> they are negative there.\<close>

definition sprintf_width :: "conversion \<Rightarrow> bool \<times> nat" where
  "sprintf_width cv =
     (if cv_width cv < 2 ^ 31 then (CHR ''-'' \<in> set (cv_flags cv), cv_width cv)
      else (True, 2 ^ 32 - cv_width cv))"

definition sprintf_precision :: "conversion \<Rightarrow> nat option" where
  "sprintf_precision cv = (case cv_precision cv of Some n \<Rightarrow> if n < 2 ^ 31 then Some n else None | None \<Rightarrow> None)"

definition pad :: "conversion \<Rightarrow> byte list \<Rightarrow> byte list" where
  "pad cv cs =
     (case sprintf_width cv of (left, width) \<Rightarrow>
        if left then cs @ replicate (width - length cs) (CHR '' '')
        else replicate (width - length cs) (CHR '' '') @ cs)"

text \<open>\<^verbatim>\<open>%c\<close>, \<^verbatim>\<open>%s\<close>\<close>

definition sprintf_char :: "conversion \<Rightarrow> byte \<Rightarrow> byte list" where
  "sprintf_char cv c = pad cv [c]"

definition sprintf_text :: "conversion \<Rightarrow> byte list \<Rightarrow> byte list" where
  "sprintf_text cv cs = pad cv (case sprintf_precision cv of None \<Rightarrow> cs | Some n \<Rightarrow> take n cs)"

text \<open>Numbers in a base; \<open>upper\<close> selects the letters of \<^verbatim>\<open>%X\<close>.\<close>

definition base_digit :: "bool \<Rightarrow> nat \<Rightarrow> byte" where
  "base_digit upper d = (if d < 10 then char_of (48 + d) else if upper then char_of (55 + d) else char_of (87 + d))"

fun base_digits :: "nat \<Rightarrow> bool \<Rightarrow> nat \<Rightarrow> byte list" where
  "base_digits b upper n =
     (if n < b \<or> b < 2 then [base_digit upper n] else base_digits b upper (n div b) @ [base_digit upper (n mod b)])"

declare base_digits.simps [simp del]

text \<open>The bits of an integer argument, and the number the length modifier and specifier make of it.\<close>

fun argument_bits :: "argument \<Rightarrow> nat option" where
  "argument_bits (VA_int w) = Some (unat w)"
| "argument_bits (VA_long w) = Some (unat w)"
| "argument_bits _ = None"

definition integer_width :: "length_modifier \<Rightarrow> nat" where
  "integer_width l = (case l of LENGTH_SHORT_SHORT \<Rightarrow> 8 | LENGTH_SHORT \<Rightarrow> 16 | LENGTH_NONE \<Rightarrow> 32 | _ \<Rightarrow> 64)"

definition signed_number :: "nat \<Rightarrow> nat \<Rightarrow> int" where
  "signed_number k n = (let n = n mod 2 ^ k in if n < 2 ^ (k - 1) then int n else int n - 2 ^ k)"

definition integer_value :: "conversion \<Rightarrow> nat \<Rightarrow> int" where
  "integer_value cv bits =
     (if cv_specifier cv = CHR ''d'' \<or> cv_specifier cv = CHR ''i''
      then signed_number (integer_width (cv_length cv)) bits
      else int (bits mod 2 ^ integer_width (cv_length cv)))"

definition sprintf_integer :: "conversion \<Rightarrow> int \<Rightarrow> byte list" where
  "sprintf_integer cv value =
     (let flags = set (cv_flags cv); spec = cv_specifier cv; n = nat \<bar>value\<bar>;
          base = (if spec = CHR ''o'' then 8 else if spec = CHR ''x'' \<or> spec = CHR ''X'' then 16 else 10);
          digits = (if n = 0 \<and> sprintf_precision cv = Some 0 then [] else base_digits base (spec = CHR ''X'') n);
          digits = replicate ((case sprintf_precision cv of None \<Rightarrow> 1 | Some p \<Rightarrow> p) - length digits) (CHR ''0'') @ digits;
          digits = (if spec = CHR ''o'' \<and> CHR ''#'' \<in> flags \<and> (digits = [] \<or> hd digits \<noteq> CHR ''0'')
                    then CHR ''0'' # digits else digits);
          prefix = (if value < 0 then ''-''
                    else if spec = CHR ''d'' \<or> spec = CHR ''i''
                    then (if CHR ''+'' \<in> flags then ''+'' else if CHR '' '' \<in> flags then '' '' else '''')
                    else if CHR ''#'' \<in> flags \<and> n \<noteq> 0 \<and> spec = CHR ''x'' then ''0x''
                    else if CHR ''#'' \<in> flags \<and> n \<noteq> 0 \<and> spec = CHR ''X'' then ''0X'' else '''')
      in case sprintf_width cv of (left, width) \<Rightarrow>
           if CHR ''0'' \<in> flags \<and> \<not> left \<and> sprintf_precision cv = None
           then prefix @ replicate (width - length prefix - length digits) (CHR ''0'') @ digits
           else pad cv (prefix @ digits))"

section \<open>Printing into a string\<close>

text \<open>
  \<^verbatim>\<open>string_vprint_append_internal_reserve\<close>: the answer \<^verbatim>\<open>false\<close> is \<open>Inr None\<close>.
\<close>

definition string_vprint_append_internal_reserve ::
    "allocator \<Rightarrow> char_buffer \<Rightarrow> nat \<Rightarrow> char_buffer option result" where
  "string_vprint_append_internal_reserve realloc s estimated_size =
     (let capacity = size_add (cb_size s) estimated_size
      in if size_add capacity 1 > cb_capacity s
         then case grow (size_add capacity 1) (start_capacity (cb_capacity s)) of
                None \<Rightarrow> Inl Diverges
              | Some new_capacity \<Rightarrow>
                  (case realloc (cb_p s) new_capacity of
                     None \<Rightarrow> Inr None
                   | Some new_p \<Rightarrow> Inr (Some (s\<lparr>cb_capacity := new_capacity, cb_p := Some new_p\<rparr>)))
         else Inr (Some s))"

definition soft_reserve :: "allocator \<Rightarrow> bool \<Rightarrow> char_buffer \<Rightarrow> nat \<Rightarrow> char_buffer result" where
  "soft_reserve realloc suppress_errors s estimated_size =
     pret (string_vprint_append_internal_reserve realloc s estimated_size) (\<lambda>r.
     case r of None \<Rightarrow> soft_ret suppress_errors ''reserve'' | Some s \<Rightarrow> Inr s)"

definition string_vprint_append_internal_compact :: "allocator \<Rightarrow> char_buffer \<Rightarrow> char_buffer result" where
  "string_vprint_append_internal_compact realloc s =
     (if cb_size s = 0 then Inr (string_finalize s)
      else case grow (size_add (cb_size s) 1) 1 of
             None \<Rightarrow> Inl Diverges
           | Some new_capacity \<Rightarrow>
               if new_capacity < cb_capacity s
               then case realloc (cb_p s) new_capacity of
                      None \<Rightarrow> Inr s
                    | Some new_p \<Rightarrow> Inr (s\<lparr>cb_capacity := new_capacity, cb_p := Some new_p\<rparr>)
               else Inr s)"

text \<open>Text and terminator are written behind the string; then \<^verbatim>\<open>string->size\<close> grows.\<close>

definition print_raw :: "char_buffer \<Rightarrow> byte list \<Rightarrow> char_buffer result" where
  "print_raw s out =
     pret (string_store s (cb_size s) (out @ [NUL])) (\<lambda>s.
     Inr (s\<lparr>cb_size := size_add (cb_size s) (length out)\<rparr>))"

text \<open>
  The common part of the conversions: \<^verbatim>\<open>sprintf\<close> fails (with a negative answer) when the text is
  longer than \<^verbatim>\<open>INT_MAX\<close>.
\<close>

definition print_estimated :: "allocator \<Rightarrow> bool \<Rightarrow> char_buffer \<Rightarrow> conversion \<Rightarrow> nat \<Rightarrow> byte list \<Rightarrow> char_buffer result" where
  "print_estimated realloc suppress_errors s cv estimated_size out =
     (let estimated_size = (if cv_width cv > estimated_size then cv_width cv else estimated_size)
      in pret (soft_reserve realloc suppress_errors s estimated_size) (\<lambda>s.
         if length out < 2 ^ 31 then print_raw s out
         else pret (string_store s (cb_size s) (out @ [NUL])) (\<lambda>s. soft_ret suppress_errors ''printed >= 0'')))"

text \<open>
  The state of the loop: the string, the remaining arguments, and what \<^verbatim>\<open>%n\<close> has written through
  its pointers. The functions below are the branches on the specifier.
\<close>

type_synonym printing = "char_buffer \<times> argument list \<times> int list"

definition print_char :: "allocator \<Rightarrow> bool \<Rightarrow> conversion \<Rightarrow> printing \<Rightarrow> printing result" where
  "print_char realloc suppress_errors cv st =
     (case st of (s, args, counts) \<Rightarrow>
      case args of VA_int v # args \<Rightarrow>
        pret (print_estimated realloc suppress_errors s cv 1 (sprintf_char cv (char_of (unat v))))
          (\<lambda>s. Inr (s, args, counts))
      | _ \<Rightarrow> Inl Undefined)"

text \<open>
  Both wide conversions hand \<^verbatim>\<open>sprintf\<close> narrow text under a format that still says \<^verbatim>\<open>l\<close>, which
  is undefined.
\<close>

definition print_wide_char :: "allocator \<Rightarrow> bool \<Rightarrow> conversion \<Rightarrow> printing \<Rightarrow> printing result" where
  "print_wide_char realloc suppress_errors cv st =
     (case st of (s, args, counts) \<Rightarrow>
      case args of VA_int wc # args \<Rightarrow>
        pret (string_internal_to_nstring True [unat wc] True) (\<lambda>value.
        let estimated_size = length value;
            estimated_size = (if cv_width cv > estimated_size then cv_width cv else estimated_size)
        in pret (soft_reserve realloc suppress_errors s estimated_size) (\<lambda>s. Inl Undefined))
      | _ \<Rightarrow> Inl Undefined)"

definition print_text :: "allocator \<Rightarrow> bool \<Rightarrow> conversion \<Rightarrow> printing \<Rightarrow> printing result" where
  "print_text realloc suppress_errors cv st =
     (case st of (s, args, counts) \<Rightarrow>
      case args of VA_text value # args \<Rightarrow>
        let estimated_size = (case cv_precision cv of Some precision \<Rightarrow> precision | None \<Rightarrow> length value)
        in pret (print_estimated realloc suppress_errors s cv estimated_size (sprintf_text cv value))
             (\<lambda>s. Inr (s, args, counts))
      | _ \<Rightarrow> Inl Undefined)"

definition print_wide_text :: "allocator \<Rightarrow> bool \<Rightarrow> conversion \<Rightarrow> printing \<Rightarrow> printing result" where
  "print_wide_text realloc suppress_errors cv st =
     (case st of (s, args, counts) \<Rightarrow>
      case args of VA_wide wp # args \<Rightarrow>
        let wp = (case cv_precision cv of Some precision \<Rightarrow> take precision wp | None \<Rightarrow> wp)
        in pret (string_internal_to_nstring True wp True) (\<lambda>value.
           soft_aret suppress_errors (realloc None (length value + 1) \<noteq> None) ''value != NULL''
             (let estimated_size = length value;
                  estimated_size = (if cv_width cv > estimated_size then cv_width cv else estimated_size)
              in pret (soft_reserve realloc suppress_errors s estimated_size) (\<lambda>s. Inl Undefined)))
      | _ \<Rightarrow> Inl Undefined)"

text \<open>The type \<^verbatim>\<open>va_arg\<close> asks for: \<^verbatim>\<open>long\<close>, \<^verbatim>\<open>intmax_t\<close>, \<^verbatim>\<open>size_t\<close> and \<^verbatim>\<open>ptrdiff_t\<close> have 64 bits.\<close>

definition print_integer :: "allocator \<Rightarrow> bool \<Rightarrow> conversion \<Rightarrow> printing \<Rightarrow> printing result" where
  "print_integer realloc suppress_errors cv st =
     (case st of (s, args, counts) \<Rightarrow>
      let estimated_size = 8 * 8 div 3 + 8;
          estimated_size = (case cv_precision cv of Some precision \<Rightarrow> size_add estimated_size precision
                            | None \<Rightarrow> estimated_size);
          long = (cv_length cv = LENGTH_LONG \<or> cv_length cv = LENGTH_MAX \<or> cv_length cv = LENGTH_SIZE \<or>
                  cv_length cv = LENGTH_PTRDIFF)
      in case args of
           VA_int value # args \<Rightarrow>
             if long then Inl Undefined
             else pret (print_estimated realloc suppress_errors s cv estimated_size
                    (sprintf_integer cv (integer_value cv (unat value)))) (\<lambda>s. Inr (s, args, counts))
         | VA_long value # args \<Rightarrow>
             if \<not> long then Inl Undefined
             else pret (print_estimated realloc suppress_errors s cv estimated_size
                    (sprintf_integer cv (integer_value cv (unat value)))) (\<lambda>s. Inr (s, args, counts))
         | _ \<Rightarrow> Inl Undefined)"

definition print_float :: "(conversion \<Rightarrow> argument \<Rightarrow> byte list) \<Rightarrow> allocator \<Rightarrow> bool \<Rightarrow> conversion \<Rightarrow>
    printing \<Rightarrow> printing result" where
  "print_float sprintf_float realloc suppress_errors cv st =
     (case st of (s, args, counts) \<Rightarrow>
      let estimated_size = 512;
          estimated_size = (case cv_precision cv of Some precision \<Rightarrow> size_add estimated_size precision
                            | None \<Rightarrow> estimated_size)
      in case args of
           VA_long_double value # args \<Rightarrow>
             if cv_length cv \<noteq> LENGTH_LONG_DOUBLE then Inl Undefined
             else pret (print_estimated realloc suppress_errors s cv estimated_size
                    (sprintf_float cv (VA_long_double value))) (\<lambda>s. Inr (s, args, counts))
         | VA_double value # args \<Rightarrow>
             if cv_length cv = LENGTH_LONG_DOUBLE then Inl Undefined
             else pret (print_estimated realloc suppress_errors s cv estimated_size
                    (sprintf_float cv (VA_double value))) (\<lambda>s. Inr (s, args, counts))
         | _ \<Rightarrow> Inl Undefined)"

text \<open>\<^verbatim>\<open>%n\<close>: the size, cut to the type behind the pointer.\<close>

definition print_count :: "conversion \<Rightarrow> printing \<Rightarrow> printing result" where
  "print_count cv st =
     (case st of (s, args, counts) \<Rightarrow>
      case args of VA_pointer # args \<Rightarrow>
        Inr (s, args, counts @ [signed_number (integer_width (cv_length cv)) (cb_size s)])
      | _ \<Rightarrow> Inl Undefined)"

definition print_string :: "allocator \<Rightarrow> bool \<Rightarrow> conversion \<Rightarrow> printing \<Rightarrow> printing result" where
  "print_string realloc suppress_errors cv st =
     (case st of (s, args, counts) \<Rightarrow>
      case args of VA_string cast # args \<Rightarrow>
        pret (print_estimated realloc suppress_errors s cv (cb_size cast) (sprintf_text cv (string_get cast)))
          (\<lambda>s. Inr (s, args, counts))
      | _ \<Rightarrow> Inl Undefined)"

definition integer_specifier :: "byte \<Rightarrow> bool" where
  "integer_specifier c \<longleftrightarrow> c = CHR ''d'' \<or> c = CHR ''i'' \<or> c = CHR ''o'' \<or> c = CHR ''x'' \<or> c = CHR ''X'' \<or> c = CHR ''u''"

definition float_specifier :: "byte \<Rightarrow> bool" where
  "float_specifier c \<longleftrightarrow> c = CHR ''f'' \<or> c = CHR ''e'' \<or> c = CHR ''E'' \<or> c = CHR ''g'' \<or> c = CHR ''G'' \<or>
     c = CHR ''F'' \<or> c = CHR ''a'' \<or> c = CHR ''A''"

text \<open>The lengths allowed for integers: \<^verbatim>\<open>ENABLE_EXTENSIONS\<close> is defined, \<^verbatim>\<open>ENABLE_LONG_LONG\<close> is not.\<close>

definition integer_length :: "length_modifier \<Rightarrow> bool" where
  "integer_length l \<longleftrightarrow> l = LENGTH_NONE \<or> l = LENGTH_SHORT \<or> l = LENGTH_LONG \<or> l = LENGTH_SHORT_SHORT \<or>
     l = LENGTH_MAX \<or> l = LENGTH_SIZE \<or> l = LENGTH_PTRDIFF"

definition print_conversion :: "(conversion \<Rightarrow> argument \<Rightarrow> byte list) \<Rightarrow> allocator \<Rightarrow> bool \<Rightarrow> conversion \<Rightarrow>
    printing \<Rightarrow> printing result" where
  "print_conversion sprintf_float realloc suppress_errors cv st =
     (let c = cv_specifier cv; l = cv_length cv
      in if c = CHR ''c'' \<and> l = LENGTH_NONE then print_char realloc suppress_errors cv st
         else if c = CHR ''c'' \<and> l = LENGTH_LONG then print_wide_char realloc suppress_errors cv st
         else if c = CHR ''s'' \<and> l = LENGTH_NONE then print_text realloc suppress_errors cv st
         else if c = CHR ''s'' \<and> l = LENGTH_LONG then print_wide_text realloc suppress_errors cv st
         else if integer_specifier c \<and> integer_length l then print_integer realloc suppress_errors cv st
         else if float_specifier c \<and> (l = LENGTH_NONE \<or> l = LENGTH_LONG_DOUBLE)
         then print_float sprintf_float realloc suppress_errors cv st
         else if c = CHR ''n'' \<and> integer_length l then print_count cv st
         else if c = CHR ''p'' \<and> l = LENGTH_NONE then print_string realloc suppress_errors cv st
         else soft_ret suppress_errors ''specifier'')"

lemma parse_flags_length: "parse_flags flags fmt = (flags', fmt') \<Longrightarrow> length fmt' \<le> length fmt"
  by (induction flags fmt rule: parse_flags.induct) (auto split: if_splits)

lemma strtoul_length: "strtoul fmt = (n, fmt') \<Longrightarrow> length fmt' \<le> length fmt"
  by (auto simp: strtoul_def length_dropWhile_le)

lemma parse_width_length: "parse_width fmt args = Inr (w, fmt', args') \<Longrightarrow> length fmt' \<le> length fmt"
  by (auto simp: parse_width_def split: if_splits list.splits argument.splits prod.splits dest: strtoul_length)

lemma parse_precision_length: "parse_precision fmt args = Inr (p, fmt', args') \<Longrightarrow> length fmt' \<le> length fmt"
  by (auto simp: parse_precision_def Let_def split: if_splits list.splits argument.splits prod.splits
      dest!: strtoul_length)

lemma parse_length_length: "parse_length fmt = Inr (l, fmt') \<Longrightarrow> length fmt' \<le> length fmt"
  by (auto simp: parse_length_def split: if_splits)

lemma parse_conversionE:
  assumes "parse_conversion fmt args = Inr (cv, fmt', args')"
  obtains flags f1 w f2 a2 p f3 l f4 where "parse_flags [] fmt = (flags, f1)" "parse_width f1 args = Inr (w, f2, a2)"
    "parse_precision f2 a2 = Inr (p, f3, args')" "parse_length f3 = Inr (l, f4)" "fmt' = drop 1 f4"
    "cv = \<lparr>cv_flags = flags, cv_width = w, cv_precision = p, cv_length = l, cv_specifier = peek f4\<rparr>"
  using assms by (cases "parse_flags [] fmt") (auto simp: parse_conversion_def pret_Inr_iff)

lemma parse_conversion_length:
  assumes "parse_conversion fmt args = Inr (cv, fmt', args')"
  shows "length fmt' \<le> length fmt"
  using assms
proof (cases rule: parse_conversionE)
  case (1 flags f1 w f2 a2 p f3 l f4)
  then have "length f1 \<le> length fmt" "length f2 \<le> length f1" "length f3 \<le> length f2" "length f4 \<le> length f3"
    using parse_flags_length parse_width_length parse_precision_length parse_length_length by blast+
  then show ?thesis using 1 by simp
qed

lemma percent_shorter:
  "fmt \<noteq> [] \<Longrightarrow> length (dropWhile P fmt) - 2 < length fmt"
  using length_dropWhile_le [of P fmt] by (cases fmt) auto

lemma percent_parse_shorter:
  assumes "parse_conversion (drop (Suc 0) (dropWhile (\<lambda>c. c \<noteq> CHR ''%'') fmt)) args = Inr (cv, fmt', args')"
    and "CHR ''%'' \<in> set fmt"
  shows "length fmt' < length fmt"
proof -
  let ?percent = "dropWhile (\<lambda>c. c \<noteq> CHR ''%'') fmt"
  have "length fmt' \<le> length (drop (Suc 0) ?percent)" by (rule parse_conversion_length [OF assms(1)])
  also have "?percent \<noteq> []" using assms(2) by auto
  then have "length (drop (Suc 0) ?percent) < length ?percent" by (cases ?percent) auto
  finally show ?thesis using length_dropWhile_le [of _ fmt] by (rule less_le_trans)
qed

text \<open>
  \<^verbatim>\<open>string_internal_vprint_append\<close>: one round prints the text up to the next percent sign and
  the conversion behind it.
\<close>

function string_internal_vprint_append :: "(conversion \<Rightarrow> argument \<Rightarrow> byte list) \<Rightarrow> allocator \<Rightarrow> bool \<Rightarrow>
    byte list \<Rightarrow> printing \<Rightarrow> printing result" where
  "string_internal_vprint_append sprintf_float realloc suppress_errors fmt st =
     (case st of (s, args, counts) \<Rightarrow>
      if fmt = [] then Inr (s, args, counts)
      else let plain = takeWhile (\<lambda>c. c \<noteq> CHR ''%'') fmt; percent = dropWhile (\<lambda>c. c \<noteq> CHR ''%'') fmt
           in pret (soft_reserve realloc suppress_errors s (length plain)) (\<lambda>s.
              pret (print_raw s plain) (\<lambda>s.
              if percent = []
              then pret (string_vprint_append_internal_compact realloc s) (\<lambda>s. Inr (s, args, counts))
              else if peek (drop 1 percent) = CHR ''%''
              then pret (soft_reserve realloc suppress_errors s 1) (\<lambda>s.
                   pret (print_raw s ''%'') (\<lambda>s.
                   string_internal_vprint_append sprintf_float realloc suppress_errors (drop 2 percent) (s, args, counts)))
              else case parse_conversion (drop 1 percent) args of
                     Inl e \<Rightarrow> Inl e
                   | Inr (cv, fmt, args) \<Rightarrow>
                       pret (print_conversion sprintf_float realloc suppress_errors cv (s, args, counts)) (\<lambda>st.
                       string_internal_vprint_append sprintf_float realloc suppress_errors fmt st))))"
  by pat_completeness auto
termination
  by (relation "measure (\<lambda>(_, _, _, fmt, _). length fmt)") (auto simp: percent_shorter percent_parse_shorter)

declare string_internal_vprint_append.simps [simp del]

text \<open>\<^verbatim>\<open>string_vprint_append\<close> (and \<^verbatim>\<open>string_print_append\<close>), \<^verbatim>\<open>string_vprint\<close> (and \<^verbatim>\<open>string_print\<close>)\<close>

definition string_print_append :: "(conversion \<Rightarrow> argument \<Rightarrow> byte list) \<Rightarrow> allocator \<Rightarrow> char_buffer \<Rightarrow> byte list \<Rightarrow>
    argument list \<Rightarrow> char_buffer result" where
  "string_print_append sprintf_float realloc s fmt args =
     pret (string_internal_vprint_append sprintf_float realloc False fmt (s, args, [])) (\<lambda>(s, args, counts). Inr s)"

definition string_print :: "(conversion \<Rightarrow> argument \<Rightarrow> byte list) \<Rightarrow> allocator \<Rightarrow> char_buffer \<Rightarrow> byte list \<Rightarrow>
    argument list \<Rightarrow> char_buffer result" where
  "string_print sprintf_float realloc s fmt args =
     pret (string_zero s) (\<lambda>s. string_print_append sprintf_float realloc s fmt args)"

section \<open>The text of a format\<close>

text \<open>
  The reference: what a format and its arguments stand for, without any buffer. \<open>n\<close> is the
  size printed so far.
\<close>

definition conversion_text :: "(conversion \<Rightarrow> argument \<Rightarrow> byte list) \<Rightarrow> conversion \<Rightarrow> argument list \<Rightarrow> nat \<Rightarrow>
    (byte list \<times> argument list \<times> int list) option" where
  "conversion_text sprintf_float cv args n =
     (let c = cv_specifier cv; l = cv_length cv
      in case args of [] \<Rightarrow> None
         | a # args \<Rightarrow>
           if c = CHR ''c'' \<and> l = LENGTH_NONE
           then (case a of VA_int v \<Rightarrow> Some (sprintf_char cv (char_of (unat v)), args, []) | _ \<Rightarrow> None)
           else if c = CHR ''s'' \<and> l = LENGTH_NONE
           then (case a of VA_text t \<Rightarrow> Some (sprintf_text cv t, args, []) | _ \<Rightarrow> None)
           else if integer_specifier c \<and> (l = LENGTH_LONG \<or> l = LENGTH_MAX \<or> l = LENGTH_SIZE \<or> l = LENGTH_PTRDIFF)
           then (case a of VA_long v \<Rightarrow> Some (sprintf_integer cv (integer_value cv (unat v)), args, []) | _ \<Rightarrow> None)
           else if integer_specifier c \<and> (l = LENGTH_NONE \<or> l = LENGTH_SHORT \<or> l = LENGTH_SHORT_SHORT)
           then (case a of VA_int v \<Rightarrow> Some (sprintf_integer cv (integer_value cv (unat v)), args, []) | _ \<Rightarrow> None)
           else if float_specifier c \<and> l = LENGTH_NONE
           then (case a of VA_double v \<Rightarrow> Some (sprintf_float cv a, args, []) | _ \<Rightarrow> None)
           else if float_specifier c \<and> l = LENGTH_LONG_DOUBLE
           then (case a of VA_long_double v \<Rightarrow> Some (sprintf_float cv a, args, []) | _ \<Rightarrow> None)
           else if c = CHR ''n'' \<and> integer_length l
           then (case a of VA_pointer \<Rightarrow> Some ([], args, [signed_number (integer_width l) n]) | _ \<Rightarrow> None)
           else if c = CHR ''p'' \<and> l = LENGTH_NONE
           then (case a of VA_string cast \<Rightarrow> Some (sprintf_text cv (string_get cast), args, []) | _ \<Rightarrow> None)
           else None)"

text \<open>\<open>None\<close> is a format the printer rejects, or one whose arguments do not fit.\<close>

function format_text :: "(conversion \<Rightarrow> argument \<Rightarrow> byte list) \<Rightarrow> byte list \<Rightarrow> argument list \<Rightarrow> nat \<Rightarrow>
    (byte list \<times> argument list \<times> int list) option" where
  "format_text sprintf_float fmt args n =
     (if fmt = [] then Some ([], args, [])
      else let plain = takeWhile (\<lambda>c. c \<noteq> CHR ''%'') fmt; percent = dropWhile (\<lambda>c. c \<noteq> CHR ''%'') fmt;
               n = n + length plain
           in if percent = [] then Some (plain, args, [])
              else if peek (drop 1 percent) = CHR ''%''
              then map_option (\<lambda>(t, args, counts). (plain @ ''%'' @ t, args, counts))
                     (format_text sprintf_float (drop 2 percent) args (n + 1))
              else case parse_conversion (drop 1 percent) args of
                     Inl e \<Rightarrow> None
                   | Inr (cv, fmt, args) \<Rightarrow>
                       (case conversion_text sprintf_float cv args n of
                          None \<Rightarrow> None
                        | Some (out, args, counts) \<Rightarrow>
                            if length out \<ge> 2 ^ 31 then None
                            else map_option (\<lambda>(t, args, counts'). (plain @ out @ t, args, counts @ counts'))
                                   (format_text sprintf_float fmt args (n + length out))))"
  by pat_completeness auto
termination
  by (relation "measure (\<lambda>(_, fmt, _, _). length fmt)") (auto simp: percent_shorter percent_parse_shorter)

declare format_text.simps [simp del]

section \<open>Estimates are large enough\<close>

lemma length_pad: "length (pad cv cs) \<le> max (cv_width cv) (length cs)"
  by (auto simp: pad_def sprintf_width_def split: prod.split)

lemma length_base_digits: "2 \<le> b \<Longrightarrow> n < b ^ Suc k \<Longrightarrow> length (base_digits b upper n) \<le> Suc k"
proof (induction k arbitrary: n)
  case 0
  then show ?case by (subst base_digits.simps) simp
next
  case (Suc k)
  then have "n div b < b ^ Suc k" by (simp add: less_mult_imp_div_less mult.commute)
  then show ?case using Suc by (subst base_digits.simps) simp
qed

lemma integer_value_bound:
  assumes "bits < 2 ^ 64"
  shows "nat \<bar>integer_value cv bits\<bar> < 2 ^ 64"
proof -
  have "bits mod 2 ^ k < 2 ^ 64" for k by (rule le_less_trans [OF mod_less_eq_dividend assms])
  moreover have "nat \<bar>signed_number k bits\<bar> < 2 ^ 64" if "k = 8 \<or> k = 16 \<or> k = 32 \<or> k = 64" for k
    using that \<open>bits mod 2 ^ k < 2 ^ 64\<close> by (auto simp: signed_number_def Let_def)
  moreover have "integer_width l = 8 \<or> integer_width l = 16 \<or> integer_width l = 32 \<or> integer_width l = 64" for l
    by (simp add: integer_width_def split: length_modifier.split)
  ultimately show ?thesis by (auto simp: integer_value_def)
qed

lemma length_sprintf_integer:
  assumes "nat \<bar>value\<bar> < 2 ^ 64"
  shows "length (sprintf_integer cv value) \<le>
    max (cv_width cv) (29 + (case cv_precision cv of None \<Rightarrow> 0 | Some p \<Rightarrow> p))"
proof -
  let ?n = "nat \<bar>value\<bar>" and ?p = "case cv_precision cv of None \<Rightarrow> 0 | Some p \<Rightarrow> p"
  have "(2::nat) ^ 64 \<le> 8 ^ Suc 21" "(2::nat) ^ 64 \<le> 10 ^ Suc 21" "(2::nat) ^ 64 \<le> 16 ^ Suc 21" by simp_all
  then have digits: "length (base_digits b u ?n) \<le> 22" if "b = 8 \<or> b = 10 \<or> b = 16" for b u
    using that assms length_base_digits [of 8 ?n 21 u] length_base_digits [of 10 ?n 21 u] length_base_digits [of 16 ?n 21 u]
    by auto
  define digits1 where "digits1 = (if ?n = 0 \<and> sprintf_precision cv = Some 0 then []
     else base_digits (if cv_specifier cv = CHR ''o'' then 8
       else if cv_specifier cv = CHR ''x'' \<or> cv_specifier cv = CHR ''X'' then 16 else 10) (cv_specifier cv = CHR ''X'') ?n)"
  define digits2 where "digits2 = replicate ((case sprintf_precision cv of None \<Rightarrow> 1 | Some p \<Rightarrow> p) - length digits1) (CHR ''0'') @ digits1"
  define digits3 where "digits3 = (if cv_specifier cv = CHR ''o'' \<and> CHR ''#'' \<in> set (cv_flags cv) \<and> (digits2 = [] \<or> hd digits2 \<noteq> CHR ''0'')
                    then CHR ''0'' # digits2 else digits2)"
  define prefix where "prefix = (if value < 0 then ''-''
                    else if cv_specifier cv = CHR ''d'' \<or> cv_specifier cv = CHR ''i''
                    then (if CHR ''+'' \<in> set (cv_flags cv) then ''+'' else if CHR '' '' \<in> set (cv_flags cv) then '' '' else '''')
                    else if CHR ''#'' \<in> set (cv_flags cv) \<and> ?n \<noteq> 0 \<and> cv_specifier cv = CHR ''x'' then ''0x''
                    else if CHR ''#'' \<in> set (cv_flags cv) \<and> ?n \<noteq> 0 \<and> cv_specifier cv = CHR ''X'' then ''0X'' else '''')"
  have d1: "length digits1 \<le> 22" unfolding digits1_def using digits by auto
  have "length digits2 \<le> 22 + ?p"
    using d1 unfolding digits2_def sprintf_precision_def by (auto split: option.split)
  then have d3: "length digits3 \<le> 23 + ?p" unfolding digits3_def by auto
  have pre: "length prefix \<le> 2" by (simp add: prefix_def)
  have eq: "sprintf_integer cv value = (case sprintf_width cv of (left, width) \<Rightarrow>
           if CHR ''0'' \<in> set (cv_flags cv) \<and> \<not> left \<and> sprintf_precision cv = None
           then prefix @ replicate (width - length prefix - length digits3) (CHR ''0'') @ digits3
           else pad cv (prefix @ digits3))"
    unfolding sprintf_integer_def Let_def prefix_def digits3_def digits2_def digits1_def by simp
  obtain left width where w: "sprintf_width cv = (left, width)" by (cases "sprintf_width cv")
  then have "\<not> left \<Longrightarrow> width = cv_width cv" by (auto simp: sprintf_width_def split: if_splits)
  then show ?thesis using d3 pre length_pad [of cv "prefix @ digits3"] unfolding eq w by (auto simp: max_def split: if_splits)
qed

section \<open>Reserving and writing\<close>

text \<open>A string whose block may still miss the terminator, with the text \<open>old\<close> in front.\<close>

definition string_open :: "char_buffer \<Rightarrow> byte list \<Rightarrow> bool" where
  "string_open s old \<longleftrightarrow> length (cb_block s) = cb_capacity s \<and> cb_p s \<noteq> None \<and> capacity_ok (cb_capacity s) \<and>
     cb_size s < cb_capacity s \<and> take (cb_size s) (cb_block s) = old"

lemma internal_reserve_eq:
  "string_vprint_append_internal_reserve realloc s n =
     (case string_reserve realloc s (size_add (cb_size s) n) of
        Inl e \<Rightarrow> if e = Diverges then Inl Diverges else Inr None
      | Inr s' \<Rightarrow> Inr (Some s'))"
  by (simp add: string_vprint_append_internal_reserve_def string_reserve_def Let_def split: option.split)

lemma soft_reserve_cases:
  assumes "string_inv s" and "realloc_ok realloc" and "cb_size s + n < 2 ^ 63"
  obtains (fail) "soft_reserve realloc f s n = soft_ret f ''reserve''"
  | (ok) s' where "soft_reserve realloc f s n = Inr s'" "string_open s' (string_bytes s)" "cb_size s' = cb_size s"
      "cb_size s + n < cb_capacity s'"
proof -
  have add: "size_add (cb_size s) n = cb_size s + n" using assms(3) by simp
  from assms show thesis
  proof (cases rule: string_reserve_cases)
    case fail
    then show ?thesis by (intro that(1)) (simp add: soft_reserve_def internal_reserve_eq add)
  next
    case (ok s')
    note D = string_invD [OF assms(1)]
    have "take (cb_size s) (cb_block s') = take (cb_size s) (cb_block s)"
      by (rule take_prefix [OF ok(7)]) (use D in simp)
    then show ?thesis using ok
      by (intro that(2)) (simp_all add: soft_reserve_def internal_reserve_eq add string_open_def string_bytes_def)
  qed
qed

lemma print_raw_ok:
  assumes "string_open s old" and "cb_size s + length out < cb_capacity s"
  shows "\<exists>s'. print_raw s out = Inr s' \<and> string_inv s' \<and> string_bytes s' = old @ out \<and>
    cb_size s' = cb_size s + length out"
proof -
  note O = assms(1) [unfolded string_open_def]
  let ?b = "take (cb_size s) (cb_block s) @ (out @ [NUL]) @ drop (cb_size s + length (out @ [NUL])) (cb_block s)"
  let ?s = "s\<lparr>cb_p := Some ?b, cb_size := cb_size s + length out\<rparr>"
  have "cb_capacity s \<le> 2 ^ 63" using O capacity_ok_bound by blast
  then have add: "size_add (cb_size s) (length out) = cb_size s + length out" using assms(2) by simp
  have "print_raw s out = Inr ?s" using assms O add by (simp add: print_raw_def string_store_def)
  moreover have "string_inv ?s" using O assms(2) by (auto simp: string_inv_def nth_append)
  moreover have "length old = cb_size s" using O by auto
  then have "string_bytes ?s = old @ out" using O assms(2) by (simp add: string_bytes_def)
  ultimately show ?thesis by auto
qed

lemma print_estimated_cases:
  assumes "string_inv s" and "realloc_ok realloc" and "length out \<le> max (cv_width cv) est"
    and "length out < 2 ^ 31" and "cb_size s + max (cv_width cv) est < 2 ^ 63"
  obtains (fail) "print_estimated realloc f s cv est out = soft_ret f ''reserve''"
  | (ok) s' where "print_estimated realloc f s cv est out = Inr s'" "string_inv s'"
      "string_bytes s' = string_bytes s @ out" "cb_size s' = cb_size s + length out"
proof -
  have est: "(if cv_width cv > est then cv_width cv else est) = max (cv_width cv) est" by (simp add: max_def)
  from assms(1,2,5) show thesis
  proof (cases rule: soft_reserve_cases [where f = f])
    case fail
    then show ?thesis by (intro that(1)) (simp only: print_estimated_def Let_def est soft_ret_def pret_simps)
  next
    case (ok s1)
    have "cb_size s1 + length out < cb_capacity s1" using ok assms(3) by simp
    from print_raw_ok [OF ok(2) this] obtain s2 where "print_raw s1 out = Inr s2" "string_inv s2"
      "string_bytes s2 = string_bytes s @ out" "cb_size s2 = cb_size s1 + length out" by blast
    then show ?thesis using ok assms(4)
      by (intro that(2) [of s2]) (simp_all only: print_estimated_def Let_def est pret_simps if_True)
  qed
qed

lemma compact_ok:
  assumes "string_inv s" and "realloc_ok realloc"
  shows "\<exists>s'. string_vprint_append_internal_compact realloc s = Inr s' \<and> string_inv s' \<and>
    string_bytes s' = string_bytes s \<and> cb_size s' = cb_size s"
proof (cases "cb_size s = 0")
  case True
  then show ?thesis using string_inv_zero
    by (simp add: string_vprint_append_internal_compact_def string_finalize_def string_bytes_def)
      (simp add: zero_string_def)
next
  case False
  note D = string_invD [OF assms(1)]
  have add: "size_add (cb_size s) 1 = cb_size s + 1" using D(5) by simp
  have "capacity_ok 0" "cb_size s + 1 \<le> 2 ^ 63" using D(5) by simp_all
  then obtain nc where nc: "grow (cb_size s + 1) (start_capacity 0) = Some nc" "capacity_ok nc" "cb_size s + 1 \<le> nc"
    by (rule grow_ok) blast
  then have grow: "grow (size_add (cb_size s) 1) 1 = Some nc" unfolding add by (simp add: start_capacity_def)
  show ?thesis
  proof (cases "nc < cb_capacity s")
    case shrink: True
    show ?thesis
    proof (cases "realloc (cb_p s) nc")
      case None
      then show ?thesis using False grow assms(1) by (simp add: string_vprint_append_internal_compact_def)
    next
      case (Some p)
      obtain xs where xs: "cb_p s = Some xs" "cb_block s = xs" using D(7) shrink by (auto simp: cb_block_def)
      have p: "length p = nc" "p = take nc xs"
        using realloc_okD(1) [OF assms(2) Some] realloc_okD(2) [OF assms(2), of xs nc p] Some xs D(1) shrink by auto
      have inv: "string_inv (s\<lparr>cb_capacity := nc, cb_p := Some p\<rparr>)"
        using nc(2,3) p xs assms(1) False by (auto simp: string_inv_def split: if_splits)
      have "string_bytes (s\<lparr>cb_capacity := nc, cb_p := Some p\<rparr>) = string_bytes s"
        using nc(3) p xs by (simp add: string_bytes_def min_absorb1)
      then show ?thesis using False grow shrink Some inv by (simp add: string_vprint_append_internal_compact_def)
    qed
  next
    case False
    then show ?thesis using \<open>cb_size s \<noteq> 0\<close> grow assms(1) by (simp add: string_vprint_append_internal_compact_def)
  qed
qed

section \<open>One conversion\<close>

definition float_ok :: "(conversion \<Rightarrow> argument \<Rightarrow> byte list) \<Rightarrow> bool" where
  "float_ok sprintf_float \<longleftrightarrow>
     (\<forall>cv a. length (sprintf_float cv a) \<le>
        max (cv_width cv) (512 + (case cv_precision cv of None \<Rightarrow> 0 | Some p \<Rightarrow> p)))"

text \<open>The strings among the arguments are well-formed; the sum of their sizes.\<close>

fun argument_ok :: "argument \<Rightarrow> bool" where
  "argument_ok (VA_string s) \<longleftrightarrow> string_inv s"
| "argument_ok _ \<longleftrightarrow> True"

fun argument_size :: "argument \<Rightarrow> nat" where
  "argument_size (VA_string s) = cb_size s"
| "argument_size _ = 0"

definition arguments_size :: "argument list \<Rightarrow> nat" where
  "arguments_size args = sum_list (map argument_size args)"

definition conversion_bounded :: "conversion \<Rightarrow> bool" where
  "conversion_bounded cv \<longleftrightarrow> cv_width cv < 2 ^ 32 \<and> (\<forall>p. cv_precision cv = Some p \<longrightarrow> p < 2 ^ 32)"

text \<open>The outcome of a step: no memory, or the string with the text behind it.\<close>

definition printed :: "bool \<Rightarrow> printing result \<Rightarrow> char_buffer \<Rightarrow> byte list \<Rightarrow> argument list \<Rightarrow> int list \<Rightarrow> bool" where
  "printed f r s out args counts \<longleftrightarrow>
     r = soft_ret f ''reserve'' \<or>
     (\<exists>s'. r = Inr (s', args, counts) \<and> string_inv s' \<and> string_bytes s' = string_bytes s @ out \<and>
        cb_size s' = cb_size s + length out)"

lemma printed_estimated:
  assumes "string_inv s" and "realloc_ok realloc" and "length out \<le> max (cv_width cv) est"
    and "length out < 2 ^ 31" and "cb_size s + max (cv_width cv) est < 2 ^ 63"
  shows "printed f (pret (print_estimated realloc f s cv est out) (\<lambda>s. Inr (s, args, counts))) s out args counts"
  using assms
proof (cases rule: print_estimated_cases [where f = f])
  case fail
  then show ?thesis unfolding fail by (simp add: printed_def soft_ret_def)
next
  case (ok s')
  then show ?thesis by (simp add: printed_def)
qed

lemma string_get_length:
  assumes "string_inv s"
  shows "length (string_get s) \<le> cb_size s"
proof (cases "cb_p s")
  case (Some b)
  have "length (takeWhile (\<lambda>c. c \<noteq> NUL) b) \<le> cb_size s" if "b ! cb_size s = NUL" "cb_size s < length b"
  proof (rule ccontr)
    assume "\<not> length (takeWhile (\<lambda>c. c \<noteq> NUL) b) \<le> cb_size s"
    then show False using that set_takeWhileD [OF nth_mem [of "cb_size s" "takeWhile (\<lambda>c. c \<noteq> NUL) b"]]
      by (simp add: takeWhile_nth)
  qed
  then show ?thesis using assms Some string_invD(7) [OF assms]
    by (auto simp: string_get_def string_inv_def cb_block_def split: if_splits)
qed (simp add: string_get_def)

lemma length_sprintf_text:
  assumes "conversion_bounded cv" and "length (sprintf_text cv t) < 2 ^ 31"
  shows "length (sprintf_text cv t) \<le> max (cv_width cv) (case cv_precision cv of Some p \<Rightarrow> p | None \<Rightarrow> length t)"
    and "length (sprintf_text cv t) \<le> max (cv_width cv) (length t)"
  using assms length_pad [of cv] unfolding sprintf_text_def
  by (auto simp: sprintf_precision_def max_def split: option.splits if_splits)
    (fastforce intro: order_trans [OF length_pad] simp: max_def)+

lemma print_conversion_int:
  assumes "integer_specifier (cv_specifier cv)" and "integer_length (cv_length cv)"
  shows "print_conversion sf realloc f cv st = print_integer realloc f cv st"
proof -
  have "cv_specifier cv \<noteq> CHR ''c''" "cv_specifier cv \<noteq> CHR ''s''"
    using assms(1) unfolding integer_specifier_def by (elim disjE; simp)+
  then show ?thesis using assms by (simp only: print_conversion_def Let_def simp_thms if_True if_False)
qed

lemma print_conversion_float:
  assumes "float_specifier (cv_specifier cv)" and "cv_length cv = LENGTH_NONE \<or> cv_length cv = LENGTH_LONG_DOUBLE"
  shows "print_conversion sf realloc f cv st = print_float sf realloc f cv st"
proof -
  have "cv_specifier cv \<noteq> CHR ''c''" "cv_specifier cv \<noteq> CHR ''s''" "\<not> integer_specifier (cv_specifier cv)"
    using assms(1) unfolding float_specifier_def integer_specifier_def by (elim disjE; simp)+
  then show ?thesis using assms by (simp only: print_conversion_def Let_def simp_thms if_True if_False)
qed

lemma print_conversion_ok:
  assumes "string_inv s" and "realloc_ok realloc" and "float_ok sf" and "conversion_bounded cv"
    and "list_all argument_ok args" and conv: "conversion_text sf cv args (cb_size s) = Some (out, args', cs)"
    and small: "length out < 2 ^ 31" and room: "cb_size s + arguments_size args + 2 ^ 34 < 2 ^ 63"
  shows "printed f (print_conversion sf realloc f cv (s, args, counts)) s out args' (counts @ cs)"
proof -
  obtain a rest where args: "args = a # rest" using conv by (cases args) (simp_all add: conversion_text_def Let_def)
  note step = printed_estimated [OF assms(1,2) _ small, where f = f and cv = cv and args = rest and counts = counts]
  define p where "p = (case cv_precision cv of None \<Rightarrow> 0 | Some p \<Rightarrow> p)"
  have bounds: "cv_width cv < 2 ^ 32" "p < 2 ^ 32"
    using assms(4) by (auto simp: conversion_bounded_def p_def split: option.split)
  have add: "size_add k p = k + p" if "k \<le> 512" for k using that bounds by simp
  have est: "(case cv_precision cv of None \<Rightarrow> k | Some p \<Rightarrow> size_add k p) = k + p" if "k \<le> 512" for k
    using add [OF that] by (auto simp: p_def split: option.splits)
  have est29: "(case cv_precision cv of None \<Rightarrow> 29 | Some p \<Rightarrow> size_add 29 p) = 29 + p" by (rule est) simp
  have est512: "(case cv_precision cv of None \<Rightarrow> 512 | Some p \<Rightarrow> size_add 512 p) = 512 + p" by (rule est) simp
  have fits: "cb_size s + max (cv_width cv) k < 2 ^ 63" if "k \<le> 2 ^ 33" for k
    using that room bounds by simp
  have size: "unat w < 2 ^ 64" for w :: "32 word" using unsigned_less [of w] by (rule less_trans) simp
  have size': "unat w < 2 ^ 64" for w :: "64 word" using unsigned_less [of w] by simp
  note bits = integer_value_bound [OF size, of cv] integer_value_bound [OF size', of cv]
  show ?thesis
  proof (cases a)
    case (VA_int v)
    let ?o = "sprintf_integer cv (integer_value cv (unat v))"
    consider (c) "cv_specifier cv = CHR ''c''" "cv_length cv = LENGTH_NONE" "out = sprintf_char cv (char_of (unat v))"
        "args' = rest" "cs = []"
      | (int) "integer_specifier (cv_specifier cv)" "integer_length (cv_length cv)" "out = ?o" "args' = rest" "cs = []"
        "\<not> (cv_length cv = LENGTH_LONG \<or> cv_length cv = LENGTH_MAX \<or> cv_length cv = LENGTH_SIZE \<or> cv_length cv = LENGTH_PTRDIFF)"
      using conv VA_int by (auto simp: args conversion_text_def Let_def integer_length_def split: if_splits)
    then show ?thesis
    proof cases
      case c
      then have "printed f (pret (print_estimated realloc f s cv 1 out) (\<lambda>s. Inr (s, rest, counts))) s out rest counts"
        using length_pad [of cv "[char_of (unat v)]"] by (intro step fits) (simp_all add: sprintf_char_def)
      then show ?thesis using c VA_int by (simp add: args print_conversion_def print_char_def)
    next
      case int
      then have "printed f (pret (print_estimated realloc f s cv (29 + p) out) (\<lambda>s. Inr (s, rest, counts))) s out rest counts"
        using length_sprintf_integer [OF bits(1), of cv v] bounds by (intro step fits) (simp_all add: p_def)
      then show ?thesis using int VA_int
        by (simp add: args print_conversion_int print_integer_def est29)
    qed
  next
    case (VA_long v)
    let ?o = "sprintf_integer cv (integer_value cv (unat v))"
    have int: "integer_specifier (cv_specifier cv)" "integer_length (cv_length cv)" "out = ?o" "args' = rest" "cs = []"
        "cv_length cv = LENGTH_LONG \<or> cv_length cv = LENGTH_MAX \<or> cv_length cv = LENGTH_SIZE \<or> cv_length cv = LENGTH_PTRDIFF"
      using conv VA_long by (auto simp: args conversion_text_def Let_def integer_length_def split: if_splits)
    then have "printed f (pret (print_estimated realloc f s cv (29 + p) out) (\<lambda>s. Inr (s, rest, counts))) s out rest counts"
      using length_sprintf_integer [OF bits(2), of cv v] bounds by (intro step fits) (simp_all add: p_def)
    then show ?thesis using int VA_long
      by (simp add: args print_conversion_int print_integer_def est29)
  next
    case (VA_double v)
    have fl: "float_specifier (cv_specifier cv)" "cv_length cv = LENGTH_NONE" "out = sf cv a" "args' = rest" "cs = []"
      using conv VA_double by (auto simp: args conversion_text_def Let_def split: if_splits)
    then have "printed f (pret (print_estimated realloc f s cv (512 + p) out) (\<lambda>s. Inr (s, rest, counts))) s out rest counts"
      using assms(3) bounds by (intro step fits) (simp_all add: p_def float_ok_def)
    then show ?thesis using fl VA_double by (simp add: args print_conversion_float print_float_def est512)
  next
    case (VA_long_double v)
    have fl: "float_specifier (cv_specifier cv)" "cv_length cv = LENGTH_LONG_DOUBLE" "out = sf cv a" "args' = rest" "cs = []"
      using conv VA_long_double by (auto simp: args conversion_text_def Let_def split: if_splits)
    then have "printed f (pret (print_estimated realloc f s cv (512 + p) out) (\<lambda>s. Inr (s, rest, counts))) s out rest counts"
      using assms(3) bounds by (intro step fits) (simp_all add: p_def float_ok_def)
    then show ?thesis using fl VA_long_double by (simp add: args print_conversion_float print_float_def est512)
  next
    case (VA_text t)
    define e where "e = (case cv_precision cv of Some p \<Rightarrow> p | None \<Rightarrow> length t)"
    have out: "out = sprintf_text cv t" and c: "cv_specifier cv = CHR ''s''" "cv_length cv = LENGTH_NONE" "args' = rest" "cs = []"
      using conv VA_text by (auto simp: args conversion_text_def Let_def split: if_splits)
    have "e \<le> 2 ^ 33" if "cv_precision cv \<noteq> None"
      using that assms(4) by (auto simp: e_def conversion_bounded_def)
    moreover have "e < 2 ^ 31" if "cv_precision cv = None"
      using that small out by (auto simp: e_def sprintf_text_def sprintf_precision_def pad_def split: prod.splits if_splits)
    ultimately have "e \<le> 2 ^ 33" by fastforce
    then have "printed f (pret (print_estimated realloc f s cv e out) (\<lambda>s. Inr (s, rest, counts))) s out rest counts"
      using length_sprintf_text(1) [OF assms(4)] small out by (intro step fits) (simp_all add: e_def)
    then show ?thesis using VA_text c by (simp add: args print_conversion_def print_text_def e_def out)
  next
    case (VA_string t)
    have out: "out = sprintf_text cv (string_get t)" and c: "cv_specifier cv = CHR ''p''" "cv_length cv = LENGTH_NONE"
        "args' = rest" "cs = []"
      using conv VA_string by (auto simp: args conversion_text_def Let_def split: if_splits)
    have t: "string_inv t" using assms(5) VA_string by (simp add: args)
    have "length out \<le> max (cv_width cv) (cb_size t)"
      using length_sprintf_text(2) [OF assms(4)] small string_get_length [OF t] by (force simp: out)
    moreover have "cb_size s + max (cv_width cv) (cb_size t) < 2 ^ 63"
      using room bounds VA_string by (simp add: args arguments_size_def)
    ultimately have "printed f (pret (print_estimated realloc f s cv (cb_size t) out) (\<lambda>s. Inr (s, rest, counts))) s out rest counts"
      by (intro step)
    then show ?thesis using VA_string c
      by (simp add: args print_conversion_def print_string_def integer_specifier_def float_specifier_def out)
  next
    case VA_pointer
    then show ?thesis using conv assms(1)
      by (auto simp: args conversion_text_def Let_def print_conversion_def print_count_def printed_def
          integer_specifier_def float_specifier_def split: if_splits)
  qed (use conv in \<open>simp_all add: args conversion_text_def Let_def split: if_splits\<close>)
qed

section \<open>The whole format\<close>

lemma parse_width_args:
  assumes "parse_width fmt args = Inr (w, fmt', args')"
  shows "w < 2 ^ 32" "\<exists>k. args' = drop k args"
proof -
  have bound: "unat v < 2 ^ 32" "n mod 4294967296 < 2 ^ 32" for v :: "32 word" and n :: nat
    using unsigned_less [of v] by simp_all
  show "w < 2 ^ 32" using assms bound
    by (auto simp: parse_width_def strtoul_def split: if_splits list.splits argument.splits)
  have "args' = drop 0 args \<or> args' = drop 1 args"
    using assms by (auto simp: parse_width_def split: if_splits list.splits argument.splits prod.splits)
  then show "\<exists>k. args' = drop k args" by blast
qed

lemma parse_precision_args:
  assumes "parse_precision fmt args = Inr (p, fmt', args')"
  shows "p = Some n \<Longrightarrow> n < 2 ^ 32" "\<exists>k. args' = drop k args"
proof -
  have bound: "unat v < 2 ^ 32" "n mod 4294967296 < 2 ^ 32" for v :: "32 word" and n :: nat
    using unsigned_less [of v] by simp_all
  show "n < 2 ^ 32" if "p = Some n" using assms bound that
    by (auto simp: parse_precision_def strtoul_def precision_of_def Let_def
        split: if_splits list.splits argument.splits)
  have "args' = drop 0 args \<or> args' = drop 1 args"
    using assms by (auto simp: parse_precision_def Let_def split: if_splits list.splits argument.splits prod.splits)
  then show "\<exists>k. args' = drop k args" by blast
qed

lemma parse_conversion_args:
  assumes "parse_conversion fmt args = Inr (cv, fmt', args')"
  shows "conversion_bounded cv" "\<exists>k. args' = drop k args"
proof -
  from assms obtain flags f1 w f2 a2 p f3 l f4 where parse: "parse_width f1 args = Inr (w, f2, a2)"
      "parse_precision f2 a2 = Inr (p, f3, args')"
    and cv: "cv = \<lparr>cv_flags = flags, cv_width = w, cv_precision = p, cv_length = l, cv_specifier = peek f4\<rparr>"
    by (rule parse_conversionE)
  show "conversion_bounded cv"
    using parse_width_args(1) [OF parse(1)] parse_precision_args(1) [OF parse(2)]
    by (simp add: conversion_bounded_def cv)
  obtain k j where "a2 = drop k args" "args' = drop j a2"
    using parse_width_args(2) [OF parse(1)] parse_precision_args(2) [OF parse(2)] by blast
  then have "args' = drop (k + j) args" by (simp add: add.commute)
  then show "\<exists>k. args' = drop k args" ..
qed

lemma conversion_text_args:
  "conversion_text sf cv args n = Some (out, args', cs) \<Longrightarrow> args' = drop 1 args"
  by (cases args) (auto simp: conversion_text_def Let_def split: if_splits argument.splits)

lemma arguments_size_drop: "arguments_size (drop k args) \<le> arguments_size args"
proof -
  have "arguments_size args = arguments_size (take k args) + arguments_size (drop k args)"
    unfolding arguments_size_def by (metis append_take_drop_id map_append sum_list_append)
  then show ?thesis by simp
qed

lemma arguments_ok_drop: "list_all argument_ok args \<Longrightarrow> list_all argument_ok (drop k args)"
  by (meson in_set_dropD list_all_iff)

lemma printed_append:
  assumes "printed f r s out args counts"
    and "\<And>s'. \<lbrakk>string_inv s'; string_bytes s' = string_bytes s @ out; cb_size s' = cb_size s + length out\<rbrakk> \<Longrightarrow>
      printed f (k (s', args, counts)) s' out' args' counts'"
  shows "printed f (pret r k) s (out @ out') args' counts'"
  using assms by (fastforce simp: printed_def soft_ret_def)

lemma reserve_print:
  assumes "string_inv s" and "realloc_ok realloc" and "cb_size s + length out < 2 ^ 63"
    and "\<And>s'. \<lbrakk>string_inv s'; string_bytes s' = string_bytes s @ out; cb_size s' = cb_size s + length out\<rbrakk> \<Longrightarrow>
      printed f (k s') s' out' args' counts'"
  shows "printed f (pret (soft_reserve realloc f s (length out)) (\<lambda>s. pret (print_raw s out) k)) s (out @ out') args' counts'"
  using assms(1-3)
proof (cases rule: soft_reserve_cases [where f = f])
  case fail
  then show ?thesis by (simp add: printed_def soft_ret_def)
next
  case (ok s1)
  have "cb_size s1 + length out < cb_capacity s1" using ok by simp
  from print_raw_ok [OF ok(2) this] obtain s2 where "print_raw s1 out = Inr s2" "string_inv s2"
    "string_bytes s2 = string_bytes s @ out" "cb_size s2 = cb_size s1 + length out" by blast
  then show ?thesis using ok assms(4) [of s2] by (auto simp: printed_def)
qed

lemma vprint_append_ok:
  assumes "realloc_ok realloc"
  shows "float_ok sf \<Longrightarrow> format_text sf fmt args n = Some (t, args', cs) \<Longrightarrow> string_inv s \<Longrightarrow> cb_size s = n \<Longrightarrow>
    list_all argument_ok args \<Longrightarrow> n + length t + arguments_size args + 2 ^ 34 < 2 ^ 63 \<Longrightarrow>
    printed f (string_internal_vprint_append sf realloc f fmt (s, args, counts)) s t args' (counts @ cs)"
proof (induction sf fmt args n arbitrary: t args' cs s counts rule: format_text.induct)
  case (1 sf fmt args n)
  note fl = "1.prems"(1) and conv = "1.prems"(2) and inv = "1.prems"(3) and n = "1.prems"(4) and ok = "1.prems"(5)
    and room = "1.prems"(6)
  let ?P = "\<lambda>c. c \<noteq> CHR ''%''"
  define plain percent where "plain = takeWhile ?P fmt" and "percent = dropWhile ?P fmt"
  define body where "body = (if percent = [] then Some (plain, args, [])
      else if peek (drop 1 percent) = CHR ''%''
      then map_option (\<lambda>(t, args, counts). (plain @ ''%'' @ t, args, counts))
             (format_text sf (drop 2 percent) args (n + length plain + 1))
      else case parse_conversion (drop 1 percent) args of
             Inl e \<Rightarrow> None
           | Inr (cv, fmt, args) \<Rightarrow>
               (case conversion_text sf cv args (n + length plain) of
                  None \<Rightarrow> None
                | Some (out, args, counts) \<Rightarrow>
                    if length out \<ge> 2 ^ 31 then None
                    else map_option (\<lambda>(t, args, counts'). (plain @ out @ t, args, counts @ counts'))
                           (format_text sf fmt args (n + length plain + length out))))"
  have body: "body = Some (t, args', cs)" if "fmt \<noteq> []"
    using conv that unfolding format_text.simps [of sf fmt] Let_def body_def plain_def percent_def by (simp only: if_False)
  show ?case
  proof (cases "fmt = []")
    case True
    then show ?thesis using conv inv by (simp add: format_text.simps string_internal_vprint_append.simps printed_def)
  next
    case False
    define rest where "rest = (\<lambda>s. if percent = []
        then pret (string_vprint_append_internal_compact realloc s) (\<lambda>s. Inr (s, args, counts))
        else if peek (drop 1 percent) = CHR ''%''
        then pret (soft_reserve realloc f s 1) (\<lambda>s. pret (print_raw s ''%'') (\<lambda>s.
             string_internal_vprint_append sf realloc f (drop 2 percent) (s, args, counts)))
        else case parse_conversion (drop 1 percent) args of
               Inl e \<Rightarrow> Inl e
             | Inr (cv, fmt, args) \<Rightarrow>
                 pret (print_conversion sf realloc f cv (s, args, counts)) (\<lambda>st.
                 string_internal_vprint_append sf realloc f fmt st))"
    have code: "string_internal_vprint_append sf realloc f fmt (s, args, counts) =
        pret (soft_reserve realloc f s (length plain)) (\<lambda>s. pret (print_raw s plain) rest)"
      using False by (subst string_internal_vprint_append.simps)
        (simp add: Let_def plain_def percent_def rest_def cong: if_cong sum.case_cong)
    obtain t' where t': "t = plain @ t'"
      using body [OF False] by (auto simp: body_def split: if_splits sum.splits option.splits)
    have "cb_size s + length plain < 2 ^ 63" using room n t' by simp
    with inv assms(1) show ?thesis unfolding code t'
    proof (rule reserve_print)
      fix s1
      assume s1: "string_inv s1" "string_bytes s1 = string_bytes s @ plain" "cb_size s1 = cb_size s + length plain"
      show "printed f (rest s1) s1 t' args' (counts @ cs)"
      proof (cases "percent = []")
        case True
        then have "t' = []" "args' = args" "cs = []"
          using body [OF False] t' by (simp_all add: body_def)
        then show ?thesis using True compact_ok [OF s1(1) assms(1)] by (auto simp: rest_def printed_def)
      next
        case some: False
        show ?thesis
        proof (cases "peek (drop 1 percent) = CHR ''%''")
          case True
          then obtain t2 where t2: "format_text sf (drop 2 percent) args (n + length plain + 1) = Some (t2, args', cs)" "t' = ''%'' @ t2"
            using body [OF False] some t' by (auto simp: body_def)
          note IH = "1.IH"(1) [OF False plain_def percent_def refl some True fl t2(1)]
          have "rest s1 = pret (soft_reserve realloc f s1 (length ''%'')) (\<lambda>s. pret (print_raw s ''%'') (\<lambda>s.
             string_internal_vprint_append sf realloc f (drop 2 percent) (s, args, counts)))"
            using some True by (simp add: rest_def)
          moreover have "cb_size s1 + length ''%'' < 2 ^ 63" using room n t' t2(2) s1(3) by simp
          with s1(1) assms(1) have "printed f (pret (soft_reserve realloc f s1 (length ''%'')) (\<lambda>s. pret (print_raw s ''%'')
              (\<lambda>s. string_internal_vprint_append sf realloc f (drop 2 percent) (s, args, counts)))) s1 (''%'' @ t2) args' (counts @ cs)"
          proof (rule reserve_print)
            fix s2
            assume "string_inv s2" "cb_size s2 = cb_size s1 + length ''%''"
            then show "printed f (string_internal_vprint_append sf realloc f (drop 2 percent) (s2, args, counts)) s2 t2 args' (counts @ cs)"
              using room n t' t2(2) s1(3) ok by (intro IH) simp_all
          qed
          ultimately show ?thesis unfolding t2(2) by simp
        next
          case conversion: False
          obtain cv fmt1 args1 out args2 cs2 t2 cs3 where parse: "parse_conversion (drop 1 percent) args = Inr (cv, fmt1, args1)"
            and out: "conversion_text sf cv args1 (n + length plain) = Some (out, args2, cs2)" "\<not> 2 ^ 31 \<le> length out"
            and t2: "format_text sf fmt1 args2 (n + length plain + length out) = Some (t2, args', cs3)"
              "t' = out @ t2" "cs = cs2 @ cs3"
            using body [OF False] some conversion t' by (auto simp: body_def split: if_splits sum.splits option.splits)
          note IH = "1.IH"(2) [OF False plain_def percent_def refl some conversion parse refl refl out(1) refl refl out(2) fl t2(1)]
          note A = parse_conversion_args [OF parse]
          obtain k where k: "args1 = drop k args" using A(2) by blast
          have args2: "args2 = drop 1 args1" by (rule conversion_text_args [OF out(1)])
          have oks: "list_all argument_ok args1" "list_all argument_ok args2"
            using ok arguments_ok_drop unfolding k args2 by blast+
          have sizes: "arguments_size args1 \<le> arguments_size args" "arguments_size args2 \<le> arguments_size args"
            unfolding args2 using arguments_size_drop order_trans unfolding k by blast+
          have "rest s1 = pret (print_conversion sf realloc f cv (s1, args1, counts)) (\<lambda>st.
              string_internal_vprint_append sf realloc f fmt1 st)"
            using some conversion parse by (simp add: rest_def)
          moreover have "printed f (print_conversion sf realloc f cv (s1, args1, counts)) s1 out args2 (counts @ cs2)"
            using s1(1) assms fl A(1) oks(1)
          proof (rule print_conversion_ok)
            show "conversion_text sf cv args1 (cb_size s1) = Some (out, args2, cs2)" using out(1) s1(3) n by simp
            show "length out < 2 ^ 31" using out(2) by simp
            show "cb_size s1 + arguments_size args1 + 2 ^ 34 < 2 ^ 63" using room n t' s1(3) sizes(1) by simp
          qed
          then have "printed f (pret (print_conversion sf realloc f cv (s1, args1, counts)) (\<lambda>st.
              string_internal_vprint_append sf realloc f fmt1 st)) s1 (out @ t2) args' (counts @ cs)"
          proof (rule printed_append)
            fix s2
            assume s2: "string_inv s2" "cb_size s2 = cb_size s1 + length out"
            have "printed f (string_internal_vprint_append sf realloc f fmt1 (s2, args2, counts @ cs2)) s2 t2 args'
                ((counts @ cs2) @ cs3)"
              using s2 room n t' t2(2) s1(3) oks(2) sizes(2) by (intro IH) simp_all
            then show "printed f (string_internal_vprint_append sf realloc f fmt1 (s2, args2, counts @ cs2)) s2 t2 args' (counts @ cs)"
              by (simp add: t2(3))
          qed
          ultimately show ?thesis unfolding t2(2) by simp
        qed
      qed
    qed
  qed
qed

lemma string_print_append_spec:
  assumes "string_inv s" and "realloc_ok realloc" and "float_ok sf" and "list_all argument_ok args"
    and "format_text sf fmt args (cb_size s) = Some (t, args', cs)"
    and "cb_size s + length t + arguments_size args + 2 ^ 34 < 2 ^ 63"
  shows "case string_print_append sf realloc s fmt args of
      Inl e \<Rightarrow> e = Failed ''reserve''
    | Inr s' \<Rightarrow> string_inv s' \<and> string_bytes s' = string_bytes s @ t \<and> cb_size s' = cb_size s + length t"
  using vprint_append_ok [OF assms(2,3,5,1) refl assms(4,6), of False "[]"]
  by (auto simp: string_print_append_def printed_def soft_ret_def)

section \<open>The copy of a conversion\<close>

lemma parse_flags_distinct:
  assumes "{CHR ''#'', CHR ''0'', CHR ''-'', CHR '' '', CHR ''+''} \<subseteq> S"
  shows "distinct flags \<Longrightarrow> set flags \<subseteq> S \<Longrightarrow> parse_flags flags fmt = (flags', fmt') \<Longrightarrow>
     distinct flags' \<and> set flags' \<subseteq> S"
proof (induction flags fmt arbitrary: flags' rule: parse_flags.induct)
  case (2 flags c fmt)
  let ?f = "c = CHR ''#'' \<or> c = CHR ''0'' \<or> c = CHR ''-'' \<or> c = CHR '' '' \<or> c = CHR ''+''"
  show ?case
  proof (cases ?f)
    case True
    then have "c \<in> S" using assms by fast
    then have "distinct (if c \<in> set flags then flags else flags @ [c])"
      "set (if c \<in> set flags then flags else flags @ [c]) \<subseteq> S" using 2(2,3) by simp_all
    then show ?thesis using 2(1) [OF True] 2(4) unfolding parse_flags.simps if_P [OF True] by blast
  next
    case False
    then show ?thesis using 2(2,3,4) unfolding parse_flags.simps if_not_P [OF False] by blast
  qed
qed simp

lemma format_copy_bound:
  assumes "parse_conversion fmt args = Inr (cv, fmt', args')"
  shows "length (format_copy cv) \<le> 12"
proof -
  from assms obtain flags f1 where flags: "parse_flags [] fmt = (flags, f1)" "cv_flags cv = flags"
    by (rule parse_conversionE) auto
  let ?S = "{CHR ''#'', CHR ''0'', CHR ''-'', CHR '' '', CHR ''+''}"
  have "distinct flags" "set flags \<subseteq> ?S" using parse_flags_distinct [OF subset_refl _ _ flags(1)] by simp_all
  then have "length flags \<le> card ?S" by (metis card_mono distinct_card finite.emptyI finite.insertI)
  also have "card ?S = 5" by simp
  finally show ?thesis using flags(2)
    by (simp add: format_copy_def length_copy_def split: length_modifier.split)
qed

lemma replicate_2: "replicate 2 x = [x, x]"
  by (simp add: numeral_2_eq_2)

lemma example_text: "format_text (\<lambda>_ _. []) ''%05d%%'' [VA_int (- 42)] 0 = Some (''-0042%'', [], [])"
proof -
  let ?cv = "\<lparr>cv_flags = ''0'', cv_width=5, cv_precision=None, cv_length=LENGTH_NONE,cv_specifier=CHR ''d''\<rparr>"
  have parse: "parse_conversion ''05d%%'' [VA_int (- 42)] = Inr (?cv, ''%%'', [VA_int (- 42)])" 
    by (simp add: parse_conversion_def parse_width_def parse_precision_def parse_length_def strtoul_def
        peek_def is_digit_def decimal_def)
  have "integer_value ?cv (unat (-42::32 word)) = -42"
    by (simp add: integer_value_def integer_width_def signed_number_def)
  moreover have d: "base_digits 10 False 42 = ''42''" by (simp add: base_digits.simps base_digit_def char_of_def bit_Suc_0_iff) 
  have "sprintf_integer ?cv (-42) = ''-0042''"
    by (simp add: sprintf_integer_def sprintf_precision_def sprintf_width_def d replicate_2)
  ultimately have conv: "conversion_text (\<lambda>_ _. []) ?cv [VA_int (- 42)] 0 = Some (''-0042'', [], [])"
    by (simp add: conversion_text_def integer_specifier_def)
  show ?thesis by (simp add: format_text.simps peek_def parse conv)
qed

section \<open>Properties\<close>

text \<open>
  C37: the printer. When a format and its arguments stand for \<open>t\<close> (by the reference
  \<open>format_text\<close>), \<^verbatim>\<open>string_print_append\<close> appends exactly \<open>t\<close> to the string, or reports that
  there was no memory: the estimates suffice, so that \<^verbatim>\<open>sprintf\<close> never writes behind the
  block, and the string stays well-formed.
\<close>

theorem string_print_append_correct:
  assumes "string_inv s" and "realloc_ok realloc" and "float_ok sf" and "list_all argument_ok args"
    and "format_text sf fmt args (cb_size s) = Some (t, args', cs)"
    and "cb_size s + length t + arguments_size args + 2 ^ 34 < 2 ^ 63"
  shows "case string_print_append sf realloc s fmt args of
      Inl e \<Rightarrow> e = Failed ''reserve''
    | Inr s' \<Rightarrow> string_inv s' \<and> string_bytes s' = string_bytes s @ t \<and> cb_size s' = cb_size s + length t"
  using assms by (rule string_print_append_spec)

lemma string_print_append_correct_witness:
  "case string_print_append (\<lambda>_ _. []) realloc_zero zero_string ''%05d%%'' [VA_int (- 42)] of
      Inl e \<Rightarrow> e = Failed ''reserve''
    | Inr s' \<Rightarrow> string_inv s' \<and> string_bytes s' = ''-0042%'' \<and> cb_size s' = 6"
proof -
  have z: "string_bytes zero_string = []" "cb_size zero_string = 0" by (simp_all add: zero_string_def string_bytes_def)
  have "case string_print_append (\<lambda>_ _. []) realloc_zero zero_string ''%05d%%'' [VA_int (- 42)] of
      Inl e \<Rightarrow> e = Failed ''reserve''
    | Inr s' \<Rightarrow> string_inv s' \<and> string_bytes s' = string_bytes zero_string @ ''-0042%'' \<and>
        cb_size s' = cb_size zero_string + length ''-0042%''"
    using string_inv_zero realloc_ok_zero
  proof (rule string_print_append_correct)
    show "format_text (\<lambda>_ _. []) ''%05d%%'' [VA_int (- 42)] (cb_size zero_string) = Some (''-0042%'', [], [])"
      by (simp add: z example_text)
  qed (simp_all add: z float_ok_def arguments_size_def)
  then show ?thesis by (simp add: z split: sum.splits)
qed

text \<open>
  \<^verbatim>\<open>format_copy\<close>, the array of 16 characters in which the printer rebuilds a conversion for
  \<^verbatim>\<open>sprintf\<close>, is large enough for every conversion it accepts, its terminator included.
\<close>

theorem format_copy_fits:
  "case parse_conversion fmt args of
      Inl e \<Rightarrow> e = Undefined
    | Inr (cv, fmt', args') \<Rightarrow> length (format_copy cv) + 1 \<le> 13 \<and> length fmt' \<le> length fmt"
proof (cases "parse_conversion fmt args")
  case (Inl e)
  have "e = Undefined"
    using Inl by (auto simp: parse_conversion_def parse_width_def parse_precision_def parse_length_def Let_def pret_def
        split: prod.splits sum.splits if_splits list.splits argument.splits)
  then show ?thesis using Inl by simp
next
  case (Inr r)
  then show ?thesis using format_copy_bound parse_conversion_length by (cases r) fastforce
qed

text \<open>
  Three kinds of conversions are lost. A wide character or string is never printed: the
  converted text is handed to \<^verbatim>\<open>sprintf\<close> under a format that still asks for a wide one. The
  length \<^verbatim>\<open>L\<close> is taken for \<^verbatim>\<open>ll\<close>, so the specifier behind it disappears. And a negative
  width argument pads on the left, not on the right.
\<close>

theorem conversions_lost:
  "print_wide_char realloc f cv st \<noteq> Inr r \<and> print_wide_text realloc f cv st \<noteq> Inr r \<and>
   parse_length (''Lf'' @ fmt) = Inr (LENGTH_LONG_LONG, fmt) \<and>
   parse_conversion (''*s'' @ fmt) (VA_int (- 3) # args) =
     Inr (\<lparr>cv_flags = [], cv_width = 3, cv_precision = None, cv_length = LENGTH_NONE, cv_specifier = CHR ''s''\<rparr>, fmt, args) \<and>
   sprintf_text \<lparr>cv_flags = [], cv_width = 3, cv_precision = None, cv_length = LENGTH_NONE, cv_specifier = CHR ''s''\<rparr> ''a'' =
     ''  a''"
proof -
  obtain s args' counts where st: "st = (s, args', counts)" by (cases st)
  have wide: "print_wide_char realloc f cv st \<noteq> Inr r \<and> print_wide_text realloc f cv st \<noteq> Inr r"
  proof (cases args')
    case (Cons a rest)
    then show ?thesis
      by (cases a) (simp_all add: st print_wide_char_def print_wide_text_def Let_def pret_Inr_iff soft_aret_def)
  qed (simp add: st print_wide_char_def print_wide_text_def)
  have "sint (- 3 :: 32 word) = - 3" "unat (3 :: 32 word) = 3" by simp_all
  then have "parse_conversion (''*s'' @ fmt) (VA_int (- 3) # args) =
     Inr (\<lparr>cv_flags = [], cv_width = 3, cv_precision = None, cv_length = LENGTH_NONE, cv_specifier = CHR ''s''\<rparr>, fmt, args)"
    by (simp add: parse_conversion_def parse_width_def parse_precision_def parse_length_def peek_def is_digit_def)
  moreover have "sprintf_text \<lparr>cv_flags = [], cv_width = 3, cv_precision = None, cv_length = LENGTH_NONE, cv_specifier = CHR ''s''\<rparr>
     ''a'' = ''  a''"
    by (simp add: sprintf_text_def sprintf_precision_def sprintf_width_def pad_def replicate_2)
  ultimately show ?thesis using wide by (simp add: parse_length_def peek_def)
qed

end
