(* ===== verification/TS_Format.thy ===== *)
theory TS_Format
  imports TS_Print
begin

text \<open>
  Rules that compute the text of a format: plain text, \<^verbatim>\<open>%s\<close>, \<^verbatim>\<open>%u\<close> and \<^verbatim>\<open>%d\<close> without flags, and
  \<^verbatim>\<open>%02d\<close>. They let the components that print state their output as a text.
\<close>

lemma base_digits_decimal: "base_digits 10 False n = decimal_text n"
proof (induction n rule: decimal_text.induct)
  case (1 n)
  have digit: "base_digit False d = digit_char d" if "d < 10" for d
    using that by (simp add: base_digit_def digit_char_def)
  show ?case
  proof (cases "n < 10")
    case True
    then show ?thesis by (simp add: base_digits.simps [of 10] decimal_text.simps [of n] digit)
  next
    case False
    then show ?thesis using 1 by (simp add: base_digits.simps [of 10 False n] decimal_text.simps [of n] digit)
  qed
qed

lemma takeWhile_percent [simp]:
  "CHR ''%'' \<notin> set p \<Longrightarrow> takeWhile (\<lambda>c. c \<noteq> CHR ''%'') (p @ CHR ''%'' # q) = p"
  "CHR ''%'' \<notin> set p \<Longrightarrow> dropWhile (\<lambda>c. c \<noteq> CHR ''%'') (p @ CHR ''%'' # q) = CHR ''%'' # q"
  "CHR ''%'' \<notin> set p \<Longrightarrow> takeWhile (\<lambda>c. c \<noteq> CHR ''%'') p = p"
  "CHR ''%'' \<notin> set p \<Longrightarrow> dropWhile (\<lambda>c. c \<noteq> CHR ''%'') p = []"
  by (induction p) auto

lemma format_plain:
  assumes "CHR ''%'' \<notin> set p"
  shows "format_text sf p args n = Some (p, args, [])"
  using assms by (subst format_text.simps) simp

text \<open>A conversion behind plain text.\<close>

definition print_after :: "byte list \<Rightarrow> int list \<Rightarrow> (byte list \<times> argument list \<times> int list) option \<Rightarrow>
    (byte list \<times> argument list \<times> int list) option" where
  "print_after t cs r = map_option (\<lambda>(u, args, cs'). (t @ u, args, cs @ cs')) r"

lemma print_after_simps [simp]:
  "print_after t cs (Some (u, args, cs')) = Some (t @ u, args, cs @ cs')"
  "print_after t cs None = None"
  "print_after t cs (print_after u cs' r) = print_after (t @ u) (cs @ cs') r"
  by (simp_all add: print_after_def option.map_comp comp_def case_prod_unfold)

lemma format_conversion:
  assumes "CHR ''%'' \<notin> set p" and "peek fmt \<noteq> CHR ''%''" and "parse_conversion fmt args = Inr (cv, fmt', args')"
    and "conversion_text sf cv args' (n + length p) = Some (out, args2, cs)" and "length out < 2 ^ 31"
  shows "format_text sf (p @ CHR ''%'' # fmt) args n =
    print_after (p @ out) cs (format_text sf fmt' args2 (n + length p + length out))"
proof -
  have plain: "takeWhile (\<lambda>c. c \<noteq> CHR ''%'') (p @ CHR ''%'' # fmt) = p"
    "dropWhile (\<lambda>c. c \<noteq> CHR ''%'') (p @ CHR ''%'' # fmt) = CHR ''%'' # fmt" using assms(1) by simp_all
  have small: "\<not> 2 ^ 31 \<le> length out" using assms(5) by simp
  show ?thesis
    by (subst format_text.simps)
      (simp only: plain Let_def drop_Suc_Cons drop_0 One_nat_def assms(2-4) small append_is_Nil_conv list.distinct
        simp_thms if_True if_False sum.case prod.case option.case print_after_def append_assoc)
qed

definition simple_conversion :: "byte \<Rightarrow> conversion" where
  "simple_conversion c = \<lparr>cv_flags = [], cv_width = 0, cv_precision = None, cv_length = LENGTH_NONE, cv_specifier = c\<rparr>"

lemma simple_conversion_simps [simp]:
  "cv_flags (simple_conversion c) = []" "cv_width (simple_conversion c) = 0"
  "cv_precision (simple_conversion c) = None" "cv_length (simple_conversion c) = LENGTH_NONE"
  "cv_specifier (simple_conversion c) = c"
  by (simp_all add: simple_conversion_def)

lemma parse_simple:
  assumes "c = CHR ''s'' \<or> c = CHR ''u'' \<or> c = CHR ''d'' \<or> c = CHR ''c'' \<or> c = CHR ''p''"
  shows "parse_conversion (c # fmt) args = Inr (simple_conversion c, fmt, args)"
  using assms
  by (elim disjE; simp add: parse_conversion_def parse_width_def parse_precision_def parse_length_def peek_def
      is_digit_def simple_conversion_def)

lemma pad_simple [simp]: "pad (simple_conversion c) cs = cs"
  by (simp add: pad_def sprintf_width_def)

lemma sprintf_text_simple [simp]: "sprintf_text (simple_conversion c) t = t"
  by (simp add: sprintf_text_def sprintf_precision_def)

lemma format_s:
  assumes "CHR ''%'' \<notin> set p" and "length t < 2 ^ 31"
  shows "format_text sf (p @ CHR ''%'' # CHR ''s'' # fmt) (VA_text t # args) n =
    print_after (p @ t) [] (format_text sf fmt args (n + length p + length t))"
proof (rule format_conversion [OF assms(1) _ parse_simple])
  show "conversion_text sf (simple_conversion CHR ''s'') (VA_text t # args) (n + length p) = Some (t, args, [])"
    by (simp add: conversion_text_def)
qed (use assms in \<open>simp_all add: peek_def\<close>)

lemma length_decimal_text_32:
  assumes "n < 2 ^ 32"
  shows "length (decimal_text n) \<le> 10"
proof -
  have "length (base_digits 10 False n) \<le> Suc 9" by (rule length_base_digits) (use assms in simp_all)
  then show ?thesis by (simp add: base_digits_decimal)
qed

lemma decimal_text_nonempty: "decimal_text n \<noteq> []"
  by (subst decimal_text.simps) simp

lemma sprintf_number:
  assumes "c = CHR ''u'' \<or> c = CHR ''d''"
  shows "sprintf_integer (simple_conversion c) (int n) = decimal_text n"
proof -
  have "sprintf_integer (simple_conversion c) (int n) =
    replicate (Suc 0 - length (decimal_text n)) (CHR ''0'') @ decimal_text n"
    using assms by (elim disjE; simp add: sprintf_integer_def Let_def sprintf_precision_def sprintf_width_def
        base_digits_decimal)
  moreover have "Suc 0 - length (decimal_text n) = 0" using decimal_text_nonempty [of n] by (cases "decimal_text n") auto
  ultimately show ?thesis by simp
qed

lemma format_u:
  assumes "CHR ''%'' \<notin> set p"
  shows "format_text sf (p @ CHR ''%'' # CHR ''u'' # fmt) (VA_int w # args) n =
    print_after (p @ decimal_text (unat w)) [] (format_text sf fmt args (n + length p + length (decimal_text (unat w))))"
proof (rule format_conversion [OF assms _ parse_simple])
  have w: "unat w < 2 ^ 32" using unsigned_less [of w] by simp
  then have "integer_value (simple_conversion CHR ''u'') (unat w) = int (unat w)"
    by (simp add: integer_value_def integer_width_def)
  then show "conversion_text sf (simple_conversion CHR ''u'') (VA_int w # args) (n + length p) =
      Some (decimal_text (unat w), args, [])"
    using sprintf_number [of "CHR ''u''" "unat w"]
    by (simp only: conversion_text_def Let_def simple_conversion_simps integer_specifier_def list.case argument.case
        length_modifier.distinct simp_thms if_True if_False char.inject)
  show "length (decimal_text (unat w)) < 2 ^ 31" using length_decimal_text_32 [OF w] by simp
qed (use assms in \<open>simp_all add: peek_def\<close>)

text \<open>Signed numbers that are not negative.\<close>

lemma format_d:
  assumes "CHR ''%'' \<notin> set p" and "unat w < 2 ^ 31"
  shows "format_text sf (p @ CHR ''%'' # CHR ''d'' # fmt) (VA_int w # args) n =
    print_after (p @ decimal_text (unat w)) [] (format_text sf fmt args (n + length p + length (decimal_text (unat w))))"
proof (rule format_conversion [OF assms(1) _ parse_simple])
  have "integer_value (simple_conversion CHR ''d'') (unat w) = int (unat w)"
    using assms(2) by (simp add: integer_value_def integer_width_def signed_number_def Let_def)
  then show "conversion_text sf (simple_conversion CHR ''d'') (VA_int w # args) (n + length p) =
      Some (decimal_text (unat w), args, [])"
    using sprintf_number [of "CHR ''d''" "unat w"]
    by (simp only: conversion_text_def Let_def simple_conversion_simps integer_specifier_def list.case argument.case
        length_modifier.distinct simp_thms if_True if_False char.inject)
  show "length (decimal_text (unat w)) < 2 ^ 31" using length_decimal_text_32 [of "unat w"] assms(2) by simp
qed (use assms in \<open>simp_all add: peek_def\<close>)

text \<open>\<^verbatim>\<open>%02d\<close>\<close>

definition two_digits :: "nat \<Rightarrow> byte list" where
  "two_digits n = (if n < 10 then CHR ''0'' # decimal_text n else decimal_text n)"

definition two_digit_conversion :: conversion where
  "two_digit_conversion = \<lparr>cv_flags = ''0'', cv_width = 2, cv_precision = None, cv_length = LENGTH_NONE, cv_specifier = CHR ''d''\<rparr>"

lemma two_digit_conversion_simps [simp]:
  "cv_flags two_digit_conversion = ''0''" "cv_width two_digit_conversion = 2"
  "cv_precision two_digit_conversion = None" "cv_length two_digit_conversion = LENGTH_NONE"
  "cv_specifier two_digit_conversion = CHR ''d''"
  by (simp_all add: two_digit_conversion_def)

lemma length_decimal_text_two: "10 \<le> n \<Longrightarrow> 2 \<le> length (decimal_text n)"
  using decimal_text_nonempty [of "n div 10"] by (subst decimal_text.simps) (cases "decimal_text (n div 10)"; simp)

lemma sprintf_two_digits: "sprintf_integer two_digit_conversion (int n) = two_digits n"
proof -
  have d: "Suc 0 - length (decimal_text n) = 0" using decimal_text_nonempty [of n] by (cases "decimal_text n") auto
  have "sprintf_integer two_digit_conversion (int n) =
      replicate (2 - length (decimal_text n)) (CHR ''0'') @ decimal_text n"
    using d by (simp add: sprintf_integer_def Let_def sprintf_precision_def sprintf_width_def base_digits_decimal)
  moreover have "length (decimal_text n) = 1" if "n < 10" using that by (rule length_decimal_text_small)
  moreover have "2 - length (decimal_text n) = 0" if "10 \<le> n" using length_decimal_text_two [OF that] by simp
  ultimately show ?thesis by (cases "n < 10") (simp_all add: two_digits_def)
qed

lemma format_02d:
  assumes "CHR ''%'' \<notin> set p" and "unat w < 2 ^ 31"
  shows "format_text sf (p @ CHR ''%'' # CHR ''0'' # CHR ''2'' # CHR ''d'' # fmt) (VA_int w # args) n =
    print_after (p @ two_digits (unat w)) [] (format_text sf fmt args (n + length p + length (two_digits (unat w))))"
proof (rule format_conversion [OF assms(1)])
  show "parse_conversion (CHR ''0'' # CHR ''2'' # CHR ''d'' # fmt) (VA_int w # args) =
      Inr (two_digit_conversion, fmt, VA_int w # args)"
    by (simp add: parse_conversion_def parse_width_def parse_precision_def parse_length_def strtoul_def peek_def
        is_digit_def decimal_def two_digit_conversion_def)
  have "integer_value two_digit_conversion (unat w) = int (unat w)"
    using assms(2) by (simp add: integer_value_def integer_width_def signed_number_def Let_def)
  then show "conversion_text sf two_digit_conversion (VA_int w # args) (n + length p) =
      Some (two_digits (unat w), args, [])"
    using sprintf_two_digits [of "unat w"]
    by (simp only: conversion_text_def Let_def two_digit_conversion_simps integer_specifier_def list.case argument.case
        length_modifier.distinct simp_thms if_True if_False char.inject)
  show "length (two_digits (unat w)) < 2 ^ 31"
    using length_decimal_text_32 [of "unat w"] assms(2) by (simp add: two_digits_def)
qed (simp add: peek_def)

section \<open>Sequences of string operations\<close>

text \<open>
  The outcome of an operation that should leave the text \<open>t\<close> in a string: a reported failure, or a
  well-formed string with this text. The rules compose over \<^verbatim>\<open>PRET\<close>.
\<close>

definition string_result :: "char_buffer result \<Rightarrow> byte list \<Rightarrow> bool" where
  "string_result r t \<longleftrightarrow> (\<exists>m. r = Inl (Failed m)) \<or> (\<exists>s. r = Inr s \<and> string_inv s \<and> string_bytes s = t)"

lemma string_result_Inr: "string_inv s \<Longrightarrow> string_bytes s = t \<Longrightarrow> string_result (Inr s) t"
  by (simp add: string_result_def)

lemma string_result_pret:
  assumes "string_result r t" and "\<And>s. \<lbrakk>string_inv s; string_bytes s = t\<rbrakk> \<Longrightarrow> string_result (k s) u"
  shows "string_result (pret r k) u"
  using assms by (fastforce simp: string_result_def)

lemma append_mem_result:
  assumes "realloc_ok realloc" and "string_inv s" and "string_bytes s = t" and "length t + length out < 2 ^ 63"
  shows "string_result (string_append_mem realloc s out) (t @ out)"
proof -
  have "cb_size s + length out < 2 ^ 63" using assms string_invD(6) [OF assms(2)] by simp
  from string_append_copy_spec [OF assms(2,1) this] show ?thesis
    using assms(3) by (auto simp: string_result_def split: sum.splits)
qed

lemma copy_mem_result:
  assumes "realloc_ok realloc" and "string_inv s" and "cb_size s + length out < 2 ^ 63"
  shows "string_result (string_copy_mem realloc s out) out"
  using string_append_copy_spec [OF assms(2,1,3)] by (auto simp: string_result_def split: sum.splits)

text \<open>Formats without string buffers and floating-point numbers among the arguments.\<close>

fun plain_argument :: "argument \<Rightarrow> bool" where
  "plain_argument (VA_string s) = False"
| "plain_argument _ = True"

lemma plain_arguments:
  "list_all plain_argument args \<Longrightarrow> list_all argument_ok args \<and> arguments_size args = 0"
proof (induction args)
  case (Cons a args)
  then show ?case by (cases a) (simp_all add: arguments_size_def)
qed (simp add: arguments_size_def)

lemma print_append_result:
  assumes "realloc_ok realloc" and "float_ok sf" and "string_inv s" and "string_bytes s = t"
    and "list_all plain_argument args" and "format_text sf fmt args (length t) = Some (out, args', cs)"
    and "length t + length out < 2 ^ 62"
  shows "string_result (string_print_append sf realloc s fmt args) (t @ out)"
proof -
  note A = plain_arguments [OF assms(5)]
  have size: "cb_size s = length t" using assms(4) string_invD(6) [OF assms(3)] by simp
  have "case string_print_append sf realloc s fmt args of
      Inl e \<Rightarrow> e = Failed ''reserve''
    | Inr s' \<Rightarrow> string_inv s' \<and> string_bytes s' = string_bytes s @ out \<and> cb_size s' = cb_size s + length out"
    using assms(3,1,2) conjunct1 [OF A] assms(6) [folded size]
    by (rule string_print_append_spec) (use assms(7) A size in simp)
  then show ?thesis using assms(4) by (auto simp: string_result_def split: sum.splits)
qed

lemma string_zero_ok:
  assumes "string_inv s"
  shows "\<exists>s'. string_zero s = Inr s' \<and> string_inv s' \<and> string_bytes s' = []"
proof (cases "cb_p s")
  case None
  then show ?thesis using assms by (simp add: string_zero_def string_inv_def string_bytes_def cb_block_def)
next
  case (Some b)
  then have "0 < length b" using assms by (auto simp: string_inv_def cb_block_def split: if_splits)
  then obtain c cs where b: "b = c # cs" by (cases b) auto
  then show ?thesis using assms Some
    by (simp add: string_zero_def string_store_def string_inv_def string_bytes_def cb_block_def)
qed

lemma print_result:
  assumes "realloc_ok realloc" and "float_ok sf" and "string_inv s"
    and "list_all plain_argument args" and "format_text sf fmt args 0 = Some (out, args', cs)" and "length out < 2 ^ 62"
  shows "string_result (string_print sf realloc s fmt args) out"
proof -
  obtain s1 where s1: "string_zero s = Inr s1" "string_inv s1" "string_bytes s1 = []"
    using string_zero_ok [OF assms(3)] by blast
  have "string_result (string_print_append sf realloc s1 fmt args) ([] @ out)"
    by (rule print_append_result [OF assms(1,2) s1(2,3) assms(4)]) (use assms in simp_all)
  then show ?thesis by (simp add: string_print_def s1)
qed

end
