(* ===== verification/TS_Fixed.thy ===== *)
theory TS_Fixed
  imports TS_Response TS_Format TS_Constants
begin

text \<open>
  The fixed responses of \<^verbatim>\<open>source/processor/*_processor.c\<close> and \<^verbatim>\<open>processor.c\<close>: the message a client
  gets when its request cannot be served, for each of the nine protocols. The text a
  \<^verbatim>\<open>struct ConstantContinuousValue\<close> points to is given as the text itself. The pages of HTTP
  are printed once, when the server starts.
\<close>

abbreviation CRLF :: "byte list" where "CRLF \<equiv> [CR, LF]"
abbreviation QUOTE :: char where "QUOTE \<equiv> CHR 0x22"

text \<open>\<^verbatim>\<open>FAKE ENDLINE\<close> of \<^verbatim>\<open>gopher_processor.c\<close>\<close>

definition FAKE_ENDLINE :: "byte list" where
  "FAKE_ENDLINE = [TAB] @ ''fake'' @ [TAB] @ ''(NULL)'' @ [TAB] @ ''0'' @ CRLF @ CRLF"

section \<open>The messages\<close>

text \<open>\<^verbatim>\<open>switch (fixed)\<close> over the numbers of the enumerators, with its default.\<close>

fun fixed_switch :: "flags \<Rightarrow> (fixed_response \<times> 'a) list \<Rightarrow> 'a \<Rightarrow> 'a" where
  "fixed_switch fixed [] d = d"
| "fixed_switch fixed ((fr, x) # cs) d = (if fixed = fr_code fr then x else fixed_switch fixed cs d)"

definition processor_fixed_gopher_failsafe :: "flags \<Rightarrow> byte list" where
  "processor_fixed_gopher_failsafe fixed =
     fixed_switch fixed
       [(FR_MAX_CLIENTS, ''3Maximum number of clients reached'' @ FAKE_ENDLINE),
        (FR_MAX_MEMORY, ''3Maximum memory usage reached'' @ FAKE_ENDLINE),
        (FR_MAX_UTILIZATION, ''3Maximum processor utilization reached'' @ FAKE_ENDLINE),
        (FR_UNKNOWN, ''3Unknown error'' @ FAKE_ENDLINE),
        (FR_REQUEST_INVALID, ''3Parser error'' @ FAKE_ENDLINE),
        (FR_MAX_AVAILABLE_REQUEST_STREAM, ''3Received too large chunk of data'' @ FAKE_ENDLINE),
        (FR_MAX_REQUEST_HEADER_SIZE, ''3Actual header size is too large'' @ FAKE_ENDLINE),
        (FR_MAX_REQUEST_CONTENT_SIZE, ''3Promised content size is too large'' @ FAKE_ENDLINE),
        (FR_MAX_INCOMPLETE_REQUEST_TIME, ''3Request incomplete for too long'' @ FAKE_ENDLINE)]
       (''3Unknown error'' @ FAKE_ENDLINE)"

definition processor_fixed_finger_failsafe :: "flags \<Rightarrow> byte list" where
  "processor_fixed_finger_failsafe fixed =
     fixed_switch fixed
       [(FR_MAX_CLIENTS, ''Maximum number of clients reached'' @ CRLF),
        (FR_MAX_MEMORY, ''Maximum memory usage reached'' @ CRLF),
        (FR_MAX_UTILIZATION, ''Maximum processor utilization reached'' @ CRLF),
        (FR_UNKNOWN, ''Unknown error'' @ CRLF),
        (FR_REQUEST_INVALID, ''Parser error'' @ CRLF),
        (FR_MAX_AVAILABLE_REQUEST_STREAM, ''Received too large chunk of data'' @ CRLF),
        (FR_MAX_REQUEST_HEADER_SIZE, ''Actual header size is too large'' @ CRLF),
        (FR_MAX_REQUEST_CONTENT_SIZE, ''Promised content size is too large'' @ CRLF),
        (FR_MAX_INCOMPLETE_REQUEST_TIME, ''Request incomplete for too long'' @ CRLF)]
       (''Unknown error'' @ CRLF)"

definition processor_fixed_nex_failsafe :: "flags \<Rightarrow> byte list" where
  "processor_fixed_nex_failsafe fixed = processor_fixed_finger_failsafe fixed"

definition processor_fixed_gemini_failsafe :: "flags \<Rightarrow> byte list" where
  "processor_fixed_gemini_failsafe fixed =
     fixed_switch fixed
       [(FR_MAX_CLIENTS, ''41 Maximum number of clients reached'' @ CRLF),
        (FR_MAX_MEMORY, ''41 Maximum memory usage reached'' @ CRLF),
        (FR_MAX_UTILIZATION, ''41 Maximum processor utilization reached'' @ CRLF),
        (FR_UNKNOWN, ''42 Unknown error'' @ CRLF),
        (FR_REQUEST_INVALID, ''59 Parser error'' @ CRLF),
        (FR_MAX_AVAILABLE_REQUEST_STREAM, ''59 Received too large chunk of data'' @ CRLF),
        (FR_MAX_REQUEST_HEADER_SIZE, ''59 Actual header size is too large'' @ CRLF),
        (FR_MAX_REQUEST_CONTENT_SIZE, ''59 Promised content size is too large'' @ CRLF),
        (FR_MAX_INCOMPLETE_REQUEST_TIME, ''59 Request incomplete for too long'' @ CRLF)]
       (''42 Unknown error'' @ CRLF)"

definition processor_fixed_spartan_failsafe :: "flags \<Rightarrow> byte list" where
  "processor_fixed_spartan_failsafe fixed =
     fixed_switch fixed
       [(FR_MAX_CLIENTS, ''5 Maximum number of clients reached'' @ CRLF),
        (FR_MAX_MEMORY, ''5 Maximum memory usage reached'' @ CRLF),
        (FR_MAX_UTILIZATION, ''5 Maximum processor utilization reached'' @ CRLF),
        (FR_UNKNOWN, ''5 Unknown error'' @ CRLF),
        (FR_REQUEST_INVALID, ''4 Parser error'' @ CRLF),
        (FR_MAX_AVAILABLE_REQUEST_STREAM, ''4 Received too large chunk of data'' @ CRLF),
        (FR_MAX_REQUEST_HEADER_SIZE, ''4 Actual header size is too large'' @ CRLF),
        (FR_MAX_REQUEST_CONTENT_SIZE, ''4 Promised content size is too large'' @ CRLF),
        (FR_MAX_INCOMPLETE_REQUEST_TIME, ''4 Request incomplete for too long'' @ CRLF)]
       (''5 Unknown error'' @ CRLF)"

definition processor_fixed_text_failsafe :: "flags \<Rightarrow> byte list" where
  "processor_fixed_text_failsafe fixed =
     fixed_switch fixed
       [(FR_MAX_CLIENTS, ''40 Maximum number of clients reached'' @ CRLF),
        (FR_MAX_MEMORY, ''40 Maximum memory usage reached'' @ CRLF),
        (FR_MAX_UTILIZATION, ''40 Maximum processor utilization reached'' @ CRLF),
        (FR_UNKNOWN, ''40 Unknown error'' @ CRLF),
        (FR_REQUEST_INVALID, ''40 Parser error'' @ CRLF),
        (FR_MAX_AVAILABLE_REQUEST_STREAM, ''40 Received too large chunk of data'' @ CRLF),
        (FR_MAX_REQUEST_HEADER_SIZE, ''40 Actual header size is too large'' @ CRLF),
        (FR_MAX_REQUEST_CONTENT_SIZE, ''40 Promised content size is too large'' @ CRLF),
        (FR_MAX_INCOMPLETE_REQUEST_TIME, ''40 Request incomplete for too long'' @ CRLF)]
       (''40 Unknown error'' @ CRLF)"

definition processor_fixed_guppy_failsafe :: "flags \<Rightarrow> byte list" where
  "processor_fixed_guppy_failsafe fixed =
     fixed_switch fixed
       [(FR_MAX_CLIENTS, ''4 Maximum number of clients reached'' @ CRLF),
        (FR_MAX_MEMORY, ''4 Maximum memory usage reached'' @ CRLF),
        (FR_MAX_UTILIZATION, ''4 Maximum processor utilization reached'' @ CRLF),
        (FR_UNKNOWN, ''4 Unknown error'' @ CRLF),
        (FR_REQUEST_INVALID, ''4 Parser error'' @ CRLF),
        (FR_MAX_AVAILABLE_REQUEST_STREAM, ''4 Received too large chunk of data'' @ CRLF),
        (FR_MAX_REQUEST_HEADER_SIZE, ''4 Actual header size is too large'' @ CRLF),
        (FR_MAX_REQUEST_CONTENT_SIZE, ''4 Promised content size is too large'' @ CRLF),
        (FR_MAX_INCOMPLETE_REQUEST_TIME, ''4 Request incomplete for too long'' @ CRLF)]
       (''4 Unknown error'' @ CRLF)"

section \<open>The pages of HTTP\<close>

text \<open>The pieces of \<^verbatim>\<open>http_processor.c\<close>\<close>

definition http_template_error :: "byte list" where
  "http_template_error =
     ''HTTP/1.1 %s'' @ CRLF @
     ''Server: Twinkleshine'' @ CRLF @
     ''Cache-Control: no-cache, no-store, must-revalidate'' @ CRLF @
     ''Content-Type: text/html; charset=UTF-8'' @ CRLF @
     ''Content-Length: %u'' @ CRLF @
     ''Connection: %s'' @ CRLF @
     CRLF"

definition http_template_success :: "byte list" where
  "http_template_success =
     ''HTTP/1.1 200 OK'' @ CRLF @
     ''Server: Twinkleshine'' @ CRLF @
     ''Cache-Control: no-cache, no-store, must-revalidate'' @ CRLF @
     ''Content-Type: text/html; charset=UTF-8'' @ CRLF @
     ''Content-Length: %u'' @ CRLF @
     ''Connection: %s'' @ CRLF @
     ''Date: %s, %02d %s %d %02d:%02d:%02d GMT'' @ CRLF @
     CRLF"

definition html_template_error_page :: "byte list" where
  "html_template_error_page =
     ''<p>%s</p>'' @ [LF] @
     ''<p>%s</p>'' @ [LF]"

definition html_open :: "byte list" where
  "html_open =
     ''<!DOCTYPE html>'' @ [LF] @
     ''<html>'' @ [LF] @
     ''<head>'' @ [LF] @
     ''    <meta charset='' @ [QUOTE] @ ''utf-8'' @ [QUOTE] @ ''>'' @ [LF] @
     ''    <meta name='' @ [QUOTE] @ ''viewport'' @ [QUOTE] @ '' content='' @ [QUOTE] @ ''width=device-width, initial-scale=1'' @ [QUOTE] @ ''>'' @ [LF] @
     ''    <title>My 8-bit soul</title>'' @ [LF] @
     ''</head>'' @ [LF] @
     ''<body>'' @ [LF]"

definition html_close :: "byte list" where
  "html_close =
     ''</body>'' @ [LF] @
     ''</html>'' @ [LF]"

definition txt_robots :: "byte list" where
  "txt_robots =
     ''User-agent: *'' @ [LF] @
     ''Disallow: /'' @ [LF]"

text \<open>The buffers \<^verbatim>\<open>g_http_fixed_...\<close>\<close>

record http_pages =
  g_http_fixed_max_clients :: char_buffer
  g_http_fixed_max_memory :: char_buffer
  g_http_fixed_max_utilization :: char_buffer
  g_http_fixed_unknown :: char_buffer
  g_http_fixed_request_invalid :: char_buffer
  g_http_fixed_max_available_request_stream :: char_buffer
  g_http_fixed_max_request_header_size :: char_buffer
  g_http_fixed_max_request_content_size :: char_buffer
  g_http_fixed_max_incomplete_request_time :: char_buffer

definition zero_http_pages :: http_pages where
  "zero_http_pages = \<lparr>g_http_fixed_max_clients = zero_string, g_http_fixed_max_memory = zero_string,
     g_http_fixed_max_utilization = zero_string, g_http_fixed_unknown = zero_string,
     g_http_fixed_request_invalid = zero_string, g_http_fixed_max_available_request_stream = zero_string,
     g_http_fixed_max_request_header_size = zero_string, g_http_fixed_max_request_content_size = zero_string,
     g_http_fixed_max_incomplete_request_time = zero_string\<rparr>"

text \<open>An \<^verbatim>\<open>unsigned int\<close> passed to \<^verbatim>\<open>%u\<close>\<close>

abbreviation VA_uint :: "nat \<Rightarrow> argument" where
  "VA_uint n \<equiv> VA_int (word_of_nat n)"

text \<open>\<^verbatim>\<open>printf\<close> is the printer's treatment of floating-point numbers, which no page contains.\<close>

definition processor_module_initialize_one :: "(conversion \<Rightarrow> argument \<Rightarrow> byte list) \<Rightarrow> allocator \<Rightarrow> char_buffer \<Rightarrow>
    byte list \<Rightarrow> byte list \<Rightarrow> char_buffer result" where
  "processor_module_initialize_one printf realloc buffer status explanation =
     (let content_size = (length html_open +
            (length html_template_error_page - 4 + length status + length explanation) mod 2 ^ 32 +
            length html_close) mod 2 ^ 32
      in pret (string_print printf realloc buffer http_template_error
                 [VA_text status, VA_uint content_size, VA_text ''close'']) (\<lambda>buffer.
         pret (string_append_mem realloc buffer html_open) (\<lambda>buffer.
         pret (string_print_append printf realloc buffer html_template_error_page
                 [VA_text status, VA_text explanation]) (\<lambda>buffer.
         pret (string_append_mem realloc buffer html_close) (\<lambda>buffer. Inr buffer)))))"

definition processor_module_initialize_http :: "(conversion \<Rightarrow> argument \<Rightarrow> byte list) \<Rightarrow> allocator \<Rightarrow> http_pages \<Rightarrow>
    http_pages result" where
  "processor_module_initialize_http printf realloc P =
     pret (processor_module_initialize_one printf realloc (g_http_fixed_max_clients P)
             ''503 Service Unavailable'' ''Maximum number of clients reached'') (\<lambda>b1.
     pret (processor_module_initialize_one printf realloc (g_http_fixed_max_memory P)
             ''503 Service Unavailable'' ''Maximum memory usage reached'') (\<lambda>b2.
     pret (processor_module_initialize_one printf realloc (g_http_fixed_max_utilization P)
             ''503 Service Unavailable'' ''Maximum processor utilization reached'') (\<lambda>b3.
     pret (processor_module_initialize_one printf realloc (g_http_fixed_unknown P)
             ''500 Internal Server Error'' ''Unknown error'') (\<lambda>b4.
     pret (processor_module_initialize_one printf realloc (g_http_fixed_request_invalid P)
             ''400 Bad Request'' ''Parser error'') (\<lambda>b5.
     pret (processor_module_initialize_one printf realloc (g_http_fixed_max_available_request_stream P)
             ''429 Too Many Requests'' ''Received too large chunk of data'') (\<lambda>b6.
     pret (processor_module_initialize_one printf realloc (g_http_fixed_max_request_header_size P)
             ''431 Request Header Fields Too Large'' ''Actual header size is too large'') (\<lambda>b7.
     pret (processor_module_initialize_one printf realloc (g_http_fixed_max_request_content_size P)
             ''413 Content Too Large'' ''Promised content size is too large'') (\<lambda>b8.
     pret (processor_module_initialize_one printf realloc (g_http_fixed_max_incomplete_request_time P)
             ''408 Request Timeout'' ''Request incomplete for too long'') (\<lambda>b9.
     Inr \<lparr>g_http_fixed_max_clients = b1, g_http_fixed_max_memory = b2, g_http_fixed_max_utilization = b3,
          g_http_fixed_unknown = b4, g_http_fixed_request_invalid = b5,
          g_http_fixed_max_available_request_stream = b6, g_http_fixed_max_request_header_size = b7,
          g_http_fixed_max_request_content_size = b8, g_http_fixed_max_incomplete_request_time = b9\<rparr>)))))))))"

definition processor_module_finalize_http :: "http_pages \<Rightarrow> http_pages" where
  "processor_module_finalize_http P =
     \<lparr>g_http_fixed_max_clients = string_finalize (g_http_fixed_max_clients P),
      g_http_fixed_max_memory = string_finalize (g_http_fixed_max_memory P),
      g_http_fixed_max_utilization = string_finalize (g_http_fixed_max_utilization P),
      g_http_fixed_unknown = string_finalize (g_http_fixed_unknown P),
      g_http_fixed_request_invalid = string_finalize (g_http_fixed_request_invalid P),
      g_http_fixed_max_available_request_stream = string_finalize (g_http_fixed_max_available_request_stream P),
      g_http_fixed_max_request_header_size = string_finalize (g_http_fixed_max_request_header_size P),
      g_http_fixed_max_request_content_size = string_finalize (g_http_fixed_max_request_content_size P),
      g_http_fixed_max_incomplete_request_time = string_finalize (g_http_fixed_max_incomplete_request_time P)\<rparr>"

definition processor_fixed_http_failsafe :: "http_pages \<Rightarrow> flags \<Rightarrow> byte list" where
  "processor_fixed_http_failsafe P fixed =
     string_bytes (fixed_switch fixed
       [(FR_MAX_CLIENTS, g_http_fixed_max_clients P),
        (FR_MAX_MEMORY, g_http_fixed_max_memory P),
        (FR_MAX_UTILIZATION, g_http_fixed_max_utilization P),
        (FR_UNKNOWN, g_http_fixed_unknown P),
        (FR_REQUEST_INVALID, g_http_fixed_request_invalid P),
        (FR_MAX_AVAILABLE_REQUEST_STREAM, g_http_fixed_max_available_request_stream P),
        (FR_MAX_REQUEST_HEADER_SIZE, g_http_fixed_max_request_header_size P),
        (FR_MAX_REQUEST_CONTENT_SIZE, g_http_fixed_max_request_content_size P),
        (FR_MAX_INCOMPLETE_REQUEST_TIME, g_http_fixed_max_incomplete_request_time P)]
       (g_http_fixed_unknown P))"

section \<open>The responses\<close>

text \<open>
  The common body of \<^verbatim>\<open>processor_fixed_...\<close>: returns the response, the allocation counter, the
  response queue and the text of the response stream.
\<close>

type_synonym answered = "(response \<times> nat \<times> ring \<times> byte list) exresult"

definition construct_fixed :: "allocator \<Rightarrow> nat \<Rightarrow> ring \<Rightarrow> byte list \<Rightarrow> answered" where
  "construct_fixed realloc g queue stream =
     expret (processor_construct_response realloc g (\<lambda>_. NUL) queue (length stream) False 0 0
               zero_value zero_value zero_value) (\<lambda>(r, g, q). Inr (r, g, q, stream))"

definition processor_fixed_http :: "http_pages \<Rightarrow> allocator \<Rightarrow> nat \<Rightarrow> ring \<Rightarrow> flags \<Rightarrow> answered" where
  "processor_fixed_http P realloc g queue fixed = construct_fixed realloc g queue (processor_fixed_http_failsafe P fixed)"

definition processor_fixed_gopher :: "allocator \<Rightarrow> nat \<Rightarrow> ring \<Rightarrow> flags \<Rightarrow> answered" where
  "processor_fixed_gopher realloc g queue fixed = construct_fixed realloc g queue (processor_fixed_gopher_failsafe fixed)"

definition processor_fixed_finger :: "allocator \<Rightarrow> nat \<Rightarrow> ring \<Rightarrow> flags \<Rightarrow> answered" where
  "processor_fixed_finger realloc g queue fixed = construct_fixed realloc g queue (processor_fixed_finger_failsafe fixed)"

definition processor_fixed_gemini :: "allocator \<Rightarrow> nat \<Rightarrow> ring \<Rightarrow> flags \<Rightarrow> answered" where
  "processor_fixed_gemini realloc g queue fixed = construct_fixed realloc g queue (processor_fixed_gemini_failsafe fixed)"

definition processor_fixed_spartan :: "allocator \<Rightarrow> nat \<Rightarrow> ring \<Rightarrow> flags \<Rightarrow> answered" where
  "processor_fixed_spartan realloc g queue fixed = construct_fixed realloc g queue (processor_fixed_spartan_failsafe fixed)"

definition processor_fixed_nex :: "allocator \<Rightarrow> nat \<Rightarrow> ring \<Rightarrow> flags \<Rightarrow> answered" where
  "processor_fixed_nex realloc g queue fixed =
     expret (processor_fixed_finger realloc g queue fixed) (\<lambda>r. Inr r)"

definition processor_fixed_text :: "allocator \<Rightarrow> nat \<Rightarrow> ring \<Rightarrow> flags \<Rightarrow> answered" where
  "processor_fixed_text realloc g queue fixed = construct_fixed realloc g queue (processor_fixed_text_failsafe fixed)"

definition processor_fixed_guppy :: "allocator \<Rightarrow> nat \<Rightarrow> ring \<Rightarrow> flags \<Rightarrow> answered" where
  "processor_fixed_guppy realloc g queue fixed = construct_fixed realloc g queue (processor_fixed_guppy_failsafe fixed)"

text \<open>\<^verbatim>\<open>processor.c\<close>: the choice of the protocol by the accepting socket\<close>

definition processor_fixed :: "http_pages \<Rightarrow> allocator \<Rightarrow> nat \<Rightarrow> nat \<Rightarrow> ring \<Rightarrow> flags \<Rightarrow> answered" where
  "processor_fixed P realloc a g queue fixed =
     (if ACCEPTING_SOCKET_IS_HTTP a then expret (processor_fixed_http P realloc g queue fixed) (\<lambda>r. Inr r)
      else if ACCEPTING_SOCKET_IS_HTTPS a then expret (processor_fixed_http P realloc g queue fixed) (\<lambda>r. Inr r)
      else if ACCEPTING_SOCKET_IS_GOPHER a then expret (processor_fixed_gopher realloc g queue fixed) (\<lambda>r. Inr r)
      else if ACCEPTING_SOCKET_IS_FINGER a then expret (processor_fixed_finger realloc g queue fixed) (\<lambda>r. Inr r)
      else if ACCEPTING_SOCKET_IS_GEMINI a then expret (processor_fixed_gemini realloc g queue fixed) (\<lambda>r. Inr r)
      else if ACCEPTING_SOCKET_IS_SPARTAN a then expret (processor_fixed_spartan realloc g queue fixed) (\<lambda>r. Inr r)
      else if ACCEPTING_SOCKET_IS_NEX a then expret (processor_fixed_nex realloc g queue fixed) (\<lambda>r. Inr r)
      else if ACCEPTING_SOCKET_IS_TEXT a then expret (processor_fixed_text realloc g queue fixed) (\<lambda>r. Inr r)
      else expret (processor_fixed_guppy realloc g queue fixed) (\<lambda>r. Inr r))"

definition processor_fixed_failsafe :: "http_pages \<Rightarrow> nat \<Rightarrow> flags \<Rightarrow> byte list" where
  "processor_fixed_failsafe P a fixed =
     (if ACCEPTING_SOCKET_IS_HTTP a then processor_fixed_http_failsafe P fixed
      else if ACCEPTING_SOCKET_IS_HTTPS a then processor_fixed_http_failsafe P fixed
      else if ACCEPTING_SOCKET_IS_GOPHER a then processor_fixed_gopher_failsafe fixed
      else if ACCEPTING_SOCKET_IS_FINGER a then processor_fixed_finger_failsafe fixed
      else if ACCEPTING_SOCKET_IS_GEMINI a then processor_fixed_gemini_failsafe fixed
      else if ACCEPTING_SOCKET_IS_SPARTAN a then processor_fixed_spartan_failsafe fixed
      else if ACCEPTING_SOCKET_IS_NEX a then processor_fixed_nex_failsafe fixed
      else if ACCEPTING_SOCKET_IS_TEXT a then processor_fixed_text_failsafe fixed
      else processor_fixed_guppy_failsafe fixed)"

lemma processor_fixed_eq:
  "processor_fixed P realloc a g queue fixed = construct_fixed realloc g queue (processor_fixed_failsafe P a fixed)"
proof -
  have e: "expret r (\<lambda>x. Inr x) = r" for r :: answered by (cases r) simp_all
  show ?thesis
    by (simp only: processor_fixed_def processor_fixed_failsafe_def e processor_fixed_http_def processor_fixed_gopher_def
        processor_fixed_finger_def processor_fixed_gemini_def processor_fixed_spartan_def processor_fixed_nex_def
        processor_fixed_nex_failsafe_def processor_fixed_text_def processor_fixed_guppy_def
        if_distrib [of "construct_fixed realloc g queue"])
qed

section \<open>What the pages contain\<close>

definition http_error_header :: "byte list \<Rightarrow> nat \<Rightarrow> byte list \<Rightarrow> byte list" where
  "http_error_header status n connection =
     ''HTTP/1.1 '' @ status @ CRLF @ ''Server: Twinkleshine'' @ CRLF @
     ''Cache-Control: no-cache, no-store, must-revalidate'' @ CRLF @
     ''Content-Type: text/html; charset=UTF-8'' @ CRLF @ ''Content-Length: '' @ decimal_text n @ CRLF @
     ''Connection: '' @ connection @ CRLF @ CRLF"

definition html_error_body :: "byte list \<Rightarrow> byte list \<Rightarrow> byte list" where
  "html_error_body status explanation =
     html_open @ ''<p>'' @ status @ ''</p>'' @ [LF] @ ''<p>'' @ explanation @ ''</p>'' @ [LF] @ html_close"

text \<open>A complete page: a header that announces the length of the body, and the body.\<close>

definition http_error_page :: "byte list \<Rightarrow> byte list \<Rightarrow> byte list \<Rightarrow> byte list" where
  "http_error_page status explanation connection =
     (let body = html_error_body status explanation
      in http_error_header status (length body) connection @ body)"

lemma html_lengths: "length html_open = 178" "length html_close = 16" "length html_template_error_page = 20"
  by (simp_all add: html_open_def html_close_def html_template_error_page_def)

lemma template_error_split:
  "http_template_error = ''HTTP/1.1 '' @ CHR ''%'' # CHR ''s'' #
     ((CRLF @ ''Server: Twinkleshine'' @ CRLF @ ''Cache-Control: no-cache, no-store, must-revalidate'' @ CRLF @
       ''Content-Type: text/html; charset=UTF-8'' @ CRLF @ ''Content-Length: '') @ CHR ''%'' # CHR ''u'' #
     ((CRLF @ ''Connection: '') @ CHR ''%'' # CHR ''s'' # (CRLF @ CRLF)))"
  by (simp add: http_template_error_def)

lemma template_page_split:
  "html_template_error_page = ''<p>'' @ CHR ''%'' # CHR ''s'' # ((''</p>'' @ [LF] @ ''<p>'') @ CHR ''%'' # CHR ''s'' #
     (''</p>'' @ [LF]))"
  by (simp add: html_template_error_page_def)

lemma no_percent:
  "CHR ''%'' \<notin> set ''HTTP/1.1 ''" "CHR ''%'' \<notin> set (CRLF @ ''Server: Twinkleshine'' @ CRLF @
     ''Cache-Control: no-cache, no-store, must-revalidate'' @ CRLF @ ''Content-Type: text/html; charset=UTF-8'' @ CRLF @ ''Content-Length: '')"
  "CHR ''%'' \<notin> set (CRLF @ ''Connection: '')" "CHR ''%'' \<notin> set (CRLF @ CRLF)"
  "CHR ''%'' \<notin> set ''<p>''" "CHR ''%'' \<notin> set (''</p>'' @ [LF] @ ''<p>'')" "CHR ''%'' \<notin> set (''</p>'' @ [LF])"
  by simp_all

lemma format_error:
  assumes "length status < 2 ^ 31" and "length connection < 2 ^ 31" and "n < 2 ^ 32"
  shows "format_text printf http_template_error [VA_text status, VA_uint n, VA_text connection] k =
    Some (http_error_header status n connection, [], [])"
proof -
  have "unat (word_of_nat n :: 32 word) = n" using assms(3) by (simp add: unat_of_nat)
  then show ?thesis unfolding template_error_split
    by (simp only: format_s [OF no_percent(1) assms(1)] format_u [OF no_percent(2)] format_s [OF no_percent(3) assms(2)]
        format_plain [OF no_percent(4)] print_after_simps)
      (simp only: append_assoc append_Nil http_error_header_def)
qed

lemma format_page:
  assumes "length status < 2 ^ 31" and "length explanation < 2 ^ 31"
  shows "format_text printf html_template_error_page [VA_text status, VA_text explanation] k =
    Some (''<p>'' @ status @ ''</p>'' @ [LF] @ ''<p>'' @ explanation @ ''</p>'' @ [LF], [], [])"
  unfolding template_page_split
  by (simp only: format_s [OF no_percent(5) assms(1)] format_s [OF no_percent(6) assms(2)]
      format_plain [OF no_percent(7)] print_after_simps)
    (simp only: append_assoc append_Nil)

lemma initialize_one_result:
  assumes "realloc_ok realloc" and "float_ok printf" and "string_inv buffer"
    and "length status < 100" and "length explanation < 100"
  shows "string_result (processor_module_initialize_one printf realloc buffer status explanation)
    (http_error_page status explanation ''close'')"
proof -
  define n where "n = length (html_error_body status explanation)"
  have n: "n = 178 + (16 + length status + length explanation) + 16"
    by (simp add: n_def html_error_body_def html_lengths)
  have content: "(length html_open + (length html_template_error_page - 4 + length status + length explanation) mod 2 ^ 32 +
      length html_close) mod 2 ^ 32 = n" using assms(4,5) by (simp add: html_lengths n)
  have small: "length status < 2 ^ 31" "length explanation < 2 ^ 31" "length ''close'' < 2 ^ 31" "n < 2 ^ 32"
    using assms(4,5) n by simp_all
  let ?h = "http_error_header status n ''close''"
  have header: "length ?h < 500"
    using assms(4) length_decimal_text_32 [OF small(4)] by (simp add: http_error_header_def)
  let ?page = "''<p>'' @ status @ ''</p>'' @ [LF] @ ''<p>'' @ explanation @ ''</p>'' @ [LF]"
  have plain: "list_all plain_argument [VA_text status, VA_uint n, VA_text ''close'']"
    "list_all plain_argument [VA_text status, VA_text explanation]" by simp_all
  have "string_result (processor_module_initialize_one printf realloc buffer status explanation)
      (((?h @ html_open) @ ?page) @ html_close)"
    unfolding processor_module_initialize_one_def Let_def content
  proof (rule string_result_pret [OF print_result [OF assms(1-3) plain(1) format_error [OF small(1,3,4)]]])
    fix s1 assume s1: "string_inv s1" "string_bytes s1 = ?h"
    show "string_result (pret (string_append_mem realloc s1 html_open) (\<lambda>buffer.
         pret (string_print_append printf realloc buffer html_template_error_page
                 [VA_text status, VA_text explanation]) (\<lambda>buffer.
         pret (string_append_mem realloc buffer html_close) (\<lambda>buffer. Inr buffer))))
         (((?h @ html_open) @ ?page) @ html_close)"
    proof (rule string_result_pret [OF append_mem_result [OF assms(1) s1]])
      fix s2 assume s2: "string_inv s2" "string_bytes s2 = ?h @ html_open"
      show "string_result (pret (string_print_append printf realloc s2 html_template_error_page
                 [VA_text status, VA_text explanation]) (\<lambda>buffer.
         pret (string_append_mem realloc buffer html_close) (\<lambda>buffer. Inr buffer)))
         (((?h @ html_open) @ ?page) @ html_close)"
      proof (rule string_result_pret [OF print_append_result [OF assms(1,2) s2 plain(2) format_page [OF small(1,2)]]])
        fix s3 assume s3: "string_inv s3" "string_bytes s3 = (?h @ html_open) @ ?page"
        show "string_result (pret (string_append_mem realloc s3 html_close) (\<lambda>buffer. Inr buffer))
            (((?h @ html_open) @ ?page) @ html_close)"
          by (rule string_result_pret [OF append_mem_result [OF assms(1) s3]])
            (use header assms(4,5) in \<open>simp_all add: html_lengths string_result_Inr\<close>)
      qed (use header assms(4,5) in \<open>simp_all add: html_lengths\<close>)
    qed (use header in \<open>simp add: html_lengths\<close>)
  qed (use header in simp)
  then show ?thesis by (simp add: http_error_page_def n_def html_error_body_def Let_def)
qed

text \<open>The nine pages.\<close>

definition http_page_text :: "flags \<Rightarrow> byte list" where
  "http_page_text fixed =
     fixed_switch fixed
       [(FR_MAX_CLIENTS, http_error_page ''503 Service Unavailable'' ''Maximum number of clients reached'' ''close''),
        (FR_MAX_MEMORY, http_error_page ''503 Service Unavailable'' ''Maximum memory usage reached'' ''close''),
        (FR_MAX_UTILIZATION, http_error_page ''503 Service Unavailable'' ''Maximum processor utilization reached'' ''close''),
        (FR_UNKNOWN, http_error_page ''500 Internal Server Error'' ''Unknown error'' ''close''),
        (FR_REQUEST_INVALID, http_error_page ''400 Bad Request'' ''Parser error'' ''close''),
        (FR_MAX_AVAILABLE_REQUEST_STREAM, http_error_page ''429 Too Many Requests'' ''Received too large chunk of data'' ''close''),
        (FR_MAX_REQUEST_HEADER_SIZE, http_error_page ''431 Request Header Fields Too Large'' ''Actual header size is too large'' ''close''),
        (FR_MAX_REQUEST_CONTENT_SIZE, http_error_page ''413 Content Too Large'' ''Promised content size is too large'' ''close''),
        (FR_MAX_INCOMPLETE_REQUEST_TIME, http_error_page ''408 Request Timeout'' ''Request incomplete for too long'' ''close'')]
       (http_error_page ''500 Internal Server Error'' ''Unknown error'' ''close'')"

lemma string_result_cases:
  assumes "string_result r t"
  obtains (fail) m where "r = Inl (Failed m)" | (ok) s where "r = Inr s" "string_inv s" "string_bytes s = t"
  using assms by (auto simp: string_result_def)

lemma pret_page:
  assumes "string_result r t"
    and "\<And>s. \<lbrakk>string_inv s; string_bytes s = t\<rbrakk> \<Longrightarrow> (\<exists>m. k s = Inl (Failed m)) \<or> (\<exists>P. k s = Inr P \<and> Q P)"
  shows "(\<exists>m. pret r k = Inl (Failed m)) \<or> (\<exists>P. pret r k = Inr P \<and> Q P)"
  using assms by (fastforce simp: string_result_def)

lemma initialize_http_result:
  assumes "realloc_ok realloc" and "float_ok printf"
  shows "(\<exists>m. processor_module_initialize_http printf realloc zero_http_pages = Inl (Failed m)) \<or>
    (\<exists>P. processor_module_initialize_http printf realloc zero_http_pages = Inr P \<and>
       (\<forall>fixed. processor_fixed_http_failsafe P fixed = http_page_text fixed))"
  unfolding processor_module_initialize_http_def zero_http_pages_def http_pages.select_convs
  apply (rule pret_page [OF initialize_one_result [OF assms string_inv_zero]], simp, simp)+
  apply (simp add: processor_fixed_http_failsafe_def http_page_text_def del: fr_code.simps)
  done

lemma construct_fixed_cases:
  assumes "ring_inv queue" and "realloc_ok realloc" and "ring_size queue + sizeof_Response \<le> 2 ^ 63"
  obtains (fail) "construct_fixed realloc g queue stream =
      Inl \<lparr>ex_error = Failed ''new_p != NULL'', ex_flags = EEF_SEND_SHUTDOWN_LOG FR_UNKNOWN\<rparr>"
  | (ok) r g' q' where "construct_fixed realloc g queue stream = Inr (r, g', q', stream)"
      "r = response_header (length stream) False 0 0 zero_value zero_value zero_value"
      "ring_inv q'" "ring_bytes q' = ring_bytes queue @ response_bytes r"
proof -
  have zero: "value_size zero_value = 0" "vbytes m zero_value = []" for m
    by (simp_all add: zero_value_def zero_part_def pbytes_def)
  have "ring_size queue + sizeof_Response + value_size zero_value + value_size zero_value + value_size zero_value + 0 \<le> 2 ^ 63"
    using assms(3) by (simp add: zero)
  with assms(1,2) show ?thesis
  proof (cases rule: construct_response_cases [where g = g and m = "\<lambda>_. NUL" and n = "length stream" and ka = False and fc = 0])
    case fail
    then show ?thesis by (intro that(1)) (simp add: construct_fixed_def)
  next
    case (ok g' q')
    then show ?thesis by (intro that(2)) (simp_all add: construct_fixed_def zero)
  qed
qed

section \<open>Properties\<close>

text \<open>
  The pages of HTTP. Initialization fails only for want of memory; afterwards every fixed
  response is the complete page of its status, whose \<^verbatim>\<open>Content-Length\<close> is the decimal length of the
  body that follows, although the code computes the length before it prints the body.
\<close>

theorem http_pages_correct:
  assumes "realloc_ok realloc" and "float_ok printf"
  shows "case processor_module_initialize_http printf realloc zero_http_pages of
      Inl e \<Rightarrow> \<exists>m. e = Failed m
    | Inr P \<Rightarrow> processor_fixed_http_failsafe P fixed = http_page_text fixed"
  using initialize_http_result [OF assms] by fastforce

lemma float_ok_none: "float_ok (\<lambda>_ _. [])"
  by (simp add: float_ok_def)

lemma http_pages_correct_witness:
  "case processor_module_initialize_http (\<lambda>_ _. []) realloc_zero zero_http_pages of
      Inl e \<Rightarrow> \<exists>m. e = Failed m
    | Inr P \<Rightarrow> processor_fixed_http_failsafe P (fr_code FR_REQUEST_INVALID) =
        http_error_page ''400 Bad Request'' ''Parser error'' ''close''"
  using http_pages_correct [OF realloc_ok_zero float_ok_none, of "fr_code FR_REQUEST_INVALID"]
  by (simp add: http_page_text_def push_bit_eq_mult split: sum.splits)

text \<open>
  C39: a fixed response queues exactly its metadata behind what waits in the response queue: the size of
  its text, no further request on this connection, not silent; the only error is the allocator's,
  which asks for an answer and the end of the connection.
\<close>

theorem processor_fixed_correct:
  assumes "realloc_ok realloc" and "ring_inv queue" and "ring_size queue + sizeof_Response \<le> 2 ^ 63"
  shows "case processor_fixed P realloc a g queue fixed of
      Inl e \<Rightarrow> e = \<lparr>ex_error = Failed ''new_p != NULL'', ex_flags = EEF_SEND_SHUTDOWN_LOG FR_UNKNOWN\<rparr>
    | Inr (r, g', q, stream) \<Rightarrow> stream = processor_fixed_failsafe P a fixed \<and> rs_stream_size r = length stream \<and>
        \<not> rs_keep_alive r \<and> \<not> rs_silent r \<and> rs_size r = 0 \<and> ring_inv q \<and>
        ring_bytes q = ring_bytes queue @ response_bytes r"
  using assms(2,1,3)
proof (cases rule: construct_fixed_cases [where g = g and stream = "processor_fixed_failsafe P a fixed"])
  case fail
  then show ?thesis by (simp add: processor_fixed_eq)
next
  case (ok r g' q')
  then show ?thesis
    by (simp add: processor_fixed_eq response_header_def Let_def zero_response_def zero_value_def zero_part_def)
qed

lemma processor_fixed_correct_witness:
  "case processor_fixed zero_http_pages realloc_zero 8 0 zero_ring (fr_code FR_UNKNOWN) of
      Inl e \<Rightarrow> e = \<lparr>ex_error = Failed ''new_p != NULL'', ex_flags = EEF_SEND_SHUTDOWN_LOG FR_UNKNOWN\<rparr>
    | Inr (r, g', q, stream) \<Rightarrow> stream = ''42 Unknown error'' @ CRLF"
proof -
  have "processor_fixed_failsafe zero_http_pages 8 (fr_code FR_UNKNOWN) = ''42 Unknown error'' @ CRLF"
    by (simp add: processor_fixed_failsafe_def accepting_socket_defs processor_fixed_gemini_failsafe_def push_bit_eq_mult)
  then show ?thesis
    using processor_fixed_correct [OF realloc_ok_zero ring_inv_zero _, where P = zero_http_pages and a = 8 and g = 0 and
        fixed = "fr_code FR_UNKNOWN"]
    by (auto simp: zero_ring_def sizeof_Response_def split: sum.splits prod.splits)
qed

text \<open>
  The answers that are lost. The response number taken from the flags of an error is always one of
  the first two, so on every protocol a client is told that the memory is exhausted whatever is
  wrong with its request: a gemini client with a malformed request gets \<^verbatim>\<open>41\<close> (try again
  later), not the \<^verbatim>\<open>59\<close> that the table has for it.
\<close>

theorem wrong_answer:
  "processor_fixed_failsafe P a (fixed_of_flags (EEF_SEND_SHUTDOWN_LOG fr)) =
     processor_fixed_failsafe P a (fr_code (if fr = FR_MAX_CLIENTS then FR_MAX_CLIENTS else FR_MAX_MEMORY)) \<and>
   processor_fixed_failsafe P 8 (fixed_of_flags (EEF_SEND_SHUTDOWN_LOG FR_REQUEST_INVALID)) =
     ''41 Maximum memory usage reached'' @ CRLF \<and>
   processor_fixed_failsafe P 8 (fr_code FR_REQUEST_INVALID) = ''59 Parser error'' @ CRLF"
proof -
  have code: "fixed_of_flags (EEF_SEND_SHUTDOWN_LOG fr) =
      fr_code (if fr = FR_MAX_CLIENTS then FR_MAX_CLIENTS else FR_MAX_MEMORY)" for fr
    by (cases fr) (simp_all add: flag_defs fixed_of_flags_def push_bit_eq_mult)
  show ?thesis unfolding code
    by (simp add: processor_fixed_failsafe_def accepting_socket_defs processor_fixed_gemini_failsafe_def push_bit_eq_mult)
qed

end
