(* ===== verification/TS_Style.thy ===== *)
theory TS_Style
  imports TS_Fixed TS_Language TS_Parser
begin

text \<open>
  The text operations of \<^verbatim>\<open>source/processor/generic.c\<close> and \<^verbatim>\<open>nex_processor.c\<close> that the printers of the
  protocols share: upper case, boxes and line wrapping, done in place in the buffer of a page.
\<close>

unbundle bit_operations_syntax

section \<open>Styles and context\<close>

text \<open>\<^verbatim>\<open>include/processor.h\<close>\<close>

datatype entry_style = ES_INITIALIZE | ES_FINALIZE | ES_NORMAL | ES_PARAGRAPH | ES_ITEMIZE | ES_ENUMERATION
  | ES_QUOTE | ES_LARGE | ES_LARGER | ES_LARGEST | ES_HEADER | ES_INTERNAL_REFERENCE | ES_EXTERNAL_REFERENCE

text \<open>\<^verbatim>\<open>struct ProcessorPrintContext\<close>, with the two buffers it points to.\<close>

record page_context =
  pc_one :: char_buffer
  pc_two :: char_buffer
  pc_request :: request
  pc_previous_style :: entry_style
  pc_list_index :: nat
  pc_language :: char
  pc_requested_language :: char
  pc_first_chunk :: nat
  pc_chunk_number :: nat

definition processor_generic_paragraph :: "entry_style \<Rightarrow> bool" where
  "processor_generic_paragraph style =
     (case style of ES_PARAGRAPH \<Rightarrow> True | ES_QUOTE \<Rightarrow> True | ES_LARGE \<Rightarrow> True | ES_LARGER \<Rightarrow> True
      | ES_LARGEST \<Rightarrow> True | ES_HEADER \<Rightarrow> True | _ \<Rightarrow> False)"

section \<open>Upper case\<close>

text \<open>
  One round of \<^verbatim>\<open>processor_generic_upper_case\<close> at the byte \<open>c\<close>: \<open>done\<close> are the bytes before it, the last
  one first, since the code also writes \<^verbatim>\<open>p[-1]\<close>; returns them, the new byte and \<^verbatim>\<open>byte0\<close>.
\<close>

definition set_previous :: "byte list \<Rightarrow> byte \<Rightarrow> byte list" where
  "set_previous done c = (case done of [] \<Rightarrow> [] | _ # bs \<Rightarrow> c # bs)"

definition upper_case_step :: "byte list \<Rightarrow> nat \<Rightarrow> byte \<Rightarrow> byte list \<times> byte \<times> nat" where
  "upper_case_step done byte0 c =
     (let p = ord c in
      if p AND 0x80 = 0x00
      then (done, (if p \<ge> ord CHR ''a'' \<and> p \<le> ord CHR ''z'' then char_of (p - (ord CHR ''a'' - ord CHR ''A'')) else c), 0)
      else if p AND 0xE0 = 0xC0
      then (if byte0 = 0xC3
            then (done, (if p \<ge> 0xA0 \<and> p \<noteq> 0xB7 \<and> p \<noteq> 0xBF then char_of (p - 0x20) else c), 0)
            else if byte0 = 0xD0
            then (done, (if p \<ge> 0xB0 then char_of (p - 0x20) else c), 0)
            else if byte0 = 0xD1
            then (if p \<le> 0x8F then (set_previous done (char_of (0xD0::nat)), char_of (p + 0x20), 0)
                  else if p \<le> 0x9F then (set_previous done (char_of (0xD0::nat)), char_of (p - 0x10), 0)
                  else (done, char_of (p AND 0xFE), 0))
            else if byte0 = 0xD2
            then (done, char_of (p AND 0xFE), 0)
            else if byte0 = 0xD3
            then (done, (if p \<ge> 0x81 \<and> p \<le> 0x8E \<and> p mod 2 = 0 then char_of (p - 1)
                         else if p = 0x8F then char_of (0x80::nat)
                         else if p \<ge> 0x90 then char_of (p AND 0xFE) else c), 0)
            else (done, c, 0))
      else if p AND 0xC0 = 0x80 then (done, c, p)
      else (done, c, 0))"

fun upper_case_loop :: "byte list \<Rightarrow> nat \<Rightarrow> byte list \<Rightarrow> byte list" where
  "upper_case_loop done byte0 [] = rev done"
| "upper_case_loop done byte0 (c # cs) =
     (case upper_case_step done byte0 c of (done, c, byte0) \<Rightarrow> upper_case_loop (c # done) byte0 cs)"

text \<open>
  The loop runs over the bytes from \<open>old_string_size + prefix_size\<close> to \<open>suffix_size\<close> before the end. The
  first byte it sees has no predecessor it could write: \<^verbatim>\<open>byte0\<close> is 0 there.
\<close>

definition processor_generic_upper_case :: "char_buffer \<Rightarrow> nat \<Rightarrow> nat \<Rightarrow> nat \<Rightarrow> char_buffer result" where
  "processor_generic_upper_case s old_string_size prefix_size suffix_size =
     (let start = old_string_size + prefix_size; stop = cb_size s - suffix_size
      in access (mem_read (cb_block s) start (stop - start)) (\<lambda>cs.
         string_store s start (upper_case_loop [] 0 cs)))"

section \<open>Boxes\<close>

text \<open>\<^verbatim>\<open>memset_alternating(destination, c1, c2, n1, n2)\<close>: what it writes.\<close>

definition memset_alternating :: "byte \<Rightarrow> byte \<Rightarrow> nat \<Rightarrow> nat \<Rightarrow> byte list" where
  "memset_alternating c1 c2 n1 n2 =
     (if c1 = c2 then replicate n1 c1 else map (\<lambda>i. if i mod 2 = 1 then c1 else c2) [0..<n1]) @
     replicate (size_sub n2 n1) (CHR '' '')"

definition processor_generic_box :: "allocator \<Rightarrow> char_buffer \<Rightarrow> nat \<Rightarrow> nat \<Rightarrow> nat \<Rightarrow> byte \<Rightarrow> byte \<Rightarrow> char_buffer result" where
  "processor_generic_box realloc s old_string_size prefix_size suffix_size c1 c2 =
     (let full_line_size = size_sub (cb_size s) old_string_size;
          line_size = size_sub (size_sub full_line_size prefix_size) suffix_size
      in access (mem_read (cb_block s) old_string_size full_line_size) (\<lambda>line.
         let line_size_glyphs = size_sub line_size (length (filter (\<lambda>c. ord c AND 0xC0 = 0x80) line))
         in pret (string_resize realloc s (size_add (cb_size s) (2 * full_line_size))) (\<lambda>s.
            pret (string_store s (old_string_size + full_line_size) line) (\<lambda>s.
            pret (string_store s (old_string_size + full_line_size * 2) line) (\<lambda>s.
            pret (string_store s (old_string_size + prefix_size)
                    (memset_alternating c1 c2 line_size_glyphs line_size)) (\<lambda>s.
            string_store s (old_string_size + full_line_size * 2 + prefix_size)
              (memset_alternating c1 c2 line_size_glyphs line_size)))))))"

section \<open>Line wrapping\<close>

text \<open>
  \<^verbatim>\<open>wrap\<close>: \<open>i\<close> is the position of \<^verbatim>\<open>p\<close>, \<open>last_space\<close> that of the last space or \<^verbatim>\<open>NULL\<close>.
\<close>

definition wrap_step :: "nat \<Rightarrow> nat option \<Rightarrow> nat \<Rightarrow> byte list \<Rightarrow> nat \<times> nat option \<times> byte list" where
  "wrap_step symbols_till_want_newline last_space i cs =
     (let line_width = 70; c = cs ! i;
          last_space = (if c = CHR '' '' then Some i else last_space)
      in if c = LF then (line_width, None, cs)
         else if symbols_till_want_newline > 0 then (symbols_till_want_newline - 1, last_space, cs)
         else case last_space of
                Some k \<Rightarrow> (size_sub line_width (i - k), None, cs[k := LF])
              | None \<Rightarrow> (symbols_till_want_newline, last_space, cs))"

fun wrap_loop :: "nat \<Rightarrow> nat option \<Rightarrow> nat \<Rightarrow> nat \<Rightarrow> byte list \<Rightarrow> byte list" where
  "wrap_loop symbols_till_want_newline last_space i 0 cs = cs"
| "wrap_loop symbols_till_want_newline last_space i (Suc n) cs =
     (case wrap_step symbols_till_want_newline last_space i cs of
        (symbols_till_want_newline, last_space, cs) \<Rightarrow>
          wrap_loop symbols_till_want_newline last_space (Suc i) n cs)"

definition wrap :: "byte list \<Rightarrow> byte list" where
  "wrap cs = wrap_loop 70 None 0 (length cs) cs"

text \<open>\<^verbatim>\<open>wrap(string->p + old_size, string->size - old_size)\<close>\<close>

definition string_wrap :: "char_buffer \<Rightarrow> nat \<Rightarrow> char_buffer result" where
  "string_wrap s old_size =
     access (mem_read (cb_block s) old_size (cb_size s - old_size)) (\<lambda>cs. string_store s old_size (wrap cs))"

section \<open>What upper case does\<close>

definition ascii_upper :: "byte \<Rightarrow> byte" where
  "ascii_upper c = (if is_lower c then char_of (ord c - 32) else c)"

lemma masked_byte:
  assumes "n < 256"
  shows "(n AND 0x80 = 0) = (n < (128::nat))"
    and "n AND 0xC0 = 0x80 \<Longrightarrow> n \<noteq> 0xC3 \<and> n \<noteq> 0xD0 \<and> n \<noteq> 0xD1 \<and> n \<noteq> 0xD2 \<and> n \<noteq> (0xD3::nat)"
proof -
  have "(n AND 2 ^ 7 = 0) = (\<not> bit n 7)" by (rule and_exp_eq_0_iff_not_bit)
  also have "bit n 7 = odd (n div 2 ^ 7)" by (rule bit_iff_odd)
  also have "(\<not> odd (n div 2 ^ 7)) = (n < 128)"
  proof (cases "n < 128")
    case False
    then have "n div 128 = 1" using assms by (intro div_nat_eqI) simp_all
    then show ?thesis using False by simp
  qed simp
  finally show "(n AND 0x80 = 0) = (n < (128::nat))" by simp
  show "n AND 0xC0 = 0x80 \<Longrightarrow> n \<noteq> 0xC3 \<and> n \<noteq> 0xD0 \<and> n \<noteq> 0xD1 \<and> n \<noteq> 0xD2 \<and> n \<noteq> (0xD3::nat)"
    by auto
qed

text \<open>
  The test for a continuation byte accepts the first bytes of two and the other way round, so
  \<^verbatim>\<open>byte0\<close> never holds a first byte: only ASCII letters change.
\<close>

definition not_lead :: "nat \<Rightarrow> bool" where
  "not_lead b \<longleftrightarrow> b \<noteq> 0xC3 \<and> b \<noteq> 0xD0 \<and> b \<noteq> 0xD1 \<and> b \<noteq> 0xD2 \<and> b \<noteq> 0xD3"

lemma ord_less_256: "ord c < 256"
  using mod_less_divisor [of 256 "ord c"] by (simp only: of_char_mod_256)

lemma upper_case_step_ascii:
  assumes "not_lead b"
  shows "\<exists>b'. upper_case_step bs b c = (bs, ascii_upper c, b') \<and> not_lead b'"
proof -
  have zero: "not_lead 0" by (simp add: not_lead_def)
  have lower: "is_lower c \<longleftrightarrow> ord CHR ''a'' \<le> ord c \<and> ord c \<le> ord CHR ''z''" by (simp add: is_lower_def)
  show ?thesis
  proof (cases "ord c AND 0x80 = 0")
    case True
    then show ?thesis using zero by (simp add: upper_case_step_def Let_def ascii_upper_def is_lower_def)
  next
    case high: False
    then have "ascii_upper c = c" using masked_byte(1) [OF ord_less_256 [of c]] by (simp add: ascii_upper_def is_lower_def)
    then show ?thesis using high zero assms masked_byte(2) [OF ord_less_256 [of c]]
      by (simp add: upper_case_step_def Let_def not_lead_def)
  qed
qed

lemma upper_case_loop_ascii: "not_lead b \<Longrightarrow> upper_case_loop bs b cs = rev bs @ map ascii_upper cs"
proof (induction cs arbitrary: bs b)
  case (Cons c cs)
  from upper_case_step_ascii [OF Cons.prems] obtain b' where
    "upper_case_step bs b c = (bs, ascii_upper c, b')" "not_lead b'" by blast
  then show ?case using Cons.IH [of b' "ascii_upper c # bs"] by simp
qed simp

lemma upper_case_eq: "upper_case_loop [] 0 cs = map ascii_upper cs"
  using upper_case_loop_ascii [of 0 "[]" cs] by (simp add: not_lead_def)

lemma string_read:
  assumes "string_inv s" and "i + n \<le> cb_size s"
  shows "mem_read (cb_block s) i n = Some (take n (drop i (string_bytes s)))"
proof -
  have "i + n \<le> length (cb_block s)" using assms string_invD(1,3) [OF assms(1)] by simp
  moreover have "take n (drop i (cb_block s)) = take n (drop i (string_bytes s))"
    using assms(2) by (simp add: string_bytes_def drop_take min_def)
  ultimately show ?thesis by simp
qed

lemma upper_case_spec:
  assumes "string_inv s" and "string_bytes s = a @ prefix @ t @ suffix"
  shows "string_result (processor_generic_upper_case s (length a) (length prefix) (length suffix))
    (a @ prefix @ map ascii_upper t @ suffix)"
proof -
  have size: "cb_size s = length a + length prefix + length t + length suffix"
    using assms(2) string_invD(6) [OF assms(1)] by simp
  have "length a + length prefix + length t \<le> cb_size s" using size by simp
  note read = string_read [OF assms(1) this]
  have t: "take (length t) (drop (length a + length prefix) (string_bytes s)) = t" by (simp add: assms(2))
  have "length a + length prefix + length (map ascii_upper t) \<le> cb_size s" using size by simp
  from string_store_ok [OF assms(1) this] obtain s' where
    "string_store s (length a + length prefix) (map ascii_upper t) = Inr s'" "string_inv s'"
    "string_bytes s' = a @ prefix @ map ascii_upper t @ suffix" by (auto simp: assms(2))
  then show ?thesis using read t size
    by (simp add: processor_generic_upper_case_def Let_def access_def upper_case_eq string_result_def)
qed

section \<open>What wrapping does\<close>

text \<open>Wrapping only turns spaces into line feeds.\<close>

definition wrapped :: "byte list \<Rightarrow> byte list \<Rightarrow> bool" where
  "wrapped cs ds \<longleftrightarrow> length ds = length cs \<and>
     (\<forall>i < length cs. ds ! i = cs ! i \<or> cs ! i = CHR '' '' \<and> ds ! i = LF)"

lemma wrapped_refl: "wrapped cs cs"
  by (simp add: wrapped_def)

lemma wrapped_trans: "wrapped cs ds \<Longrightarrow> wrapped ds es \<Longrightarrow> wrapped cs es"
  unfolding wrapped_def by (metis (no_types))

lemma wrap_step_wrapped:
  assumes "wrap_step symbols space i cs = (symbols', space', ds)" and "i < length cs"
    and "\<And>k. space = Some k \<Longrightarrow> k < i \<and> cs ! k = CHR '' ''"
  shows "wrapped cs ds \<and> (\<forall>k. space' = Some k \<longrightarrow> k < Suc i \<and> ds ! k = CHR '' '')"
proof (cases "cs ! i = LF \<or> symbols > 0")
  case True
  then show ?thesis using assms
    by (auto simp: wrap_step_def Let_def wrapped_refl split: if_splits)
next
  case False
  then show ?thesis using assms
    by (auto simp: wrap_step_def Let_def wrapped_def nth_list_update split: if_splits option.splits)
qed

lemma wrap_loop_wrapped:
  assumes "i + n = length cs" and "\<And>k. space = Some k \<Longrightarrow> k < i \<and> cs ! k = CHR '' ''"
  shows "wrapped cs (wrap_loop symbols space i n cs)"
  using assms
proof (induction n arbitrary: symbols space i cs)
  case (Suc n)
  obtain symbols' space' ds where step: "wrap_step symbols space i cs = (symbols', space', ds)"
    by (metis prod_cases3)
  have i: "i < length cs" using Suc.prems(1) by simp
  note W = wrap_step_wrapped [OF step i Suc.prems(2)]
  have "length ds = length cs" using W by (simp add: wrapped_def)
  then have "wrapped ds (wrap_loop symbols' space' (Suc i) n ds)"
    using Suc.prems(1) W by (intro Suc.IH) auto
  then show ?case using W wrapped_trans step by auto
qed (simp add: wrapped_refl)

lemma wrap_wrapped: "wrapped cs (wrap cs)"
  unfolding wrap_def by (rule wrap_loop_wrapped) simp_all

lemma string_wrap_spec:
  assumes "string_inv s" and "string_bytes s = a @ t"
  shows "string_result (string_wrap s (length a)) (a @ wrap t)"
proof -
  have size: "cb_size s = length a + length t" using assms(2) string_invD(6) [OF assms(1)] by simp
  have len: "length (wrap t) = length t" using wrap_wrapped [of t] by (simp add: wrapped_def)
  have "mem_read (cb_block s) (length a) (length t) = Some (take (length t) (drop (length a) (string_bytes s)))"
    by (rule string_read [OF assms(1)]) (simp add: size)
  moreover have "length a + length (wrap t) \<le> cb_size s" using size len by simp
  from string_store_ok [OF assms(1) this] obtain s' where
    "string_store s (length a) (wrap t) = Inr s'" "string_inv s'" "string_bytes s' = a @ wrap t"
    by (auto simp: assms(2) len)
  ultimately show ?thesis using size assms(2)
    by (simp add: string_wrap_def access_def string_result_def)
qed

section \<open>What a box looks like\<close>

lemma string_store_at:
  assumes "string_inv s" and "string_bytes s = x @ y @ z" and "length y' = length y" and "i = length x"
  shows "string_result (string_store s i y') (x @ y' @ z)"
proof -
  have "i + length y' \<le> cb_size s" using assms string_invD(6) [OF assms(1)] by simp
  from string_store_ok [OF assms(1) this] show ?thesis using assms by (auto simp: string_result_def)
qed

lemma resize_result:
  assumes "realloc_ok realloc" and "string_inv s" and "string_bytes s = t" and "length t + n < 2 ^ 63"
  shows "(\<exists>m. string_resize realloc s (length t + n) = Inl (Failed m)) \<or>
    (\<exists>s' junk. string_resize realloc s (length t + n) = Inr s' \<and> string_inv s' \<and> string_bytes s' = t @ junk \<and> length junk = n)"
  using assms(2,1,4)
proof (cases rule: string_resize_cases)
  case fail
  then show ?thesis by blast
next
  case (ok s')
  have size: "cb_size s = length t" using assms(3) string_invD(6) [OF assms(2)] by simp
  have len: "length (string_bytes s') = length t + n" using string_invD(6) [OF ok(2)] ok(3) by simp
  have "min (length t + n) (cb_size s) = length t" using size by simp
  with ok(5) have block: "take (length t) (cb_block s') = take (length t) (cb_block s)"
    using size by (simp add: string_bytes_def)
  have "take (length t) (string_bytes s') = t"
    using block size assms(3) by (simp add: string_bytes_def ok(3) min_def)
  then have "string_bytes s' = t @ drop (length t) (string_bytes s')" by (metis append_take_drop_id)
  then show ?thesis using ok len by (metis length_drop diff_add_inverse)
qed

lemma length_memset_alternating: "n1 \<le> n2 \<Longrightarrow> n2 < 2 ^ 64 \<Longrightarrow> length (memset_alternating c1 c2 n1 n2) = n2"
  by (simp add: memset_alternating_def)

definition continuations :: "byte list \<Rightarrow> nat" where
  "continuations cs = length (filter (\<lambda>c. ord c AND 0xC0 = 0x80) cs)"

definition box_edge :: "byte \<Rightarrow> byte \<Rightarrow> byte list \<Rightarrow> byte list" where
  "box_edge c1 c2 t = memset_alternating c1 c2 (length t - continuations t) (length t)"

lemma continuations_append [simp]: "continuations (xs @ ys) = continuations xs + continuations ys"
  by (simp add: continuations_def)

lemma continuations_le: "continuations cs \<le> length cs"
  by (simp add: continuations_def)

lemma box_spec:
  assumes "realloc_ok realloc" and "string_inv s" and "string_bytes s = a @ prefix @ t @ suffix"
    and "continuations prefix = 0" and "continuations suffix = 0"
    and "length a + 3 * length (prefix @ t @ suffix) < 2 ^ 62"
  shows "string_result (processor_generic_box realloc s (length a) (length prefix) (length suffix) c1 c2)
    (a @ (prefix @ box_edge c1 c2 t @ suffix) @ (prefix @ t @ suffix) @ (prefix @ box_edge c1 c2 t @ suffix))"
proof -
  let ?line = "prefix @ t @ suffix" and ?e = "box_edge c1 c2 t"
  define L where "L = length ?line"
  have size: "cb_size s = length a + L" using assms(3) string_invD(6) [OF assms(2)] by (simp add: L_def)
  have big: "length a + 3 * L < 2 ^ 62" using assms(6) by (simp add: L_def)
  have full: "size_sub (cb_size s) (length a) = L" using size big by simp
  have line: "size_sub (size_sub L (length prefix)) (length suffix) = length t" using big by (simp add: L_def)
  have read: "mem_read (cb_block s) (length a) L = Some ?line"
    using string_read [OF assms(2), of "length a" L] size by (simp add: assms(3) L_def)
  have glyphs: "size_sub (length t) (length (filter (\<lambda>c. ord c AND 0xC0 = 0x80) ?line)) = length t - continuations t"
    using assms(4,5) big continuations_le [of t] by (simp add: continuations_def L_def)
  have edge: "memset_alternating c1 c2 (length t - continuations t) (length t) = ?e" "length ?e = length t"
    using big by (simp_all add: box_edge_def length_memset_alternating L_def)
  have new: "size_add (cb_size s) (2 * L) = length (a @ ?line) + 2 * L" using size big by (simp add: L_def)
  have code: "processor_generic_box realloc s (length a) (length prefix) (length suffix) c1 c2 =
      pret (string_resize realloc s (length (a @ ?line) + 2 * L)) (\<lambda>s.
      pret (string_store s (length a + L) ?line) (\<lambda>s.
      pret (string_store s (length a + L * 2) ?line) (\<lambda>s.
      pret (string_store s (length a + length prefix) ?e) (\<lambda>s.
      string_store s (length a + L * 2 + length prefix) ?e))))"
    unfolding processor_generic_box_def Let_def full line read access_def option.case glyphs edge new ..
  have resize: "(\<exists>m. string_resize realloc s (length (a @ ?line) + 2 * L) = Inl (Failed m)) \<or>
      (\<exists>s' junk. string_resize realloc s (length (a @ ?line) + 2 * L) = Inr s' \<and> string_inv s' \<and>
         string_bytes s' = (a @ ?line) @ junk \<and> length junk = 2 * L)"
    by (rule resize_result [OF assms(1,2)]) (use assms(3) big in \<open>simp_all add: L_def\<close>)
  then show ?thesis
  proof
    assume "\<exists>m. string_resize realloc s (length (a @ ?line) + 2 * L) = Inl (Failed m)"
    then show ?thesis unfolding code by (auto simp: string_result_def)
  next
    assume "\<exists>s' junk. string_resize realloc s (length (a @ ?line) + 2 * L) = Inr s' \<and> string_inv s' \<and>
       string_bytes s' = (a @ ?line) @ junk \<and> length junk = 2 * L"
    then obtain s1 junk where s1: "string_resize realloc s (length (a @ ?line) + 2 * L) = Inr s1" "string_inv s1"
      "string_bytes s1 = (a @ ?line) @ junk" "length junk = 2 * L" by blast
    define j1 j2 where "j1 = take L junk" and "j2 = drop L junk"
    have j: "junk = j1 @ j2" "length j1 = L" "length j2 = L" using s1(4) by (simp_all add: j1_def j2_def)
    have store1: "string_result (string_store s1 (length a + L) ?line) ((a @ ?line) @ ?line @ j2)"
      by (rule string_store_at [OF s1(2), of _ j1]) (use s1(3) j in \<open>simp_all add: L_def\<close>)
    have store2: "string_result (string_store s2 (length a + L * 2) ?line) ((a @ ?line @ ?line) @ ?line @ [])"
      if "string_inv s2" "string_bytes s2 = (a @ ?line) @ ?line @ j2" for s2
      by (rule string_store_at [OF that(1), of _ j2]) (use that j in \<open>simp_all add: L_def\<close>)
    have store3: "string_result (string_store s3 (length a + length prefix) ?e) ((a @ prefix) @ ?e @ suffix @ ?line @ ?line)"
      if "string_inv s3" "string_bytes s3 = (a @ ?line @ ?line) @ ?line @ []" for s3
      by (rule string_store_at [OF that(1), of _ t]) (use that edge in simp_all)
    have store4: "string_result (string_store s4 (length a + L * 2 + length prefix) ?e)
        ((a @ prefix @ ?e @ suffix @ ?line @ prefix) @ ?e @ suffix)"
      if "string_inv s4" "string_bytes s4 = (a @ prefix) @ ?e @ suffix @ ?line @ ?line" for s4
      by (rule string_store_at [OF that(1), of _ t]) (use that edge in \<open>simp_all add: L_def\<close>)
    have "string_result (processor_generic_box realloc s (length a) (length prefix) (length suffix) c1 c2)
        ((a @ prefix @ ?e @ suffix @ ?line @ prefix) @ ?e @ suffix)"
      unfolding code s1(1) pret_simps
      by (intro string_result_pret [OF store1] string_result_pret [OF store2] string_result_pret [OF store3] store4)
    then show ?thesis by simp
  qed
qed

end
