(* ===== verification/TS_Guppy.thy ===== *)
theory TS_Guppy
  imports TS_Message TS_String
begin

text \<open>
  \<^verbatim>\<open>guppy_insert_markers\<close> (\<^verbatim>\<open>source/processor/guppy_processor.c\<close>): a page is cut into
  chunks of at most 512 bytes, each starting with its sequence number, in place in the page's
  buffer: the first loop computes the sizes, the second moves the text from the back. The
  last chunk is a number without text. \<open>random_rand\<close> is the random number generator.
\<close>

section \<open>The code\<close>

text \<open>
  The first loop; returns \<^verbatim>\<open>seq\<close>, \<^verbatim>\<open>total_size\<close>, \<^verbatim>\<open>payload_size\<close> and
  \<^verbatim>\<open>chunk_total_sizes\<close>.
\<close>

partial_function (option) marker_sizes :: "nat \<Rightarrow> nat \<Rightarrow> nat \<Rightarrow> nat \<Rightarrow> nat \<Rightarrow> nat \<Rightarrow>
    (nat \<times> nat \<times> nat \<times> nat \<times> nat) option" where
  "marker_sizes initial_payload_size seq total_size payload_size t0 t1 =
     Option.bind (int_length seq) (\<lambda>digits.
       let chunk_extra_size = digits + (if total_size = 0 then 1 else 2);
           max_chunk_payload_size = size_sub CHUNK_SIZE chunk_extra_size;
           remaining = size_sub initial_payload_size payload_size;
           chunk_payload_size = (if remaining < max_chunk_payload_size then remaining else max_chunk_payload_size);
           chunk_total_size = size_add chunk_extra_size chunk_payload_size;
           t0 = t1;
           t1 = chunk_total_size;
           payload_size = size_add payload_size chunk_payload_size;
           total_size = size_add total_size chunk_total_size
       in if chunk_payload_size = 0 then Some (seq, total_size, payload_size, t0, t1)
          else marker_sizes initial_payload_size ((seq + 1) mod 2 ^ 32) total_size payload_size t0 t1)"

text \<open>What \<^verbatim>\<open>sprintf\<close> writes to \<^verbatim>\<open>extra\<close>.\<close>

definition marker :: "nat \<Rightarrow> bool \<Rightarrow> byte list" where
  "marker seq is_first = decimal_text seq @ (if is_first then '' '' else [CR, LF])"

text \<open>The second loop, with \<open>k\<close> chunks in front of the present one.\<close>

fun insert_chunks :: "nat \<Rightarrow> nat \<Rightarrow> nat \<Rightarrow> nat \<Rightarrow> nat \<Rightarrow> nat \<Rightarrow> char_buffer \<Rightarrow> char_buffer result" where
  "insert_chunks first_chunk k total_size payload_size t0 t1 buffer =
     (let seq = (first_chunk + k) mod 2 ^ 32;
          extra = marker seq (seq = first_chunk);
          chunk_total_size = t1;
          chunk_payload_size = size_sub chunk_total_size (length extra);
          t1 = t0;
          t0 = CHUNK_SIZE;
          payload_size = size_sub payload_size chunk_payload_size;
          total_size = size_sub total_size chunk_total_size
      in pret (string_memmove buffer (total_size + length extra) payload_size chunk_payload_size) (\<lambda>buffer.
         pret (string_store buffer total_size extra) (\<lambda>buffer.
         case k of 0 \<Rightarrow> Inr buffer
         | Suc k \<Rightarrow> insert_chunks first_chunk k total_size payload_size t0 t1 buffer)))"

declare insert_chunks.simps [simp del]

text \<open>Returns the buffer, the first sequence number and the number of chunks.\<close>

definition guppy_insert_markers ::
    "allocator \<Rightarrow> (nat \<Rightarrow> nat) \<Rightarrow> char_buffer \<Rightarrow> (char_buffer \<times> nat \<times> nat) result" where
  "guppy_insert_markers realloc random_rand buffer =
     (let first_chunk = (6 + random_rand 0x1000000) mod 2 ^ 32
      in case marker_sizes (cb_size buffer) first_chunk 0 0 0 0 of
           None \<Rightarrow> Inl Diverges
         | Some (seq, total_size, payload_size, t0, t1) \<Rightarrow>
             pret (string_resize realloc buffer total_size) (\<lambda>buffer.
             pret (insert_chunks first_chunk ((seq + 2 ^ 32 - first_chunk) mod 2 ^ 32) total_size payload_size t0 t1 buffer)
               (\<lambda>buffer. Inr (buffer, first_chunk, (seq + 2 ^ 32 - first_chunk + 1) mod 2 ^ 32))))"

section \<open>The chunks as a list\<close>

text \<open>The reference: the text cut from the front.\<close>

function guppy_chunks :: "nat \<Rightarrow> bool \<Rightarrow> byte list \<Rightarrow> byte list list" where
  "guppy_chunks seq is_first payload =
     (let mark = marker seq is_first; room = CHUNK_SIZE - length mark
      in if payload = [] \<or> room = 0 then [mark @ take room payload]
         else (mark @ take room payload) # guppy_chunks (seq + 1) False (drop room payload))"
  by pat_completeness auto
termination by (relation "measure (\<lambda>(_, _, payload). length payload)")
    (auto simp flip: length_greater_0_conv)

declare guppy_chunks.simps [simp del]

text \<open>The text without the markers.\<close>

definition chunk_text :: "nat \<Rightarrow> bool \<Rightarrow> byte list \<Rightarrow> byte list" where
  "chunk_text seq is_first chunk = drop (length (marker seq is_first)) chunk"

lemma length_decimal_text_le:
  assumes "n < 10 ^ Suc k"
  shows "length (decimal_text n) \<le> Suc k"
  using assms
proof (induction k)
  case 0
  then show ?case using length_decimal_text_small [of n] by simp
next
  case (Suc k)
  then show ?case using length_decimal_text [of "Suc k" n] by (cases "n < 10 ^ Suc k") auto
qed

lemma length_marker:
  assumes "seq < 2 ^ 32"
  shows "length (marker seq f) = length (decimal_text seq) + (if f then 1 else 2)" "length (marker seq f) \<le> 12"
    "2 \<le> length (marker seq f)"
proof -
  show eq: "length (marker seq f) = length (decimal_text seq) + (if f then 1 else 2)"
    by (simp add: marker_def)
  have "seq < 10 ^ Suc 9" using assms by simp
  then show "length (marker seq f) \<le> 12" using length_decimal_text_le [of seq 9] eq by (simp split: if_splits)
  have "1 \<le> length (decimal_text seq)" by (subst decimal_text.simps) simp
  then show "2 \<le> length (marker seq f)" using eq by (simp split: if_splits)
qed

lemma guppy_chunks_Nil: "guppy_chunks seq f [] = [marker seq f]"
  by (simp add: guppy_chunks.simps Let_def)

lemma guppy_chunks_step:
  assumes "seq < 2 ^ 32" and "payload \<noteq> []"
  shows "guppy_chunks seq f payload = (marker seq f @ take (CHUNK_SIZE - length (marker seq f)) payload) #
    guppy_chunks (seq + 1) False (drop (CHUNK_SIZE - length (marker seq f)) payload)"
  using assms length_marker(2) [OF assms(1), of f]
  by (subst guppy_chunks.simps) (simp add: Let_def CHUNK_SIZE_def)

section \<open>The reference cuts correctly\<close>

lemma guppy_chunks_induct [consumes 1, case_names Nil step]:
  assumes "seq + length payload < 2 ^ 32"
    and "\<And>seq f. seq < 2 ^ 32 \<Longrightarrow> P seq f []"
    and "\<And>seq f payload. \<lbrakk>seq < 2 ^ 32; payload \<noteq> []; seq + length payload < 2 ^ 32;
        0 < CHUNK_SIZE - length (marker seq f);
        P (seq + 1) False (drop (CHUNK_SIZE - length (marker seq f)) payload)\<rbrakk> \<Longrightarrow> P seq f payload"
  shows "P seq f payload"
  using assms(1)
proof (induction "length payload" arbitrary: seq f payload rule: less_induct)
  case less
  show ?case
  proof (cases "payload = []")
    case True
    then show ?thesis using assms(2) less.prems by simp
  next
    case False
    have seq: "seq < 2 ^ 32" using less.prems by simp
    have room: "0 < CHUNK_SIZE - length (marker seq f)"
      using length_marker(2) [OF seq, of f] by (simp add: CHUNK_SIZE_def)
    let ?d = "drop (CHUNK_SIZE - length (marker seq f)) payload"
    have "0 < length payload" using False by simp
    then have shorter: "length ?d < length payload" using room unfolding length_drop by linarith
    then have "seq + 1 + length ?d < 2 ^ 32" using less.prems by linarith
    from less.hyps [OF shorter this] show ?thesis using assms(3) seq False less.prems room by blast
  qed
qed

lemma guppy_chunks_facts:
  assumes "seq + length payload < 2 ^ 32"
  shows "guppy_chunks seq f payload \<noteq> [] \<and> length (guppy_chunks seq f payload) \<le> length payload + 1 \<and>
    (\<forall>c\<in>set (guppy_chunks seq f payload). length c \<le> CHUNK_SIZE) \<and>
    (\<forall>j. j + 2 < length (guppy_chunks seq f payload) \<longrightarrow> length (guppy_chunks seq f payload ! j) = CHUNK_SIZE)"
  using assms
proof (induction seq f payload rule: guppy_chunks_induct)
  case (Nil seq f)
  then show ?case using length_marker(2) [of seq f] by (simp add: guppy_chunks_Nil CHUNK_SIZE_def)
next
  case (step seq f payload)
  let ?room = "CHUNK_SIZE - length (marker seq f)"
  note G = guppy_chunks_step [OF step(1,2), of f]
  have len: "length (drop ?room payload) + 1 \<le> length payload"
    using step(2,4) by (cases payload) auto
  have first: "length (marker seq f @ take ?room payload) \<le> CHUNK_SIZE"
    using step(4) by simp
  have full: "length (marker seq f @ take ?room payload) = CHUNK_SIZE"
    if "2 < length (guppy_chunks seq f payload)"
  proof -
    have "drop ?room payload \<noteq> []" using that G guppy_chunks_Nil [of "seq + 1" False] by (cases "drop ?room payload = []") auto
    then show ?thesis using step(4) by simp
  qed
  show ?case
  proof (intro conjI allI impI)
    fix j assume j: "j + 2 < length (guppy_chunks seq f payload)"
    then show "length (guppy_chunks seq f payload ! j) = CHUNK_SIZE"
      using step(5) full by (cases j) (auto simp: G)
  qed (use step(5) len first in \<open>auto simp: G\<close>)
qed

text \<open>The chunks are the numbered markers with the pieces of the text behind them.\<close>

definition numbered :: "nat \<Rightarrow> bool \<Rightarrow> byte list list \<Rightarrow> byte list list" where
  "numbered seq f pieces = map (\<lambda>i. marker (seq + i) (f \<and> i = 0) @ pieces ! i) [0..<length pieces]"

lemma numbered_Cons: "numbered seq f (p # pieces) = (marker seq f @ p) # numbered (seq + 1) False pieces"
  by (simp add: numbered_def map_upt_Suc del: upt_Suc)

lemma guppy_chunks_pieces:
  assumes "seq + length payload < 2 ^ 32"
  shows "\<exists>pieces. guppy_chunks seq f payload = numbered seq f pieces \<and> concat pieces = payload \<and>
    pieces \<noteq> [] \<and> last pieces = []"
  using assms
proof (induction seq f payload rule: guppy_chunks_induct)
  case (Nil seq f)
  then show ?case by (intro exI [of _ "[[]]"]) (simp add: guppy_chunks_Nil numbered_def)
next
  case (step seq f payload)
  let ?room = "CHUNK_SIZE - length (marker seq f)"
  from step(5) obtain pieces where "guppy_chunks (seq + 1) False (drop ?room payload) = numbered (seq + 1) False pieces"
    "concat pieces = drop ?room payload" "pieces \<noteq> []" "last pieces = []" by blast
  then show ?case using guppy_chunks_step [OF step(1,2), of f]
    by (intro exI [of _ "take ?room payload # pieces"]) (simp add: numbered_Cons)
qed

section \<open>The first loop\<close>

lemma marker_sizes_ok:
  assumes "seq + length payload < 2 ^ 32" and "initial = used + length payload" and "initial < 2 ^ 32"
    and "tot + length (concat (guppy_chunks seq (tot = 0) payload)) < 2 ^ 64"
  shows "marker_sizes initial seq tot used t0 t1 =
    (let cs = guppy_chunks seq (tot = 0) payload
     in Some (seq + length cs - 1, tot + length (concat cs), initial,
          if length cs = 1 then t1 else length (cs ! (length cs - 2)), length (last cs)))"
  using assms
proof (induction seq "tot = 0" payload arbitrary: tot used t0 t1 rule: guppy_chunks_induct)
  case (Nil seq)
  have il: "int_length seq = Some (length (decimal_text seq))" using Nil(1) by (intro int_length_ok) simp
  have m: "length (marker seq (tot = 0)) = length (decimal_text seq) + (if tot = 0 then 1 else 2)"
    "length (marker seq (tot = 0)) \<le> 12" using length_marker [OF Nil(1)] by simp_all
  then have sub: "size_sub CHUNK_SIZE (length (decimal_text seq) + (if tot = 0 then 1 else 2)) =
      CHUNK_SIZE - length (marker seq (tot = 0))" by (simp add: CHUNK_SIZE_def)
  show ?case using Nil m sub
    by (subst marker_sizes.simps) (simp add: il Let_def guppy_chunks_Nil CHUNK_SIZE_def)
next
  case (step seq payload)
  let ?f = "tot = 0"
  let ?m = "length (marker seq ?f)"
  let ?room = "CHUNK_SIZE - ?m"
  let ?piece = "take ?room payload" and ?rest = "drop ?room payload"
  let ?cs = "guppy_chunks (seq + 1) False ?rest"
  have il: "int_length seq = Some (length (decimal_text seq))" using step(1) by (intro int_length_ok) simp
  have m: "?m = length (decimal_text seq) + (if ?f then 1 else 2)" "?m \<le> 12" "2 \<le> ?m"
    using length_marker [OF step(1)] by simp_all
  note G = guppy_chunks_step [OF step(1,2), of ?f]
  have sub: "size_sub CHUNK_SIZE ?m = ?room" using m(2) by (simp add: CHUNK_SIZE_def)
  have rem: "size_sub initial used = length payload" using step(6,7) by simp
  have pos: "length ?piece \<noteq> 0" using step(2,4) by simp
  have seq1: "(seq + 1) mod 2 ^ 32 = seq + 1" using step(2,3) by (cases payload) auto
  have bound: "tot + (?m + length ?piece) + length (concat ?cs) < 2 ^ 64"
    using step(8) by (simp add: G)
  have add1: "size_add ?m (length ?piece) = ?m + length ?piece"
    and add2: "size_add tot (?m + length ?piece) = tot + (?m + length ?piece)"
    and add3: "size_add used (length ?piece) = used + length ?piece"
    using bound step(6,7) by (simp_all add: min_def)
  have minp: "(if length payload < ?room then length payload else ?room) = length ?piece"
    by (simp add: min_def)
  have unfold: "marker_sizes initial seq tot used t0 t1 =
      marker_sizes initial (seq + 1) (tot + (?m + length ?piece)) (used + length ?piece) t1 (?m + length ?piece)"
    using pos
    by (subst marker_sizes.simps)
      (simp only: il m(1) [symmetric] bind.bind_lunit Let_def sub rem minp add1 add2 add3 seq1 if_False option.case)
  have "tot + (?m + length ?piece) \<noteq> 0" using m(3) by linarith
  then have nz: "(tot + (?m + length ?piece) = 0) = False" by blast
  have rest: "used + length ?piece + length ?rest = initial" using step(6) by simp
  have "tot + (?m + length ?piece) +
      length (concat (guppy_chunks (seq + 1) (tot + (?m + length ?piece) = 0) ?rest)) < 2 ^ 64"
    unfolding nz by (rule bound)
  note IH = step(5) [OF nz [symmetric] rest [symmetric] step(7) this, of t1 "?m + length ?piece", unfolded nz]
  have "?cs \<noteq> []" using guppy_chunks_facts [of "seq + 1" ?rest False] step(2,3,4) by (cases payload) auto
  then show ?case unfolding unfold IH
    by (auto simp: G Let_def nth_Cons' Suc_diff_Suc length_Suc_conv neq_Nil_conv split: if_splits)
qed

section \<open>The second loop\<close>

lemma string_memmove_ok:
  assumes "string_inv s" and "src + n \<le> cb_size s" and "dst + n \<le> cb_size s"
  shows "\<exists>s'. string_memmove s dst src n = Inr s' \<and> string_inv s' \<and> cb_size s' = cb_size s \<and>
    string_bytes s' = take dst (string_bytes s) @ take n (drop src (string_bytes s)) @ drop (dst + n) (string_bytes s)"
proof (cases "n = 0")
  case True
  then show ?thesis using assms by (simp add: string_memmove_def)
next
  case False
  note D = string_invD [OF assms(1)]
  let ?xs = "take n (drop src (string_bytes s))"
  have xs: "?xs = take n (drop src (cb_block s))"
    using slice_take [OF assms(2)] by (simp add: string_bytes_def)
  have len: "length ?xs = n" using assms(2) D(6) by simp
  have "cb_p s \<noteq> None" using False assms D by auto
  then have "string_memmove s dst src n = string_store s dst ?xs"
    using False assms(2,3) D(1,3) len unfolding xs
    by (auto simp: string_memmove_def string_store_def memmove_ok)
  then show ?thesis using string_store_ok [OF assms(1), of dst ?xs] assms(3) len by auto
qed

text \<open>The sizes of the first \<open>n\<close> chunks and of their texts, for markers \<open>M\<close> and pieces \<open>ps\<close>.\<close>

definition chunk_list :: "(nat \<Rightarrow> byte list) \<Rightarrow> byte list list \<Rightarrow> nat \<Rightarrow> byte list list" where
  "chunk_list M ps n = map (\<lambda>i. M i @ ps ! i) [0..<n]"

lemma chunk_list_Suc: "chunk_list M ps (Suc n) = chunk_list M ps n @ [M n @ ps ! n]"
  by (simp add: chunk_list_def)

lemma chunk_list_texts: "n \<le> length ps \<Longrightarrow> length (concat (take n ps)) \<le> length (concat (chunk_list M ps n))"
proof (induction n)
  case (Suc n)
  then show ?case by (simp add: chunk_list_Suc take_Suc_conv_app_nth)
qed simp

text \<open>One round: the text moves behind its marker's place, the marker is written in front of it.\<close>

lemma insert_chunk_round:
  assumes "string_inv b" and "k < length ps" and "length (concat (chunk_list M ps (Suc k))) \<le> cb_size b"
    and "take (length (concat (take (Suc k) ps))) (string_bytes b) = concat (take (Suc k) ps)"
  defines "T \<equiv> length (concat (chunk_list M ps k))" and "P \<equiv> length (concat (take k ps))"
  shows "\<exists>b1 b2. string_memmove b (T + length (M k)) P (length (ps ! k)) = Inr b1 \<and>
    string_store b1 T (M k) = Inr b2 \<and> string_inv b2 \<and> cb_size b2 = cb_size b \<and>
    string_bytes b2 = take T (string_bytes b) @ M k @ ps ! k @
      drop (length (concat (chunk_list M ps (Suc k)))) (string_bytes b) \<and>
    take P (string_bytes b2) = concat (take k ps)"
proof -
  let ?X = "string_bytes b"
  have PT: "P \<le> T" unfolding P_def T_def by (rule chunk_list_texts) (use assms(2) in simp)
  have T1: "length (concat (chunk_list M ps (Suc k))) = T + length (M k) + length (ps ! k)"
    by (simp add: chunk_list_Suc T_def)
  have P1: "concat (take (Suc k) ps) = concat (take k ps) @ ps ! k"
    using assms(2) by (simp add: take_Suc_conv_app_nth)
  then have P1l: "length (concat (take (Suc k) ps)) = P + length (ps ! k)" by (simp add: P_def)
  have "take (P + length (ps ! k)) ?X = concat (take k ps) @ ps ! k" using assms(4) P1 P1l by simp
  then have pre: "take P ?X = concat (take k ps)" and piece: "take (length (ps ! k)) (drop P ?X) = ps ! k"
    by (metis P_def append_eq_conv_conj append_take_drop_id take_add take_take min.absorb1 le_add1)
      (metis P_def \<open>take (P + length (ps ! k)) ?X = concat (take k ps) @ ps ! k\<close> append_eq_conv_conj drop_take add_diff_cancel_left')
  have le: "P + length (ps ! k) \<le> cb_size b" "T + length (M k) + length (ps ! k) \<le> cb_size b"
    using assms(3) PT T1 by simp_all
  from string_memmove_ok [OF assms(1) le] piece obtain b1 where b1:
    "string_memmove b (T + length (M k)) P (length (ps ! k)) = Inr b1" "string_inv b1" "cb_size b1 = cb_size b"
    "string_bytes b1 = take (T + length (M k)) ?X @ ps ! k @ drop (T + length (M k) + length (ps ! k)) ?X" by auto
  have "T + length (M k) \<le> cb_size b1" using le b1(3) by simp
  from string_store_ok [OF b1(2) this] obtain b2 where b2:
    "string_store b1 T (M k) = Inr b2" "string_inv b2" "cb_size b2 = cb_size b"
    "string_bytes b2 = take T (string_bytes b1) @ M k @ drop (T + length (M k)) (string_bytes b1)"
    using b1(3) by auto
  have lX: "length ?X = cb_size b" by (rule string_invD(6) [OF assms(1)])
  have "string_bytes b2 = take T ?X @ M k @ ps ! k @ drop (T + length (M k) + length (ps ! k)) ?X"
    using le lX by (simp add: b2(4) b1(4) min_absorb1)
  moreover have "take P (string_bytes b2) = concat (take k ps)"
    using PT le lX pre by (simp add: calculation min_absorb1)
  ultimately show ?thesis using b1(1) b2(1-3) T1 by auto
qed

lemma insert_chunks_ok:
  assumes "string_inv b" and "k < length ps" and "length (concat (chunk_list M ps (Suc k))) \<le> cb_size b"
    and "take (length (concat (take (Suc k) ps))) (string_bytes b) = concat (take (Suc k) ps)"
    and "\<And>i. i \<le> k \<Longrightarrow> M i = marker ((first_chunk + i) mod 2 ^ 32) ((first_chunk + i) mod 2 ^ 32 = first_chunk)"
    and "t1 = length (M k @ ps ! k)" and "0 < k \<Longrightarrow> t0 = length (M (k - 1) @ ps ! (k - 1))"
    and "\<And>j. j + 1 < k \<Longrightarrow> length (M j @ ps ! j) = CHUNK_SIZE"
  shows "\<exists>b'. insert_chunks first_chunk k (length (concat (chunk_list M ps (Suc k))))
      (length (concat (take (Suc k) ps))) t0 t1 b = Inr b' \<and> string_inv b' \<and> cb_size b' = cb_size b \<and>
    string_bytes b' = concat (chunk_list M ps (Suc k)) @
      drop (length (concat (chunk_list M ps (Suc k)))) (string_bytes b)"
  using assms
proof (induction k arbitrary: b t0 t1)
  case (0 b t0 t1)
  from insert_chunk_round [OF 0(1-4)] obtain b1 b2 where r:
    "string_memmove b (length (M 0)) 0 (length (ps ! 0)) = Inr b1" "string_store b1 0 (M 0) = Inr b2"
    "string_inv b2" "cb_size b2 = cb_size b"
    "string_bytes b2 = M 0 @ ps ! 0 @ drop (length (concat (chunk_list M ps (Suc 0)))) (string_bytes b)"
    by (auto simp: chunk_list_def)
  have M: "M 0 = marker ((first_chunk + 0) mod 2 ^ 32) ((first_chunk + 0) mod 2 ^ 32 = first_chunk)"
    by (rule 0(5)) simp
  have lt: "length (M 0) + length (ps ! 0) < 2 ^ 64"
    using 0(3) string_invD(5) [OF 0(1)] by (simp add: chunk_list_def)
  have sizes: "size_sub t1 (length (M 0)) = length (ps ! 0)"
    "length (concat (chunk_list M ps (Suc 0))) = length (M 0) + length (ps ! 0)"
    "length (concat (take (Suc 0) ps)) = length (ps ! 0)"
    using 0(2,6) lt by (simp_all add: chunk_list_def take_Suc_conv_app_nth)
  have subs: "size_sub (length (M 0) + length (ps ! 0)) t1 = 0" "size_sub (length (ps ! 0)) (length (ps ! 0)) = 0"
    using 0(6) lt by simp_all
  have "insert_chunks first_chunk 0 (length (concat (chunk_list M ps (Suc 0))))
      (length (concat (take (Suc 0) ps))) t0 t1 b = Inr b2"
    unfolding sizes(2,3)
    by (subst insert_chunks.simps) (simp only: Let_def M [symmetric] sizes(1) subs add_0 r(1,2) pret_simps nat.case)
  then show ?case using r(3-5) by (simp add: chunk_list_def)
next
  case (Suc k b t0 t1)
  let ?T = "length (concat (chunk_list M ps (Suc k)))" and ?P = "length (concat (take (Suc k) ps))"
  from insert_chunk_round [OF Suc(2-5)] obtain b1 b2 where r:
    "string_memmove b (?T + length (M (Suc k))) ?P (length (ps ! Suc k)) = Inr b1"
    "string_store b1 ?T (M (Suc k)) = Inr b2" "string_inv b2" "cb_size b2 = cb_size b"
    "string_bytes b2 = take ?T (string_bytes b) @ M (Suc k) @ ps ! Suc k @
       drop (length (concat (chunk_list M ps (Suc (Suc k))))) (string_bytes b)"
    "take ?P (string_bytes b2) = concat (take (Suc k) ps)" by blast
  have M: "M (Suc k) = marker ((first_chunk + Suc k) mod 2 ^ 32) ((first_chunk + Suc k) mod 2 ^ 32 = first_chunk)"
    using Suc(6) [of "Suc k"] by simp
  have total2: "length (concat (chunk_list M ps (Suc (Suc k)))) = ?T + length (M (Suc k)) + length (ps ! Suc k)"
    by (simp add: chunk_list_Suc [of _ _ "Suc k"])
  have texts2: "length (concat (take (Suc (Suc k)) ps)) = ?P + length (ps ! Suc k)"
    using Suc(3) by (simp add: take_Suc_conv_app_nth [of "Suc k"])
  have lt: "?T + length (M (Suc k)) + length (ps ! Suc k) < 2 ^ 64"
    using Suc(4) string_invD(5) [OF Suc(2)] total2 by simp
  have "?P \<le> ?T" by (rule chunk_list_texts) (use Suc(3) in simp)
  then have subs: "size_sub t1 (length (M (Suc k))) = length (ps ! Suc k)"
    "size_sub (?T + length (M (Suc k)) + length (ps ! Suc k)) t1 = ?T"
    "size_sub (?P + length (ps ! Suc k)) (length (ps ! Suc k)) = ?P"
    using Suc(7) lt by simp_all
  have M': "M i = marker ((first_chunk + i) mod 2 ^ 32) ((first_chunk + i) mod 2 ^ 32 = first_chunk)" if "i \<le> k" for i
    by (rule Suc(6)) (use that in simp)
  have t0: "t0 = length (M k @ ps ! k)" using Suc(8) by simp
  have c: "CHUNK_SIZE = length (M (k - 1) @ ps ! (k - 1))" if "0 < k"
    by (rule Suc(9) [symmetric]) (use that in simp)
  have cs: "length (M j @ ps ! j) = CHUNK_SIZE" if "j + 1 < k" for j
    by (rule Suc(9)) (use that in simp)
  have "k < length ps" "?T \<le> cb_size b2" using Suc(3,4) total2 r(4) by simp_all
  from Suc.IH [OF r(3) this r(6) M' t0 c cs] obtain b' where
    "insert_chunks first_chunk k ?T ?P CHUNK_SIZE t0 b2 = Inr b'" "string_inv b'" "cb_size b' = cb_size b"
    "string_bytes b' = concat (chunk_list M ps (Suc k)) @ drop ?T (string_bytes b2)"
    unfolding r(4) by blast
  moreover have "drop ?T (string_bytes b2) = M (Suc k) @ ps ! Suc k @
      drop (length (concat (chunk_list M ps (Suc (Suc k))))) (string_bytes b)"
    using r(5) Suc(4) total2 string_invD(6) [OF Suc(2)] by simp
  moreover have "insert_chunks first_chunk (Suc k) (length (concat (chunk_list M ps (Suc (Suc k)))))
      (length (concat (take (Suc (Suc k)) ps))) t0 t1 b = insert_chunks first_chunk k ?T ?P CHUNK_SIZE t0 b2"
    unfolding total2 texts2
    by (subst insert_chunks.simps) (simp only: Let_def M [symmetric] subs r(1,2) pret_simps nat.case)
  ultimately show ?case by (simp add: chunk_list_Suc [of _ _ "Suc k"])
qed

section \<open>Properties\<close>

lemma numbered_chunk_list:
  "numbered seq f pieces = chunk_list (\<lambda>i. marker (seq + i) (f \<and> i = 0)) pieces (length pieces)"
  by (simp add: numbered_def chunk_list_def)

lemma length_concat_le: "\<forall>c\<in>set cs. length c \<le> n \<Longrightarrow> length (concat cs) \<le> length cs * n"
  by (induction cs) auto

lemma guppy_insert_markers_spec:
  assumes "string_inv buffer" and "realloc_ok realloc" and "random_rand 0x1000000 < 0x1000000"
    and "cb_size buffer < 2 ^ 31"
  shows "case guppy_insert_markers realloc random_rand buffer of
      Inl e \<Rightarrow> e = Failed ''new_p != NULL''
    | Inr (buffer', first_chunk, chunk_number) \<Rightarrow>
        first_chunk = 6 + random_rand 0x1000000 \<and> string_inv buffer' \<and>
        string_bytes buffer' = concat (guppy_chunks first_chunk True (string_bytes buffer)) \<and>
        chunk_number = length (guppy_chunks first_chunk True (string_bytes buffer))"
proof -
  define fc where "fc = 6 + random_rand 0x1000000"
  let ?payload = "string_bytes buffer"
  let ?cs = "guppy_chunks fc True ?payload"
  have lp: "length ?payload = cb_size buffer" by (rule string_invD(6) [OF assms(1)])
  have fc: "fc < 6 + 2 ^ 24" "(6 + random_rand 0x1000000) mod 2 ^ 32 = fc"
    using assms(3) by (simp_all add: fc_def)
  have range: "fc + length ?payload < 2 ^ 32" using fc(1) assms(4) lp by simp
  note facts = guppy_chunks_facts [OF range, of True]
  have n: "?cs \<noteq> []" "length ?cs \<le> length ?payload + 1" "\<forall>c\<in>set ?cs. length c \<le> CHUNK_SIZE"
    "\<And>j. j + 2 < length ?cs \<Longrightarrow> length (?cs ! j) = CHUNK_SIZE" using facts by auto
  have bytes: "length (concat ?cs) \<le> length ?cs * CHUNK_SIZE" by (rule length_concat_le [OF n(3)])
  have small: "length (concat ?cs) < 2 ^ 42" using bytes n(2) lp assms(4) by (simp add: CHUNK_SIZE_def)
  then have "0 + length (concat (guppy_chunks fc (0 = (0::nat)) ?payload)) < 2 ^ 64" by simp
  from marker_sizes_ok [OF range _ _ this, of "cb_size buffer" 0 0 0] obtain t0 t1 where
    sizes: "marker_sizes (cb_size buffer) fc 0 0 0 0 =
      Some (fc + length ?cs - 1, length (concat ?cs), cb_size buffer, t0, t1)"
    and t: "t1 = length (last ?cs)" "length ?cs \<noteq> 1 \<Longrightarrow> t0 = length (?cs ! (length ?cs - 2))"
    using lp assms(4) by (auto simp: Let_def)
  obtain pieces where p: "?cs = numbered fc True pieces" "concat pieces = ?payload" "pieces \<noteq> []"
    using guppy_chunks_pieces [OF range, of True] by blast
  let ?M = "\<lambda>i. marker (fc + i) (True \<and> i = 0)"
  define k where "k = length pieces - 1"
  have k: "length pieces = Suc k" using p(3) by (cases pieces) (auto simp: k_def)
  have cs: "?cs = chunk_list ?M pieces (Suc k)" using p(1) k by (simp add: numbered_chunk_list)
  then have lcs: "length ?cs = Suc k" by (simp add: chunk_list_def)
  have nth: "?cs ! i = ?M i @ pieces ! i" if "i \<le> k" for i using that by (simp add: cs chunk_list_def del: upt_Suc)
  have take: "take (Suc k) pieces = pieces" using k by simp
  have M: "?M i = marker ((fc + i) mod 2 ^ 32) ((fc + i) mod 2 ^ 32 = fc)" if "i \<le> k" for i
  proof -
    have "fc + i < 2 ^ 32" using that n(2) lcs range by simp
    then show ?thesis by simp
  qed
  have t1: "t1 = length (?M k @ pieces ! k)"
    using t(1) nth [of k] last_conv_nth [OF n(1)] lcs by simp
  have t0: "t0 = length (?M (k - 1) @ pieces ! (k - 1))" if "0 < k"
    using t(2) nth [of "k - 1"] lcs that by (simp add: numeral_2_eq_2)
  have full: "length (?M j @ pieces ! j) = CHUNK_SIZE" if "j + 1 < k" for j
    using n(4) [of j] nth [of j] lcs that by simp
  have kb: "Suc k < 2 ^ 32" using lcs n(2) lp assms(4) by simp
  have seq: "fc + length ?cs - 1 + 2 ^ 32 - fc = k + 2 ^ 32" using lcs by simp
  have "(k + 2 ^ 32 + 1) mod 2 ^ 32 = (Suc k + 2 ^ 32) mod (2 ^ 32 :: nat)" by (simp only: Suc_eq_plus1 add_ac)
  then have wrap: "(fc + length ?cs - 1 + 2 ^ 32 - fc) mod 2 ^ 32 = k"
    "(fc + length ?cs - 1 + 2 ^ 32 - fc + 1) mod 2 ^ 32 = length ?cs"
    unfolding seq using kb lcs by (simp_all only: mod_add_self2 mod_less)
  have "length (concat ?cs) < 2 ^ 63" using small by simp
  from assms(1,2) this show ?thesis
  proof (cases rule: string_resize_cases)
    case fail
    then show ?thesis
      by (simp only: guppy_insert_markers_def fc(2) sizes Let_def option.case prod.case pret_simps sum.case)
  next
    case (ok b)
    have "length ?payload \<le> length (concat ?cs)"
      using chunk_list_texts [of "Suc k" pieces ?M] k p(2) take cs by simp
    then have pre: "take (length (concat (take (Suc k) pieces))) (string_bytes b) = concat (take (Suc k) pieces)"
      using ok(3,5) lp p(2) take by (simp add: string_bytes_def [of b] min_def split: if_splits)
    have size: "length (concat (chunk_list ?M pieces (Suc k))) \<le> cb_size b" using ok(3) cs by simp
    have "k < length pieces" using k by simp
    from insert_chunks_ok [OF ok(2) this size pre M t1 t0 full] obtain b' where
      b': "insert_chunks fc k (length (concat ?cs)) (length ?payload) t0 t1 b = Inr b'" "string_inv b'"
      "string_bytes b' = concat ?cs @ drop (length (concat ?cs)) (string_bytes b)"
      unfolding take p(2) cs [symmetric] by blast
    have "drop (length (concat ?cs)) (string_bytes b) = []"
      using ok(3) string_invD(6) [OF ok(2)] by simp
    then show ?thesis using b' ok(1)
      by (simp only: guppy_insert_markers_def fc(2) sizes Let_def option.case prod.case wrap lp pret_simps
          sum.case) (simp add: fc_def)
  qed
qed

text \<open>
  C19: \<open>guppy_insert_markers\<close> turns the text of the buffer, in place, into the concatenation of
  its numbered chunks: the reference \<open>guppy_chunks\<close> that cuts a copy from the front; the moves
  never overwrite text that is still needed and never leave the buffer, and the only error is the
  allocator's.
\<close>

theorem guppy_insert_markers_correct:
  assumes "string_inv buffer" and "realloc_ok realloc" and "random_rand 0x1000000 < 0x1000000"
    and "cb_size buffer < 2 ^ 31"
  shows "case guppy_insert_markers realloc random_rand buffer of
      Inl e \<Rightarrow> e = Failed ''new_p != NULL''
    | Inr (buffer', first_chunk, chunk_number) \<Rightarrow>
        first_chunk = 6 + random_rand 0x1000000 \<and> string_inv buffer' \<and>
        string_bytes buffer' = concat (guppy_chunks first_chunk True (string_bytes buffer)) \<and>
        chunk_number = length (guppy_chunks first_chunk True (string_bytes buffer))"
  by (rule guppy_insert_markers_spec) (fact assms)+

definition sample_page :: char_buffer where
  "sample_page = \<lparr>cb_p = Some (''hi'' @ [NUL, NUL]), cb_size = 2, cb_capacity = 4\<rparr>"

lemma sample_page_facts:
  "string_inv sample_page" "string_bytes sample_page = ''hi''" "cb_size sample_page < 2 ^ 31"
proof -
  have "capacity_ok (2 ^ 2)" by (rule capacity_ok_power) simp
  then show "string_inv sample_page" by (simp add: sample_page_def string_inv_def cb_block_def)
qed (simp_all add: sample_page_def string_bytes_def cb_block_def)

lemma sample_page_chunks: "guppy_chunks 7 True ''hi'' = [''7 hi'', ''8'' @ [CR, LF]]"
  by (simp add: guppy_chunks.simps marker_def decimal_text.simps digit_char_def char_of_def bit_0 CHUNK_SIZE_def Let_def)

lemma guppy_insert_markers_correct_witness:
  "case guppy_insert_markers realloc_zero (\<lambda>_. 1) sample_page of
      Inl e \<Rightarrow> e = Failed ''new_p != NULL''
    | Inr (buffer', first_chunk, chunk_number) \<Rightarrow>
        first_chunk = 7 \<and> string_bytes buffer' = concat [''7 hi'', ''8'' @ [CR, LF]] \<and> chunk_number = 2"
  using guppy_insert_markers_correct [OF sample_page_facts(1) realloc_ok_zero _ sample_page_facts(3), of "\<lambda>_. 1"]
  by (auto simp: sample_page_facts(2) sample_page_chunks split: sum.splits)

text \<open>
  C18: what the two sides of guppy agree on. When a page that was cut by
  \<open>guppy_insert_markers\<close> is sent with the size of the last chunk as \<^verbatim>\<open>send.c\<close> computes it,
  every datagram is exactly one of the page's chunks, which starts with its number: the first four
  that are not acknowledged yet.
\<close>

theorem guppy_page_sent:
  assumes "string_inv buffer" and "cb_size buffer < 2 ^ 31" and "0 < cb_size buffer"
    and "first_chunk < 6 + 2 ^ 24"
  defines "cs \<equiv> guppy_chunks first_chunk True (string_bytes buffer)"
  assumes "vbytes m message = concat cs" and "length (concat cs) < 2 ^ 32"
    and "ring_inv queue" and "ring_value_ok queue chunks" and "value_size chunks = length cs"
    and "\<forall>p\<in>set (vbytes (ring_memory queue) chunks). signed_char p < int CHUNK_SEND_REPEATS"
  shows "\<exists>digits queue'. int_length (first_chunk + length cs - 1) = Some digits \<and>
    server_send_message False m message first_chunk queue chunks (digits + 2) =
      Inr (queue', if list_all acked (vbytes (ring_memory queue) chunks) then map (\<lambda>p. p\<lparr>part_size := 0\<rparr>) message else message,
        take CHUNK_SEND_SIMULTANEOUS (unacknowledged cs (vbytes (ring_memory queue) chunks))) \<and>
    (\<forall>i<length cs. take (length (decimal_text (first_chunk + i))) (cs ! i) = decimal_text (first_chunk + i))"
proof -
  have lp: "length (string_bytes buffer) = cb_size buffer" by (rule string_invD(6) [OF assms(1)])
  have range: "first_chunk + length (string_bytes buffer) < 2 ^ 32" using assms(2,4) lp by simp
  have facts: "cs \<noteq> []" "length cs \<le> length (string_bytes buffer) + 1" "\<forall>c\<in>set cs. length c \<le> CHUNK_SIZE"
    "\<forall>j. j + 2 < length cs \<longrightarrow> length (cs ! j) = CHUNK_SIZE"
    using guppy_chunks_facts [OF range, of True] by (simp_all add: cs_def)
  obtain pieces where p: "cs = numbered first_chunk True pieces" "concat pieces = string_bytes buffer"
    "pieces \<noteq> []" "last pieces = []" using guppy_chunks_pieces [OF range, of True] unfolding cs_def by blast
  have len: "length cs = length pieces" by (simp add: p(1) numbered_def)
  have nth: "cs ! i = marker (first_chunk + i) (i = 0) @ pieces ! i" if "i < length cs" for i
    using that by (simp add: p(1) numbered_def)
  have two: "2 \<le> length cs"
  proof (rule ccontr)
    assume "\<not> 2 \<le> length cs"
    then have "pieces = [last pieces]" using p(3) len by (cases pieces; cases "tl pieces") auto
    then have "string_bytes buffer = []" using p(2,4) by (metis concat.simps append_Nil2)
    then show False using assms(3) lp by simp
  qed
  let ?n = "length cs - 1"
  have seq: "first_chunk + ?n < 2 ^ 32" using range facts(2) by simp
  have "last cs = cs ! ?n" by (rule last_conv_nth [OF facts(1)])
  also have "\<dots> = marker (first_chunk + ?n) False @ pieces ! ?n" using two by (subst nth) simp_all
  also have "pieces ! ?n = []" using p(3,4) len by (simp add: last_conv_nth)
  finally have last_length: "length (last cs) = length (decimal_text (first_chunk + ?n)) + 2" by (simp add: marker_def)
  have digits: "int_length (first_chunk + length cs - 1) = Some (length (decimal_text (first_chunk + ?n)))"
    using int_length_ok [of "first_chunk + ?n"] seq two by simp
  have first: "first_chunk + length cs < 2 ^ 32" using assms(2,4) facts(2) lp by simp
  from server_send_message_resends [OF assms(8,9,6) facts(1) assms(10) first assms(7) facts(3,4) refl assms(11), of False]
  have "\<exists>queue'. server_send_message False m message first_chunk queue chunks (length (decimal_text (first_chunk + ?n)) + 2) =
      Inr (queue', if list_all acked (vbytes (ring_memory queue) chunks) then map (\<lambda>p. p\<lparr>part_size := 0\<rparr>) message else message,
        take CHUNK_SEND_SIMULTANEOUS (unacknowledged cs (vbytes (ring_memory queue) chunks)))"
    unfolding last_length if_False by blast
  moreover have "\<forall>i<length cs. take (length (decimal_text (first_chunk + i))) (cs ! i) = decimal_text (first_chunk + i)"
    by (simp add: nth marker_def)
  ultimately show ?thesis using digits by blast
qed

lemma guppy_page_sent_witness:
  "\<exists>queue'. server_send_message False (nth (''7 hi8'' @ [CR, LF])) [\<lparr>part_p = 0, part_size = 7\<rparr>, zero_part] 7
      \<lparr>ring_p = Some [NUL, NUL], ring_size = 2, ring_capacity = 2, ring_begin = 0\<rparr>
      [\<lparr>part_p = 0, part_size = 2\<rparr>, zero_part] 3 =
    Inr (queue', [\<lparr>part_p = 0, part_size = 7\<rparr>, zero_part], [''7 hi'', ''8'' @ [CR, LF]])"
proof -
  let ?q = "\<lparr>ring_p = Some [NUL, NUL], ring_size = 2, ring_capacity = 2, ring_begin = 0\<rparr>"
  let ?v = "[\<lparr>part_p = 0, part_size = 2\<rparr>, zero_part]"
  let ?m = "nth (''7 hi8'' @ [CR, LF])"
  let ?msg = "[\<lparr>part_p = 0, part_size = 7\<rparr>, zero_part]"
  let ?cs = "[''7 hi'', ''8'' @ [CR, LF]]"
  have "capacity_ok (2 ^ 1)" by (rule capacity_ok_power) simp
  then have q: "ring_inv ?q" by (simp add: ring_inv_def ring_block_def)
  have v: "ring_value_ok ?q ?v" by (auto simp: ring_value_ok_def inside_def zero_part_def extent_def)
  have cs: "guppy_chunks 7 True (string_bytes sample_page) = ?cs"
    by (simp only: sample_page_facts(2) sample_page_chunks)
  have msg: "vbytes ?m ?msg = concat ?cs" by (simp add: pbytes_def upt_rec zero_part_def)
  have ps: "vbytes (ring_memory ?q) ?v = [NUL, NUL]"
    by (simp add: pbytes_def upt_rec ring_memory_def ring_block_def zero_part_def)
  have "\<not> acked NUL" by (simp add: acked_def signed_char_def)
  then have out: "unacknowledged ?cs [NUL, NUL] = ?cs" "list_all acked [NUL, NUL] = False" "take 4 ?cs = ?cs"
    by simp_all
  have digits: "int_length (7 + length ?cs - 1) = Some 1"
    using int_length_ok [of 8] by (simp add: decimal_text.simps)
  have "0 < cb_size sample_page" "(7::nat) < 6 + 2 ^ 24" "length (concat ?cs) < 2 ^ 32" "value_size ?v = length ?cs"
    "\<forall>p\<in>set [NUL, NUL]. signed_char p < int CHUNK_SEND_REPEATS"
    by (simp_all add: sample_page_def zero_part_def CHUNK_SEND_REPEATS_def signed_char_def)
  from guppy_page_sent [OF sample_page_facts(1,3) this(1,2), unfolded cs, OF msg this(3) q v this(4), unfolded ps, OF this(5)]
  have "\<exists>queue'. server_send_message False ?m ?msg 7 ?q ?v (1 + 2) = Inr (queue', ?msg, ?cs)"
    unfolding digits out CHUNK_SEND_SIMULTANEOUS_def if_False by blast
  then show ?thesis by (simp only: one_plus_numeral add_One semiring_norm)
qed

end
