(* ===== verification/TS_Page.thy ===== *)
theory TS_Page
  imports TS_Style TS_Guppy
begin

text \<open>
  The printers of the protocols, \<^verbatim>\<open>processor_print_...\<close> of \<^verbatim>\<open>source/processor/*_processor.c\<close>, and
  \<^verbatim>\<open>processor_print\<close>: one entry of a page (a paragraph, a title, a link) is written to the buffers of
  the page in the syntax of the protocol. \<open>page_text\<close> states what they write. What the buffers hold
  after a failure is not modelled: a page starts by emptying them.
\<close>

section \<open>The site\<close>

text \<open>
  What a page depends on besides its request: the allocator, the printer's treatment of floating-point
  numbers, whether \<^verbatim>\<open>TWINKLESHINE_RELEASE\<close> is defined, the calendar time and the random numbers.
\<close>

record calendar =
  tm_sec :: nat
  tm_min :: nat
  tm_hour :: nat
  tm_mday :: nat
  tm_mon :: nat
  tm_year :: nat
  tm_wday :: nat

record site =
  site_realloc :: allocator
  site_printf :: "conversion \<Rightarrow> argument \<Rightarrow> byte list"
  site_release :: bool
  site_calendar :: calendar
  site_random :: "nat \<Rightarrow> nat"

text \<open>\<^verbatim>\<open>include/constants.h\<close>\<close>

definition DOMAIN_NAME :: "site \<Rightarrow> byte list" where
  "DOMAIN_NAME e = (if site_release e then ''my8bitsoul.eu'' else ''localhost'')"

definition HTTP_PORT :: "site \<Rightarrow> nat" where "HTTP_PORT e = (if site_release e then 80 else 8080)"
definition HTTPS_PORT :: "site \<Rightarrow> nat" where "HTTPS_PORT e = (if site_release e then 443 else 8443)"
definition GOPHER_PORT :: "site \<Rightarrow> nat" where "GOPHER_PORT e = (if site_release e then 70 else 8070)"
definition FINGER_PORT :: "site \<Rightarrow> nat" where "FINGER_PORT e = (if site_release e then 79 else 8079)"
definition GEMINI_PORT :: "site \<Rightarrow> nat" where "GEMINI_PORT e = (if site_release e then 1965 else 9965)"
definition SPARTAN_PORT :: "site \<Rightarrow> nat" where "SPARTAN_PORT e = (if site_release e then 300 else 8300)"
definition NEX_PORT :: "site \<Rightarrow> nat" where "NEX_PORT e = (if site_release e then 1900 else 9900)"
definition TEXT_PORT :: "site \<Rightarrow> nat" where "TEXT_PORT e = (if site_release e then 1961 else 9961)"
definition GUPPY_PORT :: "site \<Rightarrow> nat" where "GUPPY_PORT e = (if site_release e then 6775 else 14775)"

definition HTTP_PORT_STRING :: "site \<Rightarrow> byte list" where
  "HTTP_PORT_STRING e = (if HTTP_PORT e = 80 then '''' else '':'' @ decimal_text (HTTP_PORT e))"
definition HTTPS_PORT_STRING :: "site \<Rightarrow> byte list" where
  "HTTPS_PORT_STRING e = (if HTTPS_PORT e = 443 then '''' else '':'' @ decimal_text (HTTPS_PORT e))"
definition GOPHER_PORT_STRING :: "site \<Rightarrow> byte list" where
  "GOPHER_PORT_STRING e = (if GOPHER_PORT e = 70 then '''' else '':'' @ decimal_text (GOPHER_PORT e))"
definition FINGER_PORT_STRING :: "site \<Rightarrow> byte list" where
  "FINGER_PORT_STRING e = (if FINGER_PORT e = 79 then '''' else '':'' @ decimal_text (FINGER_PORT e))"
definition GEMINI_PORT_STRING :: "site \<Rightarrow> byte list" where
  "GEMINI_PORT_STRING e = (if GEMINI_PORT e = 1965 then '''' else '':'' @ decimal_text (GEMINI_PORT e))"
definition SPARTAN_PORT_STRING :: "site \<Rightarrow> byte list" where
  "SPARTAN_PORT_STRING e = (if SPARTAN_PORT e = 300 then '''' else '':'' @ decimal_text (SPARTAN_PORT e))"
definition NEX_PORT_STRING :: "site \<Rightarrow> byte list" where
  "NEX_PORT_STRING e = (if NEX_PORT e = 1900 then '''' else '':'' @ decimal_text (NEX_PORT e))"
definition TEXT_PORT_STRING :: "site \<Rightarrow> byte list" where
  "TEXT_PORT_STRING e = (if TEXT_PORT e = 1961 then '''' else '':'' @ decimal_text (TEXT_PORT e))"
definition GUPPY_PORT_STRING :: "site \<Rightarrow> byte list" where
  "GUPPY_PORT_STRING e = (if GUPPY_PORT e = 6775 then '''' else '':'' @ decimal_text (GUPPY_PORT e))"

text \<open>\<^verbatim>\<open>source/tables.c\<close>\<close>

definition months_xxx :: "byte list list" where
  "months_xxx = [''Jan'', ''Feb'', ''Mar'', ''Apr'', ''May'', ''Jun'', ''Jul'', ''Aug'', ''Sep'', ''Oct'', ''Nov'', ''Dec'']"

definition days_xxx :: "byte list list" where
  "days_xxx = [''Sun'', ''Mon'', ''Tue'', ''Wed'', ''Thu'', ''Fri'', ''Sat'']"

section \<open>The printers\<close>

type_synonym page_step = "page_context \<Rightarrow> page_context result"

text \<open>The calls of the string library on the two buffers of a context.\<close>

definition one_append :: "site \<Rightarrow> byte list \<Rightarrow> page_step" where
  "one_append e out c = pret (string_append_mem (site_realloc e) (pc_one c) out) (\<lambda>s. Inr (c\<lparr>pc_one := s\<rparr>))"

definition one_copy :: "site \<Rightarrow> byte list \<Rightarrow> page_step" where
  "one_copy e out c = pret (string_copy_mem (site_realloc e) (pc_one c) out) (\<lambda>s. Inr (c\<lparr>pc_one := s\<rparr>))"

definition one_print :: "site \<Rightarrow> byte list \<Rightarrow> argument list \<Rightarrow> page_step" where
  "one_print e fmt va c =
     pret (string_print_append (site_printf e) (site_realloc e) (pc_one c) fmt va) (\<lambda>s. Inr (c\<lparr>pc_one := s\<rparr>))"

definition two_append :: "site \<Rightarrow> byte list \<Rightarrow> page_step" where
  "two_append e out c = pret (string_append_mem (site_realloc e) (pc_two c) out) (\<lambda>s. Inr (c\<lparr>pc_two := s\<rparr>))"

definition two_copy :: "site \<Rightarrow> byte list \<Rightarrow> page_step" where
  "two_copy e out c = pret (string_copy_mem (site_realloc e) (pc_two c) out) (\<lambda>s. Inr (c\<lparr>pc_two := s\<rparr>))"

definition two_print :: "site \<Rightarrow> byte list \<Rightarrow> argument list \<Rightarrow> page_step" where
  "two_print e fmt va c =
     pret (string_print_append (site_printf e) (site_realloc e) (pc_two c) fmt va) (\<lambda>s. Inr (c\<lparr>pc_two := s\<rparr>))"

text \<open>\<^verbatim>\<open>context->one->size = 0; context->two->size = 0\<close>: the terminators stay where they are.\<close>

definition empty_both :: "page_context \<Rightarrow> page_context" where
  "empty_both c = c\<lparr>pc_one := (pc_one c)\<lparr>cb_size := 0\<rparr>, pc_two := (pc_two c)\<lparr>cb_size := 0\<rparr>\<rparr>"

definition empty_two :: "page_context \<Rightarrow> page_context" where
  "empty_two c = c\<lparr>pc_two := (pc_two c)\<lparr>cb_size := 0\<rparr>\<rparr>"

definition question_of :: "page_context \<Rightarrow> byte list" where
  "question_of c = language_question (pc_language c) (pc_requested_language c) (language (pc_request c))"

definition slash_of :: "page_context \<Rightarrow> byte list" where
  "slash_of c = language_slash (pc_language c) (pc_requested_language c) (language (pc_request c))"

subsection \<open>HTTP\<close>

definition http_prefix :: "site \<Rightarrow> entry_style \<Rightarrow> byte list \<Rightarrow> page_step" where
  "http_prefix e style ref c =
     (case style of
        ES_NORMAL \<Rightarrow> Inr c
      | ES_PARAGRAPH \<Rightarrow> two_append e ''<p>'' c
      | ES_ITEMIZE \<Rightarrow>
          pret (if pc_previous_style c \<noteq> ES_ITEMIZE then two_append e (''<ul>'' @ [LF]) c else Inr c) (two_append e ''<li>'')
      | ES_ENUMERATION \<Rightarrow>
          pret (if pc_previous_style c \<noteq> ES_ENUMERATION then two_append e (''<ol>'' @ [LF]) c else Inr c) (two_append e ''<li>'')
      | ES_QUOTE \<Rightarrow> two_append e (''<blockquote>'' @ [LF] @ ''<p>'') c
      | ES_LARGE \<Rightarrow> two_append e (''<h3>'' @ [LF] @ ''<p>'') c
      | ES_LARGER \<Rightarrow> two_append e (''<h2>'' @ [LF] @ ''<p>'') c
      | ES_LARGEST \<Rightarrow> two_append e (''<h1>'' @ [LF] @ ''<p>'') c
      | ES_HEADER \<Rightarrow> two_append e (''<header>'' @ [LF] @ ''<h1>'') c
      | ES_INTERNAL_REFERENCE \<Rightarrow>
          two_print e (''<a href='' @ [QUOTE] @ ''/%s%s'' @ [QUOTE] @ ''>'') [VA_text ref, VA_text (question_of c)] c
      | _ \<Rightarrow> two_print e (''<a href='' @ [QUOTE] @ ''%s'' @ [QUOTE] @ ''>'') [VA_text ref] c)"

definition http_suffix :: "site \<Rightarrow> entry_style \<Rightarrow> page_step" where
  "http_suffix e style c =
     (case style of
        ES_NORMAL \<Rightarrow> two_append e (''<br>'' @ [LF]) c
      | ES_PARAGRAPH \<Rightarrow> two_append e (''</p>'' @ [LF]) c
      | ES_ITEMIZE \<Rightarrow> two_append e (''</li>'' @ [LF]) c
      | ES_ENUMERATION \<Rightarrow> two_append e (''</li>'' @ [LF]) c
      | ES_QUOTE \<Rightarrow> two_append e (''</p>'' @ [LF] @ ''</blockquote>'' @ [LF]) c
      | ES_LARGE \<Rightarrow> two_append e (''</p>'' @ [LF] @ ''</h3>'' @ [LF]) c
      | ES_LARGER \<Rightarrow> two_append e (''</p>'' @ [LF] @ ''</h2>'' @ [LF]) c
      | ES_LARGEST \<Rightarrow> two_append e (''</p>'' @ [LF] @ ''</h1>'' @ [LF]) c
      | ES_HEADER \<Rightarrow> two_append e (''</h1>'' @ [LF] @ ''</header>'' @ [LF]) c
      | _ \<Rightarrow> two_append e (''</a><br>'' @ [LF]) c)"

definition success_arguments :: "site \<Rightarrow> nat \<Rightarrow> bool \<Rightarrow> argument list" where
  "success_arguments e n keep =
     (let t = site_calendar e
      in [VA_uint n, VA_text (if keep then ''keep-alive'' else ''close''),
          VA_text (days_xxx ! tm_wday t), VA_uint (tm_mday t), VA_text (months_xxx ! tm_mon t), VA_uint (1900 + tm_year t),
          VA_uint (tm_hour t), VA_uint (tm_min t), VA_uint (tm_sec t)])"

definition processor_print_http :: "site \<Rightarrow> entry_style \<Rightarrow> byte list \<Rightarrow> byte list \<Rightarrow> argument list \<Rightarrow> page_step" where
  "processor_print_http e style ref fmt va c =
     pret (if pc_previous_style c = ES_ITEMIZE \<and> style \<noteq> ES_ITEMIZE then two_append e (''</ul>'' @ [LF]) c else Inr c) (\<lambda>c.
     pret (if pc_previous_style c = ES_ENUMERATION \<and> style \<noteq> ES_ENUMERATION
           then two_append e (''</ol>'' @ [LF]) c else Inr c) (\<lambda>c.
     case style of
       ES_INITIALIZE \<Rightarrow> two_copy e html_open c
     | ES_FINALIZE \<Rightarrow>
         pret (two_append e html_close c) (\<lambda>c.
         pret (string_print (site_printf e) (site_realloc e) (pc_one c) http_template_success
                 (success_arguments e (cb_size (pc_two c)) (keep_alive (pc_request c)))) (\<lambda>s.
         Inr (c\<lparr>pc_one := s\<rparr>)))
     | _ \<Rightarrow>
         pret (http_prefix e style ref c) (\<lambda>c.
         pret (two_print e fmt va c) (http_suffix e style))))"

subsection \<open>Gopher\<close>

definition entry_spaced :: "page_context \<Rightarrow> entry_style \<Rightarrow> bool" where
  "entry_spaced c style \<longleftrightarrow>
     (processor_generic_paragraph style \<or> processor_generic_paragraph (pc_previous_style c)) \<and>
     style \<noteq> ES_FINALIZE \<and> pc_previous_style c \<noteq> ES_INITIALIZE"

definition one_upper_case :: "nat \<Rightarrow> nat \<Rightarrow> nat \<Rightarrow> page_step" where
  "one_upper_case old prefix suffix c =
     pret (processor_generic_upper_case (pc_one c) old prefix suffix) (\<lambda>s. Inr (c\<lparr>pc_one := s\<rparr>))"

definition one_box :: "site \<Rightarrow> nat \<Rightarrow> nat \<Rightarrow> nat \<Rightarrow> byte \<Rightarrow> byte \<Rightarrow> page_step" where
  "one_box e old prefix suffix c1 c2 c =
     pret (processor_generic_box (site_realloc e) (pc_one c) old prefix suffix c1 c2) (\<lambda>s. Inr (c\<lparr>pc_one := s\<rparr>))"

definition gopher_prefix :: "site \<Rightarrow> entry_style \<Rightarrow> page_step" where
  "gopher_prefix e style c =
     (case style of
        ES_ITEMIZE \<Rightarrow> one_append e ''i - '' c
      | ES_ENUMERATION \<Rightarrow> one_print e ''i %u. '' [VA_uint (pc_list_index c)] c
      | ES_QUOTE \<Rightarrow> one_append e ''i > '' c
      | ES_LARGEST \<Rightarrow> one_append e ''iO '' c
      | ES_HEADER \<Rightarrow> one_append e ''iO '' c
      | ES_INTERNAL_REFERENCE \<Rightarrow> one_print e ''1'' [] c
      | _ \<Rightarrow> one_append e ''i'' c)"

definition gopher_title :: "site \<Rightarrow> nat \<Rightarrow> page_step" where
  "gopher_title e old c =
     pret (one_append e ('' O'' @ FAKE_ENDLINE) c) (\<lambda>c.
     pret (one_upper_case old (length ''iO '') (length ('' O'' @ FAKE_ENDLINE)) c)
       (one_box e old (length ''i'') (length FAKE_ENDLINE) CHR ''O'' CHR ''0''))"

definition gopher_suffix :: "site \<Rightarrow> entry_style \<Rightarrow> byte list \<Rightarrow> nat \<Rightarrow> page_step" where
  "gopher_suffix e style ref old c =
     (case style of
        ES_LARGE \<Rightarrow> pret (one_append e FAKE_ENDLINE c) (one_upper_case old (length ''i'') (length FAKE_ENDLINE))
      | ES_LARGER \<Rightarrow> pret (one_append e FAKE_ENDLINE c) (one_upper_case old (length ''i'') (length FAKE_ENDLINE))
      | ES_LARGEST \<Rightarrow> gopher_title e old c
      | ES_HEADER \<Rightarrow> gopher_title e old c
      | ES_INTERNAL_REFERENCE \<Rightarrow>
          one_print e ([TAB] @ ''%s%s'' @ [TAB] @ DOMAIN_NAME e @ [TAB] @ decimal_text (GOPHER_PORT e) @ CRLF)
            [VA_text ref, VA_text (slash_of c)] c
      | ES_EXTERNAL_REFERENCE \<Rightarrow> one_print e ('': %s'' @ FAKE_ENDLINE) [VA_text ref] c
      | _ \<Rightarrow> one_append e FAKE_ENDLINE c)"

definition processor_print_gopher :: "site \<Rightarrow> entry_style \<Rightarrow> byte list \<Rightarrow> byte list \<Rightarrow> argument list \<Rightarrow> page_step" where
  "processor_print_gopher e style ref fmt va c =
     pret (if entry_spaced c style then one_append e (''i'' @ FAKE_ENDLINE) c else Inr c) (\<lambda>c.
     let old = cb_size (pc_one c)
     in case style of
          ES_INITIALIZE \<Rightarrow> Inr (empty_both c)
        | ES_FINALIZE \<Rightarrow> Inr c
        | _ \<Rightarrow>
            pret (gopher_prefix e style c) (\<lambda>c.
            pret (one_print e fmt va c) (gopher_suffix e style ref old)))"

subsection \<open>Finger\<close>

definition finger_prefix :: "site \<Rightarrow> entry_style \<Rightarrow> page_step" where
  "finger_prefix e style c =
     (case style of
        ES_ITEMIZE \<Rightarrow> one_append e '' - '' c
      | ES_ENUMERATION \<Rightarrow> one_print e '' %u. '' [VA_uint (pc_list_index c)] c
      | ES_QUOTE \<Rightarrow> one_append e '' > '' c
      | ES_LARGEST \<Rightarrow> one_append e ''# '' c
      | ES_HEADER \<Rightarrow> one_append e ''# '' c
      | _ \<Rightarrow> Inr c)"

definition hash_title :: "site \<Rightarrow> byte list \<Rightarrow> nat \<Rightarrow> page_step" where
  "hash_title e endline old c =
     pret (one_append e ('' #'' @ endline) c) (\<lambda>c.
     pret (one_upper_case old (length ''# '') (length ('' #'' @ endline)) c)
       (one_box e old (length ''#'') (length (''#'' @ endline)) CHR ''#'' CHR ''#''))"

definition finger_suffix :: "site \<Rightarrow> entry_style \<Rightarrow> byte list \<Rightarrow> nat \<Rightarrow> page_step" where
  "finger_suffix e style ref old c =
     (case style of
        ES_LARGE \<Rightarrow> pret (one_append e CRLF c) (one_upper_case old 0 (length CRLF))
      | ES_LARGER \<Rightarrow> pret (one_append e CRLF c) (one_upper_case old 0 (length CRLF))
      | ES_LARGEST \<Rightarrow> hash_title e CRLF old c
      | ES_HEADER \<Rightarrow> hash_title e CRLF old c
      | ES_INTERNAL_REFERENCE \<Rightarrow>
          one_print e ('': finger://'' @ DOMAIN_NAME e @ FINGER_PORT_STRING e @ ''%s%s%s'' @ CRLF)
            [VA_text (if ref \<noteq> [] then ''/'' else ''''), VA_text ref, VA_text (slash_of c)] c
      | ES_EXTERNAL_REFERENCE \<Rightarrow> one_print e ('': %s'' @ CRLF) [VA_text ref] c
      | _ \<Rightarrow> one_append e CRLF c)"

definition processor_print_finger :: "site \<Rightarrow> entry_style \<Rightarrow> byte list \<Rightarrow> byte list \<Rightarrow> argument list \<Rightarrow> page_step" where
  "processor_print_finger e style ref fmt va c =
     pret (if entry_spaced c style then one_append e CRLF c else Inr c) (\<lambda>c.
     let old = cb_size (pc_one c)
     in case style of
          ES_INITIALIZE \<Rightarrow> Inr (empty_both c)
        | ES_FINALIZE \<Rightarrow> Inr c
        | _ \<Rightarrow>
            pret (finger_prefix e style c) (\<lambda>c.
            pret (one_print e fmt va c) (finger_suffix e style ref old)))"

subsection \<open>Gemini, Spartan and Guppy\<close>

definition gemini_prefix :: "site \<Rightarrow> entry_style \<Rightarrow> byte list \<Rightarrow> page_step" where
  "gemini_prefix e style ref c =
     (case style of
        ES_NORMAL \<Rightarrow> one_append e CRLF c
      | ES_PARAGRAPH \<Rightarrow> one_append e CRLF c
      | ES_ITEMIZE \<Rightarrow> one_append e ''* '' c
      | ES_ENUMERATION \<Rightarrow> one_print e ''%u. '' [VA_uint (pc_list_index c)] c
      | ES_QUOTE \<Rightarrow> one_append e ''> '' c
      | ES_LARGE \<Rightarrow> one_append e ''### '' c
      | ES_LARGER \<Rightarrow> one_append e ''## '' c
      | ES_LARGEST \<Rightarrow> one_append e ''# '' c
      | ES_HEADER \<Rightarrow> one_append e ''# '' c
      | ES_INTERNAL_REFERENCE \<Rightarrow>
          one_print e (''=> gemini://'' @ DOMAIN_NAME e @ GEMINI_PORT_STRING e @ ''/%s%s '')
            [VA_text ref, VA_text (question_of c)] c
      | _ \<Rightarrow> one_print e ''=> %s '' [VA_text ref] c)"

definition processor_print_gemini :: "site \<Rightarrow> entry_style \<Rightarrow> byte list \<Rightarrow> byte list \<Rightarrow> argument list \<Rightarrow> page_step" where
  "processor_print_gemini e style ref fmt va c =
     (case style of
        ES_INITIALIZE \<Rightarrow> pret (one_copy e (''20 text/gemini'' @ CRLF) c) (\<lambda>c. Inr (empty_two c))
      | ES_FINALIZE \<Rightarrow> Inr c
      | _ \<Rightarrow>
          pret (gemini_prefix e style ref c) (\<lambda>c.
          pret (one_print e fmt va c) (one_append e CRLF)))"

definition processor_print_spartan :: "site \<Rightarrow> entry_style \<Rightarrow> byte list \<Rightarrow> byte list \<Rightarrow> argument list \<Rightarrow> page_step" where
  "processor_print_spartan e style ref fmt va c =
     (case style of
        ES_INITIALIZE \<Rightarrow> pret (one_copy e (''2 text/gemini'' @ CRLF) c) (\<lambda>c. Inr (empty_two c))
      | ES_INTERNAL_REFERENCE \<Rightarrow>
          pret (one_print e (''=> spartan://'' @ DOMAIN_NAME e @ SPARTAN_PORT_STRING e @ ''%s%s%s '')
                  [VA_text (if ref \<noteq> [] then ''/'' else ''''), VA_text ref, VA_text (slash_of c)] c) (\<lambda>c.
          pret (one_print e fmt va c) (one_append e CRLF))
      | _ \<Rightarrow> processor_print_gemini e style ref fmt va c)"

definition processor_print_guppy :: "site \<Rightarrow> entry_style \<Rightarrow> byte list \<Rightarrow> byte list \<Rightarrow> argument list \<Rightarrow> page_step" where
  "processor_print_guppy e style ref fmt va c =
     (case style of
        ES_INITIALIZE \<Rightarrow> pret (one_copy e (''text/gemini'' @ CRLF) c) (\<lambda>c. Inr (empty_two c))
      | ES_FINALIZE \<Rightarrow>
          pret (guppy_insert_markers (site_realloc e) (site_random e) (pc_one c)) (\<lambda>(s, first_chunk, chunk_number).
          Inr (c\<lparr>pc_one := s, pc_first_chunk := first_chunk, pc_chunk_number := chunk_number\<rparr>))
      | ES_INTERNAL_REFERENCE \<Rightarrow>
          pret (one_print e (''=> guppy://'' @ DOMAIN_NAME e @ GUPPY_PORT_STRING e @ ''/%s%s '')
                  [VA_text ref, VA_text (question_of c)] c) (\<lambda>c.
          pret (one_print e fmt va c) (one_append e CRLF))
      | _ \<Rightarrow> processor_print_gemini e style ref fmt va c)"

subsection \<open>Nex and Text\<close>

definition nex_prefix :: "site \<Rightarrow> entry_style \<Rightarrow> byte list \<Rightarrow> page_step" where
  "nex_prefix e style ref c =
     (case style of
        ES_NORMAL \<Rightarrow> Inr c
      | ES_PARAGRAPH \<Rightarrow> Inr c
      | ES_ITEMIZE \<Rightarrow> one_append e '' - '' c
      | ES_ENUMERATION \<Rightarrow> one_print e '' %u. '' [VA_uint (pc_list_index c)] c
      | ES_QUOTE \<Rightarrow> one_append e '' > '' c
      | ES_LARGE \<Rightarrow> Inr c
      | ES_LARGER \<Rightarrow> Inr c
      | ES_LARGEST \<Rightarrow> one_append e ''# '' c
      | ES_HEADER \<Rightarrow> one_append e ''# '' c
      | ES_INTERNAL_REFERENCE \<Rightarrow>
          one_print e ''=> %s%s%s/ '' [VA_text (if ref \<noteq> [] then ''/'' else ''''), VA_text ref, VA_text (slash_of c)] c
      | _ \<Rightarrow> one_print e ''=> %s '' [VA_text ref] c)"

definition one_wrap :: "nat \<Rightarrow> page_step" where
  "one_wrap old c = pret (string_wrap (pc_one c) old) (\<lambda>s. Inr (c\<lparr>pc_one := s\<rparr>))"

definition nex_suffix :: "site \<Rightarrow> entry_style \<Rightarrow> nat \<Rightarrow> page_step" where
  "nex_suffix e style old c =
     (case style of
        ES_NORMAL \<Rightarrow> pret (one_wrap old c) (one_append e [LF])
      | ES_PARAGRAPH \<Rightarrow> pret (one_wrap old c) (one_append e [LF])
      | ES_LARGE \<Rightarrow> pret (one_append e [LF] c) (one_upper_case old 0 (length [LF]))
      | ES_LARGER \<Rightarrow> pret (one_append e [LF] c) (one_upper_case old 0 (length [LF]))
      | ES_LARGEST \<Rightarrow> hash_title e [LF] old c
      | ES_HEADER \<Rightarrow> hash_title e [LF] old c
      | _ \<Rightarrow> one_append e [LF] c)"

definition processor_print_nex :: "site \<Rightarrow> entry_style \<Rightarrow> byte list \<Rightarrow> byte list \<Rightarrow> argument list \<Rightarrow> page_step" where
  "processor_print_nex e style ref fmt va c =
     pret (if entry_spaced c style then one_append e [LF] c else Inr c) (\<lambda>c.
     let old = cb_size (pc_one c)
     in case style of
          ES_INITIALIZE \<Rightarrow> Inr (empty_both c)
        | ES_FINALIZE \<Rightarrow> Inr c
        | _ \<Rightarrow>
            pret (nex_prefix e style ref c) (\<lambda>c.
            pret (one_print e fmt va c) (nex_suffix e style old)))"

definition processor_print_text :: "site \<Rightarrow> entry_style \<Rightarrow> byte list \<Rightarrow> byte list \<Rightarrow> argument list \<Rightarrow> page_step" where
  "processor_print_text e style ref fmt va c =
     (case style of
        ES_INITIALIZE \<Rightarrow> pret (one_copy e (''20 text/plain'' @ CRLF) c) (\<lambda>c. Inr (empty_two c))
      | ES_INTERNAL_REFERENCE \<Rightarrow>
          pret (one_print e (''=> text://'' @ DOMAIN_NAME e @ TEXT_PORT_STRING e @ ''%s%s%s '')
                  [VA_text (if ref \<noteq> [] then ''/'' else ''''), VA_text ref, VA_text (slash_of c)] c) (\<lambda>c.
          pret (one_print e fmt va c) (one_append e [LF]))
      | _ \<Rightarrow> processor_print_nex e style ref fmt va c)"

subsection \<open>\<^verbatim>\<open>processor_print\<close>\<close>

definition print_entry :: "site \<Rightarrow> nat \<Rightarrow> entry_style \<Rightarrow> byte list \<Rightarrow> byte list \<Rightarrow> argument list \<Rightarrow> page_step" where
  "print_entry e a style ref fmt va =
     (if ACCEPTING_SOCKET_IS_HTTP a then processor_print_http e style ref fmt va
      else if ACCEPTING_SOCKET_IS_HTTPS a then processor_print_http e style ref fmt va
      else if ACCEPTING_SOCKET_IS_GOPHER a then processor_print_gopher e style ref fmt va
      else if ACCEPTING_SOCKET_IS_FINGER a then processor_print_finger e style ref fmt va
      else if ACCEPTING_SOCKET_IS_GEMINI a then processor_print_gemini e style ref fmt va
      else if ACCEPTING_SOCKET_IS_SPARTAN a then processor_print_spartan e style ref fmt va
      else if ACCEPTING_SOCKET_IS_NEX a then processor_print_nex e style ref fmt va
      else if ACCEPTING_SOCKET_IS_TEXT a then processor_print_text e style ref fmt va
      else processor_print_guppy e style ref fmt va)"

definition processor_print :: "site \<Rightarrow> nat \<Rightarrow> entry_style \<Rightarrow> byte list \<Rightarrow> byte list \<Rightarrow> argument list \<Rightarrow> page_step" where
  "processor_print e a style ref fmt va c =
     pret (print_entry e a style ref fmt va
             (c\<lparr>pc_list_index := (if style = ES_ENUMERATION then (pc_list_index c + 1) mod 2 ^ 32 else 0)\<rparr>))
       (\<lambda>c. Inr (c\<lparr>pc_previous_style := style\<rparr>))"

section \<open>What an entry looks like\<close>

definition boxed :: "byte list \<Rightarrow> byte list \<Rightarrow> byte list \<Rightarrow> byte \<Rightarrow> byte \<Rightarrow> byte list" where
  "boxed prefix t suffix c1 c2 =
     (prefix @ box_edge c1 c2 t @ suffix) @ (prefix @ t @ suffix) @ (prefix @ box_edge c1 c2 t @ suffix)"

definition slashed :: "byte list \<Rightarrow> byte list" where
  "slashed ref = (if ref \<noteq> [] then ''/'' else '''') @ ref"

definition http_entry :: "page_context \<Rightarrow> entry_style \<Rightarrow> byte list \<Rightarrow> byte list \<Rightarrow> byte list" where
  "http_entry c style ref t =
     (case style of
        ES_NORMAL \<Rightarrow> t @ ''<br>'' @ [LF]
      | ES_PARAGRAPH \<Rightarrow> ''<p>'' @ t @ ''</p>'' @ [LF]
      | ES_ITEMIZE \<Rightarrow> (if pc_previous_style c = ES_ITEMIZE then [] else ''<ul>'' @ [LF]) @ ''<li>'' @ t @ ''</li>'' @ [LF]
      | ES_ENUMERATION \<Rightarrow>
          (if pc_previous_style c = ES_ENUMERATION then [] else ''<ol>'' @ [LF]) @ ''<li>'' @ t @ ''</li>'' @ [LF]
      | ES_QUOTE \<Rightarrow> ''<blockquote>'' @ [LF] @ ''<p>'' @ t @ ''</p>'' @ [LF] @ ''</blockquote>'' @ [LF]
      | ES_LARGE \<Rightarrow> ''<h3>'' @ [LF] @ ''<p>'' @ t @ ''</p>'' @ [LF] @ ''</h3>'' @ [LF]
      | ES_LARGER \<Rightarrow> ''<h2>'' @ [LF] @ ''<p>'' @ t @ ''</p>'' @ [LF] @ ''</h2>'' @ [LF]
      | ES_LARGEST \<Rightarrow> ''<h1>'' @ [LF] @ ''<p>'' @ t @ ''</p>'' @ [LF] @ ''</h1>'' @ [LF]
      | ES_HEADER \<Rightarrow> ''<header>'' @ [LF] @ ''<h1>'' @ t @ ''</h1>'' @ [LF] @ ''</header>'' @ [LF]
      | ES_INTERNAL_REFERENCE \<Rightarrow>
          ''<a href='' @ [QUOTE] @ ''/'' @ ref @ question_of c @ [QUOTE] @ ''>'' @ t @ ''</a><br>'' @ [LF]
      | _ \<Rightarrow> ''<a href='' @ [QUOTE] @ ref @ [QUOTE] @ ''>'' @ t @ ''</a><br>'' @ [LF])"

definition gopher_entry :: "site \<Rightarrow> page_context \<Rightarrow> entry_style \<Rightarrow> byte list \<Rightarrow> byte list \<Rightarrow> byte list" where
  "gopher_entry e c style ref t =
     (case style of
        ES_ITEMIZE \<Rightarrow> ''i - '' @ t @ FAKE_ENDLINE
      | ES_ENUMERATION \<Rightarrow> ''i '' @ decimal_text (pc_list_index c) @ ''. '' @ t @ FAKE_ENDLINE
      | ES_QUOTE \<Rightarrow> ''i > '' @ t @ FAKE_ENDLINE
      | ES_LARGE \<Rightarrow> ''i'' @ map ascii_upper t @ FAKE_ENDLINE
      | ES_LARGER \<Rightarrow> ''i'' @ map ascii_upper t @ FAKE_ENDLINE
      | ES_LARGEST \<Rightarrow> boxed ''i'' (''O '' @ map ascii_upper t @ '' O'') FAKE_ENDLINE CHR ''O'' CHR ''0''
      | ES_HEADER \<Rightarrow> boxed ''i'' (''O '' @ map ascii_upper t @ '' O'') FAKE_ENDLINE CHR ''O'' CHR ''0''
      | ES_INTERNAL_REFERENCE \<Rightarrow>
          ''1'' @ t @ [TAB] @ ref @ slash_of c @ [TAB] @ DOMAIN_NAME e @ [TAB] @ decimal_text (GOPHER_PORT e) @ CRLF
      | ES_EXTERNAL_REFERENCE \<Rightarrow> ''i'' @ t @ '': '' @ ref @ FAKE_ENDLINE
      | _ \<Rightarrow> ''i'' @ t @ FAKE_ENDLINE)"

definition finger_entry :: "site \<Rightarrow> page_context \<Rightarrow> entry_style \<Rightarrow> byte list \<Rightarrow> byte list \<Rightarrow> byte list" where
  "finger_entry e c style ref t =
     (case style of
        ES_ITEMIZE \<Rightarrow> '' - '' @ t @ CRLF
      | ES_ENUMERATION \<Rightarrow> '' '' @ decimal_text (pc_list_index c) @ ''. '' @ t @ CRLF
      | ES_QUOTE \<Rightarrow> '' > '' @ t @ CRLF
      | ES_LARGE \<Rightarrow> map ascii_upper t @ CRLF
      | ES_LARGER \<Rightarrow> map ascii_upper t @ CRLF
      | ES_LARGEST \<Rightarrow> boxed ''#'' ('' '' @ map ascii_upper t @ '' '') (''#'' @ CRLF) CHR ''#'' CHR ''#''
      | ES_HEADER \<Rightarrow> boxed ''#'' ('' '' @ map ascii_upper t @ '' '') (''#'' @ CRLF) CHR ''#'' CHR ''#''
      | ES_INTERNAL_REFERENCE \<Rightarrow>
          t @ '': finger://'' @ DOMAIN_NAME e @ FINGER_PORT_STRING e @ slashed ref @ slash_of c @ CRLF
      | ES_EXTERNAL_REFERENCE \<Rightarrow> t @ '': '' @ ref @ CRLF
      | _ \<Rightarrow> t @ CRLF)"

definition gemini_entry :: "site \<Rightarrow> page_context \<Rightarrow> entry_style \<Rightarrow> byte list \<Rightarrow> byte list \<Rightarrow> byte list" where
  "gemini_entry e c style ref t =
     (case style of
        ES_NORMAL \<Rightarrow> CRLF
      | ES_PARAGRAPH \<Rightarrow> CRLF
      | ES_ITEMIZE \<Rightarrow> ''* ''
      | ES_ENUMERATION \<Rightarrow> decimal_text (pc_list_index c) @ ''. ''
      | ES_QUOTE \<Rightarrow> ''> ''
      | ES_LARGE \<Rightarrow> ''### ''
      | ES_LARGER \<Rightarrow> ''## ''
      | ES_LARGEST \<Rightarrow> ''# ''
      | ES_HEADER \<Rightarrow> ''# ''
      | ES_INTERNAL_REFERENCE \<Rightarrow> ''=> gemini://'' @ DOMAIN_NAME e @ GEMINI_PORT_STRING e @ ''/'' @ ref @ question_of c @ '' ''
      | _ \<Rightarrow> ''=> '' @ ref @ '' '') @ t @ CRLF"

definition nex_entry :: "site \<Rightarrow> page_context \<Rightarrow> entry_style \<Rightarrow> byte list \<Rightarrow> byte list \<Rightarrow> byte list" where
  "nex_entry e c style ref t =
     (case style of
        ES_NORMAL \<Rightarrow> wrap t @ [LF]
      | ES_PARAGRAPH \<Rightarrow> wrap t @ [LF]
      | ES_ITEMIZE \<Rightarrow> '' - '' @ t @ [LF]
      | ES_ENUMERATION \<Rightarrow> '' '' @ decimal_text (pc_list_index c) @ ''. '' @ t @ [LF]
      | ES_QUOTE \<Rightarrow> '' > '' @ t @ [LF]
      | ES_LARGE \<Rightarrow> map ascii_upper t @ [LF]
      | ES_LARGER \<Rightarrow> map ascii_upper t @ [LF]
      | ES_LARGEST \<Rightarrow> boxed ''#'' ('' '' @ map ascii_upper t @ '' '') (''#'' @ [LF]) CHR ''#'' CHR ''#''
      | ES_HEADER \<Rightarrow> boxed ''#'' ('' '' @ map ascii_upper t @ '' '') (''#'' @ [LF]) CHR ''#'' CHR ''#''
      | ES_INTERNAL_REFERENCE \<Rightarrow> ''=> '' @ slashed ref @ slash_of c @ ''/ '' @ t @ [LF]
      | _ \<Rightarrow> ''=> '' @ ref @ '' '' @ t @ [LF])"

definition spartan_entry :: "site \<Rightarrow> page_context \<Rightarrow> entry_style \<Rightarrow> byte list \<Rightarrow> byte list \<Rightarrow> byte list" where
  "spartan_entry e c style ref t =
     (if style = ES_INTERNAL_REFERENCE
      then ''=> spartan://'' @ DOMAIN_NAME e @ SPARTAN_PORT_STRING e @ slashed ref @ slash_of c @ '' '' @ t @ CRLF
      else gemini_entry e c style ref t)"

definition guppy_entry :: "site \<Rightarrow> page_context \<Rightarrow> entry_style \<Rightarrow> byte list \<Rightarrow> byte list \<Rightarrow> byte list" where
  "guppy_entry e c style ref t =
     (if style = ES_INTERNAL_REFERENCE
      then ''=> guppy://'' @ DOMAIN_NAME e @ GUPPY_PORT_STRING e @ ''/'' @ ref @ question_of c @ '' '' @ t @ CRLF
      else gemini_entry e c style ref t)"

definition text_entry :: "site \<Rightarrow> page_context \<Rightarrow> entry_style \<Rightarrow> byte list \<Rightarrow> byte list \<Rightarrow> byte list" where
  "text_entry e c style ref t =
     (if style = ES_INTERNAL_REFERENCE
      then ''=> text://'' @ DOMAIN_NAME e @ TEXT_PORT_STRING e @ slashed ref @ slash_of c @ '' '' @ t @ [LF]
      else (if entry_spaced c style then [LF] else []) @ nex_entry e c style ref t)"

section \<open>Steps on the buffers\<close>

definition prints :: "site \<Rightarrow> byte list \<Rightarrow> argument list \<Rightarrow> byte list \<Rightarrow> bool" where
  "prints e fmt va t \<longleftrightarrow> list_all plain_argument va \<and>
     (\<forall>n. \<exists>rest. format_text (site_printf e) fmt va n = Some (t, rest, []))"

definition site_ok :: "site \<Rightarrow> bool" where
  "site_ok e \<longleftrightarrow> realloc_ok (site_realloc e) \<and> float_ok (site_printf e) \<and> site_random e 0x1000000 < 0x1000000 \<and>
     (let t = site_calendar e
      in tm_sec t < 100 \<and> tm_min t < 100 \<and> tm_hour t < 100 \<and> tm_mday t < 100 \<and> tm_mon t < 12 \<and> tm_year t < 2 ^ 30 \<and> tm_wday t < 7)"

definition one_result :: "page_context result \<Rightarrow> page_context \<Rightarrow> byte list \<Rightarrow> bool" where
  "one_result r c t \<longleftrightarrow> (\<exists>m. r = Inl (Failed m)) \<or>
     (\<exists>s. r = Inr (c\<lparr>pc_one := s\<rparr>) \<and> string_inv s \<and> string_bytes s = t)"

definition two_result :: "page_context result \<Rightarrow> page_context \<Rightarrow> byte list \<Rightarrow> bool" where
  "two_result r c t \<longleftrightarrow> (\<exists>m. r = Inl (Failed m)) \<or>
     (\<exists>s. r = Inr (c\<lparr>pc_two := s\<rparr>) \<and> string_inv s \<and> string_bytes s = t)"

lemma site_okD:
  assumes "site_ok e"
  shows "realloc_ok (site_realloc e)" "float_ok (site_printf e)" "site_random e 0x1000000 < 0x1000000"
  using assms by (simp_all add: site_ok_def)

lemma one_lift: "string_result r t \<Longrightarrow> one_result (pret r (\<lambda>s. Inr (c\<lparr>pc_one := s\<rparr>))) c t"
  by (auto simp: string_result_def one_result_def)

lemma two_lift: "string_result r t \<Longrightarrow> two_result (pret r (\<lambda>s. Inr (c\<lparr>pc_two := s\<rparr>))) c t"
  by (auto simp: string_result_def two_result_def)

lemma one_skip: "string_inv (pc_one c) \<Longrightarrow> string_bytes (pc_one c) = t \<Longrightarrow> one_result (Inr c) c t"
  unfolding one_result_def by (intro disjI2 exI [of _ "pc_one c"]) simp

lemma two_skip: "string_inv (pc_two c) \<Longrightarrow> string_bytes (pc_two c) = t \<Longrightarrow> two_result (Inr c) c t"
  unfolding two_result_def by (intro disjI2 exI [of _ "pc_two c"]) simp

lemma one_pret:
  assumes "one_result r c t"
    and "\<And>s. \<lbrakk>string_inv s; string_bytes s = t\<rbrakk> \<Longrightarrow> one_result (k (c\<lparr>pc_one := s\<rparr>)) (c\<lparr>pc_one := s\<rparr>) u"
  shows "one_result (pret r k) c u"
proof -
  from assms(1) consider m where "r = Inl (Failed m)" | s where "r = Inr (c\<lparr>pc_one := s\<rparr>)" "string_inv s" "string_bytes s = t"
    by (auto simp: one_result_def)
  then show ?thesis
  proof cases
    case 1
    then show ?thesis by (simp add: one_result_def)
  next
    case 2
    from assms(2) [OF 2(2,3)] show ?thesis by (simp add: 2(1) one_result_def)
  qed
qed

lemma two_pret:
  assumes "two_result r c t"
    and "\<And>s. \<lbrakk>string_inv s; string_bytes s = t\<rbrakk> \<Longrightarrow> two_result (k (c\<lparr>pc_two := s\<rparr>)) (c\<lparr>pc_two := s\<rparr>) u"
  shows "two_result (pret r k) c u"
proof -
  from assms(1) consider m where "r = Inl (Failed m)" | s where "r = Inr (c\<lparr>pc_two := s\<rparr>)" "string_inv s" "string_bytes s = t"
    by (auto simp: two_result_def)
  then show ?thesis
  proof cases
    case 1
    then show ?thesis by (simp add: two_result_def)
  next
    case 2
    from assms(2) [OF 2(2,3)] show ?thesis by (simp add: 2(1) two_result_def)
  qed
qed

lemma shape_append_result:
  assumes "realloc_ok realloc" and "string_shape s" and "string_bytes s = t" and "length t + length out < 2 ^ 63"
  shows "string_result (string_append_mem realloc s out) (t @ out)"
proof -
  have "cb_size s + length out < 2 ^ 63" using assms string_shapeD(6) [OF assms(2)] by simp
  from shape_append_copy [OF assms(2,1) this] show ?thesis
    using assms(3) by (auto simp: string_result_def split: sum.splits)
qed

lemma shape_copy_result:
  assumes "realloc_ok realloc" and "string_shape s" and "cb_size s + length out < 2 ^ 63"
  shows "string_result (string_copy_mem realloc s out) out"
  using shape_append_copy [OF assms(2,1,3)] by (auto simp: string_result_def split: sum.splits)

lemma one_append_result:
  assumes "site_ok e" and "string_shape (pc_one c)" and "string_bytes (pc_one c) = t" and "length (t @ out) < 2 ^ 62"
    and "u = t @ out"
  shows "one_result (one_append e out c) c u"
  unfolding one_append_def assms(5)
  by (rule one_lift [OF shape_append_result [OF site_okD(1) [OF assms(1)] assms(2,3)]]) (use assms(4) in simp)

lemma two_append_result:
  assumes "site_ok e" and "string_shape (pc_two c)" and "string_bytes (pc_two c) = t" and "length (t @ out) < 2 ^ 62"
    and "u = t @ out"
  shows "two_result (two_append e out c) c u"
  unfolding two_append_def assms(5)
  by (rule two_lift [OF shape_append_result [OF site_okD(1) [OF assms(1)] assms(2,3)]]) (use assms(4) in simp)

lemma one_print_result:
  assumes "site_ok e" and "string_inv (pc_one c)" and "string_bytes (pc_one c) = t" and "prints e fmt va out"
    and "length (t @ out) < 2 ^ 62" and "u = t @ out"
  shows "one_result (one_print e fmt va c) c u"
proof -
  from assms(4) obtain rest where "list_all plain_argument va"
    "format_text (site_printf e) fmt va (length t) = Some (out, rest, [])" unfolding prints_def by blast
  from print_append_result [OF site_okD(1,2) [OF assms(1)] assms(2,3) this] show ?thesis
    unfolding one_print_def assms(6) using assms(5) by (intro one_lift) simp
qed

lemma two_print_result:
  assumes "site_ok e" and "string_inv (pc_two c)" and "string_bytes (pc_two c) = t" and "prints e fmt va out"
    and "length (t @ out) < 2 ^ 62" and "u = t @ out"
  shows "two_result (two_print e fmt va c) c u"
proof -
  from assms(4) obtain rest where "list_all plain_argument va"
    "format_text (site_printf e) fmt va (length t) = Some (out, rest, [])" unfolding prints_def by blast
  from print_append_result [OF site_okD(1,2) [OF assms(1)] assms(2,3) this] show ?thesis
    unfolding two_print_def assms(6) using assms(5) by (intro two_lift) simp
qed

section \<open>What the formats print\<close>

lemma prints_plain: "CHR ''%'' \<notin> set t \<Longrightarrow> prints e t [] t"
  by (simp add: prints_def format_plain)

lemma prints_s:
  assumes "CHR ''%'' \<notin> set p" and "length x < 2 ^ 31" and "prints e fmt va t"
  shows "prints e (p @ CHR ''%'' # CHR ''s'' # fmt) (VA_text x # va) (p @ x @ t)"
  unfolding prints_def
proof (intro conjI allI)
  show "list_all plain_argument (VA_text x # va)" using assms(3) by (simp add: prints_def)
  fix n
  obtain rest where "format_text (site_printf e) fmt va (n + length p + length x) = Some (t, rest, [])"
    using assms(3) unfolding prints_def by blast
  then show "\<exists>rest. format_text (site_printf e) (p @ CHR ''%'' # CHR ''s'' # fmt) (VA_text x # va) n =
      Some (p @ x @ t, rest, [])"
    by (simp only: format_s [OF assms(1,2)] print_after_simps append_assoc append_Nil) blast
qed

lemma prints_u:
  assumes "CHR ''%'' \<notin> set p" and "n < 2 ^ 32" and "prints e fmt va t"
  shows "prints e (p @ CHR ''%'' # CHR ''u'' # fmt) (VA_uint n # va) (p @ decimal_text n @ t)"
  unfolding prints_def
proof (intro conjI allI)
  show "list_all plain_argument (VA_uint n # va)" using assms(3) by (simp add: prints_def)
  have n: "unat (word_of_nat n :: 32 word) = n" using assms(2) by (simp add: unat_of_nat)
  fix k
  obtain rest where "format_text (site_printf e) fmt va (k + length p + length (decimal_text n)) = Some (t, rest, [])"
    using assms(3) unfolding prints_def by blast
  then show "\<exists>rest. format_text (site_printf e) (p @ CHR ''%'' # CHR ''u'' # fmt) (VA_uint n # va) k =
      Some (p @ decimal_text n @ t, rest, [])"
    by (simp only: format_u [OF assms(1)] n print_after_simps append_assoc append_Nil) blast
qed

lemma prints_1:
  assumes "CHR ''%'' \<notin> set p" and "CHR ''%'' \<notin> set q" and "length x < 2 ^ 31"
  shows "prints e (p @ ''%s'' @ q) [VA_text x] (p @ x @ q)"
  using prints_s [OF assms(1,3) prints_plain [OF assms(2)]] by simp

lemma prints_2:
  assumes "CHR ''%'' \<notin> set p" and "CHR ''%'' \<notin> set q" and "length x < 2 ^ 31" and "length y < 2 ^ 31"
  shows "prints e (p @ ''%s%s'' @ q) [VA_text x, VA_text y] (p @ x @ y @ q)"
  using prints_s [OF assms(1,3) prints_s [where p = "[]", OF _ assms(4) prints_plain [OF assms(2)]]] by simp

lemma prints_3:
  assumes "CHR ''%'' \<notin> set p" and "CHR ''%'' \<notin> set q" and "length x < 2 ^ 31" and "length y < 2 ^ 31" and "length z < 2 ^ 31"
  shows "prints e (p @ ''%s%s%s'' @ q) [VA_text x, VA_text y, VA_text z] (p @ x @ y @ z @ q)"
  using prints_s [OF assms(1,3) prints_s [where p = "[]", OF _ assms(4) prints_s [where p = "[]", OF _ assms(5) prints_plain [OF assms(2)]]]]
  by simp

lemma prints_number:
  assumes "CHR ''%'' \<notin> set p" and "CHR ''%'' \<notin> set q" and "n < 2 ^ 32"
  shows "prints e (p @ ''%u'' @ q) [VA_uint n] (p @ decimal_text n @ q)"
  using prints_u [OF assms(1,3) prints_plain [OF assms(2)]] by simp

lemma decimal_text_digits: "CHR ''%'' \<notin> set (decimal_text n)"
proof (induction n rule: decimal_text.induct)
  case (1 n)
  have digit: "CHR ''%'' \<noteq> digit_char d" if "d < 10" for d
  proof -
    have *: "ord (digit_char d) = 48 + d" using that by (simp add: digit_char_def)
    have "ord CHR ''%'' \<noteq> ord (digit_char d)" unfolding * by simp
    then show ?thesis by metis
  qed
  show ?case using 1 digit by (cases "n < 10") (simp_all add: decimal_text.simps [of n])
qed

lemma site_no_percent [simp]:
  "CHR ''%'' \<notin> set (DOMAIN_NAME e)" "CHR ''%'' \<notin> set (FINGER_PORT_STRING e)" "CHR ''%'' \<notin> set (GEMINI_PORT_STRING e)"
  "CHR ''%'' \<notin> set (SPARTAN_PORT_STRING e)" "CHR ''%'' \<notin> set (TEXT_PORT_STRING e)" "CHR ''%'' \<notin> set (GUPPY_PORT_STRING e)"
  "CHR ''%'' \<notin> set (decimal_text n)"
  by (simp_all add: DOMAIN_NAME_def FINGER_PORT_STRING_def GEMINI_PORT_STRING_def SPARTAN_PORT_STRING_def
      TEXT_PORT_STRING_def GUPPY_PORT_STRING_def decimal_text_digits)

lemma length_language [simp]: "length (question_of c) < 2147483648" "length (slash_of c) < 2147483648"
  by (simp_all add: question_of_def slash_of_def language_question_def language_slash_def Let_def)

lemma of_context [simp]:
  "question_of (c\<lparr>pc_one := s\<rparr>) = question_of c" "slash_of (c\<lparr>pc_one := s\<rparr>) = slash_of c"
  "question_of (c\<lparr>pc_two := s\<rparr>) = question_of c" "slash_of (c\<lparr>pc_two := s\<rparr>) = slash_of c"
  by (simp_all add: question_of_def slash_of_def)

section \<open>Steps of the entries\<close>

lemma entry_steps:
  assumes "site_ok e" and "prints e fmt va t" and "one_result (f c) c (t0 @ pre)" and "length (t0 @ pre @ t) < 2 ^ 62"
    and "\<And>s. \<lbrakk>string_inv s; string_bytes s = t0 @ pre @ t\<rbrakk> \<Longrightarrow> one_result (g (c\<lparr>pc_one := s\<rparr>)) (c\<lparr>pc_one := s\<rparr>) u"
  shows "one_result (pret (f c) (\<lambda>c. pret (one_print e fmt va c) g)) c u"
proof (rule one_pret [OF assms(3)])
  fix s
  assume "string_inv s" "string_bytes s = t0 @ pre"
  then have "one_result (one_print e fmt va (c\<lparr>pc_one := s\<rparr>)) (c\<lparr>pc_one := s\<rparr>) (t0 @ pre @ t)"
    using assms(1,2,4) by (intro one_print_result [of _ _ "t0 @ pre"]) simp_all
  then show "one_result (pret (one_print e fmt va (c\<lparr>pc_one := s\<rparr>)) g) (c\<lparr>pc_one := s\<rparr>) u"
    by (rule one_pret) (use assms(5) in simp)
qed

lemma one_upper_result:
  assumes "string_inv (pc_one c)" and "string_bytes (pc_one c) = a @ prefix @ t @ suffix"
  shows "one_result (one_upper_case (length a) (length prefix) (length suffix) c) c (a @ prefix @ map ascii_upper t @ suffix)"
  unfolding one_upper_case_def by (rule one_lift [OF upper_case_spec [OF assms]])

lemma one_box_result:
  assumes "site_ok e" and "string_inv (pc_one c)" and "string_bytes (pc_one c) = a @ prefix @ t @ suffix"
    and "continuations prefix = 0" and "continuations suffix = 0" and "length a + 3 * length (prefix @ t @ suffix) < 2 ^ 62"
  shows "one_result (one_box e (length a) (length prefix) (length suffix) c1 c2 c) c (a @ boxed prefix t suffix c1 c2)"
  unfolding one_box_def boxed_def by (rule one_lift [OF box_spec [OF site_okD(1) [OF assms(1)] assms(2-6)]])

text \<open>A line in upper case.\<close>

lemma upper_line:
  assumes "site_ok e" and "string_inv (pc_one c)" and "string_bytes (pc_one c) = a @ p @ t" and "length (a @ p @ t @ q) < 2 ^ 62"
  shows "one_result (pret (one_append e q c) (one_upper_case (length a) (length p) (length q))) c
    (a @ p @ map ascii_upper t @ q)"
proof (rule one_pret)
  show "one_result (one_append e q c) c (a @ p @ t @ q)"
    by (rule one_append_result [OF assms(1) string_inv_shape [OF assms(2)] assms(3)]) (use assms(4) in simp_all)
  show "one_result (one_upper_case (length a) (length p) (length q) (c\<lparr>pc_one := s\<rparr>)) (c\<lparr>pc_one := s\<rparr>)
      (a @ p @ map ascii_upper t @ q)" if "string_inv s" "string_bytes s = a @ p @ t @ q" for s
    by (rule one_upper_result) (use that in simp_all)
qed

lemma length_box_edge: "length t < 2 ^ 64 \<Longrightarrow> length (box_edge c1 c2 t) = length t"
  by (simp add: box_edge_def length_memset_alternating)

text \<open>A title: upper case between two decorations, in a box.\<close>

lemma boxed_line:
  assumes "site_ok e" and "string_inv (pc_one c)" and "string_bytes (pc_one c) = a @ (p @ x) @ t"
    and "continuations p = 0" and "continuations q = 0"
    and "length (a @ boxed p (x @ map ascii_upper t @ y) q c1 c2) < 2 ^ 62"
  shows "one_result (pret (one_append e (y @ q) c) (\<lambda>c.
      pret (one_upper_case (length a) (length (p @ x)) (length (y @ q)) c)
        (one_box e (length a) (length p) (length q) c1 c2))) c (a @ boxed p (x @ map ascii_upper t @ y) q c1 c2)"
proof (rule one_pret)
  let ?t = "x @ map ascii_upper t @ y"
  have "length ?t < 2 ^ 64" using assms(6) by (simp add: boxed_def)
  then have bound: "length a + 3 * length (p @ ?t @ q) < 2 ^ 62"
    using assms(6) length_box_edge [of ?t c1 c2] by (simp add: boxed_def)
  show "one_result (one_append e (y @ q) c) c (a @ (p @ x) @ t @ (y @ q))"
    by (rule one_append_result [OF assms(1) string_inv_shape [OF assms(2)] assms(3)]) (use bound in simp_all)
  show "one_result (pret (one_upper_case (length a) (length (p @ x)) (length (y @ q)) (c\<lparr>pc_one := s\<rparr>))
        (one_box e (length a) (length p) (length q) c1 c2)) (c\<lparr>pc_one := s\<rparr>) (a @ boxed p ?t q c1 c2)"
    if s: "string_inv s" "string_bytes s = a @ (p @ x) @ t @ (y @ q)" for s
  proof (rule one_pret)
    show "one_result (one_upper_case (length a) (length (p @ x)) (length (y @ q)) (c\<lparr>pc_one := s\<rparr>)) (c\<lparr>pc_one := s\<rparr>)
        (a @ (p @ x) @ map ascii_upper t @ (y @ q))"
      by (rule one_upper_result) (use s in simp_all)
    fix s'
    assume "string_inv s'" "string_bytes s' = a @ (p @ x) @ map ascii_upper t @ (y @ q)"
    then show "one_result (one_box e (length a) (length p) (length q) c1 c2 (c\<lparr>pc_one := s, pc_one := s'\<rparr>))
        (c\<lparr>pc_one := s, pc_one := s'\<rparr>) (a @ boxed p ?t q c1 c2)"
      using bound assms(4,5) by (intro one_box_result [OF assms(1)]) simp_all
  qed
qed

section \<open>The entries of each protocol\<close>

text \<open>
  The buffer before an entry: right behind \<open>ES_INITIALIZE\<close> its terminator may be missing, which a
  title does not mind.
\<close>

definition entry_ready :: "char_buffer \<Rightarrow> entry_style \<Rightarrow> bool" where
  "entry_ready s style \<longleftrightarrow> string_shape s \<and> (string_inv s \<or> style = ES_LARGEST \<or> style = ES_HEADER)"

abbreviation is_entry :: "entry_style \<Rightarrow> bool" where
  "is_entry style \<equiv> style \<noteq> ES_INITIALIZE \<and> style \<noteq> ES_FINALIZE"

lemma FAKE_no_percent [simp]: "CHR ''%'' \<notin> set FAKE_ENDLINE" "continuations FAKE_ENDLINE = 0"
  by (simp_all add: FAKE_ENDLINE_def continuations_def)

lemma continuations_simps [simp]:
  "continuations CRLF = 0" "continuations [LF] = 0" "continuations ''#'' = 0" "continuations ''i'' = 0"
  "continuations (CHR ''#'' # t) = continuations t" "continuations [] = 0"
  by (simp_all add: continuations_def)

lemma spaced_result:
  assumes "site_ok e" and "entry_ready (pc_one c) style" and "string_bytes (pc_one c) = t"
    and "length (t @ out) < 2 ^ 62"
    and "\<And>s. \<lbrakk>entry_ready s style; string_bytes s = t @ (if entry_spaced c style then out else [])\<rbrakk> \<Longrightarrow>
      one_result (k (c\<lparr>pc_one := s\<rparr>)) (c\<lparr>pc_one := s\<rparr>) u"
  shows "one_result (pret (if entry_spaced c style then one_append e out c else Inr c) k) c u"
proof (cases "entry_spaced c style")
  case True
  have "one_result (one_append e out c) c (t @ out)"
    using assms(2) by (intro one_append_result [OF assms(1) _ assms(3,4)]) (simp_all add: entry_ready_def)
  then have "one_result (pret (one_append e out c) k) c u"
    by (rule one_pret) (use assms(5) True in \<open>simp add: entry_ready_def string_inv_shape\<close>)
  then show ?thesis using True by simp
next
  case False
  then show ?thesis using assms(5) [of "pc_one c"] assms(2,3) by simp
qed

text \<open>The styles of the printers that are not titles or links.\<close>

lemma case_entry:
  assumes "is_entry style"
  shows "(case style of ES_INITIALIZE \<Rightarrow> x | ES_FINALIZE \<Rightarrow> y | _ \<Rightarrow> z) = z"
  using assms by (cases style) simp_all

text \<open>
  The printers write an entry in three steps: what opens it, its text, and the rest, which may go back
  over the whole line. The interface states what the first and the last step owe to the line as a whole.
\<close>

locale line_printer =
  fixes prefix :: "site \<Rightarrow> entry_style \<Rightarrow> byte list \<Rightarrow> page_step"
    and suffix :: "site \<Rightarrow> entry_style \<Rightarrow> byte list \<Rightarrow> nat \<Rightarrow> page_step"
    and opens :: "site \<Rightarrow> page_context \<Rightarrow> entry_style \<Rightarrow> byte list \<Rightarrow> byte list"
    and entry :: "site \<Rightarrow> page_context \<Rightarrow> entry_style \<Rightarrow> byte list \<Rightarrow> byte list \<Rightarrow> byte list"
  assumes prefix_ok: "\<lbrakk>site_ok e; is_entry style; entry_ready (pc_one c) style; string_bytes (pc_one c) = a;
      length (a @ opens e c style ref) < 2 ^ 62; length ref < 2 ^ 31; pc_list_index c < 2 ^ 32\<rbrakk> \<Longrightarrow>
      one_result (prefix e style ref c) c (a @ opens e c style ref)"
    and suffix_ok: "\<lbrakk>site_ok e; is_entry style; string_inv (pc_one c); string_bytes (pc_one c) = a @ opens e c style ref @ t;
      length (a @ entry e c style ref t) < 2 ^ 62; length ref < 2 ^ 31\<rbrakk> \<Longrightarrow>
      one_result (suffix e style ref (length a) c) c (a @ entry e c style ref t)"
    and opens_same: "opens e (c\<lparr>pc_one := s\<rparr>) style ref = opens e c style ref"
    and entry_same: "entry e (c\<lparr>pc_one := s\<rparr>) style ref t = entry e c style ref t"
    and opens_le: "length (opens e c style ref) + length t \<le> length (entry e c style ref t)"
begin

lemma line:
  assumes "site_ok e" and "is_entry style" and "entry_ready (pc_one c) style" and "string_bytes (pc_one c) = a"
    and "prints e fmt va t" and "length ref < 2 ^ 31" and "pc_list_index c < 2 ^ 32"
    and "length (a @ entry e c style ref t) < 2 ^ 62"
  shows "one_result (pret (prefix e style ref c) (\<lambda>c. pret (one_print e fmt va c) (suffix e style ref (length a)))) c
    (a @ entry e c style ref t)"
proof (rule entry_steps [OF assms(1,5)])
  have le: "length (opens e c style ref) + length t \<le> length (entry e c style ref t)" by (rule opens_le)
  then show "one_result (prefix e style ref c) c (a @ opens e c style ref)"
    using assms by (intro prefix_ok) simp_all
  show "length (a @ opens e c style ref @ t) < 2 ^ 62" using le assms(8) by simp
  fix s
  assume "string_inv s" "string_bytes s = a @ opens e c style ref @ t"
  then have "one_result (suffix e style ref (length a) (c\<lparr>pc_one := s\<rparr>)) (c\<lparr>pc_one := s\<rparr>)
      (a @ entry e (c\<lparr>pc_one := s\<rparr>) style ref t)"
    using assms by (intro suffix_ok) (simp_all add: opens_same entry_same)
  then show "one_result (suffix e style ref (length a) (c\<lparr>pc_one := s\<rparr>)) (c\<lparr>pc_one := s\<rparr>) (a @ entry e c style ref t)"
    by (simp only: entry_same)
qed

lemma spaced_line:
  assumes "site_ok e" and "is_entry style" and "entry_ready (pc_one c) style" and "string_bytes (pc_one c) = a"
    and "prints e fmt va t" and "length ref < 2 ^ 31" and "pc_list_index c < 2 ^ 32"
    and "length (a @ gap @ entry e c style ref t) < 2 ^ 62"
  shows "one_result (pret (if entry_spaced c style then one_append e gap c else Inr c) (\<lambda>c.
      let old = cb_size (pc_one c)
      in case style of ES_INITIALIZE \<Rightarrow> x c | ES_FINALIZE \<Rightarrow> y c
         | _ \<Rightarrow> pret (prefix e style ref c) (\<lambda>c. pret (one_print e fmt va c) (suffix e style ref old)))) c
    (a @ (if entry_spaced c style then gap else []) @ entry e c style ref t)"
  unfolding case_entry [OF assms(2)] Let_def
proof (rule spaced_result [OF assms(1,3,4)], goal_cases)
  case 1
  then show ?case using assms(8) by simp
next
  case (2 s)
  define b where "b = a @ (if entry_spaced c style then gap else [])"
  have b: "string_bytes s = b" "cb_size s = length b"
    using 2 string_shapeD(6) [of s] by (simp_all add: b_def entry_ready_def)
  have "one_result (pret (prefix e style ref (c\<lparr>pc_one := s\<rparr>)) (\<lambda>c. pret (one_print e fmt va c) (suffix e style ref (length b))))
      (c\<lparr>pc_one := s\<rparr>) (b @ entry e (c\<lparr>pc_one := s\<rparr>) style ref t)"
    by (rule line [OF assms(1,2)]) (use 2 b assms(5-8) in \<open>simp_all add: entry_same b_def\<close>)
  then show ?case using b by (simp add: entry_same b_def)
qed

end

subsection \<open>Gopher\<close>

definition gopher_open :: "page_context \<Rightarrow> entry_style \<Rightarrow> byte list" where
  "gopher_open c style =
     (case style of ES_ITEMIZE \<Rightarrow> ''i - '' | ES_ENUMERATION \<Rightarrow> ''i '' @ decimal_text (pc_list_index c) @ ''. ''
      | ES_QUOTE \<Rightarrow> ''i > '' | ES_LARGEST \<Rightarrow> ''iO '' | ES_HEADER \<Rightarrow> ''iO '' | ES_INTERNAL_REFERENCE \<Rightarrow> ''1'' | _ \<Rightarrow> ''i'')"

lemma gopher_prefix_result:
  assumes "site_ok e" and "entry_ready (pc_one c) style" and "string_bytes (pc_one c) = t"
    and "length (t @ gopher_open c style) < 2 ^ 62" and "pc_list_index c < 2 ^ 32"
  shows "one_result (gopher_prefix e style c) c (t @ gopher_open c style)"
proof -
  have shape: "string_shape (pc_one c)" using assms(2) by (simp add: entry_ready_def)
  note A = one_append_result [OF assms(1) shape assms(3)]
  have P: "one_result (one_print e fmt va c) c (t @ out)"
    if "prints e fmt va out" "\<not> (style = ES_LARGEST \<or> style = ES_HEADER)" "length (t @ out) < 2 ^ 62" for fmt va out
    using assms(2) that by (intro one_print_result [OF assms(1) _ assms(3)]) (auto simp: entry_ready_def)
  show ?thesis
  proof (cases "style = ES_ENUMERATION \<or> style = ES_INTERNAL_REFERENCE")
    case True
    then show ?thesis
    proof
      assume s: "style = ES_ENUMERATION"
      have "one_result (one_print e ''i %u. '' [VA_uint (pc_list_index c)] c) c
          (t @ ''i '' @ decimal_text (pc_list_index c) @ ''. '')"
        by (rule P) (use prints_number [of "''i ''" "''. ''" "pc_list_index c" e] assms(4,5) s in
            \<open>simp_all add: gopher_open_def\<close>)
      then show ?thesis using s by (simp add: gopher_prefix_def gopher_open_def)
    next
      assume s: "style = ES_INTERNAL_REFERENCE"
      have "one_result (one_print e ''1'' [] c) c (t @ ''1'')"
        by (rule P) (use prints_plain [of "''1''" e] assms(4) s in \<open>simp_all add: gopher_open_def\<close>)
      then show ?thesis using s by (simp add: gopher_prefix_def gopher_open_def)
    qed
  next
    case False
    then show ?thesis using assms(4)
      by (cases style) (simp_all add: gopher_prefix_def gopher_open_def A)
  qed
qed

lemma gopher_suffix_result:
  assumes "site_ok e" and "string_inv (pc_one c)" and "string_bytes (pc_one c) = a @ gopher_open c style @ t"
    and "length (a @ gopher_entry e c style ref t) < 2 ^ 62" and "length ref < 2 ^ 31" and "is_entry style"
  shows "one_result (gopher_suffix e style ref (length a) c) c (a @ gopher_entry e c style ref t)"
proof -
  note D = gopher_suffix_def gopher_entry_def gopher_open_def
  note A = one_append_result [OF assms(1) string_inv_shape [OF assms(2)] assms(3)]
  note P = one_print_result [OF assms(1,2,3)]
  consider "style = ES_LARGE \<or> style = ES_LARGER" | "style = ES_LARGEST \<or> style = ES_HEADER"
    | "style = ES_INTERNAL_REFERENCE" | "style = ES_EXTERNAL_REFERENCE"
    | "style = ES_NORMAL \<or> style = ES_PARAGRAPH \<or> style = ES_ITEMIZE \<or> style = ES_ENUMERATION \<or> style = ES_QUOTE"
    using assms(6) by (cases style) auto
  then show ?thesis
  proof cases
    case 1
    then have "one_result (pret (one_append e FAKE_ENDLINE c) (one_upper_case (length a) (length ''i'') (length FAKE_ENDLINE))) c
        (a @ ''i'' @ map ascii_upper t @ FAKE_ENDLINE)"
      using assms(3,4) by (intro upper_line [OF assms(1,2)]) (auto simp: D)
    then show ?thesis using 1 by (auto simp: D)
  next
    case 2
    then have "one_result (pret (one_append e ('' O'' @ FAKE_ENDLINE) c) (\<lambda>c.
        pret (one_upper_case (length a) (length (''i'' @ ''O '')) (length ('' O'' @ FAKE_ENDLINE)) c)
          (one_box e (length a) (length ''i'') (length FAKE_ENDLINE) CHR ''O'' CHR ''0''))) c
        (a @ boxed ''i'' (''O '' @ map ascii_upper t @ '' O'') FAKE_ENDLINE CHR ''O'' CHR ''0'')"
      using assms(3,4) by (intro boxed_line [OF assms(1,2)]) (auto simp: D)
    then show ?thesis using 2 by (auto simp: D gopher_title_def)
  next
    case 3
    have "prints e (([TAB]) @ ''%s%s'' @ ([TAB] @ DOMAIN_NAME e @ [TAB] @ decimal_text (GOPHER_PORT e) @ CRLF))
        [VA_text ref, VA_text (slash_of c)]
        ([TAB] @ ref @ slash_of c @ [TAB] @ DOMAIN_NAME e @ [TAB] @ decimal_text (GOPHER_PORT e) @ CRLF)"
      by (rule prints_2) (use assms(5) in simp_all)
    then show ?thesis using 3 assms(4) P by (simp add: D)
  next
    case 4
    have "prints e ('': '' @ ''%s'' @ FAKE_ENDLINE) [VA_text ref] ('': '' @ ref @ FAKE_ENDLINE)"
      by (rule prints_1) (use assms(5) in simp_all)
    then show ?thesis using 4 assms(4) P by (simp add: D)
  next
    case 5
    then show ?thesis using assms(4) by (auto simp: D A)
  qed
qed

interpretation gopher_lines: line_printer "\<lambda>e style ref. gopher_prefix e style" gopher_suffix
  "\<lambda>e c style ref. gopher_open c style" gopher_entry
proof (unfold_locales, goal_cases)
  case (1 e style c a ref)
  then show ?case by (intro gopher_prefix_result) simp_all
next
  case (2 e style c a ref t)
  then show ?case by (intro gopher_suffix_result) simp_all
next
  case (3 e s c style ref)
  show ?case by (cases style) (simp_all add: gopher_open_def)
next
  case (4 e s c style ref t)
  show ?case by (cases style) (simp_all add: gopher_entry_def)
next
  case (5 e c style ref t)
  show ?case by (cases style) (simp_all add: gopher_open_def gopher_entry_def boxed_def)
qed

lemma prints_reference:
  assumes "CHR ''%'' \<notin> set p" and "CHR ''%'' \<notin> set q" and "length ref < 2 ^ 31"
  shows "prints e (p @ ''%s%s%s'' @ q) [VA_text (if ref \<noteq> [] then ''/'' else ''''), VA_text ref, VA_text (slash_of c)]
    (p @ slashed ref @ slash_of c @ q)"
  using prints_3 [OF assms(1,2), of "if ref \<noteq> [] then ''/'' else ''''" ref "slash_of c" e] assms(3) by (simp add: slashed_def)

lemma one_title_result:
  assumes "site_ok e" and "string_inv (pc_one c)" and "string_bytes (pc_one c) = a @ ''# '' @ t"
    and "continuations endline = 0"
    and "length (a @ boxed ''#'' ('' '' @ map ascii_upper t @ '' '') (''#'' @ endline) CHR ''#'' CHR ''#'') < 2 ^ 62"
  shows "one_result (hash_title e endline (length a) c) c
    (a @ boxed ''#'' ('' '' @ map ascii_upper t @ '' '') (''#'' @ endline) CHR ''#'' CHR ''#'')"
proof -
  have "one_result (pret (one_append e ('' '' @ (''#'' @ endline)) c) (\<lambda>c.
      pret (one_upper_case (length a) (length (''#'' @ '' '')) (length ('' '' @ (''#'' @ endline))) c)
        (one_box e (length a) (length ''#'') (length (''#'' @ endline)) CHR ''#'' CHR ''#''))) c
      (a @ boxed ''#'' ('' '' @ map ascii_upper t @ '' '') (''#'' @ endline) CHR ''#'' CHR ''#'')"
    by (rule boxed_line [OF assms(1,2)]) (use assms(3-5) in simp_all)
  then show ?thesis by (simp add: hash_title_def)
qed

subsection \<open>Finger\<close>

definition finger_open :: "page_context \<Rightarrow> entry_style \<Rightarrow> byte list" where
  "finger_open c style =
     (case style of ES_ITEMIZE \<Rightarrow> '' - '' | ES_ENUMERATION \<Rightarrow> '' '' @ decimal_text (pc_list_index c) @ ''. ''
      | ES_QUOTE \<Rightarrow> '' > '' | ES_LARGEST \<Rightarrow> ''# '' | ES_HEADER \<Rightarrow> ''# '' | _ \<Rightarrow> [])"

lemma finger_prefix_result:
  assumes "site_ok e" and "entry_ready (pc_one c) style" and "string_bytes (pc_one c) = t"
    and "length (t @ finger_open c style) < 2 ^ 62" and "pc_list_index c < 2 ^ 32"
  shows "one_result (finger_prefix e style c) c (t @ finger_open c style)"
proof -
  have shape: "string_shape (pc_one c)" using assms(2) by (simp add: entry_ready_def)
  note A = one_append_result [OF assms(1) shape assms(3)]
  show ?thesis
  proof (cases "style = ES_LARGEST \<or> style = ES_HEADER")
    case True
    then show ?thesis using assms(4) by (auto simp: finger_prefix_def finger_open_def A)
  next
    case False
    then have inv: "string_inv (pc_one c)" using assms(2) by (simp add: entry_ready_def)
    have "one_result (one_print e '' %u. '' [VA_uint (pc_list_index c)] c) c
        (t @ '' '' @ decimal_text (pc_list_index c) @ ''. '')" if "style = ES_ENUMERATION"
      by (rule one_print_result [OF assms(1) inv assms(3)])
        (use prints_number [of "'' ''" "''. ''" "pc_list_index c" e] assms(4,5) that in \<open>simp_all add: finger_open_def\<close>)
    then show ?thesis using assms(3,4) False
      by (cases style) (simp_all add: finger_prefix_def finger_open_def A one_skip inv)
  qed
qed

lemma finger_suffix_result:
  assumes "site_ok e" and "string_inv (pc_one c)" and "string_bytes (pc_one c) = a @ finger_open c style @ t"
    and "length (a @ finger_entry e c style ref t) < 2 ^ 62" and "length ref < 2 ^ 31" and "is_entry style"
  shows "one_result (finger_suffix e style ref (length a) c) c (a @ finger_entry e c style ref t)"
proof -
  note D = finger_suffix_def finger_entry_def finger_open_def
  note A = one_append_result [OF assms(1) string_inv_shape [OF assms(2)] assms(3)]
  note P = one_print_result [OF assms(1,2,3)]
  consider "style = ES_LARGE \<or> style = ES_LARGER" | "style = ES_LARGEST \<or> style = ES_HEADER"
    | "style = ES_INTERNAL_REFERENCE" | "style = ES_EXTERNAL_REFERENCE"
    | "style = ES_NORMAL \<or> style = ES_PARAGRAPH \<or> style = ES_ITEMIZE \<or> style = ES_ENUMERATION \<or> style = ES_QUOTE"
    using assms(6) by (cases style) auto
  then show ?thesis
  proof cases
    case 1
    then have "one_result (pret (one_append e CRLF c) (one_upper_case (length a) (length ([] :: byte list)) (length CRLF))) c
        (a @ [] @ map ascii_upper t @ CRLF)"
      using assms(3,4) by (intro upper_line [OF assms(1,2)]) (auto simp: D)
    then show ?thesis using 1 by (auto simp: D)
  next
    case 2
    then have "one_result (hash_title e CRLF (length a) c) c
        (a @ boxed ''#'' ('' '' @ map ascii_upper t @ '' '') (''#'' @ CRLF) CHR ''#'' CHR ''#'')"
      using assms(3,4) by (intro one_title_result [OF assms(1,2)]) (auto simp: D)
    then show ?thesis using 2 by (auto simp: D)
  next
    case 3
    have "prints e (('': finger://'' @ DOMAIN_NAME e @ FINGER_PORT_STRING e) @ ''%s%s%s'' @ CRLF)
        [VA_text (if ref \<noteq> [] then ''/'' else ''''), VA_text ref, VA_text (slash_of c)]
        (('': finger://'' @ DOMAIN_NAME e @ FINGER_PORT_STRING e) @ slashed ref @ slash_of c @ CRLF)"
      by (rule prints_reference) (use assms(5) in simp_all)
    then have "one_result (one_print e ('': finger://'' @ DOMAIN_NAME e @ FINGER_PORT_STRING e @ ''%s%s%s'' @ CRLF)
        [VA_text (if ref \<noteq> [] then ''/'' else ''''), VA_text ref, VA_text (slash_of c)] c) c
        (a @ finger_entry e c style ref t)"
      using 3 assms(3,4) by (intro P) (simp_all add: D)
    then show ?thesis using 3 by (simp add: finger_suffix_def)
  next
    case 4
    have "prints e ('': '' @ ''%s'' @ CRLF) [VA_text ref] ('': '' @ ref @ CRLF)"
      by (rule prints_1) (use assms(5) in simp_all)
    then show ?thesis using 4 assms(4) P by (simp add: D)
  next
    case 5
    then show ?thesis using assms(4) by (auto simp: D A)
  qed
qed

interpretation finger_lines: line_printer "\<lambda>e style ref. finger_prefix e style" finger_suffix
  "\<lambda>e c style ref. finger_open c style" finger_entry
proof (unfold_locales, goal_cases)
  case (1 e style c a ref)
  then show ?case by (intro finger_prefix_result) simp_all
next
  case (2 e style c a ref t)
  then show ?case by (intro finger_suffix_result) simp_all
next
  case (3 e s c style ref)
  show ?case by (cases style) (simp_all add: finger_open_def)
next
  case (4 e s c style ref t)
  show ?case by (cases style) (simp_all add: finger_entry_def)
next
  case (5 e c style ref t)
  show ?case by (cases style) (simp_all add: finger_open_def finger_entry_def boxed_def)
qed

subsection \<open>Nex and Text\<close>

definition nex_open :: "page_context \<Rightarrow> entry_style \<Rightarrow> byte list \<Rightarrow> byte list" where
  "nex_open c style ref =
     (case style of ES_ITEMIZE \<Rightarrow> '' - '' | ES_ENUMERATION \<Rightarrow> '' '' @ decimal_text (pc_list_index c) @ ''. ''
      | ES_QUOTE \<Rightarrow> '' > '' | ES_LARGEST \<Rightarrow> ''# '' | ES_HEADER \<Rightarrow> ''# ''
      | ES_INTERNAL_REFERENCE \<Rightarrow> ''=> '' @ slashed ref @ slash_of c @ ''/ ''
      | ES_EXTERNAL_REFERENCE \<Rightarrow> ''=> '' @ ref @ '' '' | _ \<Rightarrow> [])"

lemma nex_prefix_result:
  assumes "site_ok e" and "entry_ready (pc_one c) style" and "string_bytes (pc_one c) = t" and "is_entry style"
    and "length (t @ nex_open c style ref) < 2 ^ 62" and "length ref < 2 ^ 31" and "pc_list_index c < 2 ^ 32"
  shows "one_result (nex_prefix e style ref c) c (t @ nex_open c style ref)"
proof -
  note D = nex_prefix_def nex_open_def
  have shape: "string_shape (pc_one c)" using assms(2) by (simp add: entry_ready_def)
  note A = one_append_result [OF assms(1) shape assms(3)]
  show ?thesis
  proof (cases "style = ES_LARGEST \<or> style = ES_HEADER")
    case True
    then show ?thesis using assms(5) by (auto simp: D A)
  next
    case False
    then have inv: "string_inv (pc_one c)" using assms(2) by (simp add: entry_ready_def)
    note P = one_print_result [OF assms(1) inv assms(3)]
    consider "style = ES_ENUMERATION" | "style = ES_INTERNAL_REFERENCE" | "style = ES_EXTERNAL_REFERENCE"
      | "style \<noteq> ES_ENUMERATION" "style \<noteq> ES_INTERNAL_REFERENCE" "style \<noteq> ES_EXTERNAL_REFERENCE" by blast
    then show ?thesis
    proof cases
      case 1
      have "one_result (one_print e '' %u. '' [VA_uint (pc_list_index c)] c) c
          (t @ '' '' @ decimal_text (pc_list_index c) @ ''. '')"
        by (rule P) (use prints_number [of "'' ''" "''. ''" "pc_list_index c" e] assms(5,7) 1 in \<open>simp_all add: D\<close>)
      then show ?thesis using 1 by (simp add: D)
    next
      case 2
      have "prints e (''=> '' @ ''%s%s%s'' @ ''/ '') [VA_text (if ref \<noteq> [] then ''/'' else ''''), VA_text ref, VA_text (slash_of c)]
          (''=> '' @ slashed ref @ slash_of c @ ''/ '')"
        by (rule prints_reference) (use assms(6) in simp_all)
      then have "one_result (one_print e ''=> %s%s%s/ ''
          [VA_text (if ref \<noteq> [] then ''/'' else ''''), VA_text ref, VA_text (slash_of c)] c) c (t @ nex_open c style ref)"
        using 2 assms(5) by (intro P) (simp_all add: D)
      then show ?thesis using 2 by (simp add: nex_prefix_def)
    next
      case 3
      have "prints e (''=> '' @ ''%s'' @ '' '') [VA_text ref] (''=> '' @ ref @ '' '')"
        by (rule prints_1) (use assms(6) in simp_all)
      then show ?thesis using 3 assms(5) P by (simp add: D)
    next
      case 4
      then show ?thesis using assms(3-5) False by (cases style) (simp_all add: D A one_skip inv)
    qed
  qed
qed

lemma length_wrap [simp]: "length (wrap t) = length t"
  using wrap_wrapped [of t] by (simp add: wrapped_def)

lemma wrapped_line:
  assumes "site_ok e" and "string_inv (pc_one c)" and "string_bytes (pc_one c) = a @ t" and "length (a @ t @ q) < 2 ^ 62"
  shows "one_result (pret (one_wrap (length a) c) (one_append e q)) c (a @ wrap t @ q)"
proof (rule one_pret)
  show "one_result (one_wrap (length a) c) c (a @ wrap t)"
    unfolding one_wrap_def by (rule one_lift [OF string_wrap_spec [OF assms(2,3)]])
  show "one_result (one_append e q (c\<lparr>pc_one := s\<rparr>)) (c\<lparr>pc_one := s\<rparr>) (a @ wrap t @ q)"
    if "string_inv s" "string_bytes s = a @ wrap t" for s
    by (rule one_append_result [OF assms(1), of _ "a @ wrap t"]) (use that assms(4) in \<open>simp_all add: string_inv_shape\<close>)
qed

lemma nex_suffix_result:
  assumes "site_ok e" and "string_inv (pc_one c)" and "string_bytes (pc_one c) = a @ nex_open c style ref @ t"
    and "length (a @ nex_entry e c style ref t) < 2 ^ 62" and "is_entry style"
  shows "one_result (nex_suffix e style (length a) c) c (a @ nex_entry e c style ref t)"
proof -
  note D = nex_suffix_def nex_entry_def nex_open_def
  note A = one_append_result [OF assms(1) string_inv_shape [OF assms(2)] assms(3)]
  consider "style = ES_NORMAL \<or> style = ES_PARAGRAPH" | "style = ES_LARGE \<or> style = ES_LARGER"
    | "style = ES_LARGEST \<or> style = ES_HEADER"
    | "style = ES_INTERNAL_REFERENCE \<or> style = ES_EXTERNAL_REFERENCE \<or> style = ES_ITEMIZE \<or> style = ES_ENUMERATION \<or> style = ES_QUOTE"
    using assms(5) by (cases style) auto
  then show ?thesis
  proof cases
    case 1
    then have "one_result (pret (one_wrap (length a) c) (one_append e [LF])) c (a @ wrap t @ [LF])"
      using assms(3,4) by (intro wrapped_line [OF assms(1,2)]) (auto simp: D)
    then show ?thesis using 1 by (auto simp: D)
  next
    case 2
    then have "one_result (pret (one_append e [LF] c) (one_upper_case (length a) (length ([] :: byte list)) (length [LF]))) c
        (a @ [] @ map ascii_upper t @ [LF])"
      using assms(3,4) by (intro upper_line [OF assms(1,2)]) (auto simp: D)
    then show ?thesis using 2 by (auto simp: D)
  next
    case 3
    then have "one_result (hash_title e [LF] (length a) c) c
        (a @ boxed ''#'' ('' '' @ map ascii_upper t @ '' '') (''#'' @ [LF]) CHR ''#'' CHR ''#'')"
      using assms(3,4) by (intro one_title_result [OF assms(1,2)]) (auto simp: D)
    then show ?thesis using 3 by (auto simp: D)
  next
    case 4
    then show ?thesis using assms(4) by (auto simp: D A)
  qed
qed

interpretation nex_lines: line_printer nex_prefix "\<lambda>e style ref. nex_suffix e style" "\<lambda>e. nex_open" nex_entry
proof (unfold_locales, goal_cases)
  case (1 e style c a ref)
  then show ?case by (intro nex_prefix_result) simp_all
next
  case (2 e style c a ref t)
  then show ?case by (intro nex_suffix_result) simp_all
next
  case (3 e s c style ref)
  show ?case by (cases style) (simp_all add: nex_open_def)
next
  case (4 e s c style ref t)
  show ?case by (cases style) (simp_all add: nex_entry_def)
next
  case (5 e c style ref t)
  show ?case by (cases style) (simp_all add: nex_open_def nex_entry_def boxed_def)
qed

subsection \<open>Gemini\<close>

definition gemini_open :: "site \<Rightarrow> page_context \<Rightarrow> entry_style \<Rightarrow> byte list \<Rightarrow> byte list" where
  "gemini_open e c style ref =
     (case style of ES_NORMAL \<Rightarrow> CRLF | ES_PARAGRAPH \<Rightarrow> CRLF | ES_ITEMIZE \<Rightarrow> ''* ''
      | ES_ENUMERATION \<Rightarrow> decimal_text (pc_list_index c) @ ''. '' | ES_QUOTE \<Rightarrow> ''> '' | ES_LARGE \<Rightarrow> ''### ''
      | ES_LARGER \<Rightarrow> ''## '' | ES_LARGEST \<Rightarrow> ''# '' | ES_HEADER \<Rightarrow> ''# ''
      | ES_INTERNAL_REFERENCE \<Rightarrow> ''=> gemini://'' @ DOMAIN_NAME e @ GEMINI_PORT_STRING e @ ''/'' @ ref @ question_of c @ '' ''
      | _ \<Rightarrow> ''=> '' @ ref @ '' '')"

lemma gemini_prefix_result:
  assumes "site_ok e" and "entry_ready (pc_one c) style" and "string_bytes (pc_one c) = t" and "is_entry style"
    and "length (t @ gemini_open e c style ref) < 2 ^ 62" and "length ref < 2 ^ 31" and "pc_list_index c < 2 ^ 32"
  shows "one_result (gemini_prefix e style ref c) c (t @ gemini_open e c style ref)"
proof -
  note D = gemini_prefix_def gemini_open_def
  have shape: "string_shape (pc_one c)" using assms(2) by (simp add: entry_ready_def)
  note A = one_append_result [OF assms(1) shape assms(3)]
  have P: "one_result (one_print e fmt va c) c (t @ out)"
    if "prints e fmt va out" "\<not> (style = ES_LARGEST \<or> style = ES_HEADER)" "length (t @ out) < 2 ^ 62" for fmt va out
    using assms(2) that by (intro one_print_result [OF assms(1) _ assms(3)]) (auto simp: entry_ready_def)
  consider "style = ES_ENUMERATION" | "style = ES_INTERNAL_REFERENCE" | "style = ES_EXTERNAL_REFERENCE"
    | "style \<noteq> ES_ENUMERATION" "style \<noteq> ES_INTERNAL_REFERENCE" "style \<noteq> ES_EXTERNAL_REFERENCE" by blast
  then show ?thesis
  proof cases
    case 1
    have "one_result (one_print e ''%u. '' [VA_uint (pc_list_index c)] c) c (t @ [] @ decimal_text (pc_list_index c) @ ''. '')"
      by (rule P) (use prints_number [of "[]" "''. ''" "pc_list_index c" e] assms(5,7) 1 in \<open>simp_all add: D\<close>)
    then show ?thesis using 1 by (simp add: D)
  next
    case 2
    have "prints e ((''=> gemini://'' @ DOMAIN_NAME e @ GEMINI_PORT_STRING e @ ''/'') @ ''%s%s'' @ '' '')
        [VA_text ref, VA_text (question_of c)]
        ((''=> gemini://'' @ DOMAIN_NAME e @ GEMINI_PORT_STRING e @ ''/'') @ ref @ question_of c @ '' '')"
      by (rule prints_2) (use assms(6) in simp_all)
    then have "one_result (one_print e (''=> gemini://'' @ DOMAIN_NAME e @ GEMINI_PORT_STRING e @ ''/%s%s '')
        [VA_text ref, VA_text (question_of c)] c) c (t @ gemini_open e c style ref)"
      using 2 assms(5) by (intro P) (simp_all add: D)
    then show ?thesis using 2 by (simp add: gemini_prefix_def)
  next
    case 3
    have "prints e (''=> '' @ ''%s'' @ '' '') [VA_text ref] (''=> '' @ ref @ '' '')"
      by (rule prints_1) (use assms(6) in simp_all)
    then show ?thesis using 3 assms(5) P by (simp add: D)
  next
    case 4
    then show ?thesis using assms(4,5) by (cases style) (simp_all add: D A)
  qed
qed

interpretation gemini_lines: line_printer gemini_prefix "\<lambda>e style ref old. one_append e CRLF" gemini_open gemini_entry
proof (unfold_locales, goal_cases)
  case (1 e style c a ref)
  then show ?case by (intro gemini_prefix_result) simp_all
next
  case (2 e style c a ref t)
  have "gemini_entry e c style ref t = gemini_open e c style ref @ t @ CRLF" by (simp add: gemini_entry_def gemini_open_def)
  then show ?case using 2 by (intro one_append_result [OF 2(1) string_inv_shape [OF 2(3)] 2(4)]) simp_all
next
  case (3 e s c style ref)
  show ?case by (cases style) (simp_all add: gemini_open_def)
next
  case (4 e s c style ref t)
  show ?case by (cases style) (simp_all add: gemini_entry_def)
next
  case (5 e c style ref t)
  show ?case by (cases style) (simp_all add: gemini_open_def gemini_entry_def)
qed

text \<open>The links that Spartan, Guppy and Text write themselves.\<close>

lemma link_line:
  assumes "site_ok e" and "string_inv (pc_one c)" and "string_bytes (pc_one c) = a" and "prints e fmt va t"
    and "prints e link args x" and "length (a @ x @ t @ q) < 2 ^ 62"
  shows "one_result (pret (one_print e link args c) (\<lambda>c. pret (one_print e fmt va c) (one_append e q))) c (a @ x @ t @ q)"
proof (rule entry_steps [OF assms(1,4)])
  show "one_result (one_print e link args c) c (a @ x)"
    by (rule one_print_result [OF assms(1-3,5)]) (use assms(6) in simp_all)
  show "length (a @ x @ t) < 2 ^ 62" using assms(6) by simp
  show "one_result (one_append e q (c\<lparr>pc_one := s\<rparr>)) (c\<lparr>pc_one := s\<rparr>) (a @ x @ t @ q)"
    if "string_inv s" "string_bytes s = a @ x @ t" for s
    by (rule one_append_result [OF assms(1), of _ "a @ x @ t"]) (use that assms(6) in \<open>simp_all add: string_inv_shape\<close>)
qed

subsection \<open>HTTP\<close>

definition http_open :: "page_context \<Rightarrow> entry_style \<Rightarrow> byte list \<Rightarrow> byte list" where
  "http_open c style ref =
     (case style of ES_PARAGRAPH \<Rightarrow> ''<p>''
      | ES_ITEMIZE \<Rightarrow> (if pc_previous_style c = ES_ITEMIZE then [] else ''<ul>'' @ [LF]) @ ''<li>''
      | ES_ENUMERATION \<Rightarrow> (if pc_previous_style c = ES_ENUMERATION then [] else ''<ol>'' @ [LF]) @ ''<li>''
      | ES_QUOTE \<Rightarrow> ''<blockquote>'' @ [LF] @ ''<p>'' | ES_LARGE \<Rightarrow> ''<h3>'' @ [LF] @ ''<p>''
      | ES_LARGER \<Rightarrow> ''<h2>'' @ [LF] @ ''<p>'' | ES_LARGEST \<Rightarrow> ''<h1>'' @ [LF] @ ''<p>''
      | ES_HEADER \<Rightarrow> ''<header>'' @ [LF] @ ''<h1>''
      | ES_INTERNAL_REFERENCE \<Rightarrow> ''<a href='' @ [QUOTE] @ ''/'' @ ref @ question_of c @ [QUOTE] @ ''>''
      | ES_EXTERNAL_REFERENCE \<Rightarrow> ''<a href='' @ [QUOTE] @ ref @ [QUOTE] @ ''>''
      | _ \<Rightarrow> [])"

text \<open>What closes a list in front of an entry.\<close>

definition list_close :: "page_context \<Rightarrow> entry_style \<Rightarrow> byte list" where
  "list_close c style =
     (if pc_previous_style c = ES_ITEMIZE \<and> style \<noteq> ES_ITEMIZE then ''</ul>'' @ [LF] else []) @
     (if pc_previous_style c = ES_ENUMERATION \<and> style \<noteq> ES_ENUMERATION then ''</ol>'' @ [LF] else [])"

lemma two_if_append:
  assumes "site_ok e" and "string_inv (pc_two c)" and "string_bytes (pc_two c) = t" and "length (t @ out) < 2 ^ 62"
  shows "two_result (if b then two_append e out c else Inr c) c (t @ (if b then out else []))"
  using two_append_result [OF assms(1) string_inv_shape [OF assms(2)] assms(3,4) refl] two_skip [OF assms(2,3)] by simp

lemma list_close_result:
  assumes "site_ok e" and "string_inv (pc_two c)" and "string_bytes (pc_two c) = t" and "length t + 20 < 2 ^ 62"
    and "\<And>s. \<lbrakk>string_inv s; string_bytes s = t @ list_close c style\<rbrakk> \<Longrightarrow>
      two_result (k (c\<lparr>pc_two := s\<rparr>)) (c\<lparr>pc_two := s\<rparr>) u"
  shows "two_result (pret (if pc_previous_style c = ES_ITEMIZE \<and> style \<noteq> ES_ITEMIZE then two_append e (''</ul>'' @ [LF]) c else Inr c)
    (\<lambda>c. pret (if pc_previous_style c = ES_ENUMERATION \<and> style \<noteq> ES_ENUMERATION
          then two_append e (''</ol>'' @ [LF]) c else Inr c) k)) c u"
proof (rule two_pret [OF two_if_append [OF assms(1-3)]], goal_cases)
  case 1
  then show ?case using assms(4) by simp
next
  case (2 s)
  let ?b = "pc_previous_style c = ES_ENUMERATION \<and> style \<noteq> ES_ENUMERATION"
  have "two_result (if ?b then two_append e (''</ol>'' @ [LF]) (c\<lparr>pc_two := s\<rparr>) else Inr (c\<lparr>pc_two := s\<rparr>)) (c\<lparr>pc_two := s\<rparr>)
      (string_bytes s @ (if ?b then ''</ol>'' @ [LF] else []))"
    by (rule two_if_append [OF assms(1)]) (use 2 assms(4) in auto)
  then have "two_result (pret (if ?b then two_append e (''</ol>'' @ [LF]) (c\<lparr>pc_two := s\<rparr>) else Inr (c\<lparr>pc_two := s\<rparr>)) k) (c\<lparr>pc_two := s\<rparr>) u"
    by (rule two_pret) (use 2 assms(5) in \<open>simp add: list_close_def\<close>)
  then show ?case by simp
qed

lemma http_prefix_result:
  assumes "site_ok e" and "string_inv (pc_two c)" and "string_bytes (pc_two c) = t" and "is_entry style"
    and "length (t @ http_open c style ref) < 2 ^ 62" and "length ref < 2 ^ 31"
  shows "two_result (http_prefix e style ref c) c (t @ http_open c style ref)"
proof -
  note D = http_prefix_def http_open_def
  note A = two_append_result [OF assms(1) string_inv_shape [OF assms(2)] assms(3)]
  note P = two_print_result [OF assms(1-3)]
  have item: "two_result (pret (if b then two_append e x c else Inr c) (two_append e y)) c (t @ (if b then x else []) @ y)"
    if "length (t @ x @ y) < 2 ^ 62" for b x y
  proof (rule two_pret [OF two_if_append [OF assms(1-3)]], goal_cases)
    case 1
    then show ?case using that by simp
  next
    case (2 s)
    then show ?case using that by (intro two_append_result [OF assms(1)]) (auto simp: string_inv_shape)
  qed
  consider "style = ES_ITEMIZE" | "style = ES_ENUMERATION" | "style = ES_INTERNAL_REFERENCE" | "style = ES_EXTERNAL_REFERENCE"
    | "style \<noteq> ES_ITEMIZE" "style \<noteq> ES_ENUMERATION" "style \<noteq> ES_INTERNAL_REFERENCE" "style \<noteq> ES_EXTERNAL_REFERENCE" by blast
  then show ?thesis
  proof cases
    case 1
    have "two_result (pret (if pc_previous_style c \<noteq> ES_ITEMIZE then two_append e (''<ul>'' @ [LF]) c else Inr c) (two_append e ''<li>'')) c
        (t @ (if pc_previous_style c \<noteq> ES_ITEMIZE then ''<ul>'' @ [LF] else []) @ ''<li>'')"
      if "pc_previous_style c \<noteq> ES_ITEMIZE" by (rule item) (use assms(5) 1 that in \<open>simp add: D\<close>)
    then show ?thesis using 1 A assms(5) by (cases "pc_previous_style c = ES_ITEMIZE") (simp_all add: D)
  next
    case 2
    have "two_result (pret (if pc_previous_style c \<noteq> ES_ENUMERATION then two_append e (''<ol>'' @ [LF]) c else Inr c) (two_append e ''<li>'')) c
        (t @ (if pc_previous_style c \<noteq> ES_ENUMERATION then ''<ol>'' @ [LF] else []) @ ''<li>'')"
      if "pc_previous_style c \<noteq> ES_ENUMERATION" by (rule item) (use assms(5) 2 that in \<open>simp add: D\<close>)
    then show ?thesis using 2 A assms(5) by (cases "pc_previous_style c = ES_ENUMERATION") (simp_all add: D)
  next
    case 3
    have "prints e ((''<a href='' @ [QUOTE] @ ''/'') @ ''%s%s'' @ ([QUOTE] @ ''>'')) [VA_text ref, VA_text (question_of c)]
        ((''<a href='' @ [QUOTE] @ ''/'') @ ref @ question_of c @ ([QUOTE] @ ''>''))"
      by (rule prints_2) (use assms(6) in simp_all)
    then show ?thesis using 3 assms(5) P by (simp add: D)
  next
    case 4
    have "prints e ((''<a href='' @ [QUOTE]) @ ''%s'' @ ([QUOTE] @ ''>'')) [VA_text ref] ((''<a href='' @ [QUOTE]) @ ref @ ([QUOTE] @ ''>''))"
      by (rule prints_1) (use assms(6) in simp_all)
    then show ?thesis using 4 assms(5) P by (simp add: D)
  next
    case 5
    then show ?thesis using assms(3-5) by (cases style) (simp_all add: D A two_skip assms(2))
  qed
qed

lemma http_suffix_result:
  assumes "site_ok e" and "string_inv (pc_two c)" and "string_bytes (pc_two c) = a @ http_open c style ref @ t"
    and "length (a @ http_entry c style ref t) < 2 ^ 62" and "is_entry style"
  shows "two_result (http_suffix e style c) c (a @ http_entry c style ref t)"
  using assms(4,5)
  by (cases style) (simp_all add: http_suffix_def http_entry_def http_open_def assms(3)
      two_append_result [OF assms(1) string_inv_shape [OF assms(2)] assms(3)])

lemma http_entry_open: "length (http_open c style ref) + length t \<le> length (http_entry c style ref t)"
  by (cases style) (simp_all add: http_open_def http_entry_def)

lemma http_result:
  assumes "site_ok e" and "string_inv (pc_two c)" and "string_bytes (pc_two c) = a" and "is_entry style"
    and "prints e fmt va t" and "length ref < 2 ^ 31"
    and "length (a @ list_close c style @ http_entry c style ref t) + 20 < 2 ^ 62"
  shows "two_result (processor_print_http e style ref fmt va c) c (a @ list_close c style @ http_entry c style ref t)"
  unfolding processor_print_http_def case_entry [OF assms(4)]
proof (rule list_close_result [OF assms(1-3)], goal_cases)
  case 1
  then show ?case using assms(7) by simp
next
  case (2 s)
  let ?b = "a @ list_close c style"
  have same: "http_open (c\<lparr>pc_two := s'\<rparr>) style ref = http_open c style ref"
    "http_entry (c\<lparr>pc_two := s'\<rparr>) style ref t = http_entry c style ref t" for s'
    by (cases style; simp add: http_open_def http_entry_def)+
  have le: "length (http_open c style ref) + length t \<le> length (http_entry c style ref t)" by (rule http_entry_open)
  show ?case
  proof (rule two_pret)
    show "two_result (http_prefix e style ref (c\<lparr>pc_two := s\<rparr>)) (c\<lparr>pc_two := s\<rparr>) (?b @ http_open c style ref)"
      using http_prefix_result [OF assms(1), of "c\<lparr>pc_two := s\<rparr>" ?b style ref] 2 same le assms(4,6,7) by simp
    fix s1
    assume s1: "string_inv s1" "string_bytes s1 = ?b @ http_open c style ref"
    show "two_result (pret (two_print e fmt va (c\<lparr>pc_two := s, pc_two := s1\<rparr>)) (http_suffix e style))
        (c\<lparr>pc_two := s, pc_two := s1\<rparr>) (a @ list_close c style @ http_entry c style ref t)"
    proof (rule two_pret)
      show "two_result (two_print e fmt va (c\<lparr>pc_two := s, pc_two := s1\<rparr>)) (c\<lparr>pc_two := s, pc_two := s1\<rparr>)
          ((?b @ http_open c style ref) @ t)"
        by (rule two_print_result [OF assms(1) _ _ assms(5)]) (use s1 le assms(7) in simp_all)
      fix s2
      assume "string_inv s2" "string_bytes s2 = (?b @ http_open c style ref) @ t"
      then have "two_result (http_suffix e style (c\<lparr>pc_two := s2\<rparr>)) (c\<lparr>pc_two := s2\<rparr>)
          (?b @ http_entry (c\<lparr>pc_two := s2\<rparr>) style ref t)"
        by (intro http_suffix_result [OF assms(1)]) (use same assms(4,7) in simp_all)
      then show "two_result (http_suffix e style (c\<lparr>pc_two := s, pc_two := s1, pc_two := s2\<rparr>))
          (c\<lparr>pc_two := s, pc_two := s1, pc_two := s2\<rparr>) (a @ list_close c style @ http_entry c style ref t)"
        using same by simp
    qed
  qed
qed

section \<open>One entry on any protocol\<close>

abbreviation is_http :: "nat \<Rightarrow> bool" where
  "is_http a \<equiv> ACCEPTING_SOCKET_IS_HTTP a \<or> ACCEPTING_SOCKET_IS_HTTPS a"

text \<open>HTTP writes its entries to the second buffer, the other protocols to the first one.\<close>

definition page_buffer :: "nat \<Rightarrow> page_context \<Rightarrow> char_buffer" where
  "page_buffer a c = (if is_http a then pc_two c else pc_one c)"

definition set_buffer :: "nat \<Rightarrow> char_buffer \<Rightarrow> page_context \<Rightarrow> page_context" where
  "set_buffer a s c = (if is_http a then c\<lparr>pc_two := s\<rparr> else c\<lparr>pc_one := s\<rparr>)"

definition buffer_ready :: "nat \<Rightarrow> page_context \<Rightarrow> entry_style \<Rightarrow> bool" where
  "buffer_ready a c style = (if is_http a then string_inv (pc_two c) else entry_ready (pc_one c) style)"

definition gap :: "page_context \<Rightarrow> entry_style \<Rightarrow> byte list \<Rightarrow> byte list" where
  "gap c style line = (if entry_spaced c style then line else [])"

text \<open>The reference: the bytes an entry adds to the page.\<close>

definition page_entry_text :: "site \<Rightarrow> nat \<Rightarrow> page_context \<Rightarrow> entry_style \<Rightarrow> byte list \<Rightarrow> byte list \<Rightarrow> byte list" where
  "page_entry_text e a c style ref t =
     (if is_http a then list_close c style @ http_entry c style ref t
      else if ACCEPTING_SOCKET_IS_GOPHER a then gap c style (''i'' @ FAKE_ENDLINE) @ gopher_entry e c style ref t
      else if ACCEPTING_SOCKET_IS_FINGER a then gap c style CRLF @ finger_entry e c style ref t
      else if ACCEPTING_SOCKET_IS_GEMINI a then gemini_entry e c style ref t
      else if ACCEPTING_SOCKET_IS_SPARTAN a then spartan_entry e c style ref t
      else if ACCEPTING_SOCKET_IS_NEX a then gap c style [LF] @ nex_entry e c style ref t
      else if ACCEPTING_SOCKET_IS_TEXT a then text_entry e c style ref t
      else guppy_entry e c style ref t)"

definition next_index :: "page_context \<Rightarrow> entry_style \<Rightarrow> nat" where
  "next_index c style = (if style = ES_ENUMERATION then (pc_list_index c + 1) mod 2 ^ 32 else 0)"

lemma next_index_less: "next_index c style < 2 ^ 32"
  by (simp add: next_index_def)

lemma gemini_result:
  assumes "site_ok e" and "entry_ready (pc_one c) style" and "string_bytes (pc_one c) = a" and "is_entry style"
    and "prints e fmt va t" and "length ref < 2 ^ 31" and "pc_list_index c < 2 ^ 32"
    and "length (a @ gemini_entry e c style ref t) < 2 ^ 62"
  shows "one_result (processor_print_gemini e style ref fmt va c) c (a @ gemini_entry e c style ref t)"
  unfolding processor_print_gemini_def case_entry [OF assms(4)]
  by (rule gemini_lines.line) (use assms in simp_all)

lemma nex_result:
  assumes "site_ok e" and "entry_ready (pc_one c) style" and "string_bytes (pc_one c) = a" and "is_entry style"
    and "prints e fmt va t" and "length ref < 2 ^ 31" and "pc_list_index c < 2 ^ 32"
    and "length (a @ nex_entry e c style ref t) + 40 < 2 ^ 62"
  shows "one_result (processor_print_nex e style ref fmt va c) c (a @ gap c style [LF] @ nex_entry e c style ref t)"
  unfolding processor_print_nex_def gap_def
  by (rule nex_lines.spaced_line) (use assms in simp_all)

text \<open>The protocols that share the printer of another one and write their links themselves.\<close>

lemma own_links:
  assumes "is_entry style"
  shows "processor_print_spartan e style ref fmt va c =
      (if style = ES_INTERNAL_REFERENCE
       then pret (one_print e (''=> spartan://'' @ DOMAIN_NAME e @ SPARTAN_PORT_STRING e @ ''%s%s%s '')
              [VA_text (if ref \<noteq> [] then ''/'' else ''''), VA_text ref, VA_text (slash_of c)] c) (\<lambda>c.
            pret (one_print e fmt va c) (one_append e CRLF))
       else processor_print_gemini e style ref fmt va c)"
    and "processor_print_guppy e style ref fmt va c =
      (if style = ES_INTERNAL_REFERENCE
       then pret (one_print e (''=> guppy://'' @ DOMAIN_NAME e @ GUPPY_PORT_STRING e @ ''/%s%s '')
              [VA_text ref, VA_text (question_of c)] c) (\<lambda>c.
            pret (one_print e fmt va c) (one_append e CRLF))
       else processor_print_gemini e style ref fmt va c)"
    and "processor_print_text e style ref fmt va c =
      (if style = ES_INTERNAL_REFERENCE
       then pret (one_print e (''=> text://'' @ DOMAIN_NAME e @ TEXT_PORT_STRING e @ ''%s%s%s '')
              [VA_text (if ref \<noteq> [] then ''/'' else ''''), VA_text ref, VA_text (slash_of c)] c) (\<lambda>c.
            pret (one_print e fmt va c) (one_append e [LF]))
       else processor_print_nex e style ref fmt va c)"
  using assms by (cases style; simp add: processor_print_spartan_def processor_print_guppy_def processor_print_text_def)+

lemma spartan_result:
  assumes "site_ok e" and "entry_ready (pc_one c) style" and "string_bytes (pc_one c) = a" and "is_entry style"
    and "prints e fmt va t" and "length ref < 2 ^ 31" and "pc_list_index c < 2 ^ 32"
    and "length (a @ spartan_entry e c style ref t) < 2 ^ 62"
  shows "one_result (processor_print_spartan e style ref fmt va c) c (a @ spartan_entry e c style ref t)"
proof (cases "style = ES_INTERNAL_REFERENCE")
  case True
  then have inv: "string_inv (pc_one c)" using assms(2) by (simp add: entry_ready_def)
  have "prints e ((''=> spartan://'' @ DOMAIN_NAME e @ SPARTAN_PORT_STRING e) @ ''%s%s%s'' @ '' '')
      [VA_text (if ref \<noteq> [] then ''/'' else ''''), VA_text ref, VA_text (slash_of c)]
      ((''=> spartan://'' @ DOMAIN_NAME e @ SPARTAN_PORT_STRING e) @ slashed ref @ slash_of c @ '' '')"
    by (rule prints_reference) (use assms(6) in simp_all)
  from link_line [OF assms(1) inv assms(3,5) this, of CRLF] show ?thesis
    using assms(4,8) True by (simp add: own_links spartan_entry_def)
next
  case False
  then show ?thesis using gemini_result [OF assms(1-7)] assms(4,8) by (simp add: own_links spartan_entry_def)
qed

lemma guppy_result:
  assumes "site_ok e" and "entry_ready (pc_one c) style" and "string_bytes (pc_one c) = a" and "is_entry style"
    and "prints e fmt va t" and "length ref < 2 ^ 31" and "pc_list_index c < 2 ^ 32"
    and "length (a @ guppy_entry e c style ref t) < 2 ^ 62"
  shows "one_result (processor_print_guppy e style ref fmt va c) c (a @ guppy_entry e c style ref t)"
proof (cases "style = ES_INTERNAL_REFERENCE")
  case True
  then have inv: "string_inv (pc_one c)" using assms(2) by (simp add: entry_ready_def)
  have "prints e ((''=> guppy://'' @ DOMAIN_NAME e @ GUPPY_PORT_STRING e @ ''/'') @ ''%s%s'' @ '' '')
      [VA_text ref, VA_text (question_of c)]
      ((''=> guppy://'' @ DOMAIN_NAME e @ GUPPY_PORT_STRING e @ ''/'') @ ref @ question_of c @ '' '')"
    by (rule prints_2) (use assms(6) in simp_all)
  from link_line [OF assms(1) inv assms(3,5) this, of CRLF] show ?thesis
    using assms(4,8) True by (simp add: own_links guppy_entry_def)
next
  case False
  then show ?thesis using gemini_result [OF assms(1-7)] assms(4,8) by (simp add: own_links guppy_entry_def)
qed

lemma text_result:
  assumes "site_ok e" and "entry_ready (pc_one c) style" and "string_bytes (pc_one c) = a" and "is_entry style"
    and "prints e fmt va t" and "length ref < 2 ^ 31" and "pc_list_index c < 2 ^ 32"
    and "length (a @ text_entry e c style ref t) + 40 < 2 ^ 62"
  shows "one_result (processor_print_text e style ref fmt va c) c (a @ text_entry e c style ref t)"
proof (cases "style = ES_INTERNAL_REFERENCE")
  case True
  then have inv: "string_inv (pc_one c)" using assms(2) by (simp add: entry_ready_def)
  have "prints e ((''=> text://'' @ DOMAIN_NAME e @ TEXT_PORT_STRING e) @ ''%s%s%s'' @ '' '')
      [VA_text (if ref \<noteq> [] then ''/'' else ''''), VA_text ref, VA_text (slash_of c)]
      ((''=> text://'' @ DOMAIN_NAME e @ TEXT_PORT_STRING e) @ slashed ref @ slash_of c @ '' '')"
    by (rule prints_reference) (use assms(6) in simp_all)
  from link_line [OF assms(1) inv assms(3,5) this, of "[LF]"] show ?thesis
    using assms(4,8) True by (simp add: own_links text_entry_def)
next
  case False
  then show ?thesis using nex_result [OF assms(1-7)] assms(4,8) by (simp add: own_links text_entry_def gap_def)
qed

lemma print_entry_result:
  assumes "site_ok e" and "is_entry style" and "buffer_ready a c style" and "string_bytes (page_buffer a c) = x"
    and "prints e fmt va t" and "length ref < 2 ^ 31" and "pc_list_index c < 2 ^ 32"
    and "length (x @ page_entry_text e a c style ref t) + 40 < 2 ^ 62"
  shows "(\<exists>m. print_entry e a style ref fmt va c = Inl (Failed m)) \<or>
    (\<exists>s. print_entry e a style ref fmt va c = Inr (set_buffer a s c) \<and> string_inv s \<and>
       string_bytes s = x @ page_entry_text e a c style ref t)"
proof (cases "is_http a")
  case True
  then have "two_result (processor_print_http e style ref fmt va c) c (x @ list_close c style @ http_entry c style ref t)"
    using assms by (intro http_result) (simp_all add: buffer_ready_def page_buffer_def page_entry_text_def)
  moreover have "print_entry e a style ref fmt va = processor_print_http e style ref fmt va"
    using True by (auto simp: print_entry_def)
  ultimately show ?thesis using True by (simp add: two_result_def set_buffer_def page_entry_text_def)
next
  case False
  have pre: "entry_ready (pc_one c) style" "string_bytes (pc_one c) = x"
    using False assms(3,4) by (simp_all add: buffer_ready_def page_buffer_def)
  have len: "length FAKE_ENDLINE = 18" by (simp add: FAKE_ENDLINE_def)
  note R = gemini_result spartan_result guppy_result text_result nex_result
  have "one_result (print_entry e a style ref fmt va c) c (x @ page_entry_text e a c style ref t)"
  proof -
    consider "ACCEPTING_SOCKET_IS_GOPHER a" | "\<not> ACCEPTING_SOCKET_IS_GOPHER a" "ACCEPTING_SOCKET_IS_FINGER a"
      | "\<not> ACCEPTING_SOCKET_IS_GOPHER a" "\<not> ACCEPTING_SOCKET_IS_FINGER a" by blast
    then show ?thesis
    proof cases
      case 1
      then have "one_result (processor_print_gopher e style ref fmt va c) c
          (x @ gap c style (''i'' @ FAKE_ENDLINE) @ gopher_entry e c style ref t)"
        unfolding processor_print_gopher_def gap_def
        by (intro gopher_lines.spaced_line) (use assms pre len False in \<open>auto simp: page_entry_text_def\<close>)
      then show ?thesis using 1 False by (simp add: print_entry_def page_entry_text_def)
    next
      case 2
      then have "one_result (processor_print_finger e style ref fmt va c) c
          (x @ gap c style CRLF @ finger_entry e c style ref t)"
        unfolding processor_print_finger_def gap_def
        by (intro finger_lines.spaced_line) (use assms pre False in \<open>auto simp: page_entry_text_def\<close>)
      then show ?thesis using 2 False by (simp add: print_entry_def page_entry_text_def)
    next
      case 3
      then show ?thesis using False assms(8)
        by (auto simp: print_entry_def page_entry_text_def intro!: R assms pre)
    qed
  qed
  then show ?thesis using False by (simp add: one_result_def set_buffer_def)
qed

section \<open>Properties\<close>

lemma set_buffer_index:
  "(set_buffer a s (c\<lparr>pc_list_index := i\<rparr>))\<lparr>pc_previous_style := style\<rparr> =
     (set_buffer a s c)\<lparr>pc_list_index := i, pc_previous_style := style\<rparr>"
  by (cases c) (simp add: set_buffer_def)

lemma processor_print_spec:
  assumes "site_ok e" and "is_entry style" and "buffer_ready a c style" and "string_bytes (page_buffer a c) = x"
    and "prints e fmt va t" and "length ref < 2 ^ 31"
    and "length (x @ page_entry_text e a (c\<lparr>pc_list_index := next_index c style\<rparr>) style ref t) + 40 < 2 ^ 62"
  shows "(\<exists>m. processor_print e a style ref fmt va c = Inl (Failed m)) \<or>
    (\<exists>s. processor_print e a style ref fmt va c =
        Inr ((set_buffer a s c)\<lparr>pc_list_index := next_index c style, pc_previous_style := style\<rparr>) \<and> string_inv s \<and>
      string_bytes s = x @ page_entry_text e a (c\<lparr>pc_list_index := next_index c style\<rparr>) style ref t)"
proof -
  let ?c = "c\<lparr>pc_list_index := next_index c style\<rparr>"
  have "buffer_ready a ?c style" "string_bytes (page_buffer a ?c) = x" "pc_list_index ?c < 2 ^ 32"
    using assms(3,4) next_index_less [of c style]
    by (auto simp: buffer_ready_def page_buffer_def split: if_splits)
  from print_entry_result [OF assms(1,2) this(1,2) assms(5,6) this(3) assms(7)] show ?thesis
    by (auto simp: processor_print_def next_index_def [symmetric] set_buffer_index)
qed


definition sample_site :: site where
  "sample_site = \<lparr>site_realloc = realloc_zero, site_printf = (\<lambda>_ _. []), site_release = True,
     site_calendar = \<lparr>tm_sec = 5, tm_min = 4, tm_hour = 3, tm_mday = 2, tm_mon = 0, tm_year = 126, tm_wday = 5\<rparr>,
     site_random = (\<lambda>_. 7)\<rparr>"

lemma sample_site_ok: "site_ok sample_site"
  by (simp add: site_ok_def sample_site_def realloc_ok_zero float_ok_none)

definition sample_context :: page_context where
  "sample_context = \<lparr>pc_one = zero_string, pc_two = zero_string, pc_request = zero_request,
     pc_previous_style = ES_HEADER, pc_list_index = 0, pc_language = CHR ''d'', pc_requested_language = NUL,
     pc_first_chunk = 0, pc_chunk_number = 0\<rparr>"


end
