(* ===== verification/TS_Pages.thy ===== *)
theory TS_Pages
  imports TS_Page
begin

text \<open>
  What the pages of the site say: the entries that \<^verbatim>\<open>processor_generic\<close> of
  \<^verbatim>\<open>source/processor/generic.c\<close> prints, in their order, as data. An entry is the style, the
  reference, the format and the arguments of one call of \<^verbatim>\<open>processor_print\<close>; a null pointer is an
  empty reference. The sources are UTF-8, so that a letter with a diaeresis is two bytes.
\<close>

type_synonym entry = "entry_style \<times> byte list \<times> byte list \<times> argument list"

abbreviation ae :: "byte list" where "ae \<equiv> [CHR 0xC3, CHR 0xA4]"
abbreviation oe :: "byte list" where "oe \<equiv> [CHR 0xC3, CHR 0xB6]"
abbreviation ue :: "byte list" where "ue \<equiv> [CHR 0xC3, CHR 0xBC]"
abbreviation AE :: "byte list" where "AE \<equiv> [CHR 0xC3, CHR 0x84]"
abbreviation OE :: "byte list" where "OE \<equiv> [CHR 0xC3, CHR 0x96]"
abbreviation UE :: "byte list" where "UE \<equiv> [CHR 0xC3, CHR 0x9C]"
abbreviation ss :: "byte list" where "ss \<equiv> [CHR 0xC3, CHR 0x9F]"

section \<open>Groups of protocols\<close>

definition ACCEPTING_SOCKET_IS_PLAINTEXT :: "nat \<Rightarrow> bool" where
  "ACCEPTING_SOCKET_IS_PLAINTEXT i \<longleftrightarrow>
     ACCEPTING_SOCKET_IS_GOPHER i \<or> ACCEPTING_SOCKET_IS_FINGER i \<or> ACCEPTING_SOCKET_IS_NEX i \<or> ACCEPTING_SOCKET_IS_TEXT i"

definition ACCEPTING_SOCKET_IS_QUESTION :: "nat \<Rightarrow> bool" where
  "ACCEPTING_SOCKET_IS_QUESTION i \<longleftrightarrow>
     ACCEPTING_SOCKET_IS_HTTP i \<or> ACCEPTING_SOCKET_IS_HTTPS i \<or> ACCEPTING_SOCKET_IS_GEMINI i \<or> ACCEPTING_SOCKET_IS_GUPPY i"

section \<open>References that depend on the protocol\<close>

definition mozz_reference :: "nat \<Rightarrow> byte list" where
  "mozz_reference a =
     (if ACCEPTING_SOCKET_IS_GOPHER a then ''gopher://mozz.us''
      else if ACCEPTING_SOCKET_IS_GEMINI a then ''gemini://mozz.us''
      else if ACCEPTING_SOCKET_IS_SPARTAN a then ''spartan://mozz.us''
      else ''https://mozz.us'')"

definition lagrange_reference :: "nat \<Rightarrow> byte list" where
  "lagrange_reference a =
     (if ACCEPTING_SOCKET_IS_GEMINI a then ''gemini://skyjake.fi/lagrange'' else ''https://gmi.skyjake.fi/lagrange'')"

section \<open>Parts that pages share\<close>

definition contact_entries :: "nat \<Rightarrow> byte \<Rightarrow> entry list" where
  "contact_entries a lang =
     (let phone_str = (if lang = CHR ''d'' then ''Handy'' else ''Phone'')
      in (if ACCEPTING_SOCKET_IS_PLAINTEXT a
          then [(ES_NORMAL, [], ''Email: k.sovailo@gmail.com'', []),
                (ES_NORMAL, [], ''%s: +49 1763 5479038'', [VA_text phone_str])]
          else [(ES_EXTERNAL_REFERENCE, ''mailto:k.sovailo@gmail.com'', ''Email: k.sovailo@gmail.com'', []),
                (ES_EXTERNAL_REFERENCE, ''tel:+4917635479038'', ''%s: +49 1763 5479038'', [VA_text phone_str])]) @
         [(ES_EXTERNAL_REFERENCE, ''https://github.com/kyrylo-sovailo'', ''Github'', []),
          (ES_EXTERNAL_REFERENCE, ''https://linkedin.com/in/kyrylo-sovailo-19b4541b9'', ''LinkedIn'', []),
          (ES_EXTERNAL_REFERENCE, ''https://www.xing.com/profile/Kyrylo_Sovailo'', ''Xing'', [])])"

definition protocols_entries :: "entry list" where
  "protocols_entries =
     map (\<lambda>t. (ES_ITEMIZE, [], t, []))
       [''HTTP'', ''HTTPS'', ''Gopher'', ''Finger'', ''Gemini'', ''Spartan'', ''Nex'', ''Text'', ''Guppy'']"

section \<open>The pages\<close>

definition index_de :: "byte list \<Rightarrow> entry list" where
  \<open>index_de fun_fact =
    [(ES_PARAGRAPH, [], ''Das hier ist meine Webseite. Es gibt viele andere, aber diese ist meine.'', []),
     (ES_PARAGRAPH, [], ''Hier k'' @ oe @ ''nen Sie mehr '' @ ue @ ''ber mich und '' @ ue @ ''ber den Server, der diese Website betreibt, erfahren.'', []),
     (ES_INTERNAL_REFERENCE, ''about'', UE @ ''ber mich'', []),
     (ES_INTERNAL_REFERENCE, ''twinkleshine'', UE @ ''ber Twinkleshine'', []),
     (ES_INTERNAL_REFERENCE, ''smolnet'', UE @ ''ber SmolNet'', []),
     (ES_INTERNAL_REFERENCE, ''projects'', ''Meine Projekte'', []),
     (ES_INTERNAL_REFERENCE, ''resume'', ''Mein Lebenslauf'', []),
     (ES_INTERNAL_REFERENCE, ''contact'', ''Kontakt'', []),
     (ES_PARAGRAPH, [], ''Zuf'' @ ae @ ''lliger Fakt: %s'', [VA_text fun_fact])]\<close>

definition index_en :: "byte list \<Rightarrow> entry list" where
  \<open>index_en fun_fact =
    [(ES_PARAGRAPH, [], ''This is my website. There are many like it, but this one is mine.'', []),
     (ES_PARAGRAPH, [], ''Here you can learn more about me and about the server that powers this website:'', []),
     (ES_INTERNAL_REFERENCE, ''about'', ''About me'', []),
     (ES_INTERNAL_REFERENCE, ''twinkleshine'', ''About Twinkleshine'', []),
     (ES_INTERNAL_REFERENCE, ''smolnet'', ''About SmolNet'', []),
     (ES_INTERNAL_REFERENCE, ''resume'', ''My resume'', []),
     (ES_INTERNAL_REFERENCE, ''projects'', ''My projects'', []),
     (ES_INTERNAL_REFERENCE, ''contact'', ''My contacts'', []),
     (ES_PARAGRAPH, [], ''Random fact: %s'', [VA_text fun_fact])]\<close>

definition about_de :: "entry list" where
  \<open>about_de =
    [(ES_PARAGRAPH, [], ''Mein Name ist Kyrylo.'', []),
     (ES_PARAGRAPH, [], ''Ich habe vor Kurzem mein Masterstudium in Computational Engineering an der TU Darmstadt abgeschlossen.'', []),
     (ES_PARAGRAPH, [], ''Ich mag Programmierung, Elektronik und Ponys.'', []),
     (ES_PARAGRAPH, [], ''Falls Ihr Unternehmen mit einer von drei etwas zu tun hat (idealerweise mit allen dreien) und Sie mich einstellen m'' @ oe @ ''chten (bitte tun Sie es), hier ist mein Lebenslauf zu finden:'', []),
     (ES_INTERNAL_REFERENCE, ''resume'', ''Lebenslauf'', []),
     (ES_PARAGRAPH, [], ''Einige meiner anderen Projekte sind hier aufgelistet:'', []),
     (ES_INTERNAL_REFERENCE, ''projects'', ''Projekte'', [])]\<close>

definition about_en :: "entry list" where
  \<open>about_en =
    [(ES_PARAGRAPH, [], ''My name is Kyrylo.'', []),
     (ES_PARAGRAPH, [], ''I recently graduated from TU Darmstadt with a MSc in Computational Engineering.'', []),
     (ES_PARAGRAPH, [], ''I like programming, electronics, and ponies.'', []),
     (ES_PARAGRAPH, [], ''If your company has any of those (better all three) and you want to hire me (please do), here is my resume:'', []),
     (ES_INTERNAL_REFERENCE, ''resume'', ''Resume'', []),
     (ES_PARAGRAPH, [], ''Some of my other projects are listed here:'', []),
     (ES_INTERNAL_REFERENCE, ''projects'', ''Projects'', [])]\<close>

definition twinkleshine_de_intro :: "entry list" where
  \<open>twinkleshine_de_intro =
    [(ES_PARAGRAPH, [], ''Diese Website wird vom Twinkleshine-Server betrieben.'', []),
     (ES_PARAGRAPH, [], ''Twinkleshine wurde vollst'' @ ae @ ''ndig von mir in C 89 geschrieben. Sein charakteristisches Merkmal (abgesehen davon, dass er im Jahre des Herrn 2026 in C geschrieben wurde) ist, dass er nicht nur HTTP(S) unterst'' @ ue @ ''tzt, sondern auch Gopher, Gemini und andere SmolNet-Protokolle. Alle Protokolle werden in einem Prozess bedient, die Seiten f'' @ ue @ ''r verschiedene Protokolle werden mit derselben Logik generiert.'', []),
     (ES_EXTERNAL_REFERENCE, ''https://github.com/kyrylo-sovailo/Twinkleshine'', ''Quellcode'', []),
     (ES_PARAGRAPH, [], ''Twinkleshine wurde haupts'' @ ae @ ''chlich f'' @ ue @ ''r Bildungs- und Demonstrationszwecke entwickelt. Die aktuelle Zeilenanzahl liegt unter 8000, also 30-mal weniger als bei nginx. Und weniger Zeilen bedeuten auch weniger Bugs. Theoretisch.'', []),
     (ES_PARAGRAPH, [], ''Das Projekt wurde nach Twinkleshine, dem Pony aus Camelot, benannt.'', []),
     (ES_LARGE, [], ''Unterst'' @ ue @ ''tzte Protokolle'', []),
     (ES_PARAGRAPH, [], ''Aktuell werden die folgenden Protokolle unterst'' @ ue @ ''tzt:'', [])]\<close>

definition twinkleshine_de_plans :: "byte list \<Rightarrow> entry list" where
  \<open>twinkleshine_de_plans time_since_startup =
    [(ES_LARGE, [], ''Zuk'' @ ue @ ''nftige Pl'' @ ae @ ''ne'', []),
     (ES_PARAGRAPH, [], ''Da ich bereits alle von Lagrange unterst'' @ ue @ ''tzten und die meisten von Mozz unterst'' @ ue @ ''tzten Protokolle implementiert habe, ist die Phase der schnellen Erweiterung abgeschlossen. "ftp://", "titan://" und "scorpion://" bleiben die vielversprechendsten Kandidaten f'' @ ue @ ''r Implementierung. Obwohl "scroll://" von Mozz unterst'' @ ue @ ''tzt wird, scheint die Spezifikation des Protokolls nicht mehr zu finden sein, und ich bin nicht der Richtige, um "scroll://" zu retten. Es gibt Hunderte von SmolNet-Protokollen, und irgendwann musste ich aufh'' @ oe @ ''ren.'', []),
     (ES_PARAGRAPH, [], ''Einige Abspaltungen von Twinkleshine k'' @ oe @ ''nnen als Spielserver verwendet werden.'', []),
     (ES_PARAGRAPH, [], ''Twinkleshine k'' @ oe @ ''nnte eines Tages auch ein eigenes Betriebssystem werden, das Projekt ist auch als Moondancer bekannt. In der Betriebssystementwicklung ist die Netzwerkkarte eines der einfachsten Hardwarest'' @ ue @ ''cke zu implementieren, daher ist es gar nicht so abwegig, wie es klingt.'', []),
     (ES_LARGE, [], ''Betriebszeit'', []),
     (ES_PARAGRAPH, [], ''Wenn Sie dies lesen, bedeutet das, dass Twinkleshine es geschafft hat, binnen einer geraumen Zeit nicht abzust'' @ ue @ ''rzen.'', []),
     (ES_PARAGRAPH, [], ''Aktuelle Betriebszeit: %s.'', [VA_text time_since_startup])]\<close>

definition twinkleshine_en_intro :: "entry list" where
  \<open>twinkleshine_en_intro =
    [(ES_PARAGRAPH, [], ''This website is powered by the Twinkleshine server.'', []),
     (ES_PARAGRAPH, [], ''Twinkleshine is fully written by me in C 89. Its defining feature (apart from being written in C in the year of our Lord 2026) is that it supports not only HTTP(S), but also Gopher, Gemini, and other SmolNet protocols. All protocols are served by one process, pages for different protocols are generated using the exact same logic.'', []),
     (ES_EXTERNAL_REFERENCE, ''https://github.com/kyrylo-sovailo/Twinkleshine'', ''Source code'', []),
     (ES_PARAGRAPH, [], ''Twinkleshine was developed mostly for educational and demonstrational purposes. Its current line count is under 8000, 30 times less than nginx. And less lines means less bugs. Theoretically.'', []),
     (ES_PARAGRAPH, [], ''The project was named after Twinkleshine the pony from Camelot.'', []),
     (ES_LARGE, [], ''Supported protocols'', []),
     (ES_PARAGRAPH, [], ''Currently, the following protocols are supported:'', [])]\<close>

definition twinkleshine_en_plans :: "byte list \<Rightarrow> entry list" where
  \<open>twinkleshine_en_plans time_since_startup =
    [(ES_LARGE, [], ''Future plans'', []),
     (ES_PARAGRAPH, [], ''Considering that I already implemented all protocols supported by Lagrange and most supported by Mozz, the phase of rapid expansion is over. "ftp://", "titan://" and "scorpion://" remain the most promising candidates for future implementation. Despite the fact that "scroll://" is supported by Mozz, the specification of the protocol seems to be lost to time, and I am not the right person to save "scroll://". There are hundreds of SmolNet protocols, and at some point I need to stop.'', []),
     (ES_PARAGRAPH, [], ''Some derivatives of Twinkleshine may be used to serve as game servers.'', []),
     (ES_PARAGRAPH, [], ''Twinkleshine may also one day become its own operating system, otherwise known as Project Moondancer. Network cards are one of the easiest hardware to implement in OS development, so it is not as crazy as it sounds.'', []),
     (ES_LARGE, [], ''Uptime'', []),
     (ES_PARAGRAPH, [], ''If you are reading this, it means that Twinkleshine managed not to fail for quite some time.'', []),
     (ES_PARAGRAPH, [], ''Current uptime: %s.'', [VA_text time_since_startup])]\<close>

definition smolnet_de :: "nat \<Rightarrow> entry list" where
  \<open>smolnet_de a =
    [(ES_LARGE, [], ''Pr'' @ ae @ ''ambel'', []),
     (ES_PARAGRAPH, [], ''Vor langer, langer Zeit, als Dinosaurier die Erde bev'' @ oe @ ''lkerten, sahen alle Seiten im Internet so aus: reiner Text auf dem Bildschirm. Dann hat JavaScript den Spa'' @ ss @ '' ruiniert.'', []),
     (ES_PARAGRAPH, [], ''Was die meisten Leute als "Internet" kennen, sind HTML-Seiten, die '' @ ue @ ''ber das HTTP-Protokoll ausgeliefert werden. Erinnern Sie sich noch, wie wir fr'' @ ue @ ''her "http://www" vor Webseitennamen getippt haben? Genau, das war die Protokollspezifikation, da die Browsers noch keine automatische Spezifikation einf'' @ ue @ ''gten. HTML/HTTP setzte sich schlie'' @ ss @ ''lich durch, weil es flexibel war und die Benutzung von Bildern erm'' @ oe @ ''glichte. HTTP war aber weder das erste noch das letzte erfundene Protokoll.'', []),
     (ES_PARAGRAPH, [], ''Auch andere Protokolle wie Gopher und Gemini k'' @ oe @ ''nnen f'' @ ue @ ''r den Zugriff auf Informationen verwendet werden. Sie werden zusammen mit einigen anderen als "SmolNet", "Small Net" oder manchmal auch "Small Web" bezeichnet.'', []),
     (ES_LARGE, [], ''Warum kann ich die Links nicht '' @ oe @ ''ffnen?'', []),
     (ES_PARAGRAPH, [], ''Sie sind keine HTTP(S)-Links. Wenn Sie sie nicht '' @ oe @ ''ffnen k'' @ oe @ ''nnen, unterst'' @ ue @ ''tzt Ihr Browser sie h'' @ oe @ ''chstwahrscheinlich nicht. Ihr Browser "spricht" die richtige "Sprache" nicht. Leider trifft dies auf die meisten g'' @ ae @ ''ngigen Browser zu. Firefox unterst'' @ ue @ ''tzte fr'' @ ue @ ''her Gopher, aber diese Zeiten sind vorbei.'', []),
     (ES_LARGE, [], ''Was unterscheidet SmolNet von dem gew'' @ oe @ ''hnlichen Internet?'', []),
     (ES_PARAGRAPH, [], ''Vor allem werden Sie auf SmolNet nicht viele Bilder oder Videos sehen. Wieso? Aus demselben Grund, aus dem Sie in B'' @ ue @ ''chern keine Bilder finden. Sie lenken von dem Text ab. SmolNet und insbesondere Gemini positioniert sich als digitale Bibliothek.'', []),
     (ES_PARAGRAPH, [], ''HTTP/HTML erm'' @ oe @ ''glichte (und wurde unvermeidbar '' @ ue @ ''berschwemmt mit) Spionensoftware, Tracking, Pop-up-Werbungen und endlosem Scrollen. SmolNet-Protokolle tun das nicht, k'' @ oe @ ''nnen das nicht, und die neuesten von denen wurden explizit mit dem Ziel entwickelt, das nicht zu erm'' @ oe @ ''glichen. Das hei'' @ ss @ ''t nicht, dass Handel auf SmolNet prinzipiell unm'' @ oe @ ''glich ist, aber in der Praxis werden Sie ihn nicht finden.'', []),
     (ES_PARAGRAPH, [], ''Dar'' @ ue @ ''ber hinaus empfinden manche es als problematisch, dass HTML-Seiten die Anzeige im Originalzustand erfordern (z. B. mit der exakten Schriftart, Farbe und Zeilenabstand sowie mit Werbungen). Dadurch wird die Nutzerfreiheit eingeschr'' @ ae @ ''nkt.'', []),
     (ES_LARGE, [], ''Wie kann ich auf SmolNet zugreifen?'', []),
     (ES_PARAGRAPH, [], ''SmolNet-Seiten k'' @ oe @ ''nnen in speziellen Browsern ge'' @ oe @ ''ffnet werden, darunter:'', []),
     (ES_EXTERNAL_REFERENCE, lagrange_reference a, ''Lagrange (meine Empfehlung)'', []),
     (ES_EXTERNAL_REFERENCE, ''https://lynx.invisible-island.net'', ''Lynx (hat HTTP-Unterst'' @ ue @ ''tzung)'', []),
     (ES_EXTERNAL_REFERENCE, ''https://sr.ht/~julienxx/Castor'', ''Castor'', []),
     (ES_EXTERNAL_REFERENCE, ''https://kristall.random-projects.net'', ''Kristall (von einem Deutschen entwickelt!)'', []),
     (ES_PARAGRAPH, [], ''Falls Sie nicht bereit sind, einen zus'' @ ae @ ''tzlichen Browser f'' @ ue @ ''r den Zugriff auf SmolNet zu installieren, finden Sie hier einige Alternativen:'', []),
     (ES_EXTERNAL_REFERENCE, mozz_reference a, ''Mozz.us (Proxy)'', []),
     (ES_EXTERNAL_REFERENCE, ''https://addons.mozilla.org/de/firefox/addon/geminize'', ''Geminize (Firefox-Erweiterung)'', [])]\<close>

definition smolnet_en :: "nat \<Rightarrow> entry list" where
  \<open>smolnet_en a =
    [(ES_LARGE, [], ''Preamble'', []),
     (ES_PARAGRAPH, [], ''Long long ago, when dinosaurs roamed the Earth, all pages in the Internet looked like this: plain text on screens. Then Javascript ruined everything.'', []),
     (ES_PARAGRAPH, [], ''What most people know as "the Internet" is HTML pages delivered via the HTTP protocol. Remember how we used to type "http://www" before website names? Yes, that was protocol specification back when browsers didn't insert one automatically. HTML/HTTP eventually won over because it was flexible and allowed pictures. But it wasn't the first, nor was it, in fact, the last.'', []),
     (ES_PARAGRAPH, [], ''Other protocols, like Gopher and Gemini, can be used to access information too. They, along with some others, are collectively known as "SmolNet", "Small Net", or, sometimes,  "Small Web".'', []),
     (ES_LARGE, [], ''Why can't I open the links?'', []),
     (ES_PARAGRAPH, [], ''Those are not HTTP(S) links. If you can't open them, it most probably means that your browser doesn't support them. Your browser can't "speak" the right "language". Unfortunately, this is the case for the most popular browsers. Firefox once supported Gopher, but those days are gone.'', []),
     (ES_LARGE, [], ''What makes SmolNet different?'', []),
     (ES_PARAGRAPH, [], ''Most notably, you won't see a lot of pictures or videos on the SmolNet. Why? For the same reason you don't see pictures in the books. It is distracting. SmolNet, and Gemini in particular, positions itself as a digital library.'', []),
     (ES_PARAGRAPH, [], ''HTTP/HTML allowed (and was inevitably overrun by) tracking, spyware, pop-up advertisements, and endless scroll. SmolNet protocols don't do that, can't do that, and the new ones were developed explicitly to not have the capacity to do that. Not to say that commerce is not possible on SmolNet in principle, but in practice you won't find it.'', []),
     (ES_PARAGRAPH, [], ''Furthermore, some people find it problematic that HTML pages demand you to display them as-is (e.g. in the exact font, color, and spacing, and with advertisements). They are, therefore, taking away your freedom.'', []),
     (ES_LARGE, [], ''How can I access SmolNet?'', []),
     (ES_PARAGRAPH, [], '' SmolNet pages can be opened in special browsers, including:'', []),
     (ES_EXTERNAL_REFERENCE, lagrange_reference a, ''Lagrange (my recommendation)'', []),
     (ES_EXTERNAL_REFERENCE, ''https://lynx.invisible-island.net'', ''Lynx (has HTTP support)'', []),
     (ES_EXTERNAL_REFERENCE, ''https://sr.ht/~julienxx/Castor'', ''Castor'', []),
     (ES_EXTERNAL_REFERENCE, ''https://kristall.random-projects.net'', ''Kristall'', []),
     (ES_PARAGRAPH, [], ''In case you aren't ready to install whole additional browser to access SmolNet, here are some alterative options:'', []),
     (ES_EXTERNAL_REFERENCE, mozz_reference a, ''Mozz.us (proxy)'', []),
     (ES_EXTERNAL_REFERENCE, ''https://addons.mozilla.org/de/firefox/addon/geminize'', ''Geminize (Firefox extension)'', [])]\<close>

definition projects_de :: "entry list" where
  \<open>projects_de =
    [(ES_PARAGRAPH, [], ''Ein peinlich gro'' @ ss @ ''er Teil meines Codes ist propriet'' @ ae @ ''r, zu spezifisch, verloren oder nicht der Rede wert. Trotzdem kann ich einigen Code teilen:'', []),
     (ES_LARGE, [], ''Twinkleshine'', []),
     (ES_PARAGRAPH, [], ''Der Server, der Ihnen diese Webseite gerade versandt hat.'', []),
     (ES_EXTERNAL_REFERENCE, ''https://github.com/kyrylo-sovailo/Twinkleshine'', ''Twinkleshine'', []),
     (ES_LARGE, [], ''Kyrylos pers'' @ oe @ ''nlicher Dispatcher'', []),
     (ES_PARAGRAPH, [], ''Hilfreiches Tool zur Verwaltung von TODO.md. Besser als alles andere, was Sie finden k'' @ oe @ ''nnen. Versprochen.'', []),
     (ES_EXTERNAL_REFERENCE, ''https://github.com/kyrylo-sovailo/PersonalDispatcher'', ''KPD'', []),
     (ES_LARGE, [], ''Benchmark'', []),
     (ES_PARAGRAPH, [], ''Vergleich der Leistung verschiedener Programmiersprachen - der fairste von allen. Die gew'' @ ae @ ''hlte Aufgabe besteht darin, den k'' @ ue @ ''rzesten Pfad in einer d'' @ ue @ ''nnbesetzten Matrix zu finden. Spoiler: Assembler hat gewonnen.'', []),
     (ES_EXTERNAL_REFERENCE, ''https://github.com/kyrylo-sovailo/benchmark'', ''Benchmark'', []),
     (ES_LARGE, [], ''Devtemplate'', []),
     (ES_PARAGRAPH, [], ''Es mag zwar nichts tun, aber sehen Sie nur, wie gut es das tut! Mit Ikonchen, Handb'' @ ue @ ''chern, Paketen und Installationsprogrammen!'', []),
     (ES_EXTERNAL_REFERENCE, ''https://github.com/kyrylo-sovailo/devtemplate'', ''Devtemplate'', []),
     (ES_LARGE, [], ''P6'', []),
     (ES_PARAGRAPH, [], ''Simulation von Fachwerken. Ziemlich alt, hat baer eine sch'' @ oe @ ''ne Benutzeroberfl'' @ ae @ ''che.'', []),
     (ES_EXTERNAL_REFERENCE, ''https://github.com/kyrylo-sovailo/P6'', ''P6'', []),
     (ES_LARGE, [], ''Fool Moon'', []),
     (ES_PARAGRAPH, [], ''Berechnet, ob Merkur r'' @ ue @ ''ckl'' @ ae @ ''ufig ist, mithilfe der unn'' @ oe @ ''tig komplexen Bahnmechanik.'', []),
     (ES_EXTERNAL_REFERENCE, ''https://github.com/kyrylo-sovailo/fool-moon'', ''Fool Moon'', [])]\<close>

definition projects_en :: "entry list" where
  \<open>projects_en =
    [(ES_PARAGRAPH, [], ''Embarrassingly large part of my code is proprietary, oddly specific, lost to time, or not worthy of display. Still, here is something I can share:'', []),
     (ES_LARGE, [], ''Twinkleshine'', []),
     (ES_PARAGRAPH, [], ''The server sending you this text right now.'', []),
     (ES_EXTERNAL_REFERENCE, ''https://github.com/kyrylo-sovailo/Twinkleshine'', ''Twinkleshine'', []),
     (ES_LARGE, [], ''Kyrylo's Personal Dispatcher'', []),
     (ES_PARAGRAPH, [], ''Helpful utility to manage TODO.md. Better than everything you'll find, I promise.'', []),
     (ES_EXTERNAL_REFERENCE, ''https://github.com/kyrylo-sovailo/PersonalDispatcher'', ''KPD'', []),
     (ES_LARGE, [], ''Benchmark'', []),
     (ES_PARAGRAPH, [], ''Comparison of the programming language performances, fairest of them all. The selection problem is finding the shortest path in a sparse matrix. Spoiler: assembly won.'', []),
     (ES_EXTERNAL_REFERENCE, ''https://github.com/kyrylo-sovailo/benchmark'', ''Benchmark'', []),
     (ES_LARGE, [], ''Devtemplate'', []),
     (ES_PARAGRAPH, [], ''It may do nothing, but look how well it does it! With icons and manuals and packages and installers!'', []),
     (ES_EXTERNAL_REFERENCE, ''https://github.com/kyrylo-sovailo/devtemplate'', ''Devtemplate'', []),
     (ES_LARGE, [], ''P6'', []),
     (ES_PARAGRAPH, [], ''Simulation of truss networks. Quite old, but nice GUI.'', []),
     (ES_EXTERNAL_REFERENCE, ''https://github.com/kyrylo-sovailo/P6'', ''P6'', []),
     (ES_LARGE, [], ''Fool Moon'', []),
     (ES_PARAGRAPH, [], ''Calculates whether or not Mercury is in retrograde by running an unnecessarily complex orbital mechanics.'', []),
     (ES_EXTERNAL_REFERENCE, ''https://github.com/kyrylo-sovailo/fool-moon'', ''Fool Moon'', [])]\<close>

definition resume_de :: "entry list" where
  \<open>resume_de =
    [(ES_NORMAL, [], ''Geboren am: 08.10.2000'', []),
     (ES_LARGER, [], ''Ausbildung'', []),
     (ES_LARGE, [], ''Computational Engineering (CE) M.Sc.'', []),
     (ES_NORMAL, [], ''An der TU Darmstadt'', []),
     (ES_NORMAL, [], ''Vertiefung: Computational Robotics'', []),
     (ES_NORMAL, [], ''Zeitraum: 04.2023 - 12.2025'', []),
     (ES_NORMAL, [], ''Abschlussnote: 2.1'', []),
     (ES_NORMAL, [], ''Note der Abschlussarbeit: 1.7'', []),
     (ES_NORMAL, [], ''Thema der Abschlussarbeit: Integration von r'' @ ae @ ''umlicher Wahrnehmung in embeddings-basierte Anomalieerkennungsmethoden f'' @ ue @ ''r die automatisierte industrielle Inspektion'', []),
     (ES_NORMAL, [], ''Ergebnis der Abschlussarbeit: Anomalieerkennungsmethode mit einer Genauigkeit von 95%% durch Kombination klassischer Algorithmen mit Foundation Models entwickelt (Python, PyTorch, Transformers).'', []),
     (ES_LARGE, [], ''Computational Engineering Science (CES) B.Sc.'', []),
     (ES_NORMAL, [], ''An der RWTH Aachen University'', []),
     (ES_NORMAL, [], ''Zeitraum: 10.2018 - 04.2023'', []),
     (ES_NORMAL, [], ''Final Grade: 2.4'', []),
     (ES_NORMAL, [], ''Note der Abschlussarbeit: 1.7'', []),
     (ES_NORMAL, [], ''Thema der Abschlussarbeit: Balancierung eines 2D inversen Pendels mit Franka Panda Roboterarm'', []),
     (ES_NORMAL, [], ''Ergebnis der Abschlussarbeit: Steuerungsalgorithmen mit inverser Kinematik und Dynamik entwickelt, die dem Roboter erm'' @ oe @ ''glichten, ein inverses Pendel mit zwei Freiheitsgraden zu balancieren (ROS, C++, Python).'', []),
     (ES_LARGE, [], ''Abitur'', []),
     (ES_NORMAL, [], ''Studienkolleg an Freier Universit'' @ ae @ ''t Berlin'', []),
     (ES_NORMAL, [], ''Zeitraum: 09.2017 - 09.2018'', []),
     (ES_LARGER, [], ''Berufspraktische Erfahrungen'', []),
     (ES_LARGE, [], ''Studentische Hilfskraft'', []),
     (ES_NORMAL, [], ''An der Goethe Universit'' @ ae @ ''t Frankfurt (Buchmann Institute for Molecular Life Sciences, BMLS)'', []),
     (ES_NORMAL, [], ''Zeitraum: 06.2023 - 07.2024'', []),
     (ES_NORMAL, [], ''Wichtigste Ergebnise:'', []),
     (ES_ITEMIZE, [], ''Grafische Slicing-Software entwickelt und die f'' @ ue @ ''r einen Bio-3D-Drucker spezifischen Funktionen implementiert (C#, C++, Slic3r).'', []),
     (ES_ITEMIZE, [], ''Software f'' @ ue @ ''r die Druckersteuerung auf die neue Hardware portiert (C++, Arduino).'', []),
     (ES_LARGE, [], ''Praktikant'', []),
     (ES_NORMAL, [], ''Bei Continental AG'', []),
     (ES_NORMAL, [], ''Zeitraum: 03.2022 - 05.2022'', []),
     (ES_NORMAL, [], ''Wichtigste Ergebnise:'', []),
     (ES_ITEMIZE, [], ''Tool zur Generierung von C-Quellcode aus der CAN-Datenbank entwickelt (Python, C, CAPL).'', []),
     (ES_ITEMIZE, [], ''Build-Prozess der Software f'' @ ue @ ''r einen V850-Mikrocontroller automatisiert (CMake, Python).'', []),
     (ES_LARGE, [], ''Studentische Hilfskraft'', []),
     (ES_NORMAL, [], ''An der RWTH Aachen University (Institute for Data Science in Mechanical Engineering, DSME)'', []),
     (ES_NORMAL, [], ''Zeitraum: 04.2021 - 12.2021'', []),
     (ES_NORMAL, [], ''Wichtigste Ergebnise:'', []),
     (ES_ITEMIZE, [], ''High-Level-APIs f'' @ ue @ ''r einen Franka-Panda-Roboterarm implementiert und Steuerungsalgorithmen entwickelt (Echtzeit-Linux, C++, Python).'', []),
     (ES_ITEMIZE, [], ''Eigenst'' @ ae @ ''ndige (ohne ROS) Simulationssoftware f'' @ ue @ ''r den Arm entwickelt (C++, Gazebo).'', []),
     (ES_LARGER, [], ''IT-Kenntnisse'', []),
     (ES_LARGE, [], ''Softwareentwicklung'', []),
     (ES_ITEMIZE, [], ''Experte: C, C++, Python, CMake'', []),
     (ES_ITEMIZE, [], ''Fortgeschrittener: Matlab/Simulink, PyTorch, Git, Linux, LaTeX'', []),
     (ES_LARGE, [], ''Hardwareentwicklung'', []),
     (ES_ITEMIZE, [], ''Fortgeschrittener: KiCAD, FreeCAD'', []),
     (ES_ITEMIZE, [], ''Grundkenntnisse: Autodesk Inventor'', []),
     (ES_LARGE, [], ''Embedded-Entwicklung'', []),
     (ES_ITEMIZE, [], ''Experte: C/C++ (Atmel AVR, ARM, Raspberry Pi, Nvidia Jetson, x86_64 Echtzeit-Linux), Python (Nvidia Jetson, x86_64 Echtzeit-Linux)'', []),
     (ES_ITEMIZE, [], ''Fortgeschrittener: ROS, station'' @ ae @ ''re Roboter (Franka Panda), mobile Roboter (Turtlebot, Jetbot)'', []),
     (ES_ITEMIZE, [], ''Grundkenntnisse: FPGA-Programming'', []),
     (ES_LARGER, [], ''Technische Kenntnisse'', []),
     (ES_ITEMIZE, [], ''Fortgeschrittener: L'' @ oe @ ''ten, Leiterplatten-Debugging'', []),
     (ES_LARGER, [], ''Sprachen'', []),
     (ES_ITEMIZE, [], ''Muttersprache: Ukrainisch, Russisch'', []),
     (ES_ITEMIZE, [], ''Flie'' @ ss @ ''end (C1): Englisch, Deutsch'', []),
     (ES_LARGER, [], ''Auszeichnungen'', []),
     (ES_ITEMIZE, [], ''Bronzemedaille bei der Internationalen Physikolympiade (IPhO), 2017'', [])]\<close>

definition resume_en :: "entry list" where
  \<open>resume_en =
    [(ES_NORMAL, [], ''Date of Birth: 08.10.2000'', []),
     (ES_LARGER, [], ''Education'', []),
     (ES_LARGE, [], ''Computational Engineering (CE) M.Sc.'', []),
     (ES_NORMAL, [], ''At TU Darmstadt'', []),
     (ES_NORMAL, [], ''Specialization: Computational Robotics'', []),
     (ES_NORMAL, [], ''Duration: 04.2023 - 12.2025'', []),
     (ES_NORMAL, [], ''Final Grade: 2.1'', []),
     (ES_NORMAL, [], ''Thesis Grade: 1.7'', []),
     (ES_NORMAL, [], ''Thesis Topic: Adding spatial awareness to embedding-based anomaly detection methods for automated industrial inspection'', []),
     (ES_NORMAL, [], ''Thesis result: Developed an anomaly detection method with 95%% accuracy by combining classical algorithms with foundation models (Python, PyTorch, Transformers).'', []),
     (ES_LARGE, [], ''Computational Engineering Science (CES) B.Sc.'', []),
     (ES_NORMAL, [], ''At RWTH Aachen University'', []),
     (ES_NORMAL, [], ''Duration: 10.2018 - 04.2023'', []),
     (ES_NORMAL, [], ''Final Grade: 2.4'', []),
     (ES_NORMAL, [], ''Thesis Grade: 1.7'', []),
     (ES_NORMAL, [], ''Thesis Topic: Balancing a 2D inverted pendulum with a Franka Panda robotic arm'', []),
     (ES_NORMAL, [], ''Thesis result: Developed inverse kinematics, inverse dynamics, and control algorithms that enabled the robot to balance a 2-DOF inverse pendulum (ROS, C++, Python).'', []),
     (ES_LARGE, [], ''High School'', []),
     (ES_NORMAL, [], ''At Studienkolleg at Free University Berlin, Technical Course'', []),
     (ES_NORMAL, [], ''Duration: 09.2017 - 09.2018'', []),
     (ES_LARGER, [], ''Professional Experience'', []),
     (ES_LARGE, [], ''Student Assistant'', []),
     (ES_NORMAL, [], ''At Goethe University Frankfurt (Buchmann Institute for Molecular Life Sciences, BMLS)'', []),
     (ES_NORMAL, [], ''Duration: 06.2023 - 07.2024'', []),
     (ES_NORMAL, [], ''Key achievements:'', []),
     (ES_ITEMIZE, [], ''Developed graphical slicing software with support for features unique to a bio-3D-printer (C#, C++, Slic3r).'', []),
     (ES_ITEMIZE, [], ''Ported printer control software to new hardware (C++, Arduino).'', []),
     (ES_LARGE, [], ''Intern'', []),
     (ES_NORMAL, [], ''At Continental AG'', []),
     (ES_NORMAL, [], ''Duration: 03.2022 - 05.2022'', []),
     (ES_NORMAL, [], ''Key achievements:'', []),
     (ES_ITEMIZE, [], ''Developed a tool for generation of C code from CAN database (Python, C, CAPL).'', []),
     (ES_ITEMIZE, [], ''Automated the software build process for a V850 microcontroller (CMake, Python).'', []),
     (ES_LARGE, [], ''Student Assistant'', []),
     (ES_NORMAL, [], ''At RWTH Aachen University (Institute for Data Science in Mechanical Engineering, DSME)'', []),
     (ES_NORMAL, [], ''Duration: 04.2021 - 12.2021'', []),
     (ES_NORMAL, [], ''Key achievements:'', []),
     (ES_ITEMIZE, [], ''Implemented high-level APIs and developed control algorithms for a Franka Panda robotic arm (real-time Linux, C++, Python).'', []),
     (ES_ITEMIZE, [], ''Implemented a standalone (non-ROS) software simulator for the robot (C++, Gazebo).'', []),
     (ES_LARGER, [], ''IT Skills'', []),
     (ES_LARGE, [], ''Software Development'', []),
     (ES_ITEMIZE, [], ''Expert: C, C++, Python, CMake'', []),
     (ES_ITEMIZE, [], ''Advanced: Matlab/Simulink, PyTorch, Git, Linux, LaTeX'', []),
     (ES_LARGE, [], ''Hardware Development'', []),
     (ES_ITEMIZE, [], ''Advanced: KiCAD, FreeCAD'', []),
     (ES_ITEMIZE, [], ''Basics: Autodesk Inventor'', []),
     (ES_LARGE, [], ''Embedded Development'', []),
     (ES_ITEMIZE, [], ''Expert: C/C++ (Atmel AVR, ARM, Raspberry Pi, Nvidia Jetson, x86_64 real-time Linux), Python (Nvidia Jetson, x86_64 real-time Linux)'', []),
     (ES_ITEMIZE, [], ''Advanced: ROS, stationary robots (Franka Panda), mobile robots (Turtlebot, Jetbot)'', []),
     (ES_ITEMIZE, [], ''Basics: FPGA programming'', []),
     (ES_LARGER, [], ''Technical Skills'', []),
     (ES_ITEMIZE, [], ''Advanced: Soldering, PCB debugging'', []),
     (ES_LARGER, [], ''Languages'', []),
     (ES_ITEMIZE, [], ''Native: Ukrainian, Russian'', []),
     (ES_ITEMIZE, [], ''Fluent (C1): English, German'', []),
     (ES_LARGER, [], ''Awards'', []),
     (ES_ITEMIZE, [], ''Bronze Medal, International Physics Olympiad (IPhO), 2017'', [])]\<close>

end
