(* ===== verification/TS_Resource.thy ===== *)
theory TS_Resource
  imports TS_Language TS_Constants TS_Print
begin

text \<open>
  How \<^verbatim>\<open>source/processor/generic.c\<close> reads the name of a page and the wish for a language from the
  requested resource: \<^verbatim>\<open>processor_generic_normalize_slash\<close> (\<^verbatim>\<open>/about/de\<close>) and
  \<^verbatim>\<open>processor_generic_normalize_question\<close> (\<^verbatim>\<open>/about?lang=de\<close>), both on values in two parts.
\<close>

section \<open>Slashes at both ends\<close>

fun skip_slashes :: "memory \<Rightarrow> nat \<Rightarrow> nat \<Rightarrow> part" where
  "skip_slashes m p 0 = \<lparr>part_p = p, part_size = 0\<rparr>"
| "skip_slashes m p (Suc n) = (if m p = CHR ''/'' then skip_slashes m (Suc p) n else \<lparr>part_p = p, part_size = Suc n\<rparr>)"

fun trim_leading_shash :: "memory \<Rightarrow> parts \<Rightarrow> parts" where
  "trim_leading_shash m [] = []"
| "trim_leading_shash m (p # v) =
     (let p = skip_slashes m (part_p p) (part_size p)
      in p # (if part_size p = 0 then trim_leading_shash m v else v))"

fun skip_slashes_back :: "memory \<Rightarrow> nat \<Rightarrow> nat \<Rightarrow> part" where
  "skip_slashes_back m p 0 = \<lparr>part_p = p, part_size = 0\<rparr>"
| "skip_slashes_back m p (Suc n) =
     (if m (p + n) = CHR ''/'' then skip_slashes_back m p n else \<lparr>part_p = p, part_size = Suc n\<rparr>)"

fun trim_trailing_parts :: "memory \<Rightarrow> parts \<Rightarrow> parts" where
  "trim_trailing_parts m [] = []"
| "trim_trailing_parts m (p # v) =
     (let p = skip_slashes_back m (part_p p) (part_size p)
      in p # (if part_size p = 0 then trim_trailing_parts m v else v))"

text \<open>The loop runs from the last part to the first one.\<close>

definition trim_trailing_shash :: "memory \<Rightarrow> parts \<Rightarrow> parts" where
  "trim_trailing_shash m v = rev (trim_trailing_parts m (rev v))"

section \<open>The language behind the last slash\<close>

text \<open>
  The loop over the last symbols, on the parts from the last one on: the local resource and the
  symbols behind the last slash, or \<open>None\<close> when there are more than \<open>MAX_LANGUAGE_SIZE\<close>.
\<close>

function pop_language :: "memory \<Rightarrow> parts \<Rightarrow> byte list \<Rightarrow> (parts \<times> byte list) option" where
  "pop_language m [] language_str = Some ([], language_str)"
| "pop_language m (p # v) language_str =
     (if part_size p = 0 then map_option (\<lambda>(v, l). (p # v, l)) (pop_language m v language_str)
      else let c = m (part_p p + part_size p - 1);
               p = p\<lparr>part_size := part_size p - 1\<rparr>
           in if c = CHR ''/'' then Some (p # v, language_str)
              else if length language_str = MAX_LANGUAGE_SIZE then None
              else pop_language m (p # v) (c # language_str))"
  by pat_completeness auto
termination by (relation "measure (\<lambda>(m, v, l). value_size v + length v)") auto

definition processor_generic_normalize_slash :: "memory \<Rightarrow> parts \<Rightarrow> char \<Rightarrow> parts \<times> char" where
  "processor_generic_normalize_slash m resource lang =
     (let resource = trim_trailing_shash m (trim_leading_shash m resource)
      in case pop_language m (rev resource) [] of
           None \<Rightarrow> (resource, lang)
         | Some (local_resource, language_str) \<Rightarrow>
             let lang = language_get language_str (length language_str)
             in if lang = NUL then (resource, lang)
                else (trim_trailing_shash m (rev local_resource), lang))"

section \<open>The language in the query\<close>

text \<open>The first loop: skips to the first question mark or hash, which it returns with the rest.\<close>

function find_question :: "memory \<Rightarrow> parts \<Rightarrow> (byte \<times> parts) option" where
  "find_question m [] = None"
| "find_question m (p # v) =
     (if part_size p = 0 then map_option (\<lambda>(c, v). (c, p # v)) (find_question m v)
      else let c = m (part_p p)
           in if c = CHR ''#'' \<or> c = CHR ''?'' then Some (c, p # v)
              else find_question m (\<lparr>part_p = part_p p + 1, part_size = part_size p - 1\<rparr> # v))"
  by pat_completeness auto
termination by (relation "measure (\<lambda>(m, v). value_size v + length v)") auto

text \<open>
  The second loop, over the bytes of the rest: \<open>n\<close> is \<^verbatim>\<open>language_size\<close>, \<open>lang\<close> is \<^verbatim>\<open>*language\<close>.
\<close>

definition lang_word :: "byte list" where "lang_word = ''?lang=''"

fun question_loop :: "byte list \<Rightarrow> nat \<Rightarrow> byte list \<Rightarrow> char \<Rightarrow> char" where
  "question_loop [] n language_str lang =
     (if n \<ge> length lang_word then language_get language_str (n - length lang_word) else lang)"
| "question_loop (c # cs) n language_str lang =
     (if c = CHR ''?'' then question_loop cs 1 language_str lang
      else if n < length lang_word
      then question_loop cs (if c = lang_word ! n then n + 1 else 0) language_str lang
      else if n < length lang_word + MAX_LANGUAGE_SIZE
      then if is_lower c
           then question_loop cs (n + 1) (language_str[n - length lang_word := c]) lang
           else let lang = language_get language_str (n - length lang_word)
                in if lang \<noteq> NUL then lang
                   else question_loop cs (if c = CHR ''?'' then 1 else 0) language_str lang
      else question_loop cs n language_str lang)"

declare pop_language.simps [simp del] find_question.simps [simp del]

text \<open>The array \<^verbatim>\<open>language_str\<close> is written before it is read.\<close>

definition processor_generic_normalize_question :: "memory \<Rightarrow> parts \<Rightarrow> char \<Rightarrow> parts \<times> char" where
  "processor_generic_normalize_question m resource lang =
     (let resource = trim_leading_shash m resource
      in case find_question m resource of
           None \<Rightarrow> (trim_trailing_shash m resource, lang)
         | Some (c, local_resource) \<Rightarrow>
             let resource = trim_trailing_shash m (value_first resource (value_size resource - value_size local_resource))
             in if c = CHR ''#'' then (resource, lang)
                else (resource, question_loop (vbytes m local_resource) 0 (replicate MAX_LANGUAGE_SIZE NUL) lang))"

section \<open>What they do to the text\<close>

definition no_slashes :: "byte list \<Rightarrow> byte list" where
  "no_slashes t = dropWhile (\<lambda>c. c = CHR ''/'') t"

definition no_slashes_back :: "byte list \<Rightarrow> byte list" where
  "no_slashes_back t = rev (dropWhile (\<lambda>c. c = CHR ''/'') (rev t))"

lemma skip_slashes_bytes: "pbytes m (skip_slashes m p n) = no_slashes (map m [p..<p + n])"
proof (induction n arbitrary: p)
  case (Suc n)
  have "[p..<p + Suc n] = p # [Suc p..<Suc p + n]" by (simp add: upt_rec)
  then show ?case using Suc [of "Suc p"] by (simp add: no_slashes_def pbytes_def)
qed (simp add: no_slashes_def pbytes_def)

lemma no_slashes_append: "no_slashes (xs @ ys) = (if no_slashes xs = [] then no_slashes ys else no_slashes xs @ ys)"
  by (simp add: no_slashes_def dropWhile_append)

lemma trim_leading_bytes: "vbytes m (trim_leading_shash m v) = no_slashes (vbytes m v)"
proof (induction v)
  case (Cons p v)
  let ?p = "skip_slashes m (part_p p) (part_size p)"
  have p: "pbytes m ?p = no_slashes (pbytes m p)" by (simp add: skip_slashes_bytes pbytes_def [of m p])
  have "part_size ?p = 0 \<longleftrightarrow> no_slashes (pbytes m p) = []" using length_pbytes [of m ?p] p by (metis length_0_conv)
  then show ?case using Cons p by (simp add: Let_def no_slashes_append)
qed (simp add: no_slashes_def)

lemma skip_slashes_back_bytes: "pbytes m (skip_slashes_back m p n) = no_slashes_back (map m [p..<p + n])"
  by (induction n) (simp_all add: no_slashes_back_def pbytes_def)

lemma trim_trailing_parts_bytes: "vbytes m (rev (trim_trailing_parts m v)) = no_slashes_back (vbytes m (rev v))"
proof (induction v)
  case (Cons p v)
  let ?p = "skip_slashes_back m (part_p p) (part_size p)"
  have p: "pbytes m ?p = no_slashes_back (pbytes m p)" by (simp add: skip_slashes_back_bytes pbytes_def [of m p])
  have "part_size ?p = 0 \<longleftrightarrow> no_slashes_back (pbytes m p) = []" using length_pbytes [of m ?p] p by (metis length_0_conv)
  moreover have "no_slashes_back (vbytes m (rev v) @ pbytes m p) =
      (if no_slashes_back (pbytes m p) = [] then no_slashes_back (vbytes m (rev v))
       else vbytes m (rev v) @ no_slashes_back (pbytes m p))"
    by (simp add: no_slashes_back_def dropWhile_append)
  ultimately show ?case using Cons p by (simp add: Let_def vbytes_def)
qed (simp add: no_slashes_back_def)

lemma trim_trailing_bytes: "vbytes m (trim_trailing_shash m v) = no_slashes_back (vbytes m v)"
  unfolding trim_trailing_shash_def by (simp add: trim_trailing_parts_bytes)

text \<open>Popping the language: the text behind the last slash.\<close>

definition last_segment :: "byte list \<Rightarrow> byte list" where
  "last_segment t = rev (takeWhile (\<lambda>c. c \<noteq> CHR ''/'') (rev t))"

definition before_segment :: "byte list \<Rightarrow> byte list" where
  "before_segment t = rev (drop 1 (dropWhile (\<lambda>c. c \<noteq> CHR ''/'') (rev t)))"

lemma vbytes_rev_Cons: "vbytes m (rev (p # v)) = vbytes m (rev v) @ pbytes m p"
  by (simp add: vbytes_def)

lemma pbytes_last:
  "0 < part_size p \<Longrightarrow> pbytes m p = pbytes m (p\<lparr>part_size := part_size p - 1\<rparr>) @ [m (part_p p + part_size p - 1)]"
  by (cases "part_size p") (simp_all add: pbytes_def)

lemma pop_language_spec:
  "length l \<le> MAX_LANGUAGE_SIZE \<Longrightarrow>
    (case pop_language m v l of
       None \<Rightarrow> MAX_LANGUAGE_SIZE < length (last_segment (vbytes m (rev v)) @ l)
     | Some (v', l') \<Rightarrow> length (last_segment (vbytes m (rev v)) @ l) \<le> MAX_LANGUAGE_SIZE \<and>
         l' = last_segment (vbytes m (rev v)) @ l \<and> vbytes m (rev v') = before_segment (vbytes m (rev v)))"
proof (induction m v l rule: pop_language.induct)
  case (1 m l)
  then show ?case by (simp add: pop_language.simps(1) last_segment_def before_segment_def)
next
  case (2 m p v l)
  let ?c = "m (part_p p + part_size p - 1)" and ?p = "p\<lparr>part_size := part_size p - 1\<rparr>"
  note step = pop_language.simps(2) [of m p v l]
  show ?case
  proof (cases "part_size p = 0")
    case True
    then show ?thesis using "2.IH"(1) "2.prems" by (auto simp: step vbytes_rev_Cons split: option.splits)
  next
    case False
    then have t: "vbytes m (rev (p # v)) = vbytes m (rev (?p # v)) @ [?c]"
      using pbytes_last [of p m] by (simp add: vbytes_rev_Cons)
    show ?thesis
    proof (cases "?c = CHR ''/''")
      case True
      then show ?thesis using False t "2.prems" by (simp add: step Let_def last_segment_def before_segment_def)
    next
      case c: False
      have seg: "last_segment (vbytes m (rev (p # v))) = last_segment (vbytes m (rev (?p # v))) @ [?c]"
        "before_segment (vbytes m (rev (p # v))) = before_segment (vbytes m (rev (?p # v)))"
        using c unfolding t by (simp_all add: last_segment_def before_segment_def)
      show ?thesis
      proof (cases "length l = MAX_LANGUAGE_SIZE")
        case True
        then show ?thesis using False c seg by (simp add: step Let_def)
      next
        case l: False
        then have "length (?c # l) \<le> MAX_LANGUAGE_SIZE" using "2.prems" by simp
        from "2.IH"(2) [OF False refl refl c l this] show ?thesis
          using False c l unfolding seg by (auto simp: step Let_def split: option.splits prod.splits)
      qed
    qed
  qed
qed

lemma language_get_two: "language_get ''en'' (Suc (Suc 0)) = CHR ''e''" "language_get ''de'' (Suc (Suc 0)) = CHR ''d''"
  by (simp_all add: language_get_def)

lemma language_get_known:
  "length l \<le> 2 \<Longrightarrow> language_get l (length l) = (if l = ''en'' then CHR ''e'' else if l = ''de'' then CHR ''d'' else NUL)"
  by (cases l; cases "tl l") (auto simp: language_get_def)

text \<open>The reference: the page and the language of a path.\<close>

definition slash_name :: "byte list \<Rightarrow> char \<Rightarrow> byte list \<times> char" where
  "slash_name t lang =
     (let t = no_slashes_back (no_slashes t)
      in if last_segment t = ''en'' then (no_slashes_back (before_segment t), CHR ''e'')
         else if last_segment t = ''de'' then (no_slashes_back (before_segment t), CHR ''d'')
         else (t, if length (last_segment t) \<le> 2 then NUL else lang))"

lemma normalize_slash_spec:
  "map_prod (vbytes m) id (processor_generic_normalize_slash m v lang) = slash_name (vbytes m v) lang"
proof -
  let ?v = "trim_trailing_shash m (trim_leading_shash m v)"
  have t: "vbytes m (rev (rev ?v)) = no_slashes_back (no_slashes (vbytes m v))"
    by (simp add: trim_trailing_bytes trim_leading_bytes)
  have v: "vbytes m ?v = no_slashes_back (no_slashes (vbytes m v))" using t by simp
  let ?t = "no_slashes_back (no_slashes (vbytes m v))"
  show ?thesis
  proof (cases "pop_language m (rev ?v) []")
    case None
    then have "MAX_LANGUAGE_SIZE < length (last_segment ?t)" using pop_language_spec [of "[]" m "rev ?v"] unfolding t by simp
    then have "last_segment ?t \<noteq> ''en''" "last_segment ?t \<noteq> ''de''" "\<not> length (last_segment ?t) \<le> 2"
      by (auto simp: MAX_LANGUAGE_SIZE_def)
    then show ?thesis using None v by (simp add: processor_generic_normalize_slash_def slash_name_def Let_def)
  next
    case (Some r)
    then obtain w where r: "r = (w, last_segment ?t)" "length (last_segment ?t) \<le> 2" "vbytes m (rev w) = before_segment ?t"
      using pop_language_spec [of "[]" m "rev ?v"] unfolding t by (cases r) (auto simp: MAX_LANGUAGE_SIZE_def)
    show ?thesis using Some r v language_get_known [OF r(2)]
      by (simp add: processor_generic_normalize_slash_def slash_name_def Let_def trim_trailing_bytes language_get_two)
  qed
qed

text \<open>The query: the first question mark or hash.\<close>

abbreviation query_mark :: "byte \<Rightarrow> bool" where
  "query_mark c \<equiv> c = CHR ''#'' \<or> c = CHR ''?''"

lemma pbytes_first:
  "0 < part_size p \<Longrightarrow> pbytes m p = m (part_p p) # pbytes m \<lparr>part_p = part_p p + 1, part_size = part_size p - 1\<rparr>"
  by (cases "part_size p") (simp_all add: pbytes_def upt_rec)

lemma find_question_spec:
  "case find_question m v of
     None \<Rightarrow> dropWhile (\<lambda>c. \<not> query_mark c) (vbytes m v) = []
   | Some (c, v') \<Rightarrow> vbytes m v' = dropWhile (\<lambda>c. \<not> query_mark c) (vbytes m v) \<and> vbytes m v' \<noteq> [] \<and> hd (vbytes m v') = c"
proof (induction m v rule: find_question.induct)
  case (2 m p v)
  note step = find_question.simps(2) [of m p v]
  show ?case
  proof (cases "part_size p = 0")
    case True
    then show ?thesis using "2.IH"(1) by (auto simp: step split: option.splits)
  next
    case False
    then have t: "vbytes m (p # v) = m (part_p p) # vbytes m (\<lparr>part_p = part_p p + 1, part_size = part_size p - 1\<rparr> # v)"
      using pbytes_first [of p m] by simp
    show ?thesis
    proof (cases "query_mark (m (part_p p))")
      case True
      then show ?thesis using False t by (auto simp: step Let_def)
    next
      case c: False
      let ?q = "\<lparr>part_p = part_p p + 1, part_size = part_size p - 1\<rparr>"
      have eq: "find_question m (p # v) = find_question m (?q # v)"
        using False c by (simp only: step Let_def if_False simp_thms)
      have drop: "dropWhile (\<lambda>c. \<not> query_mark c) (vbytes m (p # v)) = dropWhile (\<lambda>c. \<not> query_mark c) (vbytes m (?q # v))"
        unfolding t using c by simp
      show ?thesis unfolding eq drop by (rule "2.IH"(2) [OF False refl c])
    qed
  qed
qed (simp add: find_question.simps(1))

text \<open>The reference: the page and the language of a path with a query.\<close>

definition question_name :: "byte list \<Rightarrow> char \<Rightarrow> byte list \<times> char" where
  "question_name t lang =
     (let t = no_slashes t; query = dropWhile (\<lambda>c. \<not> query_mark c) t
      in (no_slashes_back (takeWhile (\<lambda>c. \<not> query_mark c) t),
          if query = [] \<or> hd query = CHR ''#'' then lang else question_loop query 0 [NUL, NUL] lang))"

lemma normalize_question_spec:
  "map_prod (vbytes m) id (processor_generic_normalize_question m v lang) = question_name (vbytes m v) lang"
proof -
  let ?v = "trim_leading_shash m v" and ?P = "\<lambda>c. \<not> query_mark c"
  define t where "t = no_slashes (vbytes m v)"
  have v: "vbytes m ?v = t" by (simp add: trim_leading_bytes t_def)
  have full: "takeWhile ?P t = t" if "dropWhile ?P t = []" using takeWhile_dropWhile_id [of ?P t] that by simp
  have prefix: "take (length (xs @ ys) - length ys) (xs @ ys) = xs" for xs ys :: "byte list" by simp
  have cut: "take (length t - length (dropWhile ?P t)) t = takeWhile ?P t"
    using prefix [of "takeWhile ?P t" "dropWhile ?P t"] unfolding takeWhile_dropWhile_id .
  show ?thesis
  proof (cases "find_question m ?v")
    case None
    then have none: "dropWhile ?P t = []" using find_question_spec [of m ?v] by (simp add: v)
    then have "question_name (vbytes m v) lang = (no_slashes_back t, lang)"
      by (simp only: question_name_def Let_def t_def [symmetric] none full [OF none] simp_thms if_True)
    then show ?thesis using None
      by (simp add: processor_generic_normalize_question_def Let_def trim_trailing_bytes v)
  next
    case (Some r)
    obtain c w where r1: "r = (c, w)" by (cases r)
    have "vbytes m w = dropWhile ?P t \<and> vbytes m w \<noteq> [] \<and> hd (vbytes m w) = c"
      using find_question_spec [of m ?v] unfolding Some r1 v option.case prod.case .
    then have r: "r = (c, w)" "vbytes m w = dropWhile ?P t" "vbytes m w \<noteq> []" "hd (vbytes m w) = c" using r1 by blast+
    have size: "value_size ?v = length t" "value_size w = length (dropWhile ?P t)"
      using v r(2) by (simp_all add: value_size_length [where m = m])
    have "vbytes m (trim_trailing_shash m (value_first ?v (value_size ?v - value_size w))) = no_slashes_back (takeWhile ?P t)"
      unfolding size trim_trailing_bytes value_first_spec v cut ..
    moreover have "question_name (vbytes m v) lang =
        (no_slashes_back (takeWhile ?P t), if c = CHR ''#'' then lang else question_loop (vbytes m w) 0 [NUL, NUL] lang)"
      using r(3,4) by (simp only: question_name_def Let_def t_def [symmetric] r(2) [symmetric] simp_thms)
    ultimately show ?thesis using Some r(1)
      by (simp add: processor_generic_normalize_question_def Let_def MAX_LANGUAGE_SIZE_def replicate_2)
  qed
qed

text \<open>The language a page is shown in, in \<^verbatim>\<open>processor_generic\<close>; \<^verbatim>\<open>IMPLICIT_LANGUAGE\<close> is English.\<close>

definition page_language :: "char \<Rightarrow> char \<Rightarrow> char" where
  "page_language requested implicit =
     (let lang = requested;
          lang = (if lang = NUL then implicit else lang)
      in if lang = NUL then CHR ''e'' else lang)"

section \<open>Links\<close>

definition plain_name :: "byte list \<Rightarrow> bool" where
  "plain_name ref \<longleftrightarrow> list_all (\<lambda>c. c \<noteq> CHR ''/'' \<and> c \<noteq> CHR ''?'' \<and> c \<noteq> CHR ''#'') ref \<and> ref \<noteq> ''en'' \<and> ref \<noteq> ''de''"

lemma plain_nameD:
  assumes "plain_name ref"
  shows "no_slashes (CHR ''/'' # ref @ t) = (if ref = [] then no_slashes t else ref @ t)" "no_slashes_back ref = ref"
    "last_segment ref = ref" "takeWhile (\<lambda>c. \<not> query_mark c) (ref @ CHR ''?'' # t) = ref"
    "dropWhile (\<lambda>c. \<not> query_mark c) (ref @ CHR ''?'' # t) = CHR ''?'' # t"
    "takeWhile (\<lambda>c. \<not> query_mark c) ref = ref" "dropWhile (\<lambda>c. \<not> query_mark c) ref = []"
proof -
  have all: "\<forall>c\<in>set ref. c \<noteq> CHR ''/'' \<and> c \<noteq> CHR ''?'' \<and> c \<noteq> CHR ''#''" using assms by (simp add: plain_name_def list_all_iff)
  show "no_slashes (CHR ''/'' # ref @ t) = (if ref = [] then no_slashes t else ref @ t)"
    using all by (cases ref) (simp_all add: no_slashes_def)
  show "no_slashes_back ref = ref"
    using all by (cases ref rule: rev_cases) (simp_all add: no_slashes_back_def)
  have "takeWhile (\<lambda>c. c \<noteq> CHR ''/'') (rev ref) = rev ref" using all by (simp add: takeWhile_eq_all_conv)
  then show "last_segment ref = ref" unfolding last_segment_def by (simp only: rev_rev_ident)
  show "takeWhile (\<lambda>c. \<not> query_mark c) (ref @ CHR ''?'' # t) = ref" "dropWhile (\<lambda>c. \<not> query_mark c) (ref @ CHR ''?'' # t) = CHR ''?'' # t"
    using all by (simp_all add: takeWhile_append2 dropWhile_append2)
  show "takeWhile (\<lambda>c. \<not> query_mark c) ref = ref" "dropWhile (\<lambda>c. \<not> query_mark c) ref = []"
    using all by (auto simp: takeWhile_eq_all_conv dropWhile_eq_Nil_conv)
qed

lemma slash_name_link:
  assumes "plain_name ref" and "lang = CHR ''e'' \<or> lang = CHR ''d''"
  shows "slash_name (''/'' @ ref @ language_slash lang r i) NUL = (ref, if language_explicit lang r i then lang else NUL)"
proof -
  have seg: "last_segment (t @ ''/en'') = ''en''" "before_segment (t @ ''/en'') = t" "no_slashes_back (t @ ''/en'') = t @ ''/en''"
    "last_segment (t @ ''/de'') = ''de''" "before_segment (t @ ''/de'') = t" "no_slashes_back (t @ ''/de'') = t @ ''/de''" for t
    by (simp_all add: last_segment_def before_segment_def no_slashes_back_def)
  have lead: "no_slashes (''/'' @ ref @ l) = (if ref = [] then no_slashes l else ref @ l)" for l
    using plain_nameD(1) [OF assms(1), of l] by simp
  have empty: "slash_name (''/'' @ [] @ ''/en'') NUL = ([], CHR ''e'')" "slash_name (''/'' @ [] @ ''/de'') NUL = ([], CHR ''d'')"
    by (simp_all add: slash_name_def Let_def no_slashes_def no_slashes_back_def last_segment_def before_segment_def)
  have code: "slash_name (''/'' @ ref @ ''/en'') NUL = (ref, CHR ''e'')" "slash_name (''/'' @ ref @ ''/de'') NUL = (ref, CHR ''d'')"
    using empty plain_nameD(2) [OF assms(1)] by (cases "ref = []"; simp only: slash_name_def lead Let_def seg if_True if_False simp_thms; simp)+
  have none: "slash_name (''/'' @ ref) NUL = (ref, NUL)"
    using assms(1) plain_nameD(1) [OF assms(1), of "[]"] plain_nameD(2,3) [OF assms(1)] by (auto simp: slash_name_def Let_def plain_name_def no_slashes_def)
  show ?thesis using assms(2) code none by (auto simp: language_slash_def Let_def)
qed

lemma question_name_link:
  assumes "plain_name ref" and "lang = CHR ''e'' \<or> lang = CHR ''d''"
  shows "question_name (''/'' @ ref @ language_question lang r i) NUL = (ref, if language_explicit lang r i then lang else NUL)"
proof -
  have lead: "no_slashes (''/'' @ ref @ CHR ''?'' # l) = ref @ CHR ''?'' # l" for l
    using plain_nameD(1) [OF assms(1), of "CHR ''?'' # l"] by (simp add: no_slashes_def)
  have loop: "question_loop ''?lang=en'' 0 [NUL, NUL] NUL = CHR ''e''" "question_loop ''?lang=de'' 0 [NUL, NUL] NUL = CHR ''d''"
    by (simp_all add: lang_word_def MAX_LANGUAGE_SIZE_def is_lower_def language_get_def)
  have code: "question_name (''/'' @ ref @ CHR ''?'' # l) NUL = (ref, question_loop (CHR ''?'' # l) 0 [NUL, NUL] NUL)" for l
    unfolding question_name_def Let_def lead plain_nameD(4,5) [OF assms(1)] by (simp add: plain_nameD(2) [OF assms(1)] del: question_loop.simps)
  have none: "question_name (''/'' @ ref) NUL = (ref, NUL)"
  proof -
    have "no_slashes (''/'' @ ref) = ref" using plain_nameD(1) [OF assms(1), of "[]"] by (auto simp: no_slashes_def)
    then show ?thesis unfolding question_name_def Let_def by (simp only: plain_nameD(2,6,7) [OF assms(1)] simp_thms if_True)
  qed
  show ?thesis using assms(2) code [of "''lang=en''"] code [of "''lang=de''"] none loop
    by (auto simp: language_question_def Let_def simp del: question_loop.simps)
qed

section \<open>Properties\<close>

text \<open>
  Following a link of the site leads home: the address that a page writes for a page and a language,
  after a slash or in a query, is read back as this page in this language, whatever language the reader's
  program asks for, wherever the value is split into its parts.
\<close>

theorem links_lead_home:
  assumes "plain_name ref" and "lang = CHR ''e'' \<or> lang = CHR ''d''"
    and "vbytes m v = ''/'' @ ref @ language_slash lang requested implicit"
    and "vbytes m w = ''/'' @ ref @ language_question lang requested implicit"
  shows "(case processor_generic_normalize_slash m v NUL of
        (v', l) \<Rightarrow> vbytes m v' = ref \<and> page_language l implicit = lang) \<and>
    (case processor_generic_normalize_question m w NUL of
        (w', l) \<Rightarrow> vbytes m w' = ref \<and> page_language l implicit = lang)"
proof -
  have lang: "page_language (if language_explicit lang requested implicit then lang else NUL) implicit = lang"
    using assms(2) by (auto simp: page_language_def language_explicit_def Let_def split: if_splits)
  show ?thesis
    using normalize_slash_spec [of m v NUL] normalize_question_spec [of m w NUL] lang
    unfolding assms(3,4) slash_name_link [OF assms(1,2)] question_name_link [OF assms(1,2)]
    by (auto split: prod.splits)
qed

definition sample_links :: memory where
  "sample_links = (!) ''/about/de/about?lang=de''"

lemma links_lead_home_witness:
  "(case processor_generic_normalize_slash sample_links [\<lparr>part_p = 0, part_size = 4\<rparr>, \<lparr>part_p = 4, part_size = 5\<rparr>] NUL of
      (v', l) \<Rightarrow> vbytes sample_links v' = ''about'' \<and> page_language l NUL = CHR ''d'') \<and>
   (case processor_generic_normalize_question sample_links [\<lparr>part_p = 9, part_size = 14\<rparr>, zero_part] NUL of
      (w', l) \<Rightarrow> vbytes sample_links w' = ''about'' \<and> page_language l NUL = CHR ''d'')"
proof (rule links_lead_home)
  show "vbytes sample_links [\<lparr>part_p = 0, part_size = 4\<rparr>, \<lparr>part_p = 4, part_size = 5\<rparr>] =
      ''/'' @ ''about'' @ language_slash CHR ''d'' NUL NUL"
    by (simp add: pbytes_def upt_rec sample_links_def language_slash_def language_explicit_def)
  show "vbytes sample_links [\<lparr>part_p = 9, part_size = 14\<rparr>, zero_part] = ''/'' @ ''about'' @ language_question CHR ''d'' NUL NUL"
    by (simp add: pbytes_def upt_rec sample_links_def language_question_def language_explicit_def zero_part_def)
qed (simp_all add: plain_name_def)

end
