(* ===== verification/TS_Time.thy ===== *)
theory TS_Time
  imports TS_Page
begin

text \<open>
  \<^verbatim>\<open>source/time.c\<close> and \<^verbatim>\<open>source/random.c\<close>: calendar times with a fallback, the uptime as a text for a
  buffer of 64 bytes, and random numbers below a bound by rejection. The functions of the C library
  that they call are parameters.
\<close>

unbundle bit_operations_syntax

section \<open>Calendars\<close>

text \<open>\<open>gmtime\<close> and \<open>localtime\<close> give \<open>None\<close> where C gives \<^verbatim>\<open>NULL\<close>.\<close>

definition time_to_calender :: "(int \<Rightarrow> calendar option) \<Rightarrow> (int \<Rightarrow> calendar option) \<Rightarrow> int \<Rightarrow> bool \<Rightarrow> calendar" where
  "time_to_calender gmtime localtime global_time global =
     (case (if global then gmtime global_time else localtime global_time) of
        Some calender \<Rightarrow> calender
      | None \<Rightarrow> \<lparr>tm_sec = 0, tm_min = 0, tm_hour = 0, tm_mday = 1, tm_mon = 0, tm_year = 70, tm_wday = 4\<rparr>)"

text \<open>\<open>mktime\<close> returns the time; the calendar it normalises in place is not used afterwards.\<close>

definition calender_to_time :: "(calendar \<Rightarrow> int) \<Rightarrow> (int \<Rightarrow> calendar option) \<Rightarrow> (int \<Rightarrow> calendar option) \<Rightarrow>
    calendar \<Rightarrow> int \<Rightarrow> int" where
  "calender_to_time mktime gmtime localtime global_calender probe =
     (let local_time = mktime global_calender
      in if local_time = -1 then local_time
         else let probe_global_calender = time_to_calender gmtime localtime probe True;
                  probe_local_calender = time_to_calender gmtime localtime probe False;
                  offset = mktime probe_local_calender - mktime probe_global_calender
              in local_time + offset)"

section \<open>Uptime\<close>

definition SECOND :: nat where "SECOND = 1"
definition MINUTE :: nat where "MINUTE = 60"
definition HOUR :: nat where "HOUR = 3600"
definition DAY :: nat where "DAY = 86400"

text \<open>The words \<^verbatim>\<open>days_str\<close> and so on, and what joins them.\<close>

definition days_str :: "char \<Rightarrow> nat \<Rightarrow> byte list" where
  "days_str lang n = (if lang = CHR ''d'' then (if n = 1 then ''Tag'' else ''Tage'') else (if n = 1 then ''day'' else ''days''))"

definition hours_str :: "char \<Rightarrow> nat \<Rightarrow> byte list" where
  "hours_str lang n =
     (if lang = CHR ''d'' then (if n = 1 then ''Stunde'' else ''Stunden'') else (if n = 1 then ''hour'' else ''hours''))"

definition minutes_str :: "char \<Rightarrow> nat \<Rightarrow> byte list" where
  "minutes_str lang n =
     (if lang = CHR ''d'' then (if n = 1 then ''Minute'' else ''Minuten'') else (if n = 1 then ''minute'' else ''minutes''))"

definition seconds_str :: "char \<Rightarrow> nat \<Rightarrow> byte list" where
  "seconds_str lang n =
     (if lang = CHR ''d'' then (if n = 1 then ''Sekunde'' else ''Sekunden'') else (if n = 1 then ''second'' else ''seconds''))"

definition and_str :: "char \<Rightarrow> byte list" where
  "and_str lang = (if lang = CHR ''d'' then '' und '' else '' and '')"

definition serial_and_str :: "char \<Rightarrow> byte list" where
  "serial_and_str lang = (if lang = CHR ''d'' then '' und '' else '', and '')"

definition time_to_string_uptime :: "int \<Rightarrow> int \<Rightarrow> char \<Rightarrow> byte list" where
  "time_to_string_uptime startup now lang =
     (let difference = (if now < startup then 0 else nat (now - startup));
          days = (difference div DAY) mod 2 ^ 32;
          hours = (difference div HOUR) mod 2 ^ 32 mod 24;
          minutes = (difference div MINUTE) mod 2 ^ 32 mod 60;
          seconds = (difference div SECOND) mod 2 ^ 32 mod 60
      in if days > 0
         then decimal_text days @ '' '' @ days_str lang days @ '', '' @ decimal_text hours @ '' '' @ hours_str lang hours @ '', '' @
              decimal_text minutes @ '' '' @ minutes_str lang minutes @ serial_and_str lang @
              decimal_text seconds @ '' '' @ seconds_str lang seconds
         else if hours > 0
         then decimal_text hours @ '' '' @ hours_str lang hours @ '', '' @ decimal_text minutes @ '' '' @
              minutes_str lang minutes @ serial_and_str lang @ decimal_text seconds @ '' '' @ seconds_str lang seconds
         else if minutes > 0
         then decimal_text minutes @ '' '' @ minutes_str lang minutes @ and_str lang @
              decimal_text seconds @ '' '' @ seconds_str lang seconds
         else decimal_text seconds @ '' '' @ seconds_str lang seconds)"

lemma word_lengths:
  "length (days_str l n) \<le> 4" "length (hours_str l n) \<le> 7" "length (minutes_str l n) \<le> 7"
  "length (seconds_str l n) \<le> 8" "length (and_str l) \<le> 5" "length (serial_and_str l) \<le> 6"
  by (simp_all add: days_str_def hours_str_def minutes_str_def seconds_str_def and_str_def serial_and_str_def)

lemma decimal_text_two:
  assumes "n < 100"
  shows "length (decimal_text n) \<le> 2"
proof (cases "n < 10")
  case True
  then show ?thesis by (subst decimal_text.simps) simp
next
  case False
  then have "n div 10 < 10" using assms by simp
  then have "decimal_text (n div 10) = [digit_char (n div 10)]" by (subst decimal_text.simps) simp
  then show ?thesis using False by (subst decimal_text.simps) simp
qed

section \<open>Random numbers\<close>

text \<open>The number of bits of a value.\<close>

fun bits_of :: "nat \<Rightarrow> nat" where
  "bits_of n = (if n > 0 then Suc (bits_of (n div 2)) else 0)"

declare bits_of.simps [simp del]

text \<open>
  The loops \<^verbatim>\<open>for (...; rand_bits < max_bits; rand_bits += max_bits)\<close> run at most once, since the
  counter grows by the bound itself: \<open>max_buffer\<close> is \<^verbatim>\<open>RAND_MAX\<close> or 0, the sample one call of \<^verbatim>\<open>rand\<close> or 0.
\<close>

definition max_buffer :: "nat \<Rightarrow> nat \<Rightarrow> nat" where
  "max_buffer RAND_MAX n = (if 0 < bits_of (n - 1) then push_bit (bits_of RAND_MAX) 0 OR RAND_MAX else 0)"

definition max_buffer_accept :: "nat \<Rightarrow> nat \<Rightarrow> nat" where
  "max_buffer_accept RAND_MAX n =
     (let b = max_buffer RAND_MAX n;
          reject_number = (if b mod n + 1 = n then 0 else b mod n + 1)
      in size_sub b reject_number)"

text \<open>
  \<open>rand i\<close> is the result of the i-th call; the loop returns with the number of calls, or goes on.
\<close>

partial_function (option) random_sample :: "(nat \<Rightarrow> nat) \<Rightarrow> nat \<Rightarrow> nat \<Rightarrow> nat \<Rightarrow> (nat \<times> nat) option" where
  "random_sample rand RAND_MAX n i =
     (let (buffer, i) = (if 0 < bits_of (n - 1) then (rand i, i + 1) else (0, i))
      in if buffer \<le> max_buffer_accept RAND_MAX n then Some (buffer mod n, i)
         else random_sample rand RAND_MAX n i)"

definition random_rand :: "(nat \<Rightarrow> nat) \<Rightarrow> nat \<Rightarrow> nat \<Rightarrow> nat \<Rightarrow> (nat \<times> nat) option" where
  "random_rand rand RAND_MAX n i = (if n = 0 then Some (0, i) else random_sample rand RAND_MAX n i)"

lemma bits_of_pos: "0 < bits_of n \<longleftrightarrow> 0 < n"
  by (subst bits_of.simps) simp

lemma max_buffer_accept_eq:
  assumes "1 < n" and "n \<le> RAND_MAX + 1" and "RAND_MAX < 2 ^ 63"
  shows "max_buffer_accept RAND_MAX n = RAND_MAX - (RAND_MAX + 1) mod n"
proof -
  have b: "max_buffer RAND_MAX n = RAND_MAX" using assms(1) by (simp add: max_buffer_def bits_of_pos)
  have r: "(if RAND_MAX mod n + 1 = n then 0 else RAND_MAX mod n + 1) = (RAND_MAX + 1) mod n"
    using assms(1) mod_Suc [of RAND_MAX n] by simp
  have "(RAND_MAX + 1) mod n \<le> RAND_MAX"
    using assms(1,2) mod_less_divisor [of n "RAND_MAX + 1"] by linarith
  then show ?thesis using assms(3) by (simp only: max_buffer_accept_def Let_def b r) simp
qed

lemma card_residues:
  assumes "k < (n :: nat)"
  shows "card {b. b < n * q \<and> b mod n = k} = q"
proof -
  have "b \<in> (\<lambda>i. n * i + k) ` {..<q}" if "b < n * q" "b mod n = k" for b
  proof
    show "b = n * (b div n) + k" using that(2) mult_div_mod_eq [of n b] by simp
    show "b div n \<in> {..<q}" using that(1) by (simp add: less_mult_imp_div_less mult.commute)
  qed
  moreover have "n * i + k < n * q" if "i < q" for i
  proof -
    have "n * i + k < n * Suc i" using assms by simp
    also have "\<dots> \<le> n * q" using that by (intro mult_le_mono) simp_all
    finally show ?thesis .
  qed
  ultimately have "{b. b < n * q \<and> b mod n = k} = (\<lambda>i. n * i + k) ` {..<q}" using assms by auto
  moreover have "inj_on (\<lambda>i. n * i + k) {..<q}" using assms by (auto simp: inj_on_def)
  ultimately show ?thesis by (simp add: card_image)
qed

lemma random_sample_first:
  assumes "1 < n" and "rand j \<le> max_buffer_accept RAND_MAX n" and "i \<le> j"
    and "\<forall>l. i \<le> l \<and> l < j \<longrightarrow> max_buffer_accept RAND_MAX n < rand l"
  shows "random_sample rand RAND_MAX n i = Some (rand j mod n, j + 1)"
  using assms(3,4)
proof (induction "j - i" arbitrary: i)
  case 0
  then show ?case using assms(1,2) by (subst random_sample.simps) (simp add: bits_of_pos)
next
  case (Suc d)
  then have "i < j" by simp
  then have "\<not> rand i \<le> max_buffer_accept RAND_MAX n" using Suc.prems(2) by auto
  then have "random_sample rand RAND_MAX n i = random_sample rand RAND_MAX n (i + 1)"
    using assms(1) by (subst random_sample.simps) (simp add: bits_of_pos)
  moreover have "random_sample rand RAND_MAX n (i + 1) = Some (rand j mod n, j + 1)"
    using Suc.hyps(2) \<open>i < j\<close> Suc.prems(2) by (intro Suc.hyps(1)) auto
  ultimately show ?case by simp
qed

section \<open>Properties\<close>

text \<open>
  The uptime, as wide as it can get, fits the buffer of 64 bytes with its terminator.
\<close>

theorem uptime_fits: "length (time_to_string_uptime startup now lang) + 1 \<le> 64"
proof -
  define difference where "difference = (if now < startup then 0 else nat (now - startup))"
  define d h m s where "d = difference div DAY mod 2 ^ 32" and "h = difference div HOUR mod 2 ^ 32 mod 24"
    and "m = difference div MINUTE mod 2 ^ 32 mod 60" and "s = difference div SECOND mod 2 ^ 32 mod 60"
  have "length (decimal_text d) \<le> 10" unfolding d_def by (rule length_decimal_text_32) simp
  moreover have "h < 24" "m < 60" "s < 60" by (simp_all add: h_def m_def s_def)
  then have "length (decimal_text h) \<le> 2" "length (decimal_text m) \<le> 2" "length (decimal_text s) \<le> 2"
    by (simp_all add: decimal_text_two)
  ultimately show ?thesis
    using word_lengths(1) [of lang d] word_lengths(2) [of lang h] word_lengths(3) [of lang m] word_lengths(4) [of lang s]
      word_lengths(5,6) [of lang]
    unfolding time_to_string_uptime_def Let_def difference_def [symmetric] d_def [symmetric] h_def [symmetric]
      m_def [symmetric] s_def [symmetric]
    by (simp split del: if_split) (simp split: if_split)
qed

text \<open>
  A random number below a bound of at least two: the first number of the generator that is not
  rejected decides, its remainder is below the bound, and every outcome has the same number of accepted
  numbers behind it, so that a uniform generator gives uniform outcomes.
\<close>

theorem random_rand_uniform:
  assumes "1 < n" and "n \<le> RAND_MAX + 1" and "RAND_MAX < 2 ^ 63"
    and "i \<le> j" and "rand j \<le> max_buffer_accept RAND_MAX n"
    and "\<forall>l. i \<le> l \<and> l < j \<longrightarrow> max_buffer_accept RAND_MAX n < rand l"
  shows "random_rand rand RAND_MAX n i = Some (rand j mod n, j + 1) \<and> rand j mod n < n \<and>
    (\<forall>k < n. card {b. b \<le> RAND_MAX \<and> b \<le> max_buffer_accept RAND_MAX n \<and> b mod n = k} = (RAND_MAX + 1) div n)"
proof (intro conjI allI impI)
  show "random_rand rand RAND_MAX n i = Some (rand j mod n, j + 1)"
    using random_sample_first [OF assms(1,5,4,6)] assms(1) by (simp add: random_rand_def)
  show "rand j mod n < n" using assms(1) by simp
  fix k
  assume k: "k < n"
  let ?q = "(RAND_MAX + 1) div n"
  have "RAND_MAX + 1 = n * ?q + (RAND_MAX + 1) mod n" by simp
  moreover have "(RAND_MAX + 1) mod n < n" using assms(1) by simp
  ultimately have "b \<le> RAND_MAX \<and> b \<le> max_buffer_accept RAND_MAX n \<longleftrightarrow> b < n * ?q" for b
    unfolding max_buffer_accept_eq [OF assms(1-3)] using assms(2) by linarith
  then have "{b. b \<le> RAND_MAX \<and> b \<le> max_buffer_accept RAND_MAX n \<and> b mod n = k} = {b. b < n * ?q \<and> b mod n = k}" by auto
  then show "card {b. b \<le> RAND_MAX \<and> b \<le> max_buffer_accept RAND_MAX n \<and> b mod n = k} = ?q"
    by (simp only: card_residues [OF k])
qed

lemma random_rand_uniform_witness:
  "random_rand ((!) [7, 5]) 7 6 0 = Some (5, 2) \<and>
     card {b. b \<le> 7 \<and> b \<le> max_buffer_accept 7 6 \<and> b mod 6 = 3} = Suc 0"
proof -
  have a: "max_buffer_accept 7 6 = 5" by (subst max_buffer_accept_eq) simp_all
  show ?thesis using random_rand_uniform [of 6 7 0 1 "(!) [7, 5]"] by (simp add: a less_Suc_eq)
qed

text \<open>
  A bound above the range of the generator: the loops that should join several numbers run once, so that
  outcomes from \<^verbatim>\<open>RAND_MAX + 1\<close> on never occur.
\<close>

lemma random_rand_truncated:
  assumes "RAND_MAX + 1 < n" and "RAND_MAX < 2 ^ 63" and "rand i \<le> RAND_MAX"
  shows "random_rand rand RAND_MAX n i = Some (rand i, i + 1)"
proof -
  have b: "max_buffer RAND_MAX n = RAND_MAX" using assms(1) by (simp add: max_buffer_def bits_of_pos)
  have "max_buffer_accept RAND_MAX n = 2 ^ 64 - 1"
    using assms(1,2) by (simp add: max_buffer_accept_def Let_def b size_sub_def)
  then show ?thesis using assms by (simp add: random_rand_def) (subst random_sample.simps, simp add: bits_of_pos)
qed

end
