(* ===== verification/TS_Generic.thy ===== *)
theory TS_Generic
  imports TS_Pages TS_Resource TS_Time
begin

text \<open>
  \<^verbatim>\<open>processor_generic\<close> of \<^verbatim>\<open>source/processor/generic.c\<close>: from the requested resource to a page
  in the syntax of the protocol and the language of the reader. The entries of the pages are in \<open>TS_Pages\<close>, the
  printers in \<open>TS_Page\<close>, the reading of the resource in \<open>TS_Resource\<close>.
\<close>

section \<open>What the pages show besides their text\<close>

text \<open>
  The tables of random facts of \<^verbatim>\<open>source/tables.c\<close> (an asset of 1271 sentences, of which no property
  depends), the time of the start and the present time.
\<close>

record almanac =
  fun_facts :: "byte list list"
  fun_facts_de :: "byte list list"
  startup_time :: int
  present_time :: int

section \<open>Sequences of prints\<close>

text \<open>\<^verbatim>\<open>PRET(f(c)); PRET(g(c)); ...\<close>\<close>

primrec run :: "page_step list \<Rightarrow> page_step" where
  "run [] c = Inr c"
| "run (f # fs) c = pret (f c) (run fs)"

primrec print_entries :: "site \<Rightarrow> nat \<Rightarrow> entry list \<Rightarrow> page_step" where
  "print_entries e a [] c = Inr c"
| "print_entries e a (x # xs) c =
     (case x of (style, ref, fmt, va) \<Rightarrow> pret (processor_print e a style ref fmt va c) (print_entries e a xs))"

definition by_language :: "page_step \<Rightarrow> page_step \<Rightarrow> page_step" where
  "by_language de en c = (if pc_language c = CHR ''d'' then de c else en c)"

section \<open>Parts that pages share\<close>

definition processor_generic_contact :: "site \<Rightarrow> nat \<Rightarrow> page_step" where
  "processor_generic_contact e a c = print_entries e a (contact_entries a (pc_language c)) c"

definition processor_generic_protocols :: "site \<Rightarrow> nat \<Rightarrow> page_step" where
  "processor_generic_protocols e a = print_entries e a protocols_entries"

definition processor_generic_header :: "site \<Rightarrow> nat \<Rightarrow> byte list \<Rightarrow> page_step" where
  "processor_generic_header e a res c =
     (let initial_language = pc_language c
      in pret (if initial_language \<noteq> CHR ''e''
               then processor_print e a ES_INTERNAL_REFERENCE res ''English version'' [] (c\<lparr>pc_language := CHR ''e''\<rparr>)
               else Inr c) (\<lambda>c.
         pret (if initial_language \<noteq> CHR ''d''
               then processor_print e a ES_INTERNAL_REFERENCE res ''Deutsche Version'' [] (c\<lparr>pc_language := CHR ''d''\<rparr>)
               else Inr c) (\<lambda>c.
         Inr (c\<lparr>pc_language := initial_language\<rparr>))))"

definition protocol_names :: "byte list list" where
  "protocol_names = [''HTTP'', ''HTTPS'', ''Gopher'', ''Finger'', ''Gemini'', ''Spartan'', ''Nex'', ''Text'', ''Guppy'']"

definition protocol_references :: "site \<Rightarrow> byte list list" where
  "protocol_references e =
     [''http://'' @ DOMAIN_NAME e @ HTTP_PORT_STRING e,
      ''https://'' @ DOMAIN_NAME e @ HTTPS_PORT_STRING e,
      ''gopher://'' @ DOMAIN_NAME e @ GOPHER_PORT_STRING e,
      ''finger://'' @ DOMAIN_NAME e @ FINGER_PORT_STRING e,
      ''gemini://'' @ DOMAIN_NAME e @ GEMINI_PORT_STRING e,
      ''spartan://'' @ DOMAIN_NAME e @ SPARTAN_PORT_STRING e,
      ''nex://'' @ DOMAIN_NAME e @ NEX_PORT_STRING e,
      ''text://'' @ DOMAIN_NAME e @ TEXT_PORT_STRING e,
      ''guppy://'' @ DOMAIN_NAME e @ GUPPY_PORT_STRING e]"

text \<open>The array \<^verbatim>\<open>selection\<close>: the protocols other than the one of the socket.\<close>

definition selection :: "nat \<Rightarrow> nat list" where
  "selection a =
     (if \<not> ACCEPTING_SOCKET_IS_HTTP a \<and> \<not> ACCEPTING_SOCKET_IS_HTTPS a then [0] else []) @
     (if \<not> ACCEPTING_SOCKET_IS_GOPHER a then [2] else []) @
     (if \<not> ACCEPTING_SOCKET_IS_FINGER a then [3] else []) @
     (if \<not> ACCEPTING_SOCKET_IS_GEMINI a then [4] else []) @
     (if \<not> ACCEPTING_SOCKET_IS_SPARTAN a then [5] else []) @
     (if \<not> ACCEPTING_SOCKET_IS_NEX a then [6] else []) @
     (if \<not> ACCEPTING_SOCKET_IS_TEXT a then [7] else []) @
     (if \<not> ACCEPTING_SOCKET_IS_GUPPY a then [8] else [])"

text \<open>
  The body of the loop of \<^verbatim>\<open>processor_generic_footer\<close>: what is left in the array of 64 bytes
  \<^verbatim>\<open>reference\<close>, without its terminator.
\<close>

definition footer_reference :: "site \<Rightarrow> byte list \<Rightarrow> byte list \<Rightarrow> byte list \<Rightarrow> nat \<Rightarrow> byte list" where
  "footer_reference e language_question_str language_slash_str res selected =
     (let question = ACCEPTING_SOCKET_IS_QUESTION (2 * selected);
          is_explicit = language_question_str \<noteq> [];
          gopher = (selected = 2);
          nex = (selected = 6);
          resource_nonempty = (res \<noteq> []);
          resource_language_nonempty = (resource_nonempty \<or> gopher \<or> is_explicit);
          resource_language_slash = (\<not> resource_nonempty \<and> \<not> gopher \<and> is_explicit \<and> \<not> question);
          begin_slash = (resource_language_nonempty \<and> \<not> resource_language_slash);
          end_slash = nex
      in protocol_references e ! selected @
         (if begin_slash then ''/'' else '''') @
         (if gopher then ''1'' else '''') @
         res @
         (if question then language_question_str else language_slash_str) @
         (if end_slash then ''/'' else ''''))"

definition footnote_str :: "char \<Rightarrow> byte list" where
  "footnote_str lang = (if lang = CHR ''d'' then ''Fu'' @ ss @ ''note'' else ''Footnote'')"

definition version_str :: "char \<Rightarrow> byte list" where
  "version_str lang =
     (if lang = CHR ''d''
      then ''Sie lesen die %s-Version dieser Seite. Diese Seite ist auch '' @ ue @
           ''ber %s, %s, %s, %s, %s, %s und %s verf'' @ ue @ ''gbar:''
      else ''You are reading the %s version of this page. This page is also available through %s, %s, %s, %s, %s, %s, and %s:'')"

definition why_str :: "char \<Rightarrow> byte list" where
  "why_str lang =
     (if lang = CHR ''d'' then ''Was sind diese Referenzen und warum kann ich sie nicht '' @ oe @ ''ffnen?''
      else ''What are those and why can't I open them'')"

definition back_str :: "char \<Rightarrow> byte list" where
  "back_str lang = (if lang = CHR ''d'' then ''Zur'' @ ue @ ''ck zur Startseite'' else ''Back to the index page'')"

definition updated_str :: "char \<Rightarrow> byte list" where
  "updated_str lang = (if lang = CHR ''d'' then ''Aktualisiert: 21. Juni 2026'' else ''Updated: 21 June 2026'')"

definition footer_entries :: "site \<Rightarrow> nat \<Rightarrow> char \<Rightarrow> char \<Rightarrow> byte list \<Rightarrow> entry list" where
  "footer_entries e a lang requested res =
     (let language_question_str = language_question lang requested CHR ''e'';
          language_slash_str = language_slash lang requested CHR ''e''
      in [(ES_LARGE, [], footnote_str lang, []),
          (ES_NORMAL, [], version_str lang,
           VA_text (protocol_names ! (a div 2)) # map (\<lambda>i. VA_text (protocol_names ! i)) (selection a))] @
         map (\<lambda>i. (ES_EXTERNAL_REFERENCE, footer_reference e language_question_str language_slash_str res i, ''%s'',
                   [VA_text (protocol_names ! i)])) (selection a) @
         [(ES_INTERNAL_REFERENCE, ''smolnet'', why_str lang, [])] @
         (if res \<noteq> [] then [(ES_INTERNAL_REFERENCE, [], back_str lang, [])] else []) @
         [(ES_NORMAL, [], updated_str lang, [])])"

definition processor_generic_footer :: "site \<Rightarrow> nat \<Rightarrow> byte list \<Rightarrow> page_step" where
  "processor_generic_footer e a res c =
     print_entries e a (footer_entries e a (pc_language c) (pc_requested_language c) res) c"

section \<open>The pages\<close>

definition index_page :: "site \<Rightarrow> almanac \<Rightarrow> nat \<Rightarrow> page_step" where
  "index_page e w a = run
     [processor_print e a ES_INITIALIZE [] [] [],
      by_language
        (run [processor_print e a ES_HEADER [] ''Kyrylos Website'' [],
              processor_generic_header e a '''',
              print_entries e a (index_de (fun_facts_de w ! site_random e (length (fun_facts_de w))))])
        (run [processor_print e a ES_HEADER [] ''Kyrylo's website'' [],
              processor_generic_header e a '''',
              print_entries e a (index_en (fun_facts w ! site_random e (length (fun_facts w))))]),
      processor_generic_footer e a '''',
      processor_print e a ES_FINALIZE [] [] []]"

definition about_page :: "site \<Rightarrow> nat \<Rightarrow> page_step" where
  "about_page e a = run
     [processor_print e a ES_INITIALIZE [] [] [],
      by_language
        (run [processor_print e a ES_HEADER [] (UE @ ''ber mich'') [], processor_generic_header e a ''about'',
              print_entries e a about_de])
        (run [processor_print e a ES_HEADER [] ''About me'' [], processor_generic_header e a ''about'',
              print_entries e a about_en]),
      processor_generic_footer e a ''about'',
      processor_print e a ES_FINALIZE [] [] []]"

definition twinkleshine_page :: "site \<Rightarrow> almanac \<Rightarrow> nat \<Rightarrow> page_step" where
  "twinkleshine_page e w a c =
     (let time_since_startup = time_to_string_uptime (startup_time w) (present_time w) (pc_language c)
      in run
        [processor_print e a ES_INITIALIZE [] [] [],
         processor_print e a ES_HEADER [] ''Twinkleshine'' [],
         processor_generic_header e a ''twinkleshine'',
         by_language
           (run [print_entries e a twinkleshine_de_intro, processor_generic_protocols e a,
                 print_entries e a (twinkleshine_de_plans time_since_startup)])
           (run [print_entries e a twinkleshine_en_intro, processor_generic_protocols e a,
                 print_entries e a (twinkleshine_en_plans time_since_startup)]),
         processor_generic_footer e a ''twinkleshine'',
         processor_print e a ES_FINALIZE [] [] []] c)"

definition smolnet_page :: "site \<Rightarrow> nat \<Rightarrow> page_step" where
  "smolnet_page e a = run
     [processor_print e a ES_INITIALIZE [] [] [],
      processor_print e a ES_HEADER [] ''SmolNet'' [],
      processor_generic_header e a ''smolnet'',
      by_language (print_entries e a (smolnet_de a)) (print_entries e a (smolnet_en a)),
      processor_generic_footer e a ''smolnet'',
      processor_print e a ES_FINALIZE [] [] []]"

definition contact_page :: "site \<Rightarrow> nat \<Rightarrow> page_step" where
  "contact_page e a = run
     [processor_print e a ES_INITIALIZE [] [] [],
      by_language (processor_print e a ES_HEADER [] ''Kontakt'' []) (processor_print e a ES_HEADER [] ''Contact information'' []),
      processor_generic_header e a ''contact'',
      processor_print e a ES_NORMAL [] ''Kyrylo Sovailo.'' [],
      processor_generic_contact e a,
      processor_generic_footer e a ''contact'',
      processor_print e a ES_FINALIZE [] [] []]"

definition projects_page :: "site \<Rightarrow> nat \<Rightarrow> page_step" where
  "projects_page e a = run
     [processor_print e a ES_INITIALIZE [] [] [],
      by_language
        (run [processor_print e a ES_HEADER [] ''Meine Projekte'' [], processor_generic_header e a ''projects'',
              print_entries e a projects_de])
        (run [processor_print e a ES_HEADER [] ''My projects'' [], processor_generic_header e a ''projects'',
              print_entries e a projects_en]),
      processor_generic_footer e a ''projects'',
      processor_print e a ES_FINALIZE [] [] []]"

definition resume_page :: "site \<Rightarrow> nat \<Rightarrow> page_step" where
  "resume_page e a = run
     [processor_print e a ES_INITIALIZE [] [] [],
      processor_print e a ES_HEADER [] ''Kyrylo Sovailo'' [],
      processor_generic_header e a ''resume'',
      processor_generic_contact e a,
      by_language (print_entries e a resume_de) (print_entries e a resume_en),
      processor_generic_footer e a ''resume'',
      processor_print e a ES_FINALIZE [] [] []]"

text \<open>The result: the context and \<^verbatim>\<open>*invalid_resource\<close>.\<close>

definition processor_generic ::
    "site \<Rightarrow> almanac \<Rightarrow> nat \<Rightarrow> memory \<Rightarrow> parts \<Rightarrow> page_context \<Rightarrow> (page_context \<times> bool) result" where
  "processor_generic e w a m res c =
     (let (normalized_resource, requested) =
            (if ACCEPTING_SOCKET_IS_QUESTION a
             then processor_generic_normalize_question m res (pc_requested_language c)
             else processor_generic_normalize_slash m res (pc_requested_language c));
          c = c\<lparr>pc_requested_language := requested, pc_language := page_language requested (language (pc_request c))\<rparr>;
          page = (\<lambda>step. pret (step c) (\<lambda>c. Inr (c, False)))
      in if value_compare_case_str m normalized_resource '''' then page (index_page e w a)
         else if value_compare_case_str m normalized_resource ''about'' then page (about_page e a)
         else if value_compare_case_str m normalized_resource ''twinkleshine'' then page (twinkleshine_page e w a)
         else if value_compare_case_str m normalized_resource ''smolnet'' then page (smolnet_page e a)
         else if value_compare_case_str m normalized_resource ''contact'' then page (contact_page e a)
         else if value_compare_case_str m normalized_resource ''projects'' then page (projects_page e a)
         else if value_compare_case_str m normalized_resource ''resume'' then page (resume_page e a)
         else Inr (c, True))"

end
