(* ===== verification/TS_Lines.thy ===== *)
theory TS_Lines
  imports TS_Generic
begin

text \<open>
  How the pages of \<open>TS_Generic\<close> are printed: a line is an entry together with the language its links ask
  for, and a step that draws lines adds their text to the buffer of the page. The rules follow the
  sequences of \<^verbatim>\<open>PRET(...)\<close> in \<^verbatim>\<open>source/processor/generic.c\<close>.
\<close>

section \<open>Formats of the pages\<close>

text \<open>The formats of the pages know \<^verbatim>\<open>%s\<close> and \<^verbatim>\<open>%%\<close> only.\<close>

fun simple_text :: "byte list \<Rightarrow> argument list \<Rightarrow> byte list option" where
  "simple_text [] va = Some []"
| "simple_text (c # f) va =
     (if c \<noteq> CHR ''%'' then map_option (Cons c) (simple_text f va)
      else case f of
        [] \<Rightarrow> None
      | d # f \<Rightarrow>
          if d = CHR ''%'' then map_option (Cons CHR ''%'') (simple_text f va)
          else if d = CHR ''s''
          then (case va of VA_text t # va \<Rightarrow> map_option (append t) (simple_text f va) | _ \<Rightarrow> None)
          else None)"

definition short_argument :: "argument \<Rightarrow> bool" where
  "short_argument v = (case v of VA_text t \<Rightarrow> length t < 2 ^ 31 | _ \<Rightarrow> False)"

lemma simple_text_plain: "CHR ''%'' \<notin> set p \<Longrightarrow> simple_text (p @ f) va = map_option (append p) (simple_text f va)"
  by (induction p; cases "simple_text f va") auto

lemma prints_percent:
  assumes "CHR ''%'' \<notin> set p" and "prints e fmt va t"
  shows "prints e (p @ CHR ''%'' # CHR ''%'' # fmt) va (p @ CHR ''%'' # t)"
  unfolding prints_def
proof (intro conjI allI)
  show "list_all plain_argument va" using assms(2) by (simp add: prints_def)
  fix n
  obtain rest where r: "format_text (site_printf e) fmt va (n + length p + 1) = Some (t, rest, [])"
    using assms(2) unfolding prints_def by blast
  have plain: "takeWhile (\<lambda>c. c \<noteq> CHR ''%'') (p @ CHR ''%'' # CHR ''%'' # fmt) = p"
    "dropWhile (\<lambda>c. c \<noteq> CHR ''%'') (p @ CHR ''%'' # CHR ''%'' # fmt) = CHR ''%'' # CHR ''%'' # fmt" using assms(1) by simp_all
  show "\<exists>rest. format_text (site_printf e) (p @ CHR ''%'' # CHR ''%'' # fmt) va n = Some (p @ CHR ''%'' # t, rest, [])"
    by (subst format_text.simps)
      (use r in \<open>simp add: plain peek_def Let_def numeral_2_eq_2 del: takeWhile_percent\<close>)
qed

lemma simple_text_prints:
  assumes "simple_text fmt va = Some t" and "list_all short_argument va" and "CHR ''%'' \<notin> set p"
  shows "prints e (p @ fmt) va (p @ t)"
  using assms
proof (induction fmt va arbitrary: p t rule: simple_text.induct)
  case (1 va)
  have "list_all plain_argument va" using 1(2) by (induction va) (auto simp: short_argument_def split: argument.splits)
  then show ?case using 1 by (simp add: prints_def format_plain)
next
  case (2 c f va)
  show ?case
  proof (cases "c = CHR ''%''")
    case False
    then obtain u where u: "simple_text f va = Some u" "t = c # u" using 2(4) by auto
    have "CHR ''%'' \<notin> set (p @ [c])" using False 2(6) by simp
    from 2(1) [OF False u(1) 2(5) this] show ?thesis using u(2) by simp
  next
    case True
    then obtain d g where f: "f = d # g" using 2(4) by (cases f) auto
    show ?thesis
    proof (cases "d = CHR ''%''")
      case percent: True
      then obtain u where u: "simple_text g va = Some u" "t = CHR ''%'' # u" using 2(4) True f by auto
      have "prints e ([] @ g) va ([] @ u)"
        using 2(2) [OF _ f percent u(1) 2(5), of "[]"] True by simp
      then show ?thesis using prints_percent [OF 2(6)] f True percent u(2) by simp
    next
      case other: False
      then have d: "d = CHR ''s''" using 2(4) True f by (auto split: if_splits)
      then obtain x va' u where va: "va = VA_text x # va'" and u: "simple_text g va' = Some u" "t = x @ u"
        using 2(4) True f other by (auto split: list.splits argument.splits)
      have short: "short_argument (VA_text x)" "list_all short_argument va'" using 2(5) va by simp_all
      then have length: "length x < 2 ^ 31" by (simp add: short_argument_def)
      have "prints e ([] @ g) va' ([] @ u)"
        using 2(3) [OF _ f other d va refl u(1) short(2), of "[]"] True by simp
      then show ?thesis using prints_s [OF 2(6) length] f True d va u(2) by simp
    qed
  qed
qed

section \<open>Lines\<close>

text \<open>An entry, and the language that is set while it is printed.\<close>

type_synonym line = "char \<times> entry"

definition said :: "char \<Rightarrow> entry list \<Rightarrow> line list" where
  "said lang = map (Pair lang)"

definition line_context :: "char \<Rightarrow> entry_style \<Rightarrow> page_context \<Rightarrow> page_context" where
  "line_context lang style c = c\<lparr>pc_language := lang, pc_list_index := next_index c style\<rparr>"

primrec lines_text :: "site \<Rightarrow> nat \<Rightarrow> page_context \<Rightarrow> line list \<Rightarrow> byte list" where
  "lines_text e a c [] = []"
| "lines_text e a c (l # ls) =
     (case l of (lang, style, ref, fmt, va) \<Rightarrow>
        page_entry_text e a (line_context lang style c) style ref (the (simple_text fmt va)) @
        lines_text e a ((line_context lang style c)\<lparr>pc_previous_style := style\<rparr>) ls)"

primrec after_lines :: "page_context \<Rightarrow> line list \<Rightarrow> page_context" where
  "after_lines c [] = c"
| "after_lines c (l # ls) =
     (case l of (lang, style, ref, fmt, va) \<Rightarrow> after_lines ((line_context lang style c)\<lparr>pc_previous_style := style\<rparr>) ls)"

definition line_ok :: "line \<Rightarrow> bool" where
  "line_ok l \<longleftrightarrow> (case l of (lang, style, ref, fmt, va) \<Rightarrow>
     is_entry style \<and> length ref < 2 ^ 31 \<and> list_all short_argument va \<and> simple_text fmt va \<noteq> None)"

lemma lines_append:
  "lines_text e a c (ls @ ks) = lines_text e a c ls @ lines_text e a (after_lines c ls) ks"
  "after_lines c (ls @ ks) = after_lines (after_lines c ls) ks"
  by (induction ls arbitrary: c) (simp_all split: prod.splits)

lemma entry_text_buffers [simp]:
  "page_entry_text e a (c\<lparr>pc_one := s\<rparr>) = page_entry_text e a c"
  "page_entry_text e a (c\<lparr>pc_two := s\<rparr>) = page_entry_text e a c"
  by (cases c; simp only: fun_eq_iff page_entry_text_def list_close_def http_entry_def gopher_entry_def finger_entry_def
      gemini_entry_def spartan_entry_def nex_entry_def text_entry_def guppy_entry_def gap_def entry_spaced_def
      question_of_def slash_of_def http_open_def page_context.update_convs page_context.select_convs simp_thms)+

lemma set_buffer_line [simp]:
  "line_context lang style (set_buffer a s c) = set_buffer a s (line_context lang style c)"
  "(set_buffer a s c)\<lparr>pc_previous_style := style\<rparr> = set_buffer a s (c\<lparr>pc_previous_style := style\<rparr>)"
  "(set_buffer a s c)\<lparr>pc_language := lang\<rparr> = set_buffer a s (c\<lparr>pc_language := lang\<rparr>)"
  "line_context lang style (c\<lparr>pc_language := lang'\<rparr>) = line_context lang style c"
  "page_entry_text e b (set_buffer a s c) = page_entry_text e b c"
  "pc_language (set_buffer a s c) = pc_language c"
  "pc_requested_language (set_buffer a s c) = pc_requested_language c"
  "pc_request (set_buffer a s c) = pc_request c"
  "page_buffer a (set_buffer a s c) = s"
  "set_buffer a s (set_buffer a s' c) = set_buffer a s c"
  by (simp_all add: line_context_def set_buffer_def next_index_def page_buffer_def)

lemma after_lines_fields [simp]:
  "pc_requested_language (after_lines c ls) = pc_requested_language c"
  "pc_request (after_lines c ls) = pc_request c"
  "pc_one (after_lines c ls) = pc_one c" "pc_two (after_lines c ls) = pc_two c"
  "pc_first_chunk (after_lines c ls) = pc_first_chunk c" "pc_chunk_number (after_lines c ls) = pc_chunk_number c"
  by (induction ls arbitrary: c) (simp_all add: line_context_def split: prod.splits)

lemma lines_buffer [simp]:
  "lines_text e a (set_buffer b s c) ls = lines_text e a c ls"
  "after_lines (set_buffer b s c) ls = set_buffer b s (after_lines c ls)"
  by (induction ls arbitrary: c) (simp_all split: prod.splits)

lemma lines_language [simp]:
  "lines_text e a (c\<lparr>pc_language := lang\<rparr>) ls = lines_text e a c ls"
  "(after_lines (c\<lparr>pc_language := lang\<rparr>) ls)\<lparr>pc_language := lang'\<rparr> = (after_lines c ls)\<lparr>pc_language := lang'\<rparr>"
  by (cases ls; simp split: prod.splits)+

section \<open>Steps that print lines\<close>

definition lines_ready :: "nat \<Rightarrow> page_context \<Rightarrow> line list \<Rightarrow> bool" where
  "lines_ready a c ls \<longleftrightarrow>
     (case ls of [] \<Rightarrow> string_inv (page_buffer a c) | (lang, style, ref, fmt, va) # _ \<Rightarrow> buffer_ready a c style)"

lemma lines_ready_inv: "string_inv (page_buffer a c) \<Longrightarrow> lines_ready a c ls"
  by (auto simp: lines_ready_def page_buffer_def buffer_ready_def entry_ready_def string_inv_shape split: list.splits if_splits)

lemma lines_ready_language [simp]:
  "lines_ready a (c\<lparr>pc_language := lang\<rparr>) ls = lines_ready a c ls"
  by (simp add: lines_ready_def page_buffer_def buffer_ready_def split: list.splits)

text \<open>
  A step that draws \<open>ls\<close>, from a context with this language and this request of a language: it fails, or
  adds the text of the lines to the buffer of the page and leaves the language as it was.
\<close>

definition draws :: "site \<Rightarrow> nat \<Rightarrow> char \<Rightarrow> char \<Rightarrow> page_step \<Rightarrow> line list \<Rightarrow> bool" where
  "draws e a lang req f ls \<longleftrightarrow>
     (\<forall>c x. pc_language c = lang \<longrightarrow> pc_requested_language c = req \<longrightarrow> lines_ready a c ls \<longrightarrow>
        string_bytes (page_buffer a c) = x \<longrightarrow> length (x @ lines_text e a c ls) + 40 < 2 ^ 62 \<longrightarrow>
        (\<exists>m. f c = Inl (Failed m)) \<or>
        (\<exists>s. f c = Inr (set_buffer a s ((after_lines c ls)\<lparr>pc_language := lang\<rparr>)) \<and> string_inv s \<and>
           string_bytes s = x @ lines_text e a c ls))"

lemma drawsE:
  assumes "draws e a lang req f ls" and "pc_language c = lang" and "pc_requested_language c = req" and "lines_ready a c ls"
    and "string_bytes (page_buffer a c) = x" and "length (x @ lines_text e a c ls) + 40 < 2 ^ 62"
  obtains (fail) m where "f c = Inl (Failed m)"
  | (ok) s where "f c = Inr (set_buffer a s ((after_lines c ls)\<lparr>pc_language := lang\<rparr>))" and "string_inv s"
      and "string_bytes s = x @ lines_text e a c ls"
  using assms unfolding draws_def by blast

lemma draws_cong:
  assumes "\<And>c. pc_language c = lang \<Longrightarrow> pc_requested_language c = req \<Longrightarrow> f c = g c" and "draws e a lang req g ls"
  shows "draws e a lang req f ls"
  using assms unfolding draws_def by simp

lemma draws_entry:
  assumes "site_ok e" and "line_ok (lang, style, ref, fmt, va)"
  shows "draws e a lang req (processor_print e a style ref fmt va) [(lang, style, ref, fmt, va)]"
  unfolding draws_def
proof (intro allI impI)
  fix c x
  assume c: "pc_language c = lang" "pc_requested_language c = req" "lines_ready a c [(lang, style, ref, fmt, va)]"
    "string_bytes (page_buffer a c) = x" "length (x @ lines_text e a c [(lang, style, ref, fmt, va)]) + 40 < 2 ^ 62"
  obtain t where t: "simple_text fmt va = Some t" using assms(2) by (auto simp: line_ok_def)
  have t': "prints e fmt va t" using simple_text_prints [OF t, of "[]"] assms(2) by (simp add: line_ok_def)
  let ?i = "next_index c style"
  have line: "line_context lang style c = c\<lparr>pc_list_index := ?i\<rparr>" using c(1) by (simp add: line_context_def)
  have after: "(after_lines c [(lang, style, ref, fmt, va)])\<lparr>pc_language := lang\<rparr> =
      c\<lparr>pc_list_index := ?i, pc_previous_style := style\<rparr>" using c(1) by (simp add: line)
  have set: "set_buffer a s (c\<lparr>pc_list_index := ?i, pc_previous_style := style\<rparr>) =
      (set_buffer a s c)\<lparr>pc_list_index := ?i, pc_previous_style := style\<rparr>" for s by (simp add: set_buffer_def)
  have printed: "lines_text e a c [(lang, style, ref, fmt, va)] = page_entry_text e a (c\<lparr>pc_list_index := ?i\<rparr>) style ref t"
    by (simp add: line t)
  show "(\<exists>m. processor_print e a style ref fmt va c = Inl (Failed m)) \<or>
      (\<exists>s. processor_print e a style ref fmt va c =
          Inr (set_buffer a s ((after_lines c [(lang, style, ref, fmt, va)])\<lparr>pc_language := lang\<rparr>)) \<and> string_inv s \<and>
         string_bytes s = x @ lines_text e a c [(lang, style, ref, fmt, va)])"
    unfolding after set printed
    by (rule processor_print_spec [OF assms(1) _ _ c(4) t'])
      (use assms(2) c(3,5) in \<open>simp_all add: line_ok_def lines_ready_def printed line t\<close>)
qed

lemma draws_Nil: "draws e a lang req Inr []"
proof -
  have "set_buffer a (page_buffer a c) c = c" for c by (simp add: set_buffer_def page_buffer_def)
  then show ?thesis unfolding draws_def lines_ready_def
    by (intro allI impI disjI2) (rule_tac x = "page_buffer a c" in exI, auto)
qed

text \<open>Steps one after the other. A first step without lines would need a terminated buffer.\<close>

lemma draws_pret:
  assumes "draws e a lang req f ls" and "draws e a lang req g ks" and "ls \<noteq> []"
  shows "draws e a lang req (\<lambda>c. pret (f c) g) (ls @ ks)"
  unfolding draws_def
proof (intro allI impI)
  fix c x
  assume c: "pc_language c = lang" "pc_requested_language c = req" "lines_ready a c (ls @ ks)"
    "string_bytes (page_buffer a c) = x" "length (x @ lines_text e a c (ls @ ks)) + 40 < 2 ^ 62"
  let ?goal = "(\<exists>m. pret (f c) g = Inl (Failed m)) \<or>
      (\<exists>s. pret (f c) g = Inr (set_buffer a s ((after_lines c (ls @ ks))\<lparr>pc_language := lang\<rparr>)) \<and> string_inv s \<and>
         string_bytes s = x @ lines_text e a c (ls @ ks))"
  have "lines_ready a c ls" using c(3) assms(3) by (cases ls) (simp_all add: lines_ready_def)
  then show ?goal
  proof (rule drawsE [OF assms(1) c(1,2) _ c(4)])
    show "length (x @ lines_text e a c ls) + 40 < 2 ^ 62" using c(5) by (simp add: lines_append)
  next
    fix m assume "f c = Inl (Failed m)"
    then show ?goal by simp
  next
    fix s
    assume s: "f c = Inr (set_buffer a s ((after_lines c ls)\<lparr>pc_language := lang\<rparr>))" "string_inv s"
      "string_bytes s = x @ lines_text e a c ls"
    let ?c = "set_buffer a s ((after_lines c ls)\<lparr>pc_language := lang\<rparr>)"
    show ?goal
      by (rule drawsE [OF assms(2), of ?c "x @ lines_text e a c ls"])
        (use c s in \<open>auto simp: lines_append intro: lines_ready_inv\<close>)
  qed
qed

lemma draws_run:
  "draws e a lang req (run []) []"
  "draws e a lang req f ls \<Longrightarrow> draws e a lang req (run fs) ks \<Longrightarrow> ls \<noteq> [] \<Longrightarrow> draws e a lang req (run (f # fs)) (ls @ ks)"
  using draws_cong [OF _ draws_Nil, where f = "run []"] draws_cong [OF _ draws_pret [of e a lang req f ls "run fs" ks], where f = "run (f # fs)"]
  by simp_all

lemma draws_entries:
  assumes "site_ok e" and "list_all line_ok (said lang es)"
  shows "draws e a lang req (print_entries e a es) (said lang es)"
  using assms(2)
proof (induction es)
  case Nil
  have "print_entries e a [] = Inr" by (simp add: fun_eq_iff)
  then show ?case using draws_Nil by (simp add: said_def del: print_entries.simps)
next
  case (Cons l es)
  obtain style ref fmt va where l: "l = (style, ref, fmt, va)" by (cases l) auto
  have "draws e a lang req (\<lambda>c. pret (processor_print e a style ref fmt va c) (print_entries e a es))
      ([(lang, style, ref, fmt, va)] @ said lang es)"
    by (rule draws_pret [OF draws_entry [OF assms(1)]]) (use Cons l in \<open>simp_all add: said_def\<close>)
  moreover have "print_entries e a (l # es) = (\<lambda>c. pret (processor_print e a style ref fmt va c) (print_entries e a es))"
    by (simp add: fun_eq_iff l)
  ultimately show ?case by (simp only:) (simp add: said_def l)
qed

lemma draws_language:
  assumes "lang = CHR ''d'' \<Longrightarrow> draws e a lang req de ls" and "lang \<noteq> CHR ''d'' \<Longrightarrow> draws e a lang req en ls"
  shows "draws e a lang req (by_language de en) ls"
  using assms by (cases "lang = CHR ''d''") (auto simp: by_language_def draws_def)

section \<open>Parts that pages share\<close>

definition header_lines :: "char \<Rightarrow> byte list \<Rightarrow> line list" where
  "header_lines lang name =
     (if lang \<noteq> CHR ''e'' then [(CHR ''e'', ES_INTERNAL_REFERENCE, name, ''English version'', [])] else []) @
     (if lang \<noteq> CHR ''d'' then [(CHR ''d'', ES_INTERNAL_REFERENCE, name, ''Deutsche Version'', [])] else [])"

lemma header_nonempty: "header_lines lang name \<noteq> []"
  by (auto simp: header_lines_def)

text \<open>A print with another language in between.\<close>

lemma draws_other:
  assumes "draws e a lang' req f ls"
  shows "draws e a lang req (\<lambda>c. pret (f (c\<lparr>pc_language := lang'\<rparr>)) (\<lambda>c. Inr (c\<lparr>pc_language := lang\<rparr>))) ls"
  unfolding draws_def
proof (intro allI impI)
  fix c x
  assume c: "pc_language c = lang" "pc_requested_language c = req" "lines_ready a c ls"
    "string_bytes (page_buffer a c) = x" "length (x @ lines_text e a c ls) + 40 < 2 ^ 62"
  let ?c = "c\<lparr>pc_language := lang'\<rparr>"
  have p: "page_buffer a ?c = page_buffer a c" by (simp add: page_buffer_def)
  show "(\<exists>m. pret (f ?c) (\<lambda>c. Inr (c\<lparr>pc_language := lang\<rparr>)) = Inl (Failed m)) \<or>
      (\<exists>s. pret (f ?c) (\<lambda>c. Inr (c\<lparr>pc_language := lang\<rparr>)) =
          Inr (set_buffer a s ((after_lines c ls)\<lparr>pc_language := lang\<rparr>)) \<and> string_inv s \<and>
         string_bytes s = x @ lines_text e a c ls)"
    by (rule drawsE [OF assms, of ?c x]) (use c in \<open>auto simp: p\<close>)
qed

lemma draws_header:
  assumes "site_ok e" and "length name < 2 ^ 31"
  shows "draws e a lang req (processor_generic_header e a name) (header_lines lang name)"
proof -
  define link where "link l t = (\<lambda>c. pret (processor_print e a ES_INTERNAL_REFERENCE name t [] (c\<lparr>pc_language := l\<rparr>))
    (\<lambda>c. Inr (c\<lparr>pc_language := lang\<rparr>)))" for l t
  have link: "draws e a lang req (link l t) [(l, ES_INTERNAL_REFERENCE, name, t, [])]"
    if "t = ''English version'' \<or> t = ''Deutsche Version''" for l t
    unfolding link_def
    by (rule draws_other [OF draws_entry [OF assms(1)]]) (use that assms(2) in \<open>auto simp: line_ok_def\<close>)
  consider "lang = CHR ''e''" | "lang = CHR ''d''" | "lang \<noteq> CHR ''e''" "lang \<noteq> CHR ''d''" by blast
  then show ?thesis
  proof cases
    case 1
    show ?thesis
      by (rule draws_cong [where g = "link (CHR ''d'') ''Deutsche Version''"])
        (use 1 link in \<open>simp_all add: processor_generic_header_def link_def header_lines_def Let_def\<close>)
  next
    case 2
    show ?thesis
      by (rule draws_cong [where g = "link (CHR ''e'') ''English version''"])
        (use 2 link in \<open>simp_all add: processor_generic_header_def link_def header_lines_def Let_def pret_def split: sum.splits\<close>)
  next
    case 3
    show ?thesis
      by (rule draws_cong [where g = "\<lambda>c. pret (link (CHR ''e'') ''English version'' c) (link (CHR ''d'') ''Deutsche Version'')"])
        (use 3 draws_pret [OF link link, of "''English version''" "''Deutsche Version''"] in
          \<open>auto simp: processor_generic_header_def link_def header_lines_def Let_def pret_def split: sum.splits\<close>)
  qed
qed

lemma draws_contact:
  assumes "site_ok e"
  shows "draws e a lang req (processor_generic_contact e a) (said lang (contact_entries a lang))"
  by (rule draws_cong [OF _ draws_entries [OF assms]])
    (simp_all add: processor_generic_contact_def contact_entries_def said_def line_ok_def short_argument_def Let_def)

lemma draws_protocols:
  assumes "site_ok e"
  shows "draws e a lang req (processor_generic_protocols e a) (said lang protocols_entries)"
  by (rule draws_cong [OF _ draws_entries [OF assms]])
    (simp_all add: processor_generic_protocols_def protocols_entries_def said_def line_ok_def)

lemma length_selection: "length (selection a) = 7"
  by (auto simp: selection_def accepting_socket_defs)

lemma selection_le: "i \<in> set (selection a) \<Longrightarrow> i < 9"
  by (auto simp: selection_def split: if_splits)

lemma length_ports:
  "length (HTTP_PORT_STRING e) \<le> (if site_release e then 0 else 6)"
  "length (HTTPS_PORT_STRING e) \<le> (if site_release e then 0 else 6)"
  "length (GOPHER_PORT_STRING e) \<le> (if site_release e then 0 else 6)"
  "length (FINGER_PORT_STRING e) \<le> (if site_release e then 0 else 6)"
  "length (GEMINI_PORT_STRING e) \<le> (if site_release e then 0 else 6)"
  "length (SPARTAN_PORT_STRING e) \<le> (if site_release e then 0 else 6)"
  "length (NEX_PORT_STRING e) \<le> (if site_release e then 0 else 6)"
  "length (TEXT_PORT_STRING e) \<le> (if site_release e then 0 else 6)"
  "length (GUPPY_PORT_STRING e) \<le> (if site_release e then 0 else 6)"
proof -
  have d: "length (decimal_text n) \<le> 5" if "n < 10 ^ 5" for n
    using length_base_digits [of 10 n 4 False] that by (simp add: base_digits_decimal)
  show "length (HTTP_PORT_STRING e) \<le> (if site_release e then 0 else 6)"
    "length (HTTPS_PORT_STRING e) \<le> (if site_release e then 0 else 6)"
    "length (GOPHER_PORT_STRING e) \<le> (if site_release e then 0 else 6)"
    "length (FINGER_PORT_STRING e) \<le> (if site_release e then 0 else 6)"
    "length (GEMINI_PORT_STRING e) \<le> (if site_release e then 0 else 6)"
    "length (SPARTAN_PORT_STRING e) \<le> (if site_release e then 0 else 6)"
    "length (NEX_PORT_STRING e) \<le> (if site_release e then 0 else 6)"
    "length (TEXT_PORT_STRING e) \<le> (if site_release e then 0 else 6)"
    "length (GUPPY_PORT_STRING e) \<le> (if site_release e then 0 else 6)"
    using d [of 8080] d [of 8443] d [of 8070] d [of 8079] d [of 9965] d [of 8300] d [of 9900] d [of 9961] d [of 14775]
    by (simp_all add: HTTP_PORT_STRING_def HTTP_PORT_def HTTPS_PORT_STRING_def HTTPS_PORT_def GOPHER_PORT_STRING_def
        GOPHER_PORT_def FINGER_PORT_STRING_def FINGER_PORT_def GEMINI_PORT_STRING_def GEMINI_PORT_def
        SPARTAN_PORT_STRING_def SPARTAN_PORT_def NEX_PORT_STRING_def NEX_PORT_def TEXT_PORT_STRING_def TEXT_PORT_def
        GUPPY_PORT_STRING_def GUPPY_PORT_def)
qed

lemma length_protocol_reference:
  assumes "i < 9"
  shows "length (protocol_references e ! i) \<le> 25"
proof -
  have d: "length (DOMAIN_NAME e) + (if site_release e then 0 else 6) \<le> 15" by (simp add: DOMAIN_NAME_def)
  consider "i = 0" | "i = 1" | "i = 2" | "i = 3" | "i = 4" | "i = 5" | "i = 6" | "i = 7" | "i = 8" using assms(1) by linarith
  then show ?thesis
    by cases (use d length_ports [of e] in \<open>simp_all add: protocol_references_def split: if_splits\<close>)
qed

lemma length_footer_reference:
  assumes "i < 9" and "length q \<le> 8" and "length s \<le> 3"
  shows "length (footer_reference e q s name i) \<le> 36 + length name"
proof -
  have "selected \<noteq> 2 \<or> \<not> ACCEPTING_SOCKET_IS_QUESTION (2 * selected)" for selected
    by (auto simp: ACCEPTING_SOCKET_IS_QUESTION_def accepting_socket_defs)
  then show ?thesis using length_protocol_reference [OF assms(1), of e] assms(2,3)
    by (auto simp: footer_reference_def Let_def)
qed

end
