(* ===== verification/TS_Site.thy ===== *)
theory TS_Site
  imports TS_Lines
begin

text \<open>
  What \<^verbatim>\<open>processor_generic\<close> of \<^verbatim>\<open>source/processor/generic.c\<close> answers, stated without buffers: the pages as lists
  of lines. Every internal link of every page leads to a page, and the references of the footer fit their
  array.
\<close>

section \<open>The site\<close>

text \<open>The title and the entries of the page of a name; what a name that is no page has is \<open>None\<close>.\<close>

definition site_page :: "site \<Rightarrow> almanac \<Rightarrow> nat \<Rightarrow> char \<Rightarrow> byte list \<Rightarrow> (byte list \<times> entry list) option" where
  "site_page e w a lang name =
     (let de = (lang = CHR ''d''); uptime = time_to_string_uptime (startup_time w) (present_time w) lang
      in if name = ''''
         then Some (if de then ''Kyrylos Website'' else ''Kyrylo's website'',
                    if de then index_de (fun_facts_de w ! site_random e (length (fun_facts_de w)))
                    else index_en (fun_facts w ! site_random e (length (fun_facts w))))
         else if name = ''about'' then Some (if de then UE @ ''ber mich'' else ''About me'', if de then about_de else about_en)
         else if name = ''twinkleshine''
         then Some (''Twinkleshine'',
                    if de then twinkleshine_de_intro @ protocols_entries @ twinkleshine_de_plans uptime
                    else twinkleshine_en_intro @ protocols_entries @ twinkleshine_en_plans uptime)
         else if name = ''smolnet'' then Some (''SmolNet'', if de then smolnet_de a else smolnet_en a)
         else if name = ''contact''
         then Some (if de then ''Kontakt'' else ''Contact information'',
                    (ES_NORMAL, [], ''Kyrylo Sovailo.'', []) # contact_entries a lang)
         else if name = ''projects'' then Some (if de then ''Meine Projekte'' else ''My projects'', if de then projects_de else projects_en)
         else if name = ''resume''
         then Some (''Kyrylo Sovailo'', contact_entries a lang @ (if de then resume_de else resume_en))
         else None)"

text \<open>All lines of a page: its title, the links to its other languages, its entries and the footer.\<close>

definition page_lines :: "site \<Rightarrow> almanac \<Rightarrow> nat \<Rightarrow> char \<Rightarrow> char \<Rightarrow> byte list \<Rightarrow> line list option" where
  "page_lines e w a lang requested name =
     map_option (\<lambda>(title, entries).
       (lang, ES_HEADER, [], title, []) # header_lines lang name @ said lang (entries @ footer_entries e a lang requested name))
       (site_page e w a lang name)"

definition page_names :: "byte list list" where
  "page_names = ['''', ''about'', ''twinkleshine'', ''smolnet'', ''contact'', ''projects'', ''resume'']"

lemma site_page_name: "site_page e w a lang name \<noteq> None \<longleftrightarrow> name \<in> set page_names"
  by (auto simp: site_page_def page_names_def Let_def)

lemma length_page_name: "name \<in> set page_names \<Longrightarrow> length name \<le> 12"
  by (auto simp: page_names_def)

section \<open>All formats can be printed\<close>

text \<open>A quick test for the formats without conversions.\<close>

primrec plain_format :: "byte list \<Rightarrow> bool" where
  "plain_format [] = True"
| "plain_format (c # f) = (if c = CHR ''%'' then False else plain_format f)"

lemma plain_format_append: "plain_format (p @ q) = (plain_format p \<and> plain_format q)"
  by (induction p) auto

lemma plain_format_text: "plain_format f \<Longrightarrow> simple_text f [] = Some f"
  by (induction f) (auto split: if_splits)

lemma plain_line_ok: "is_entry style \<Longrightarrow> length ref < 2 ^ 31 \<Longrightarrow> plain_format fmt \<Longrightarrow> line_ok (lang, style, ref, fmt, [])"
  by (auto simp: line_ok_def plain_format_text)

lemmas plain_format_simps = plain_format_append plain_format.simps char.inject simp_thms if_False

lemma length_references: "length (mozz_reference a) < 2147483648" "length (lagrange_reference a) < 2147483648"
  by (simp_all add: mozz_reference_def lagrange_reference_def)

lemmas lines_ok_simps = said_def list.map list.pred_inject

lemma page_entries_ok:
  "length t < 2 ^ 31 \<Longrightarrow> list_all line_ok (said lang (index_de t))"
  "length t < 2 ^ 31 \<Longrightarrow> list_all line_ok (said lang (index_en t))"
  "list_all line_ok (said lang about_de)" "list_all line_ok (said lang about_en)"
  unfolding index_de_def index_en_def about_de_def about_en_def lines_ok_simps
  by (intro conjI TrueI; ((rule plain_line_ok, simp, simp, simp only: plain_format_simps; fail) | simp add: line_ok_def short_argument_def))+

lemma twinkleshine_entries_ok:
  "list_all line_ok (said lang twinkleshine_de_intro)" "list_all line_ok (said lang twinkleshine_en_intro)"
  "length t < 2 ^ 31 \<Longrightarrow> list_all line_ok (said lang (twinkleshine_de_plans t))"
  "length t < 2 ^ 31 \<Longrightarrow> list_all line_ok (said lang (twinkleshine_en_plans t))"
  "list_all line_ok (said lang protocols_entries)"
  unfolding twinkleshine_de_intro_def twinkleshine_en_intro_def twinkleshine_de_plans_def twinkleshine_en_plans_def
    protocols_entries_def lines_ok_simps
  by (intro conjI TrueI; ((rule plain_line_ok, simp, simp, simp only: plain_format_simps; fail) | simp add: line_ok_def short_argument_def))+

lemma smolnet_entries_ok:
  "list_all line_ok (said lang (smolnet_de a))" "list_all line_ok (said lang (smolnet_en a))"
  unfolding smolnet_de_def smolnet_en_def lines_ok_simps
  by (intro conjI TrueI; ((rule plain_line_ok, simp, simp add: length_references, simp only: plain_format_simps; fail) | simp))+

lemma projects_entries_ok:
  "list_all line_ok (said lang projects_de)" "list_all line_ok (said lang projects_en)"
  unfolding projects_de_def projects_en_def lines_ok_simps
  by (intro conjI TrueI; ((rule plain_line_ok, simp, simp, simp only: plain_format_simps; fail) | simp))+

text \<open>The resume has a percent sign in two of its entries.\<close>

lemma resume_entries_ok:
  "list_all line_ok (said lang resume_de)" "list_all line_ok (said lang resume_en)"
  unfolding resume_de_def resume_en_def lines_ok_simps
  by (intro conjI TrueI; ((rule plain_line_ok, simp, simp, simp only: plain_format_simps; fail) | simp add: line_ok_def))+

lemma contact_entries_ok: "list_all line_ok (said lang (contact_entries a lang'))"
  by (simp add: said_def line_ok_def contact_entries_def short_argument_def Let_def)

lemma protocol_name:
  assumes "i < 9"
  shows "length (protocol_names ! i) \<le> 7"
proof -
  have "list_all (\<lambda>t. length t \<le> 7) protocol_names" by (simp add: protocol_names_def)
  moreover have "length protocol_names = 9" by (simp add: protocol_names_def)
  ultimately show ?thesis using assms by (simp add: list_all_length)
qed

lemma short_protocol_name: "i < 9 \<Longrightarrow> short_argument (VA_text (protocol_names ! i))"
  using protocol_name [of i] by (simp add: short_argument_def)

lemma simple_text_s: "simple_text (CHR ''%'' # CHR ''s'' # f) (VA_text t # va) = map_option (append t) (simple_text f va)"
  by simp

lemma version_text:
  assumes "length sel = 7"
  shows "simple_text (version_str lang) (VA_text t # map (\<lambda>i. VA_text (p i)) sel) \<noteq> None"
proof -
  obtain a b c d e f g where "sel = [a, b, c, d, e, f, g]"
    using assms by (auto simp: length_Suc_conv numeral_eq_Suc)
  then show ?thesis by (simp add: version_str_def)
qed

lemma footer_texts_ok:
  "line_ok (lang, ES_LARGE, [], footnote_str l, [])" "line_ok (lang, ES_INTERNAL_REFERENCE, ''smolnet'', why_str l, [])"
  "line_ok (lang, ES_INTERNAL_REFERENCE, [], back_str l, [])" "line_ok (lang, ES_NORMAL, [], updated_str l, [])"
  by (simp_all add: line_ok_def footnote_str_def why_str_def back_str_def updated_str_def)

lemma length_language_strings:
  "length (language_question lang r i) \<le> 8" "length (language_slash lang r i) \<le> 3"
  by (simp_all add: language_question_def language_slash_def Let_def)

lemma footer_entries_ok:
  assumes "a < 18" and "length name < 2 ^ 30"
  shows "list_all line_ok (said lang (footer_entries e a l requested name))"
proof -
  have "short_argument (VA_text (protocol_names ! (a div 2)))" using assms(1) by (intro short_protocol_name) simp
  then have "line_ok (lang, ES_NORMAL, [], version_str l,
      VA_text (protocol_names ! (a div 2)) # map (\<lambda>i. VA_text (protocol_names ! i)) (selection a))"
    using version_text [OF length_selection [of a]] selection_le
    by (auto simp: line_ok_def list_all_iff short_protocol_name)
  moreover have "line_ok (lang, ES_EXTERNAL_REFERENCE,
      footer_reference e (language_question l requested CHR ''e'') (language_slash l requested CHR ''e'') name i, ''%s'',
      [VA_text (protocol_names ! i)])" if "i \<in> set (selection a)" for i
    using length_footer_reference [OF selection_le [OF that] length_language_strings, of e l requested "CHR ''e''" l requested "CHR ''e''" name]
      short_protocol_name [OF selection_le [OF that]] assms(2)
    by (simp add: line_ok_def)
  ultimately show ?thesis
    using footer_texts_ok by (auto simp: footer_entries_def said_def Let_def list_all_iff)
qed

end
