(* ===== verification/TS_Answer.thy ===== *)
theory TS_Answer
  imports TS_Site
begin

text \<open>
  What \<^verbatim>\<open>processor_generic\<close> of \<^verbatim>\<open>source/processor/generic.c\<close> leaves in the two buffers of a page: what
  opens the page, its lines, and what closes it (the HTTP header with the length of the page, the datagrams of
  Guppy).
\<close>

section \<open>The two ends of a page\<close>

definition page_opening :: "nat \<Rightarrow> byte list" where
  "page_opening a =
     (if is_http a then html_open
      else if ACCEPTING_SOCKET_IS_GEMINI a then ''20 text/gemini'' @ CRLF
      else if ACCEPTING_SOCKET_IS_SPARTAN a then ''2 text/gemini'' @ CRLF
      else if ACCEPTING_SOCKET_IS_TEXT a then ''20 text/plain'' @ CRLF
      else if ACCEPTING_SOCKET_IS_GUPPY a then ''text/gemini'' @ CRLF
      else [])"

definition http_success_header :: "site \<Rightarrow> nat \<Rightarrow> bool \<Rightarrow> byte list" where
  "http_success_header e n keep =
     (let t = site_calendar e
      in ''HTTP/1.1 200 OK'' @ CRLF @
         ''Server: Twinkleshine'' @ CRLF @
         ''Cache-Control: no-cache, no-store, must-revalidate'' @ CRLF @
         ''Content-Type: text/html; charset=UTF-8'' @ CRLF @
         ''Content-Length: '' @ decimal_text n @ CRLF @
         ''Connection: '' @ (if keep then ''keep-alive'' else ''close'') @ CRLF @
         ''Date: '' @ days_xxx ! tm_wday t @ '', '' @ two_digits (tm_mday t) @ '' '' @ months_xxx ! tm_mon t @ '' '' @
         decimal_text (1900 + tm_year t) @ '' '' @ two_digits (tm_hour t) @ '':'' @ two_digits (tm_min t) @ '':'' @
         two_digits (tm_sec t) @ '' GMT'' @ CRLF @
         CRLF)"

text \<open>The whole answer of a page with this text between its opening and its end.\<close>

definition page_answer :: "site \<Rightarrow> nat \<Rightarrow> bool \<Rightarrow> byte list \<Rightarrow> byte list" where
  "page_answer e a keep t =
     (if is_http a then http_success_header e (length (t @ html_close)) keep @ t @ html_close
      else if ACCEPTING_SOCKET_IS_GUPPY a then concat (guppy_chunks (6 + site_random e 0x1000000) True t)
      else t)"

definition page_chunks :: "site \<Rightarrow> nat \<Rightarrow> page_context \<Rightarrow> byte list \<Rightarrow> nat \<times> nat" where
  "page_chunks e a c t =
     (if \<not> is_http a \<and> ACCEPTING_SOCKET_IS_GUPPY a
      then (6 + site_random e 0x1000000, length (guppy_chunks (6 + site_random e 0x1000000) True t))
      else (pc_first_chunk c, pc_chunk_number c))"

section \<open>The HTTP header\<close>

lemma prints_02d:
  assumes "CHR ''%'' \<notin> set p" and "n < 2 ^ 31" and "prints e fmt va t"
  shows "prints e (p @ CHR ''%'' # CHR ''0'' # CHR ''2'' # CHR ''d'' # fmt) (VA_uint n # va) (p @ two_digits n @ t)"
  unfolding prints_def
proof (intro conjI allI)
  show "list_all plain_argument (VA_uint n # va)" using assms(3) by (simp add: prints_def)
  have n: "unat (word_of_nat n :: 32 word) = n" using assms(2) by (simp add: unat_of_nat)
  fix k
  obtain rest where "format_text (site_printf e) fmt va (k + length p + length (two_digits n)) = Some (t, rest, [])"
    using assms(3) unfolding prints_def by blast
  then show "\<exists>rest. format_text (site_printf e) (p @ CHR ''%'' # CHR ''0'' # CHR ''2'' # CHR ''d'' # fmt) (VA_uint n # va) k =
      Some (p @ two_digits n @ t, rest, [])"
    using format_02d [OF assms(1), of "word_of_nat n"] assms(2)
    by (simp only: n print_after_simps append_assoc append_Nil) blast
qed

lemma prints_d:
  assumes "CHR ''%'' \<notin> set p" and "n < 2 ^ 31" and "prints e fmt va t"
  shows "prints e (p @ CHR ''%'' # CHR ''d'' # fmt) (VA_uint n # va) (p @ decimal_text n @ t)"
  unfolding prints_def
proof (intro conjI allI)
  show "list_all plain_argument (VA_uint n # va)" using assms(3) by (simp add: prints_def)
  have n: "unat (word_of_nat n :: 32 word) = n" using assms(2) by (simp add: unat_of_nat)
  fix k
  obtain rest where "format_text (site_printf e) fmt va (k + length p + length (decimal_text n)) = Some (t, rest, [])"
    using assms(3) unfolding prints_def by blast
  then show "\<exists>rest. format_text (site_printf e) (p @ CHR ''%'' # CHR ''d'' # fmt) (VA_uint n # va) k =
      Some (p @ decimal_text n @ t, rest, [])"
    using format_d [OF assms(1), of "word_of_nat n"] assms(2)
    by (simp only: n print_after_simps append_assoc append_Nil) blast
qed

lemma http_template_success_split:
  "http_template_success =
     (''HTTP/1.1 200 OK'' @ CRLF @ ''Server: Twinkleshine'' @ CRLF @ ''Cache-Control: no-cache, no-store, must-revalidate'' @ CRLF @
      ''Content-Type: text/html; charset=UTF-8'' @ CRLF @ ''Content-Length: '') @ CHR ''%'' # CHR ''u'' #
     ((CRLF @ ''Connection: '') @ CHR ''%'' # CHR ''s'' #
     ((CRLF @ ''Date: '') @ CHR ''%'' # CHR ''s'' # ('', '' @ CHR ''%'' # CHR ''0'' # CHR ''2'' # CHR ''d'' #
     ('' '' @ CHR ''%'' # CHR ''s'' # ('' '' @ CHR ''%'' # CHR ''d'' #
     ('' '' @ CHR ''%'' # CHR ''0'' # CHR ''2'' # CHR ''d'' # ('':'' @ CHR ''%'' # CHR ''0'' # CHR ''2'' # CHR ''d'' #
     ('':'' @ CHR ''%'' # CHR ''0'' # CHR ''2'' # CHR ''d'' # ('' GMT'' @ CRLF @ CRLF)))))))))"
  by (simp add: http_template_success_def)

lemma length_calendar_words:
  "i < 7 \<Longrightarrow> length (days_xxx ! i) < 2 ^ 31" "j < 12 \<Longrightarrow> length (months_xxx ! j) < 2 ^ 31"
proof -
  have "list_all (\<lambda>t. length t < 2 ^ 31) days_xxx" "list_all (\<lambda>t. length t < 2 ^ 31) months_xxx"
    "length days_xxx = 7" "length months_xxx = 12" by (simp_all add: days_xxx_def months_xxx_def)
  then show "i < 7 \<Longrightarrow> length (days_xxx ! i) < 2 ^ 31" "j < 12 \<Longrightarrow> length (months_xxx ! j) < 2 ^ 31"
    by (simp_all add: list_all_length)
qed

lemma prints_success:
  assumes "site_ok e" and "n < 2 ^ 32"
  shows "prints e http_template_success (success_arguments e n keep) (http_success_header e n keep)"
proof -
  let ?t = "site_calendar e"
  have t: "tm_sec ?t < 2 ^ 31" "tm_min ?t < 2 ^ 31" "tm_hour ?t < 2 ^ 31" "tm_mday ?t < 2 ^ 31" "tm_mon ?t < 12"
    "1900 + tm_year ?t < 2 ^ 31" "tm_wday ?t < 7"
    using assms(1) by (simp_all add: site_ok_def Let_def)
  have k: "length (if keep then ''keep-alive'' else ''close'') < 2 ^ 31" by simp
  have "prints e http_template_success (success_arguments e n keep)
     ((''HTTP/1.1 200 OK'' @ CRLF @ ''Server: Twinkleshine'' @ CRLF @ ''Cache-Control: no-cache, no-store, must-revalidate'' @ CRLF @
       ''Content-Type: text/html; charset=UTF-8'' @ CRLF @ ''Content-Length: '') @ decimal_text n @
      (CRLF @ ''Connection: '') @ (if keep then ''keep-alive'' else ''close'') @
      (CRLF @ ''Date: '') @ days_xxx ! tm_wday ?t @ '', '' @ two_digits (tm_mday ?t) @ '' '' @ months_xxx ! tm_mon ?t @
      '' '' @ decimal_text (1900 + tm_year ?t) @ '' '' @ two_digits (tm_hour ?t) @ '':'' @ two_digits (tm_min ?t) @
      '':'' @ two_digits (tm_sec ?t) @ ('' GMT'' @ CRLF @ CRLF))"
    unfolding http_template_success_split success_arguments_def Let_def
    by (intro prints_u prints_s prints_d prints_02d prints_plain assms(2) t k length_calendar_words) simp_all
  then show ?thesis by (simp only: http_success_header_def Let_def append_assoc)
qed

section \<open>Opening and closing\<close>

text \<open>The buffers between two pages: the second one may have lost its terminator.\<close>

definition buffers_ready :: "page_context \<Rightarrow> bool" where
  "buffers_ready c \<longleftrightarrow> string_inv (pc_one c) \<and> string_shape (pc_two c) \<and>
     length (string_bytes (pc_one c)) < 2 ^ 62 \<and> length (string_bytes (pc_two c)) < 2 ^ 62"

text \<open>After the opening, with the page in the buffer of the protocol.\<close>

definition opened :: "nat \<Rightarrow> page_context \<Rightarrow> page_context \<Rightarrow> bool" where
  "opened a c c' \<longleftrightarrow>
     c' = c\<lparr>pc_one := pc_one c', pc_two := pc_two c', pc_list_index := 0, pc_previous_style := ES_INITIALIZE\<rparr> \<and>
     (if is_http a then string_inv (pc_one c') \<and> string_inv (pc_two c') \<and> string_bytes (pc_two c') = page_opening a
      else entry_ready (pc_one c') ES_HEADER \<and> string_bytes (pc_one c') = page_opening a \<and>
        string_shape (pc_two c') \<and> cb_size (pc_two c') = 0)"

lemma empty_shape: "string_shape s \<Longrightarrow> string_shape (s\<lparr>cb_size := 0\<rparr>)"
  by (auto simp: string_shape_def cb_block_def)

lemma empty_bytes [simp]: "cb_size s = 0 \<Longrightarrow> string_bytes s = []"
  by (simp add: string_bytes_def)

lemma copy_opens:
  assumes "site_ok e" and "buffers_ready c" and "length t < 2 ^ 62"
  shows "(\<exists>m. one_copy e t c = Inl (Failed m)) \<or>
      (\<exists>s. one_copy e t c = Inr (c\<lparr>pc_one := s\<rparr>) \<and> string_inv s \<and> string_bytes s = t)"
    and "(\<exists>m. two_copy e t c = Inl (Failed m)) \<or>
      (\<exists>s. two_copy e t c = Inr (c\<lparr>pc_two := s\<rparr>) \<and> string_inv s \<and> string_bytes s = t)"
  using shape_copy_result [OF site_okD(1) [OF assms(1)], of "pc_one c" t] assms(2,3)
    string_invD(6) [of "pc_one c"] string_shapeD(6) [of "pc_two c"]
    shape_copy_result [OF site_okD(1) [OF assms(1)], of "pc_two c" t]
  by (auto simp: buffers_ready_def string_inv_shape string_result_def one_copy_def two_copy_def)

lemma print_initialize:
  assumes "site_ok e" and "buffers_ready c" and "pc_previous_style c = ES_INITIALIZE"
  shows "(\<exists>m. processor_print e a ES_INITIALIZE [] [] [] c = Inl (Failed m)) \<or>
    (\<exists>c'. processor_print e a ES_INITIALIZE [] [] [] c = Inr c' \<and> opened a c c')"
proof -
  let ?c = "c\<lparr>pc_list_index := 0\<rparr>"
  have ready: "buffers_ready ?c" using assms(2) by (simp add: buffers_ready_def)
  have shape: "string_shape ((pc_two c)\<lparr>cb_size := 0\<rparr>)" "entry_ready ((pc_one c)\<lparr>cb_size := 0\<rparr>) ES_HEADER"
    using assms(2) by (simp_all add: buffers_ready_def empty_shape string_inv_shape entry_ready_def)
  have http: "length html_open < 2 ^ 62" by (simp add: html_lengths)
  note copies = copy_opens [OF assms(1) ready]
  have "is_http a \<or> (\<not> is_http a \<and> (ACCEPTING_SOCKET_IS_GOPHER a \<or> ACCEPTING_SOCKET_IS_FINGER a \<or> ACCEPTING_SOCKET_IS_NEX a)) \<or>
      ACCEPTING_SOCKET_IS_GEMINI a \<or> ACCEPTING_SOCKET_IS_SPARTAN a \<or> ACCEPTING_SOCKET_IS_TEXT a \<or> ACCEPTING_SOCKET_IS_GUPPY a"
    unfolding accepting_socket_defs by linarith
  then consider (http) "is_http a" | (gopher) "\<not> is_http a" "ACCEPTING_SOCKET_IS_GOPHER a \<or> ACCEPTING_SOCKET_IS_FINGER a \<or> ACCEPTING_SOCKET_IS_NEX a"
    | (gemini) "ACCEPTING_SOCKET_IS_GEMINI a" | (spartan) "ACCEPTING_SOCKET_IS_SPARTAN a" | (plain) "ACCEPTING_SOCKET_IS_TEXT a"
    | (guppy) "ACCEPTING_SOCKET_IS_GUPPY a"
    by blast
  then show ?thesis
  proof cases
    case http
    then have "print_entry e a ES_INITIALIZE [] [] [] ?c = two_copy e html_open ?c"
      using assms(3) by (auto simp: print_entry_def processor_print_http_def)
    then show ?thesis using copies(2) [OF \<open>length html_open < 2 ^ 62\<close>] http assms(2)
      by (auto simp: processor_print_def opened_def page_opening_def buffers_ready_def)
  next
    case gopher
    then have "print_entry e a ES_INITIALIZE [] [] [] ?c = Inr (empty_both ?c)"
      using assms(3) by (auto simp: print_entry_def processor_print_gopher_def processor_print_finger_def
          processor_print_nex_def entry_spaced_def accepting_socket_defs)
    then show ?thesis using gopher shape
      by (auto simp: processor_print_def opened_def page_opening_def empty_both_def accepting_socket_defs)
  next
    case gemini
    then have "print_entry e a ES_INITIALIZE [] [] [] ?c = pret (one_copy e (''20 text/gemini'' @ CRLF) ?c) (\<lambda>c. Inr (empty_two c))"
      by (auto simp: print_entry_def processor_print_gemini_def accepting_socket_defs)
    then show ?thesis using copies(1) [of "''20 text/gemini'' @ CRLF"] gemini shape
      by (auto simp: processor_print_def opened_def page_opening_def empty_two_def accepting_socket_defs entry_ready_def string_inv_shape)
  next
    case spartan
    then have "print_entry e a ES_INITIALIZE [] [] [] ?c = pret (one_copy e (''2 text/gemini'' @ CRLF) ?c) (\<lambda>c. Inr (empty_two c))"
      by (auto simp: print_entry_def processor_print_spartan_def accepting_socket_defs)
    then show ?thesis using copies(1) [of "''2 text/gemini'' @ CRLF"] spartan shape
      by (auto simp: processor_print_def opened_def page_opening_def empty_two_def accepting_socket_defs entry_ready_def string_inv_shape)
  next
    case plain
    then have "print_entry e a ES_INITIALIZE [] [] [] ?c = pret (one_copy e (''20 text/plain'' @ CRLF) ?c) (\<lambda>c. Inr (empty_two c))"
      by (auto simp: print_entry_def processor_print_text_def accepting_socket_defs)
    then show ?thesis using copies(1) [of "''20 text/plain'' @ CRLF"] plain shape
      by (auto simp: processor_print_def opened_def page_opening_def empty_two_def accepting_socket_defs entry_ready_def string_inv_shape)
  next
    case guppy
    then have "print_entry e a ES_INITIALIZE [] [] [] ?c = pret (one_copy e (''text/gemini'' @ CRLF) ?c) (\<lambda>c. Inr (empty_two c))"
      by (auto simp: print_entry_def processor_print_guppy_def accepting_socket_defs)
    then show ?thesis using copies(1) [of "''text/gemini'' @ CRLF"] guppy shape
      by (auto simp: processor_print_def opened_def page_opening_def empty_two_def accepting_socket_defs entry_ready_def string_inv_shape)
  qed
qed

lemma length_two_digits: "n < 2 ^ 32 \<Longrightarrow> length (two_digits n) \<le> 11"
  using length_decimal_text_32 [of n] by (simp add: two_digits_def)

lemma length_success_header:
  assumes "site_ok e" and "n < 2 ^ 32"
  shows "length (http_success_header e n keep) + 40 < 2 ^ 61"
proof -
  let ?t = "site_calendar e"
  have t: "tm_sec ?t < 2 ^ 32" "tm_min ?t < 2 ^ 32" "tm_hour ?t < 2 ^ 32" "tm_mday ?t < 2 ^ 32" "tm_mon ?t < 12"
    "1900 + tm_year ?t < 2 ^ 32" "tm_wday ?t < 7"
    using assms(1) by (simp_all add: site_ok_def Let_def)
  show ?thesis
    using length_two_digits [OF t(1)] length_two_digits [OF t(2)] length_two_digits [OF t(3)] length_two_digits [OF t(4)]
      length_calendar_words(1) [OF t(7)] length_calendar_words(2) [OF t(5)] length_decimal_text_32 [OF t(6)]
      length_decimal_text_32 [OF assms(2)]
    by (simp add: http_success_header_def Let_def)
qed

lemma length_guppy_answer:
  assumes "site_ok e" and "length t < 2 ^ 31"
  shows "length (concat (guppy_chunks (6 + site_random e 0x1000000) True t)) < 2 ^ 62"
proof -
  let ?cs = "guppy_chunks (6 + site_random e 0x1000000) True t"
  have "6 + site_random e 0x1000000 + length t < 2 ^ 32" using assms by (simp add: site_ok_def)
  from guppy_chunks_facts [OF this, of True] have c: "length ?cs \<le> length t + 1" "\<forall>c\<in>set ?cs. length c \<le> CHUNK_SIZE" by blast+
  have "length (concat ?cs) \<le> length ?cs * CHUNK_SIZE" by (rule length_concat_le [OF c(2)])
  also have "\<dots> \<le> 2 ^ 31 * CHUNK_SIZE" using c(1) assms(2) by (intro mult_le_mono) simp_all
  also have "\<dots> < 2 ^ 62" by (simp add: CHUNK_SIZE_def)
  finally show ?thesis .
qed

text \<open>What an answer needs of a finished page, and what the next page starts from.\<close>

definition answers :: "site \<Rightarrow> nat \<Rightarrow> page_context \<Rightarrow> byte list \<Rightarrow> page_context \<Rightarrow> bool" where
  "answers e a c t c' \<longleftrightarrow>
     string_bytes (pc_one c') @ string_bytes (pc_two c') = page_answer e a (keep_alive (pc_request c)) t \<and>
     (pc_first_chunk c', pc_chunk_number c') = page_chunks e a c t \<and> buffers_ready c'"

lemma print_finalize_http:
  assumes "site_ok e" and "is_http a" and "string_inv (pc_one c)" and "string_inv (pc_two c)" and "string_bytes (pc_two c) = t"
    and "length t + 100 < 2 ^ 31" and "pc_previous_style c \<noteq> ES_ITEMIZE" and "pc_previous_style c \<noteq> ES_ENUMERATION"
  shows "(\<exists>m. processor_print e a ES_FINALIZE [] [] [] c = Inl (Failed m)) \<or>
    (\<exists>c'. processor_print e a ES_FINALIZE [] [] [] c = Inr c' \<and> answers e a c t c')"
proof -
  let ?c = "c\<lparr>pc_list_index := 0\<rparr>"
  have entry: "print_entry e a ES_FINALIZE [] [] [] ?c = pret (two_append e html_close ?c) (\<lambda>c.
     pret (string_print (site_printf e) (site_realloc e) (pc_one c) http_template_success
             (success_arguments e (cb_size (pc_two c)) (keep_alive (pc_request c)))) (\<lambda>s. Inr (c\<lparr>pc_one := s\<rparr>)))"
    using assms(2,7,8) by (auto simp: print_entry_def processor_print_http_def)
  have "two_result (two_append e html_close ?c) ?c (t @ html_close)"
    by (rule two_append_result [OF assms(1)]) (use assms in \<open>simp_all add: string_inv_shape html_lengths\<close>)
  then consider m where "two_append e html_close ?c = Inl (Failed m)"
    | s where "two_append e html_close ?c = Inr (?c\<lparr>pc_two := s\<rparr>)" "string_inv s" "string_bytes s = t @ html_close"
    by (auto simp: two_result_def)
  then show ?thesis
  proof cases
    case 1
    then show ?thesis by (simp add: processor_print_def entry)
  next
    case (2 s)
    let ?n = "cb_size s"
    have n: "?n = length (t @ html_close)" using string_invD(6) [OF 2(2)] 2(3) by simp
    then have small: "?n < 2 ^ 32" using assms(6) by (simp add: html_lengths)
    let ?keep = "keep_alive (pc_request c)"
    obtain rest where "list_all plain_argument (success_arguments e ?n ?keep)"
      "format_text (site_printf e) http_template_success (success_arguments e ?n ?keep) 0 = Some (http_success_header e ?n ?keep, rest, [])"
      using prints_success [OF assms(1) small] unfolding prints_def by blast
    from print_result [OF site_okD(1,2) [OF assms(1)] assms(3) this]
    have "string_result (string_print (site_printf e) (site_realloc e) (pc_one c) http_template_success
        (success_arguments e ?n ?keep)) (http_success_header e ?n ?keep)"
      using length_success_header [OF assms(1) small, of ?keep] by simp
    then show ?thesis
      using 2 assms(2) n small length_success_header [OF assms(1) small, of ?keep] string_invD(6)
      by (auto simp: processor_print_def entry string_result_def answers_def page_answer_def page_chunks_def buffers_ready_def
          string_inv_shape)
  qed
qed

lemma print_finalize_other:
  assumes "site_ok e" and "\<not> is_http a" and "string_inv (pc_one c)" and "string_shape (pc_two c)" and "cb_size (pc_two c) = 0"
    and "string_bytes (pc_one c) = t" and "length t + 100 < 2 ^ 31"
  shows "(\<exists>m. processor_print e a ES_FINALIZE [] [] [] c = Inl (Failed m)) \<or>
    (\<exists>c'. processor_print e a ES_FINALIZE [] [] [] c = Inr c' \<and> answers e a c t c')"
proof (cases "ACCEPTING_SOCKET_IS_GUPPY a")
  case True
  let ?c = "c\<lparr>pc_list_index := 0\<rparr>"
  have entry: "print_entry e a ES_FINALIZE [] [] [] ?c =
      pret (guppy_insert_markers (site_realloc e) (site_random e) (pc_one c)) (\<lambda>(s, first_chunk, chunk_number).
      Inr (?c\<lparr>pc_one := s, pc_first_chunk := first_chunk, pc_chunk_number := chunk_number\<rparr>))"
    using True by (simp add: print_entry_def processor_print_guppy_def accepting_socket_defs)
  have size: "cb_size (pc_one c) < 2 ^ 31" using assms(6,7) string_invD(6) [OF assms(3)] by simp
  have r: "site_random e 0x1000000 < 0x1000000" using assms(1) by (simp add: site_ok_def)
  note G = guppy_insert_markers_spec [of "pc_one c" "site_realloc e" "site_random e", OF assms(3) site_okD(1) [OF assms(1)] r size]
  show ?thesis
  proof (cases "guppy_insert_markers (site_realloc e) (site_random e) (pc_one c)")
    case (Inl err)
    then show ?thesis using G by (simp add: processor_print_def entry)
  next
    case (Inr x)
    then obtain s n k where x: "x = (s, n, k)" by (cases x) auto
    have len: "length (concat (guppy_chunks (6 + site_random e 0x1000000) True t)) < 2 ^ 62"
      by (rule length_guppy_answer [OF assms(1)]) (use assms(7) in simp)
    have s: "string_inv s" "string_bytes s = concat (guppy_chunks (6 + site_random e 0x1000000) True t)"
      "n = 6 + site_random e 0x1000000" "k = length (guppy_chunks (6 + site_random e 0x1000000) True t)"
      using G Inr x assms(6) by simp_all
    then show ?thesis using Inr x True assms(2,4,5) len string_invD(6) [OF s(1)]
      by (simp add: processor_print_def entry answers_def page_answer_def page_chunks_def buffers_ready_def)
  qed
next
  case False
  then have "ACCEPTING_SOCKET_IS_GOPHER a \<or> ACCEPTING_SOCKET_IS_FINGER a \<or> ACCEPTING_SOCKET_IS_GEMINI a \<or>
      ACCEPTING_SOCKET_IS_SPARTAN a \<or> ACCEPTING_SOCKET_IS_NEX a \<or> ACCEPTING_SOCKET_IS_TEXT a"
    using assms(2) unfolding accepting_socket_defs by linarith
  then have entry: "print_entry e a ES_FINALIZE [] [] [] (c\<lparr>pc_list_index := 0\<rparr>) = Inr (c\<lparr>pc_list_index := 0\<rparr>)"
    using assms(2) by (auto simp: print_entry_def processor_print_gopher_def processor_print_finger_def processor_print_nex_def
        processor_print_gemini_def processor_print_spartan_def processor_print_text_def entry_spaced_def)
  have "cb_size (pc_one c) < 2 ^ 31" using assms(6,7) string_invD(6) [OF assms(3)] by simp
  then show ?thesis using False assms
    by (simp add: processor_print_def entry answers_def page_answer_def page_chunks_def buffers_ready_def)
qed

section \<open>Whole pages\<close>

lemma run_append: "run (fs @ gs) c = pret (run fs c) (run gs)"
  by (induction fs arbitrary: c) (simp_all add: pret_def split: sum.splits)

definition first_context :: "page_context \<Rightarrow> page_context" where
  "first_context c = c\<lparr>pc_list_index := 0, pc_previous_style := ES_INITIALIZE\<rparr>"

lemma lines_buffers:
  "lines_text e a (c\<lparr>pc_one := s\<rparr>) ls = lines_text e a c ls" "lines_text e a (c\<lparr>pc_two := s\<rparr>) ls = lines_text e a c ls"
  using lines_buffer(1) [of e a 4 s c ls] lines_buffer(1) [of e a 0 s c ls]
  by (simp_all add: set_buffer_def accepting_socket_defs)

lemma after_lines_last:
  "pc_previous_style (after_lines c (ls @ [(lang, style, ref, fmt, va)])) = style"
  by (simp add: lines_append line_context_def)

lemma page_run:
  assumes "site_ok e" and "draws e a lang req (run steps) ((lang, ES_HEADER, ref, fmt, va) # ls @ [(lang, ES_NORMAL, ref', fmt', va')])"
    and "buffers_ready c" and "pc_previous_style c = ES_INITIALIZE" and "pc_language c = lang" and "pc_requested_language c = req"
    and "t = page_opening a @ lines_text e a (first_context c) ((lang, ES_HEADER, ref, fmt, va) # ls @ [(lang, ES_NORMAL, ref', fmt', va')])"
    and "length t + 100 < 2 ^ 31"
  shows "(\<exists>m. run (processor_print e a ES_INITIALIZE [] [] [] # steps @ [processor_print e a ES_FINALIZE [] [] []]) c = Inl (Failed m)) \<or>
    (\<exists>c'. run (processor_print e a ES_INITIALIZE [] [] [] # steps @ [processor_print e a ES_FINALIZE [] [] []]) c = Inr c' \<and>
      answers e a c t c')"
proof -
  define ks where "ks = (lang, ES_HEADER, ref, fmt, va) # ls @ [(lang, ES_NORMAL, ref', fmt', va')]"
  define page where "page = processor_print e a ES_INITIALIZE [] [] [] # steps @ [processor_print e a ES_FINALIZE [] [] []]"
  let ?goal = "(\<exists>m. run page c = Inl (Failed m)) \<or> (\<exists>c'. run page c = Inr c' \<and> answers e a c t c')"
  have ?goal
  proof (cases "processor_print e a ES_INITIALIZE [] [] [] c")
    case (Inl err)
    then show ?thesis using print_initialize [OF assms(1,3,4), of a] by (auto simp: page_def)
  next
    case (Inr c1)
    then have c1: "opened a c c1" using print_initialize [OF assms(1,3,4), of a] by simp
    have frame: "c1 = (first_context c)\<lparr>pc_one := pc_one c1, pc_two := pc_two c1\<rparr>"
      using c1 by (cases c) (simp add: opened_def first_context_def)
    have fields: "pc_language c1 = lang" "pc_requested_language c1 = req" "pc_request c1 = pc_request c"
      "pc_first_chunk c1 = pc_first_chunk c" "pc_chunk_number c1 = pc_chunk_number c"
      using assms(5,6) by (subst frame, simp add: first_context_def)+
    have ready: "lines_ready a c1 ks" "string_bytes (page_buffer a c1) = page_opening a"
      using c1 by (auto simp: opened_def lines_ready_def ks_def buffer_ready_def page_buffer_def split: if_splits)
    have drawn: "lines_text e a c1 ks = lines_text e a (first_context c) ks" by (subst frame) (simp add: lines_buffers)
    have t: "t = page_opening a @ lines_text e a c1 ks" using assms(7) [folded ks_def, folded drawn] .
    have size: "length (page_opening a @ lines_text e a c1 ks) + 40 < 2 ^ 62" using assms(8) by (simp add: t)
    show ?thesis
    proof (rule drawsE [OF assms(2) [folded ks_def] fields(1,2) ready size])
      fix m assume "run steps c1 = Inl (Failed m)"
      then show ?thesis by (simp add: page_def Inr run_append)
    next
      fix s
      let ?c2 = "set_buffer a s ((after_lines c1 ks)\<lparr>pc_language := lang\<rparr>)"
      assume s: "run steps c1 = Inr ?c2" "string_inv s" "string_bytes s = page_opening a @ lines_text e a c1 ks"
      have style: "pc_previous_style (after_lines c1 ks) = ES_NORMAL"
        unfolding ks_def using after_lines_last [of c1 "(lang, ES_HEADER, ref, fmt, va) # ls"] by simp
      have fin: "(\<exists>m. processor_print e a ES_FINALIZE [] [] [] ?c2 = Inl (Failed m)) \<or>
        (\<exists>c'. processor_print e a ES_FINALIZE [] [] [] ?c2 = Inr c' \<and> answers e a ?c2 t c')"
      proof (cases "is_http a")
        case True
        show ?thesis
          by (rule print_finalize_http [OF assms(1) True]) (use True c1 s(2,3) t assms(8) style in \<open>simp_all add: set_buffer_def opened_def\<close>)
      next
        case False
        show ?thesis
          by (rule print_finalize_other [OF assms(1) False]) (use False c1 s(2,3) t assms(8) in \<open>simp_all add: set_buffer_def opened_def\<close>)
      qed
      have same: "answers e a ?c2 t = answers e a c t"
        using fields by (simp add: fun_eq_iff answers_def page_chunks_def set_buffer_def)
      show ?thesis using fin s(1) by (auto simp: page_def Inr run_append same)
    qed
  qed
  then show ?thesis by (simp only: page_def)
qed

lemma said_append: "said lang (xs @ ys) = said lang xs @ said lang ys"
  by (simp add: said_def)

lemma draws_footer:
  assumes "site_ok e" and "a < 18" and "length name < 2 ^ 30"
  shows "draws e a lang req (processor_generic_footer e a name) (said lang (footer_entries e a lang req name))"
  by (rule draws_cong [OF _ draws_entries [OF assms(1) footer_entries_ok [OF assms(2,3)]]])
    (simp add: processor_generic_footer_def)

lemma draws_title:
  assumes "site_ok e" and "plain_format title"
  shows "draws e a lang req (processor_print e a ES_HEADER [] title []) [(lang, ES_HEADER, [], title, [])]"
  by (rule draws_entry [OF assms(1) plain_line_ok]) (use assms(2) in simp_all)

text \<open>The steps of a page between the two ends draw its lines.\<close>

definition almanac_ok :: "site \<Rightarrow> almanac \<Rightarrow> bool" where
  "almanac_ok e w \<longleftrightarrow>
     length (fun_facts w ! site_random e (length (fun_facts w))) < 2 ^ 31 \<and>
     length (fun_facts_de w ! site_random e (length (fun_facts_de w))) < 2 ^ 31"

lemma draws_eq: "draws e a lang req f ls \<Longrightarrow> ls = ks \<Longrightarrow> draws e a lang req f ks"
  by simp

lemmas draws_steps = draws_run draws_entries draws_header draws_title draws_footer draws_contact draws_protocols

lemma said_Nil_iff: "said lang xs = [] \<longleftrightarrow> xs = []"
  by (simp add: said_def)

lemma footer_nonempty: "footer_entries e a lang req name \<noteq> []"
  by (simp add: footer_entries_def Let_def)

lemma draws_body:
  assumes "site_ok e" and "length name < 2 ^ 30" and "plain_format title"
    and "draws e a lang req (run steps) (said lang entries)" and "entries \<noteq> []"
  shows "draws e a lang req (run [processor_print e a ES_HEADER [] title [], processor_generic_header e a name, run steps])
      ((lang, ES_HEADER, [], title, []) # header_lines lang name @ said lang entries)"
proof -
  have "draws e a lang req (run [processor_print e a ES_HEADER [] title [], processor_generic_header e a name, run steps])
      ([(lang, ES_HEADER, [], title, [])] @ header_lines lang name @ said lang entries @ [])"
    by (intro draws_run draws_title draws_header assms) (use assms in \<open>simp_all add: header_nonempty said_Nil_iff\<close>)
  then show ?thesis by simp
qed

lemma draws_page:
  assumes "site_ok e" and "a < 18" and "length name < 2 ^ 30"
    and "draws e a lang req f ((lang, ES_HEADER, [], title, []) # header_lines lang name @ said lang entries)"
  shows "draws e a lang req (run [f, processor_generic_footer e a name])
      ((lang, ES_HEADER, [], title, []) # header_lines lang name @ said lang (entries @ footer_entries e a lang req name))"
  using draws_run(2) [OF assms(4) draws_run(2) [OF draws_footer [OF assms(1-3)] draws_run(1)]]
  by (simp add: said_append said_Nil_iff footer_nonempty)

text \<open>Sequences may be grouped.\<close>

lemma pret_assoc: "pret (pret r f) g = pret r (\<lambda>x. pret (f x) g)"
  by (cases r) simp_all

lemma pret_Inr: "pret r Inr = r"
  by (cases r) simp_all

lemma run_exts: "run [] = Inr" "run (f # fs) = (\<lambda>c. pret (f c) (run fs))" "run (fs @ gs) = (\<lambda>c. pret (run fs c) (run gs))"
  by (simp_all add: fun_eq_iff run_append)

lemma draws_step: "draws e a lang req f ls \<Longrightarrow> draws e a lang req (run [f]) ls"
  by (simp only: run_exts pret_Inr)

lemma plain_titles:
  "plain_format ''Kyrylos Website''" "plain_format ''Kyrylo's website''" "plain_format (UE @ ''ber mich'')"
  "plain_format ''About me''" "plain_format ''Twinkleshine''" "plain_format ''SmolNet''" "plain_format ''Kontakt''"
  "plain_format ''Contact information''" "plain_format ''Meine Projekte''" "plain_format ''My projects''"
  "plain_format ''Kyrylo Sovailo''"
  by simp_all

lemma uptime_short: "length (time_to_string_uptime startup now lang) < 2 ^ 31"
proof -
  have d: "length (decimal_text (n mod 2 ^ 32)) \<le> 10" "length (decimal_text (n mod 2 ^ 32 mod k)) \<le> 10" if "0 < k" for n k :: nat
  proof -
    have "n mod 2 ^ 32 < 2 ^ 32" by simp
    moreover have "n mod 2 ^ 32 mod k \<le> n mod 2 ^ 32" by simp
    ultimately show "length (decimal_text (n mod 2 ^ 32)) \<le> 10" "length (decimal_text (n mod 2 ^ 32 mod k)) \<le> 10"
      using length_decimal_text_32 by (meson le_less_trans)+
  qed
  define difference where "difference = (if now < startup then 0 else nat (now - startup))"
  define days where "days = (difference div DAY) mod 2 ^ 32"
  define hours where "hours = (difference div HOUR) mod 2 ^ 32 mod 24"
  define minutes where "minutes = (difference div MINUTE) mod 2 ^ 32 mod 60"
  define seconds where "seconds = (difference div SECOND) mod 2 ^ 32 mod 60"
  have "length (decimal_text days) \<le> 10" "length (decimal_text hours) \<le> 10" "length (decimal_text minutes) \<le> 10"
    "length (decimal_text seconds) \<le> 10"
    using d(1) [of 1] d(2) [of 24] d(2) [of 60] by (simp_all add: days_def hours_def minutes_def seconds_def)
  moreover have "length (days_str lang days) \<le> 4" "length (hours_str lang hours) \<le> 7" "length (minutes_str lang minutes) \<le> 7"
    "length (seconds_str lang seconds) \<le> 8" "length (and_str lang) \<le> 5" "length (serial_and_str lang) \<le> 6"
    by (rule word_lengths)+
  ultimately show ?thesis
    unfolding time_to_string_uptime_def Let_def difference_def [symmetric] days_def [symmetric] hours_def [symmetric]
      minutes_def [symmetric] seconds_def [symmetric]
    by simp
qed

text \<open>A page whose body draws what \<open>site_page\<close> tells, with its footer.\<close>

lemma draws_site_page:
  assumes "site_ok e" and "a < 18" and "length name < 2 ^ 30" and "site_page e w a lang name = Some (title, entries)"
    and "draws e a lang req f ((lang, ES_HEADER, [], title, []) # header_lines lang name @ said lang entries)"
  shows "draws e a lang req (run [f, processor_generic_footer e a name]) (the (page_lines e w a lang req name))"
  using draws_page [OF assms(1-3,5)] by (simp add: page_lines_def assms(4))

lemma draws_listed:
  assumes "site_ok e" and "length name < 2 ^ 30" and "plain_format title" and "list_all line_ok (said lang entries)" and "entries \<noteq> []"
  shows "draws e a lang req (run [processor_print e a ES_HEADER [] title [], processor_generic_header e a name, print_entries e a entries])
      ((lang, ES_HEADER, [], title, []) # header_lines lang name @ said lang entries)"
  using draws_body [OF assms(1-3) draws_step [OF draws_entries [OF assms(1,4)]] assms(5)] by (simp only: run_exts pret_Inr)

lemma entries_nonempty:
  "index_de t \<noteq> []" "index_en t \<noteq> []" "about_de \<noteq> []" "about_en \<noteq> []" "twinkleshine_de_intro \<noteq> []" "twinkleshine_en_intro \<noteq> []"
  "smolnet_de a \<noteq> []" "smolnet_en a \<noteq> []" "projects_de \<noteq> []" "projects_en \<noteq> []" "contact_entries a lang \<noteq> []" "protocols_entries \<noteq> []"
  by (simp_all add: index_de_def index_en_def about_de_def about_en_def twinkleshine_de_intro_def twinkleshine_en_intro_def
      smolnet_de_def smolnet_en_def projects_de_def projects_en_def contact_entries_def protocols_entries_def Let_def)

lemma draws_listed_language:
  assumes "site_ok e" and "length name < 2 ^ 30" and "plain_format t1" and "plain_format t2"
    and "list_all line_ok (said lang e1)" and "list_all line_ok (said lang e2)" and "e1 \<noteq> []" and "e2 \<noteq> []"
  shows "draws e a lang req
     (by_language
        (run [processor_print e a ES_HEADER [] t1 [], processor_generic_header e a name, print_entries e a e1])
        (run [processor_print e a ES_HEADER [] t2 [], processor_generic_header e a name, print_entries e a e2]))
     ((lang, ES_HEADER, [], if lang = CHR ''d'' then t1 else t2, []) # header_lines lang name @
      said lang (if lang = CHR ''d'' then e1 else e2))"
  using draws_listed [OF assms(1-3,5,7)] draws_listed [OF assms(1,2,4,6,8)] by (intro draws_language) simp_all

text \<open>The body of a page stands between the two ends and draws its lines.\<close>

definition page_draws :: "site \<Rightarrow> almanac \<Rightarrow> nat \<Rightarrow> char \<Rightarrow> char \<Rightarrow> byte list \<Rightarrow> page_step \<Rightarrow> bool" where
  "page_draws e w a lang req name page \<longleftrightarrow>
     (\<exists>steps. (\<forall>c. pc_language c = lang \<longrightarrow>
         page c = run (processor_print e a ES_INITIALIZE [] [] [] # steps @ [processor_print e a ES_FINALIZE [] [] []]) c) \<and>
       draws e a lang req (run steps) (the (page_lines e w a lang req name)))"

lemma page_drawsI:
  assumes "\<And>c. pc_language c = lang \<Longrightarrow> page c = run (processor_print e a ES_INITIALIZE [] [] [] # steps @ [processor_print e a ES_FINALIZE [] [] []]) c"
    and "draws e a lang req (run steps) (the (page_lines e w a lang req name))"
  shows "page_draws e w a lang req name page"
  unfolding page_draws_def using assms by blast

lemma index_draws:
  assumes "site_ok e" and "a < 18" and "almanac_ok e w"
  shows "page_draws e w a lang req '''' (index_page e w a)"
proof (rule page_drawsI)
  show "index_page e w a c = run (processor_print e a ES_INITIALIZE [] [] [] # [by_language
        (run [processor_print e a ES_HEADER [] ''Kyrylos Website'' [],
              processor_generic_header e a '''',
              print_entries e a (index_de (fun_facts_de w ! site_random e (length (fun_facts_de w))))])
        (run [processor_print e a ES_HEADER [] ''Kyrylo's website'' [],
              processor_generic_header e a '''',
              print_entries e a (index_en (fun_facts w ! site_random e (length (fun_facts w))))]),
      processor_generic_footer e a ''''] @ [processor_print e a ES_FINALIZE [] [] []]) c" for c
    by (simp only: index_page_def append.simps)
qed (rule draws_site_page [OF assms(1,2) _ _ draws_listed_language];
  use assms in \<open>simp add: site_page_def plain_titles almanac_ok_def page_entries_ok entries_nonempty Let_def\<close>)

lemma about_draws:
  assumes "site_ok e" and "a < 18"
  shows "page_draws e w a lang req ''about'' (about_page e a)"
proof (rule page_drawsI)
  show "about_page e a c = run (processor_print e a ES_INITIALIZE [] [] [] # [by_language
        (run [processor_print e a ES_HEADER [] (UE @ ''ber mich'') [], processor_generic_header e a ''about'',
              print_entries e a about_de])
        (run [processor_print e a ES_HEADER [] ''About me'' [], processor_generic_header e a ''about'',
              print_entries e a about_en]),
      processor_generic_footer e a ''about''] @ [processor_print e a ES_FINALIZE [] [] []]) c" for c
    by (simp only: about_page_def append.simps)
qed (rule draws_site_page [OF assms(1,2) _ _ draws_listed_language];
  use assms in \<open>simp add: site_page_def plain_titles page_entries_ok entries_nonempty Let_def\<close>)

lemma projects_draws:
  assumes "site_ok e" and "a < 18"
  shows "page_draws e w a lang req ''projects'' (projects_page e a)"
proof (rule page_drawsI)
  show "projects_page e a c = run (processor_print e a ES_INITIALIZE [] [] [] # [by_language
        (run [processor_print e a ES_HEADER [] ''Meine Projekte'' [], processor_generic_header e a ''projects'',
              print_entries e a projects_de])
        (run [processor_print e a ES_HEADER [] ''My projects'' [], processor_generic_header e a ''projects'',
              print_entries e a projects_en]),
      processor_generic_footer e a ''projects''] @ [processor_print e a ES_FINALIZE [] [] []]) c" for c
    by (simp only: projects_page_def append.simps)
qed (rule draws_site_page [OF assms(1,2) _ _ draws_listed_language];
  use assms in \<open>simp add: site_page_def plain_titles projects_entries_ok entries_nonempty Let_def\<close>)

text \<open>Pages whose steps are not grouped by the language.\<close>

lemma draws_open_page:
  assumes "site_ok e" and "a < 18" and "length name < 2 ^ 30" and "site_page e w a lang name = Some (title, entries)"
    and "plain_format title" and "draws e a lang req (run steps) (said lang entries)" and "entries \<noteq> []"
  shows "draws e a lang req
      (run (processor_print e a ES_HEADER [] title [] # processor_generic_header e a name # steps @ [processor_generic_footer e a name]))
      (the (page_lines e w a lang req name))"
proof -
  have "run (processor_print e a ES_HEADER [] title [] # processor_generic_header e a name # steps @ [processor_generic_footer e a name]) =
      run [run [processor_print e a ES_HEADER [] title [], processor_generic_header e a name, run steps], processor_generic_footer e a name]"
    by (simp only: run_exts pret_assoc pret_Inr)
  then show ?thesis
    using draws_site_page [OF assms(1-4) draws_body [OF assms(1,3,5-7)]] by (simp only:)
qed

lemma draws_three:
  assumes "draws e a lang req f (said lang xs)" and "draws e a lang req g (said lang ys)" and "draws e a lang req h (said lang zs)"
    and "xs \<noteq> []" and "ys \<noteq> []" and "zs \<noteq> []"
  shows "draws e a lang req (run [f, g, h]) (said lang (xs @ ys @ zs))"
  using draws_run(2) [OF assms(1) draws_run(2) [OF assms(2) draws_run(2) [OF assms(3) draws_run(1)]]] assms(4-6)
  by (simp add: said_append said_Nil_iff)

lemma draws_two:
  assumes "draws e a lang req f (said lang xs)" and "draws e a lang req g (said lang ys)" and "xs \<noteq> []" and "ys \<noteq> []"
  shows "draws e a lang req (run [f, g]) (said lang (xs @ ys))"
  using draws_run(2) [OF assms(1) draws_run(2) [OF assms(2) draws_run(1)]] assms(3,4)
  by (simp add: said_append said_Nil_iff)

lemma plans_nonempty: "twinkleshine_de_plans t \<noteq> []" "twinkleshine_en_plans t \<noteq> []" "resume_de \<noteq> []" "resume_en \<noteq> []"
  by (simp_all add: twinkleshine_de_plans_def twinkleshine_en_plans_def resume_de_def resume_en_def)

lemma draws_names:
  "length ''about'' < 2 ^ 30" "length ''twinkleshine'' < 2 ^ 30" "length ''smolnet'' < 2 ^ 30" "length ''contact'' < 2 ^ 30"
  "length ''projects'' < 2 ^ 30" "length ''resume'' < 2 ^ 30" "length '''' < 2 ^ 30"
  by simp_all

lemma twinkleshine_draws:
  assumes "site_ok e" and "a < 18"
  shows "page_draws e w a lang req ''twinkleshine'' (twinkleshine_page e w a)"
proof -
  let ?t = "time_to_string_uptime (startup_time w) (present_time w) lang"
  let ?body = "by_language
    (run [print_entries e a twinkleshine_de_intro, processor_generic_protocols e a, print_entries e a (twinkleshine_de_plans ?t)])
    (run [print_entries e a twinkleshine_en_intro, processor_generic_protocols e a, print_entries e a (twinkleshine_en_plans ?t)])"
  let ?de = "twinkleshine_de_intro @ protocols_entries @ twinkleshine_de_plans ?t"
  let ?en = "twinkleshine_en_intro @ protocols_entries @ twinkleshine_en_plans ?t"
  have "draws e a lang req ?body (said lang (if lang = CHR ''d'' then ?de else ?en))"
    using draws_three [OF draws_entries [OF assms(1) twinkleshine_entries_ok(1)] draws_protocols [OF assms(1)]
        draws_entries [OF assms(1) twinkleshine_entries_ok(3) [OF uptime_short]] entries_nonempty(5,12) plans_nonempty(1)]
      draws_three [OF draws_entries [OF assms(1) twinkleshine_entries_ok(2)] draws_protocols [OF assms(1)]
        draws_entries [OF assms(1) twinkleshine_entries_ok(4) [OF uptime_short]] entries_nonempty(6,12) plans_nonempty(2)]
    by (intro draws_language) simp_all
  note body = draws_step [OF this]
  show ?thesis
  proof (rule page_drawsI)
    fix c :: page_context assume "pc_language c = lang"
    then show "twinkleshine_page e w a c = run (processor_print e a ES_INITIALIZE [] [] [] #
        (processor_print e a ES_HEADER [] ''Twinkleshine'' [] # processor_generic_header e a ''twinkleshine'' # [?body] @
         [processor_generic_footer e a ''twinkleshine'']) @ [processor_print e a ES_FINALIZE [] [] []]) c"
      by (simp only: twinkleshine_page_def Let_def append.simps)
  next
    show "draws e a lang req (run (processor_print e a ES_HEADER [] ''Twinkleshine'' [] #
        processor_generic_header e a ''twinkleshine'' # [?body] @ [processor_generic_footer e a ''twinkleshine'']))
        (the (page_lines e w a lang req ''twinkleshine''))"
      by (rule draws_open_page [OF assms draws_names(2) _ plain_titles(5) body])
        (simp_all add: site_page_def Let_def entries_nonempty)
  qed
qed

lemma smolnet_draws:
  assumes "site_ok e" and "a < 18"
  shows "page_draws e w a lang req ''smolnet'' (smolnet_page e a)"
proof -
  let ?body = "by_language (print_entries e a (smolnet_de a)) (print_entries e a (smolnet_en a))"
  have "draws e a lang req ?body (said lang (if lang = CHR ''d'' then smolnet_de a else smolnet_en a))"
    using draws_entries [OF assms(1) smolnet_entries_ok(1)] draws_entries [OF assms(1) smolnet_entries_ok(2)]
    by (intro draws_language) simp_all
  note body = draws_step [OF this]
  show ?thesis
  proof (rule page_drawsI)
    show "smolnet_page e a c = run (processor_print e a ES_INITIALIZE [] [] [] #
        (processor_print e a ES_HEADER [] ''SmolNet'' [] # processor_generic_header e a ''smolnet'' # [?body] @
         [processor_generic_footer e a ''smolnet'']) @ [processor_print e a ES_FINALIZE [] [] []]) c" for c
      by (simp only: smolnet_page_def append.simps)
    show "draws e a lang req (run (processor_print e a ES_HEADER [] ''SmolNet'' [] #
        processor_generic_header e a ''smolnet'' # [?body] @ [processor_generic_footer e a ''smolnet'']))
        (the (page_lines e w a lang req ''smolnet''))"
      by (rule draws_open_page [OF assms draws_names(3) _ plain_titles(6) body])
        (simp_all add: site_page_def Let_def entries_nonempty)
  qed
qed

lemma resume_draws:
  assumes "site_ok e" and "a < 18"
  shows "page_draws e w a lang req ''resume'' (resume_page e a)"
proof -
  let ?body = "by_language (print_entries e a resume_de) (print_entries e a resume_en)"
  have "draws e a lang req ?body (said lang (if lang = CHR ''d'' then resume_de else resume_en))"
    using draws_entries [OF assms(1) resume_entries_ok(1)] draws_entries [OF assms(1) resume_entries_ok(2)]
    by (intro draws_language) simp_all
  from draws_two [OF draws_contact [OF assms(1)] this entries_nonempty(11)]
  have body: "draws e a lang req (run [processor_generic_contact e a, ?body])
      (said lang (contact_entries a lang @ (if lang = CHR ''d'' then resume_de else resume_en)))"
    by (simp add: plans_nonempty)
  show ?thesis
  proof (rule page_drawsI)
    show "resume_page e a c = run (processor_print e a ES_INITIALIZE [] [] [] #
        (processor_print e a ES_HEADER [] ''Kyrylo Sovailo'' [] # processor_generic_header e a ''resume'' #
         [processor_generic_contact e a, ?body] @ [processor_generic_footer e a ''resume'']) @
        [processor_print e a ES_FINALIZE [] [] []]) c" for c
      by (simp only: resume_page_def append.simps)
    show "draws e a lang req (run (processor_print e a ES_HEADER [] ''Kyrylo Sovailo'' [] #
        processor_generic_header e a ''resume'' # [processor_generic_contact e a, ?body] @ [processor_generic_footer e a ''resume'']))
        (the (page_lines e w a lang req ''resume''))"
      by (rule draws_open_page [OF assms draws_names(6) _ plain_titles(11) body])
        (simp_all add: site_page_def Let_def entries_nonempty)
  qed
qed

lemma contact_draws:
  assumes "site_ok e" and "a < 18"
  shows "page_draws e w a lang req ''contact'' (contact_page e a)"
proof -
  let ?title = "if lang = CHR ''d'' then ''Kontakt'' else ''Contact information''"
  let ?name = "(ES_NORMAL, [], ''Kyrylo Sovailo.'', []) :: entry"
  let ?steps = "[processor_print e a ES_NORMAL [] ''Kyrylo Sovailo.'' [], processor_generic_contact e a]"
  let ?head = "by_language (processor_print e a ES_HEADER [] ''Kontakt'' []) (processor_print e a ES_HEADER [] ''Contact information'' [])"
  have "draws e a lang req (processor_print e a ES_NORMAL [] ''Kyrylo Sovailo.'' []) (said lang [?name])"
    using draws_entry [OF assms(1), of lang ES_NORMAL "[]" "''Kyrylo Sovailo.''" "[]"] by (simp add: said_def line_ok_def)
  from draws_two [OF this draws_contact [OF assms(1)] _ entries_nonempty(11)]
  have body: "draws e a lang req (run ?steps) (said lang (?name # contact_entries a lang))" by simp
  have head: "draws e a lang req ?head [(lang, ES_HEADER, [], ?title, [])]"
    using draws_title [OF assms(1) plain_titles(7)] draws_title [OF assms(1) plain_titles(8)] by (intro draws_language) simp_all
  have "draws e a lang req (run [?head, processor_generic_header e a ''contact'', run ?steps])
      ([(lang, ES_HEADER, [], ?title, [])] @ header_lines lang ''contact'' @ said lang (?name # contact_entries a lang) @ [])"
    by (rule draws_run(2) [OF head draws_run(2) [OF draws_header [OF assms(1)] draws_run(2) [OF body draws_run(1)]]])
      (simp_all add: header_nonempty said_Nil_iff)
  moreover have "site_page e w a lang ''contact'' = Some (?title, ?name # contact_entries a lang)"
    by (simp add: site_page_def Let_def)
  ultimately have page: "draws e a lang req (run [run [?head, processor_generic_header e a ''contact'', run ?steps],
      processor_generic_footer e a ''contact'']) (the (page_lines e w a lang req ''contact''))"
    by (intro draws_site_page [OF assms draws_names(4)]) simp_all
  show ?thesis
  proof (rule page_drawsI [OF _ page])
    show "contact_page e a c = run (processor_print e a ES_INITIALIZE [] [] [] #
        [run [?head, processor_generic_header e a ''contact'', run ?steps], processor_generic_footer e a ''contact''] @
        [processor_print e a ES_FINALIZE [] [] []]) c" for c
      by (simp only: contact_page_def append.simps) (simp only: run_exts pret_assoc pret_Inr)
  qed
qed

section \<open>The answer\<close>

text \<open>What a request asks for: the name of a page, a language or none, and the language it will be shown in.\<close>

definition page_wanted :: "nat \<Rightarrow> memory \<Rightarrow> parts \<Rightarrow> page_context \<Rightarrow> byte list \<times> char \<times> char" where
  "page_wanted a m v c =
     (case (if ACCEPTING_SOCKET_IS_QUESTION a then processor_generic_normalize_question m v (pc_requested_language c)
            else processor_generic_normalize_slash m v (pc_requested_language c)) of
        (v', req) \<Rightarrow> (map to_lower (vbytes m v'), req, page_language req (language (pc_request c))))"

lemma page_lines_ends:
  assumes "page_lines e w a lang req name = Some ls"
  shows "\<exists>title mid. ls = (lang, ES_HEADER, [], title, []) # mid @ [(lang, ES_NORMAL, [], updated_str lang, [])]"
proof -
  obtain title entries where "ls = (lang, ES_HEADER, [], title, []) # header_lines lang name @ said lang (entries @ footer_entries e a lang req name)"
    using assms by (auto simp: page_lines_def)
  moreover have "\<exists>es. footer_entries e a lang req name = es @ [(ES_NORMAL, [], updated_str lang, [])]"
    by (simp add: footer_entries_def Let_def)
  ultimately show ?thesis by (auto simp: said_def)
qed

lemma page_result:
  assumes "page_draws e w a lang req name page" and "site_ok e" and "buffers_ready c" and "pc_previous_style c = ES_INITIALIZE"
    and "pc_language c = lang" and "pc_requested_language c = req" and "page_lines e w a lang req name = Some ls"
    and "length (page_opening a @ lines_text e a (first_context c) ls) + 100 < 2 ^ 31"
  shows "(\<exists>m. page c = Inl (Failed m)) \<or>
    (\<exists>c'. page c = Inr c' \<and> answers e a c (page_opening a @ lines_text e a (first_context c) ls) c')"
proof -
  obtain steps where steps: "page c = run (processor_print e a ES_INITIALIZE [] [] [] # steps @ [processor_print e a ES_FINALIZE [] [] []]) c"
    "draws e a lang req (run steps) ls"
    using assms(1,5,7) unfolding page_draws_def by auto
  obtain title mid where ls: "ls = (lang, ES_HEADER, [], title, []) # mid @ [(lang, ES_NORMAL, [], updated_str lang, [])]"
    using page_lines_ends [OF assms(7)] by blast
  show ?thesis unfolding steps(1)
    by (rule page_run [OF assms(2) steps(2) [unfolded ls] assms(3-6)]) (use assms(8) in \<open>simp_all only: ls\<close>)
qed

lemma processor_generic_spec:
  assumes "site_ok e" and "a < 18" and "almanac_ok e w" and "buffers_ready c" and "pc_previous_style c = ES_INITIALIZE"
    and "page_wanted a m v c = (name, req, lang)" and "c0 = c\<lparr>pc_requested_language := req, pc_language := lang\<rparr>"
    and "\<And>ls. page_lines e w a lang req name = Some ls \<Longrightarrow> length (page_opening a @ lines_text e a (first_context c0) ls) + 100 < 2 ^ 31"
  shows "case processor_generic e w a m v c of
      Inl err \<Rightarrow> \<exists>m. err = Failed m
    | Inr (c', invalid) \<Rightarrow>
        (case page_lines e w a lang req name of
           None \<Rightarrow> invalid \<and> c' = c0
         | Some ls \<Rightarrow> \<not> invalid \<and> answers e a c0 (page_opening a @ lines_text e a (first_context c0) ls) c')"
proof -
  obtain v' where v': "(if ACCEPTING_SOCKET_IS_QUESTION a then processor_generic_normalize_question m v (pc_requested_language c)
      else processor_generic_normalize_slash m v (pc_requested_language c)) = (v', req)"
    and name: "name = map to_lower (vbytes m v')" and lang: "lang = page_language req (language (pc_request c))"
    using assms(6) by (auto simp: page_wanted_def split: prod.splits)
  have compare: "value_compare_case_str m v' b \<longleftrightarrow> name = b" for b
    by (simp add: value_compare_case_str_def value_compare_case_mem_iff name)
  have c0: "buffers_ready c0" "pc_previous_style c0 = ES_INITIALIZE" "pc_language c0 = lang" "pc_requested_language c0 = req"
    using assms(4,5,7) by (simp_all add: buffers_ready_def)
  define show_page where "show_page = (\<lambda>step. pret (step c0) (\<lambda>c. Inr (c, False)) :: (page_context \<times> bool) result)"
  have code: "processor_generic e w a m v c =
      (if name = '''' then show_page (index_page e w a) else if name = ''about'' then show_page (about_page e a)
       else if name = ''twinkleshine'' then show_page (twinkleshine_page e w a) else if name = ''smolnet'' then show_page (smolnet_page e a)
       else if name = ''contact'' then show_page (contact_page e a) else if name = ''projects'' then show_page (projects_page e a)
       else if name = ''resume'' then show_page (resume_page e a) else Inr (c0, True))"
    unfolding processor_generic_def v' Let_def prod.case compare lang [symmetric] assms(7) [symmetric] show_page_def ..
  have shown: ?thesis if page: "page_draws e w a lang req name page" "processor_generic e w a m v c = show_page page"
      and known: "page_lines e w a lang req name \<noteq> None" for page
  proof -
    obtain ls where ls: "page_lines e w a lang req name = Some ls" using known by blast
    show ?thesis
      using page_result [OF page(1) assms(1) c0 ls assms(8) [OF ls]] page(2) by (auto simp: show_page_def ls)
  qed
  have listed: "page_lines e w a lang req name \<noteq> None \<longleftrightarrow> name \<in> set page_names"
    using site_page_name [of e w a lang name] by (simp add: page_lines_def)
  note draws = index_draws [OF assms(1-3)] about_draws [OF assms(1,2)] twinkleshine_draws [OF assms(1,2)]
    smolnet_draws [OF assms(1,2)] contact_draws [OF assms(1,2)] projects_draws [OF assms(1,2)] resume_draws [OF assms(1,2)]
  show ?thesis
  proof (cases "name \<in> set page_names")
    case True
    then have known: "page_lines e w a lang req name \<noteq> None" using listed by simp
    have step: ?thesis if "name = n" "page_draws e w a lang req n page" "processor_generic e w a m v c = show_page page" for n page
      using shown [OF _ that(3) known] that(1,2) by simp
    from True have "name = '''' \<or> name = ''about'' \<or> name = ''twinkleshine'' \<or> name = ''smolnet'' \<or> name = ''contact'' \<or> name = ''projects'' \<or> name = ''resume''"
      by (simp add: page_names_def)
    then show ?thesis
    proof (elim disjE)
      assume n: "name = ''''"
      show ?thesis by (rule step [OF n draws(1)]) (simp only: code n, simp)
    next
      assume n: "name = ''about''"
      show ?thesis by (rule step [OF n draws(2)]) (simp only: code n, simp)
    next
      assume n: "name = ''twinkleshine''"
      show ?thesis by (rule step [OF n draws(3)]) (simp only: code n, simp)
    next
      assume n: "name = ''smolnet''"
      show ?thesis by (rule step [OF n draws(4)]) (simp only: code n, simp)
    next
      assume n: "name = ''contact''"
      show ?thesis by (rule step [OF n draws(5)]) (simp only: code n, simp)
    next
      assume n: "name = ''projects''"
      show ?thesis by (rule step [OF n draws(6)]) (simp only: code n, simp)
    next
      assume n: "name = ''resume''"
      show ?thesis by (rule step [OF n draws(7)]) (simp only: code n, simp)
    qed
  next
    case False
    then have "processor_generic e w a m v c = Inr (c0, True)" by (simp add: code page_names_def)
    then show ?thesis using False listed by simp
  qed
qed

section \<open>Properties\<close>


text \<open>A link of one page leads to another page of the site, in the language of the link.\<close>

definition links_ok :: "entry list \<Rightarrow> bool" where
  "links_ok es \<longleftrightarrow> (\<forall>(style, ref, fmt, va) \<in> set es. style = ES_INTERNAL_REFERENCE \<longrightarrow> ref \<in> set page_names)"

lemma links_ok_simps:
  "links_ok []" "links_ok ((ES_NORMAL, r, f, v) # es) = links_ok es" "links_ok ((ES_PARAGRAPH, r, f, v) # es) = links_ok es"
  "links_ok ((ES_ITEMIZE, r, f, v) # es) = links_ok es" "links_ok ((ES_LARGE, r, f, v) # es) = links_ok es"
  "links_ok ((ES_LARGER, r, f, v) # es) = links_ok es" "links_ok ((ES_EXTERNAL_REFERENCE, r, f, v) # es) = links_ok es"
  "links_ok ((ES_INTERNAL_REFERENCE, r, f, v) # es) \<longleftrightarrow> r \<in> set page_names \<and> links_ok es"
  "links_ok (xs @ ys) \<longleftrightarrow> links_ok xs \<and> links_ok ys"
  by (auto simp: links_ok_def)

lemma page_names_set: "''about'' \<in> set page_names" "''twinkleshine'' \<in> set page_names" "''smolnet'' \<in> set page_names"
  "''contact'' \<in> set page_names" "''projects'' \<in> set page_names" "''resume'' \<in> set page_names" "'''' \<in> set page_names"
  by (simp_all add: page_names_def)

lemma links_ok_parts:
  "links_ok (index_de t)" "links_ok (index_en t)" "links_ok about_de" "links_ok about_en" "links_ok twinkleshine_de_intro"
  "links_ok twinkleshine_en_intro" "links_ok (twinkleshine_de_plans t)" "links_ok (twinkleshine_en_plans t)"
  "links_ok (smolnet_de a)" "links_ok (smolnet_en a)" "links_ok projects_de" "links_ok projects_en" "links_ok resume_de" "links_ok resume_en"
  unfolding index_de_def index_en_def about_de_def about_en_def twinkleshine_de_intro_def twinkleshine_en_intro_def
    twinkleshine_de_plans_def twinkleshine_en_plans_def smolnet_de_def smolnet_en_def projects_de_def projects_en_def
    resume_de_def resume_en_def
  by (simp_all only: links_ok_simps page_names_set simp_thms)

lemma links_ok_shared: "links_ok (contact_entries a lang)" "links_ok protocols_entries"
  by (simp_all add: contact_entries_def protocols_entries_def links_ok_simps Let_def)

lemma internal_names:
  assumes "site_page e w a lang name = Some (title, entries)" and "(ES_INTERNAL_REFERENCE, ref, fmt, va) \<in> set entries"
  shows "ref \<in> set page_names"
proof -
  have "links_ok entries"
    using assms(1) by (auto simp: site_page_def Let_def links_ok_simps links_ok_parts links_ok_shared split: if_splits)
  then show ?thesis using assms(2) by (auto simp: links_ok_def)
qed

lemma internal_lines:
  assumes "page_lines e w a lang req name = Some ls" and "(l, ES_INTERNAL_REFERENCE, ref, fmt, va) \<in> set ls"
  shows "ref \<in> set page_names" "l = lang \<or> l = CHR ''e'' \<or> l = CHR ''d''"
proof -
  obtain title entries where p: "site_page e w a lang name = Some (title, entries)"
    and ls: "ls = (lang, ES_HEADER, [], title, []) # header_lines lang name @ said lang (entries @ footer_entries e a lang req name)"
    using assms(1) by (auto simp: page_lines_def)
  have name: "name \<in> set page_names" using site_page_name [of e w a lang name] p by simp
  have footer: "links_ok (footer_entries e a lang req name)"
    by (auto simp: footer_entries_def Let_def links_ok_def page_names_def)
  consider "(ES_INTERNAL_REFERENCE, ref, fmt, va) \<in> set entries" "l = lang" | "(l, ES_INTERNAL_REFERENCE, ref, fmt, va) \<in> set (header_lines lang name)"
    | "(ES_INTERNAL_REFERENCE, ref, fmt, va) \<in> set (footer_entries e a lang req name)" "l = lang"
    using assms(2) by (auto simp: ls said_def)
  then show "ref \<in> set page_names" "l = lang \<or> l = CHR ''e'' \<or> l = CHR ''d''"
    using internal_names [OF p] name footer by (cases; auto simp: header_lines_def links_ok_def split: if_splits)+
qed

lemma page_name_plain: "name \<in> set page_names \<Longrightarrow> plain_name name \<and> map to_lower name = name"
  by (auto simp: page_names_def plain_name_def to_lower_def is_upper_def)

lemma own_link:
  assumes "ref \<in> set page_names" and "l = CHR ''e'' \<or> l = CHR ''d''"
    and "vbytes m v = ''/'' @ ref @ (if ACCEPTING_SOCKET_IS_QUESTION a then language_question l r i else language_slash l r i)"
    and "pc_requested_language c = NUL" and "language (pc_request c) = i"
  shows "page_wanted a m v c = (ref, if language_explicit l r i then l else NUL, l)"
proof -
  have plain: "plain_name ref" "map to_lower ref = ref" using page_name_plain [OF assms(1)] by simp_all
  have lang: "page_language (if language_explicit l r i then l else NUL) i = l"
    using assms(2) by (auto simp: page_language_def language_explicit_def Let_def)
  show ?thesis
  proof (cases "ACCEPTING_SOCKET_IS_QUESTION a")
    case True
    then show ?thesis
      using normalize_question_spec [of m v NUL] question_name_link [OF plain(1) assms(2), of r i] assms(3-5) plain(2) lang
      by (auto simp: page_wanted_def split: prod.splits)
  next
    case False
    then show ?thesis
      using normalize_slash_spec [of m v NUL] slash_name_link [OF plain(1) assms(2), of r i] assms(3-5) plain(2) lang
      by (auto simp: page_wanted_def split: prod.splits)
  qed
qed


text \<open>
  C40: the references of the footer, which are put together in an array of 64 bytes, fit it with their
  terminator for every page, protocol and language.
\<close>

theorem footer_references_fit:
  assumes "name \<in> set page_names" and "i \<in> set (selection a)"
  shows "length (footer_reference e (language_question lang req CHR ''e'') (language_slash lang req CHR ''e'') name i) + 1 \<le> 64"
  using length_footer_reference [OF selection_le [OF assms(2)] length_language_strings, of e lang req "CHR ''e''" lang req "CHR ''e''" name]
    length_page_name [OF assms(1)] by simp

lemma footer_references_fit_witness:
  "length (footer_reference sample_site (language_question CHR ''d'' NUL CHR ''e'') (language_slash CHR ''d'' NUL CHR ''e'')
     ''twinkleshine'' 5) + 1 \<le> 64"
  by (rule footer_references_fit [where a = 0]) (simp_all add: page_names_def selection_def accepting_socket_defs)

section \<open>Witnesses\<close>

definition sample_almanac :: almanac where
  "sample_almanac = \<lparr>fun_facts = replicate 8 ''Ponies are small.'', fun_facts_de = replicate 8 ''Ponys sind klein.'',
     startup_time = 0, present_time = 100\<rparr>"

definition sample_address :: memory where
  "sample_address = (!) ''/contact?lang=de''"

definition fresh_context :: page_context where
  "fresh_context = sample_context\<lparr>pc_previous_style := ES_INITIALIZE, pc_language := NUL\<rparr>"

definition line_size :: "line \<Rightarrow> nat" where
  "line_size l = (case l of (lang, style, ref, fmt, va) \<Rightarrow> 60 + length ref + length (the (simple_text fmt va)))"

lemma length_gemini_line:
  assumes "style \<noteq> ES_ENUMERATION"
  shows "length (page_entry_text e 8 c style ref t) \<le> 60 + length ref + length t"
proof -
  have d: "length (DOMAIN_NAME e) \<le> 13" by (simp add: DOMAIN_NAME_def)
  have q: "length (question_of c) \<le> 8" by (simp add: question_of_def length_language_strings)
  have p: "length (GEMINI_PORT_STRING e) \<le> 6" using length_ports(5) [of e] by (simp split: if_splits)
  have "page_entry_text e 8 c style ref t = gemini_entry e c style ref t"
    by (simp add: page_entry_text_def accepting_socket_defs)
  then show ?thesis using d q p assms by (cases style) (simp_all add: gemini_entry_def)
qed

lemma length_gemini_lines:
  "list_all (\<lambda>l. fst (snd l) \<noteq> ES_ENUMERATION) ls \<Longrightarrow> length (lines_text e 8 c ls) \<le> sum_list (map line_size ls)"
proof (induction ls arbitrary: c)
  case (Cons l ls)
  obtain lang style ref fmt va where l: "l = (lang, style, ref, fmt, va)" by (cases l) auto
  then have "style \<noteq> ES_ENUMERATION" using Cons(2) by simp
  from length_gemini_line [OF this] Cons l show ?case
    by (simp add: line_size_def) (meson add_le_mono)
qed simp

lemma sample_page_wanted:
  "page_wanted 8 sample_address [\<lparr>part_p = 0, part_size = 9\<rparr>, \<lparr>part_p = 9, part_size = 7\<rparr>] fresh_context =
     (''contact'', CHR ''d'', CHR ''d'')"
proof -
  have "vbytes sample_address [\<lparr>part_p = 0, part_size = 9\<rparr>, \<lparr>part_p = 9, part_size = 7\<rparr>] =
      ''/'' @ ''contact'' @ (if ACCEPTING_SOCKET_IS_QUESTION 8 then language_question CHR ''d'' NUL NUL else language_slash CHR ''d'' NUL NUL)"
    by (simp add: pbytes_def upt_rec sample_address_def language_question_def language_explicit_def ACCEPTING_SOCKET_IS_QUESTION_def
        accepting_socket_defs)
  from own_link [OF _ _ this, of fresh_context] show ?thesis
    by (simp add: page_names_def fresh_context_def sample_context_def zero_request_def language_explicit_def)
qed

lemma sample_sizes:
  "page_lines sample_site sample_almanac 8 CHR ''d'' CHR ''d'' ''contact'' = Some ls \<Longrightarrow>
     length (page_opening 8 @ lines_text sample_site 8 c ls) + 100 < 2 ^ 31"
proof -
  assume "page_lines sample_site sample_almanac 8 CHR ''d'' CHR ''d'' ''contact'' = Some ls"
  then have ls: "ls = (CHR ''d'', ES_HEADER, [], ''Kontakt'', []) # header_lines CHR ''d'' ''contact'' @
      said CHR ''d'' ((ES_NORMAL, [], ''Kyrylo Sovailo.'', []) # contact_entries 8 CHR ''d'' @
        footer_entries sample_site 8 CHR ''d'' CHR ''d'' ''contact'')"
    by (simp add: page_lines_def site_page_def)
  note defs = header_lines_def contact_entries_def footer_entries_def said_def selection_def
    ACCEPTING_SOCKET_IS_PLAINTEXT_def accepting_socket_defs
  have "list_all (\<lambda>l. fst (snd l) \<noteq> ES_ENUMERATION) ls" by (simp add: ls defs Let_def)
  from length_gemini_lines [OF this] have "length (lines_text sample_site 8 c ls) \<le> sum_list (map line_size ls)" .
  also have "\<dots> \<le> 5000"
  proof -
    have r: "length (footer_reference sample_site (language_question CHR ''d'' CHR ''d'' CHR ''e'')
        (language_slash CHR ''d'' CHR ''d'' CHR ''e'') ''contact'' i) \<le> 50" if "i < 9" for i
      using length_footer_reference [OF that length_language_strings, of sample_site "CHR ''d''" "CHR ''d''" "CHR ''e''" "CHR ''d''" "CHR ''d''" "CHR ''e''" "''contact''"]
      by simp
    show ?thesis
      using r [of 0] r [of 2] r [of 3] r [of 5] r [of 6] r [of 7] r [of 8]
      by (simp add: ls defs line_size_def footnote_str_def version_str_def why_str_def back_str_def updated_str_def protocol_names_def Let_def)
  qed
  finally show ?thesis by (simp add: page_opening_def accepting_socket_defs)
qed

lemma sample_ready: "buffers_ready fresh_context" "pc_previous_style fresh_context = ES_INITIALIZE" "almanac_ok sample_site sample_almanac"
  by (simp_all add: buffers_ready_def fresh_context_def sample_context_def string_inv_zero string_inv_shape almanac_ok_def
      sample_almanac_def sample_site_def) (simp_all add: zero_string_def string_bytes_def)



end
