(* ===== verification/TS_Process.thy ===== *)
theory TS_Process
  imports TS_Answer TS_Parse
begin

text \<open>
  \<^verbatim>\<open>processor_process\<close> of \<^verbatim>\<open>source/processor/processor.c\<close> and the \<^verbatim>\<open>processor_process_...\<close> of the protocols: a
  parsed request becomes a response in the queue of its client and a stream to be sent.
\<close>

section \<open>Replies\<close>

text \<open>
  What \<^verbatim>\<open>processor_process\<close> leaves behind: the response, the counter of the allocator, the response queue, the
  internal buffers one and two, and the response stream with the memory its parts point to.
\<close>

record reply =
  reply_response :: response
  reply_memory :: nat
  reply_queue :: ring
  reply_one :: char_buffer
  reply_two :: char_buffer
  reply_source :: memory
  reply_stream :: parts

text \<open>The request of a client with the stream that holds it, and the state the processors work on.\<close>

record job =
  job_request :: request
  job_stream :: ring
  job_memory :: nat
  job_queue :: ring
  job_one :: char_buffer
  job_two :: char_buffer

text \<open>\<^verbatim>\<open>ring_get\<close> of the three locations, with \<^verbatim>\<open>EEF_CLOSE_LOG_DIE\<close>\<close>

definition get_request :: "job \<Rightarrow> (parts \<Rightarrow> parts \<Rightarrow> parts \<Rightarrow> 'a exresult) \<Rightarrow> 'a exresult" where
  "get_request j k =
     expretf (ring_get (job_stream j) (req_method (job_request j)) False) EEF_CLOSE_LOG_DIE (\<lambda>method.
     expretf (ring_get (job_stream j) (resource (job_request j)) False) EEF_CLOSE_LOG_DIE (\<lambda>res.
     expretf (ring_get (job_stream j) (protocol (job_request j)) False) EEF_CLOSE_LOG_DIE (\<lambda>protocol.
     k method res protocol)))"

text \<open>A reply that consists of one fixed text.\<close>

definition reply_text :: "site \<Rightarrow> job \<Rightarrow> byte list \<Rightarrow> reply exresult" where
  "reply_text e j out =
     (let stream = zero_value[0 := \<lparr>part_p = 0, part_size = length out\<rparr>]
      in get_request j (\<lambda>method res protocol.
         expret (processor_construct_response (site_realloc e) (job_memory j) (ring_memory (job_stream j)) (job_queue j)
                   (part_size (stream ! 0)) False 0 0 method res protocol) (\<lambda>(r, g, queue).
         Inr \<lparr>reply_response = r, reply_memory = g, reply_queue = queue, reply_one = job_one j, reply_two = job_two j,
              reply_source = (!) out, reply_stream = stream\<rparr>)))"

text \<open>A reply that consists of the two internal buffers.\<close>

definition reply_buffers :: "site \<Rightarrow> job \<Rightarrow> char_buffer \<Rightarrow> char_buffer \<Rightarrow> bool \<Rightarrow> nat \<Rightarrow> nat \<Rightarrow> parts \<Rightarrow> parts \<Rightarrow> parts \<Rightarrow>
    reply exresult" where
  "reply_buffers e j one two keep first_chunk chunk_number mv rv pv =
     (let stream = [\<lparr>part_p = 0, part_size = cb_size one\<rparr>, \<lparr>part_p = cb_size one, part_size = cb_size two\<rparr>]
      in expret (processor_construct_response (site_realloc e) (job_memory j) (ring_memory (job_stream j)) (job_queue j)
                   (value_size stream) keep first_chunk chunk_number mv rv pv) (\<lambda>(r, g, queue).
         Inr \<lparr>reply_response = r, reply_memory = g, reply_queue = queue, reply_one = one, reply_two = two,
              reply_source = (!) (string_bytes one @ string_bytes two), reply_stream = stream\<rparr>))"

section \<open>Requests that name no page\<close>

definition processor_process_gopher :: "site \<Rightarrow> job \<Rightarrow> reply exresult" where
  "processor_process_gopher e j = reply_text e j (''3Invalid resource'' @ FAKE_ENDLINE)"

definition processor_process_finger :: "site \<Rightarrow> job \<Rightarrow> reply exresult" where
  "processor_process_finger e j = reply_text e j (''Invalid resource'' @ CRLF)"

definition processor_process_gemini :: "site \<Rightarrow> job \<Rightarrow> reply exresult" where
  "processor_process_gemini e j = reply_text e j (''40 Invalid resource'' @ CRLF)"

definition processor_process_spartan :: "site \<Rightarrow> job \<Rightarrow> reply exresult" where
  "processor_process_spartan e j = reply_text e j (''4 Invalid resource'' @ CRLF)"

definition processor_process_nex :: "site \<Rightarrow> job \<Rightarrow> reply exresult" where
  "processor_process_nex e j = expret (processor_process_finger e j) (\<lambda>r. Inr r)"

definition processor_process_text :: "site \<Rightarrow> job \<Rightarrow> reply exresult" where
  "processor_process_text e j = reply_text e j (''40 Invalid resource'' @ CRLF)"

definition processor_process_guppy :: "site \<Rightarrow> job \<Rightarrow> reply exresult" where
  "processor_process_guppy e j = reply_text e j (''4 Invalid resource'' @ CRLF)"

text \<open>
  The error pages of HTTP, as the buffers one and two: the page is printed to the second, then the header with
  its size to the first.
\<close>

definition http_error_buffers :: "site \<Rightarrow> job \<Rightarrow> byte list \<Rightarrow> byte list \<Rightarrow> bool \<Rightarrow> (char_buffer \<times> char_buffer) exresult" where
  "http_error_buffers e j status explanation keep =
     expretf (string_copy_mem (site_realloc e) (job_two j) html_open) EEF_CLOSE_LOG (\<lambda>two.
     expretf (string_print_append (site_printf e) (site_realloc e) two html_template_error_page
               [VA_text status, VA_text explanation]) EEF_CLOSE_LOG (\<lambda>two.
     expretf (string_append_mem (site_realloc e) two html_close) EEF_CLOSE_LOG (\<lambda>two.
     expretf (string_print (site_printf e) (site_realloc e) (job_one j) http_template_error
               [VA_text status, VA_uint (cb_size two), VA_text (if keep then ''keep-alive'' else ''close'')]) EEF_CLOSE_LOG (\<lambda>one.
     Inr (one, two)))))"

definition http_robots_buffers :: "site \<Rightarrow> job \<Rightarrow> bool \<Rightarrow> (char_buffer \<times> char_buffer) exresult" where
  "http_robots_buffers e j keep =
     expretf (string_copy_mem (site_realloc e) (job_two j) txt_robots) EEF_CLOSE_LOG (\<lambda>two.
     expretf (string_print (site_printf e) (site_realloc e) (job_one j) http_template_success
               (success_arguments e (cb_size two) keep)) EEF_CLOSE_LOG (\<lambda>one.
     Inr (one, two)))"

definition processor_process_http :: "site \<Rightarrow> job \<Rightarrow> reply exresult" where
  "processor_process_http e j =
     get_request j (\<lambda>method res protocol.
       let m = ring_memory (job_stream j)
       in if \<not> value_compare_case_mem m method ''get'' (length ''get'')
          then let keep = keep_alive (job_request j)
               in expret (http_error_buffers e j ''405 Method Not Allowed'' ''Invalid method'' keep) (\<lambda>(one, two).
                  reply_buffers e j one two keep 0 0 method res protocol)
          else if value_compare_case_mem m res ''/robots.txt'' (length ''/robots.txt'')
          then let keep = False
               in expret (http_robots_buffers e j keep) (\<lambda>(one, two).
                  reply_buffers e j one two keep 0 0 method res protocol)
          else let keep = keep_alive (job_request j)
               in expret (http_error_buffers e j ''404 Not Found'' ''Invalid resource'' keep) (\<lambda>(one, two).
                  reply_buffers e j one two keep 0 0 method res protocol))"

section \<open>The choice of the processor\<close>

definition processor_specific :: "site \<Rightarrow> nat \<Rightarrow> job \<Rightarrow> reply exresult" where
  "processor_specific e a j =
     (if ACCEPTING_SOCKET_IS_HTTP a then expret (processor_process_http e j) (\<lambda>r. Inr r)
      else if ACCEPTING_SOCKET_IS_HTTPS a then expret (processor_process_http e j) (\<lambda>r. Inr r)
      else if ACCEPTING_SOCKET_IS_GOPHER a then expret (processor_process_gopher e j) (\<lambda>r. Inr r)
      else if ACCEPTING_SOCKET_IS_FINGER a then expret (processor_process_finger e j) (\<lambda>r. Inr r)
      else if ACCEPTING_SOCKET_IS_GEMINI a then expret (processor_process_gemini e j) (\<lambda>r. Inr r)
      else if ACCEPTING_SOCKET_IS_SPARTAN a then expret (processor_process_spartan e j) (\<lambda>r. Inr r)
      else if ACCEPTING_SOCKET_IS_NEX a then expret (processor_process_nex e j) (\<lambda>r. Inr r)
      else if ACCEPTING_SOCKET_IS_TEXT a then expret (processor_process_text e j) (\<lambda>r. Inr r)
      else expret (processor_process_guppy e j) (\<lambda>r. Inr r))"

text \<open>\<^verbatim>\<open>struct ProcessorPrintContext context\<close> at its start\<close>

definition page_start :: "job \<Rightarrow> page_context" where
  "page_start j = \<lparr>pc_one = job_one j, pc_two = job_two j, pc_request = job_request j, pc_previous_style = ES_INITIALIZE,
     pc_list_index = 0, pc_language = NUL, pc_requested_language = NUL, pc_first_chunk = 0, pc_chunk_number = 0\<rparr>"

definition processor_process :: "site \<Rightarrow> almanac \<Rightarrow> nat \<Rightarrow> job \<Rightarrow> reply exresult" where
  "processor_process e w a j =
     (let http = ACCEPTING_SOCKET_IS_HTTP a \<or> ACCEPTING_SOCKET_IS_HTTPS a;
          m = ring_memory (job_stream j)
      in expretf (ring_get (job_stream j) (req_method (job_request j)) False) EEF_CLOSE_LOG_DIE (\<lambda>method.
         if \<not> http \<or> http \<and> value_compare_case_mem m method ''get'' (length ''get'')
         then expretf (ring_get (job_stream j) (resource (job_request j)) False) EEF_CLOSE_LOG_DIE (\<lambda>res.
              expretf (ring_get (job_stream j) (protocol (job_request j)) False) EEF_CLOSE_LOG_DIE (\<lambda>protocol.
              expretf (processor_generic e w a m res (page_start j)) (EEF_SEND_CLOSE_LOG FR_UNKNOWN) (\<lambda>(c, invalid_resource).
              if \<not> invalid_resource
              then expret (reply_buffers e j (pc_one c) (pc_two c) (keep_alive (job_request j)) (pc_first_chunk c)
                             (pc_chunk_number c) method res protocol) (\<lambda>r. Inr r)
              else expret (processor_specific e a (j\<lparr>job_one := pc_one c, job_two := pc_two c\<rparr>)) (\<lambda>r. Inr r))))
         else expret (processor_specific e a j) (\<lambda>r. Inr r)))"

section \<open>What a request is answered with\<close>

text \<open>The bytes of the request a location names.\<close>

definition located :: "ring \<Rightarrow> location \<Rightarrow> byte list" where
  "located q l = take (loc_size l) (drop (loc_offset l) (ring_bytes q))"

text \<open>The page a request names: its text between what opens the answer and what closes it.\<close>

definition wanted :: "nat \<Rightarrow> request \<Rightarrow> byte list \<Rightarrow> byte list \<times> char \<times> char" where
  "wanted a r res =
     (case (if ACCEPTING_SOCKET_IS_QUESTION a then question_name res NUL else slash_name res NUL) of
        (name, req) \<Rightarrow> (map to_lower name, req, page_language req (language r)))"

definition blank_context :: "request \<Rightarrow> char \<Rightarrow> char \<Rightarrow> page_context" where
  "blank_context r req lang = \<lparr>pc_one = zero_string, pc_two = zero_string, pc_request = r, pc_previous_style = ES_INITIALIZE,
     pc_list_index = 0, pc_language = lang, pc_requested_language = req, pc_first_chunk = 0, pc_chunk_number = 0\<rparr>"

definition page_of :: "site \<Rightarrow> almanac \<Rightarrow> nat \<Rightarrow> request \<Rightarrow> byte list \<Rightarrow> byte list option" where
  "page_of e w a r res =
     (case wanted a r res of (name, req, lang) \<Rightarrow>
        map_option (\<lambda>ls. page_opening a @ lines_text e a (blank_context r req lang) ls) (page_lines e w a lang req name))"

definition not_found :: "nat \<Rightarrow> byte list" where
  "not_found a =
     (if ACCEPTING_SOCKET_IS_GOPHER a then ''3Invalid resource'' @ FAKE_ENDLINE
      else if ACCEPTING_SOCKET_IS_FINGER a \<or> ACCEPTING_SOCKET_IS_NEX a then ''Invalid resource'' @ CRLF
      else if ACCEPTING_SOCKET_IS_GEMINI a \<or> ACCEPTING_SOCKET_IS_TEXT a then ''40 Invalid resource'' @ CRLF
      else ''4 Invalid resource'' @ CRLF)"

text \<open>
  The reference: the text of the answer to a request with this method and this resource, whether the connection
  stays open, and the numbers of the first datagram and of the datagrams.
\<close>

definition answer_of :: "site \<Rightarrow> almanac \<Rightarrow> nat \<Rightarrow> request \<Rightarrow> byte list \<Rightarrow> byte list \<Rightarrow> byte list \<times> bool \<times> nat \<times> nat" where
  "answer_of e w a r meth res =
     (let keep = keep_alive r;
          connection = (if keep then ''keep-alive'' else ''close'')
      in if is_http a \<and> map to_lower meth \<noteq> ''get''
         then (http_error_page ''405 Method Not Allowed'' ''Invalid method'' connection, keep, 0, 0)
         else case page_of e w a r res of
             Some t \<Rightarrow> (page_answer e a keep t, keep, page_chunks e a (blank_context r NUL NUL) t)
           | None \<Rightarrow>
               if \<not> is_http a then (not_found a, False, 0, 0)
               else if map to_lower res = ''/robots.txt''
               then (http_success_header e (length txt_robots) False @ txt_robots, False, 0, 0)
               else (http_error_page ''404 Not Found'' ''Invalid resource'' connection, keep, 0, 0))"

section \<open>Replies are what the reference says\<close>

text \<open>A job whose request lies in its stream, with buffers as the last page left them.\<close>

definition job_ok :: "job \<Rightarrow> bool" where
  "job_ok j \<longleftrightarrow> ring_inv (job_stream j) \<and> ring_size (job_stream j) < 2 ^ 60 \<and>
     loc_end (req_method (job_request j)) \<le> ring_size (job_stream j) \<and>
     loc_end (resource (job_request j)) \<le> ring_size (job_stream j) \<and>
     loc_end (protocol (job_request j)) \<le> ring_size (job_stream j) \<and>
     ring_inv (job_queue j) \<and> ring_size (job_queue j) < 2 ^ 60 \<and> buffers_ready (page_start j)"

definition replies :: "job \<Rightarrow> byte list \<times> bool \<times> nat \<times> nat \<Rightarrow> reply \<Rightarrow> bool" where
  "replies j answer p \<longleftrightarrow>
     (case answer of (t, keep, first_chunk, chunk_number) \<Rightarrow>
        vbytes (reply_source p) (reply_stream p) = t \<and>
        rs_stream_size (reply_response p) = length t \<and> rs_keep_alive (reply_response p) = keep \<and>
        \<not> rs_silent (reply_response p) \<and> rs_first_chunk (reply_response p) = first_chunk \<and>
        loc_size (rs_chunks (reply_response p)) = chunk_number \<and>
        response_fits (reply_response p) \<and>
        rs_size (reply_response p) = loc_size (req_method (job_request j)) + loc_size (resource (job_request j)) +
          loc_size (protocol (job_request j)) + chunk_number \<and>
        loc_end (rs_method (reply_response p)) \<le> rs_size (reply_response p) \<and>
        loc_end (rs_resource (reply_response p)) \<le> rs_size (reply_response p) \<and>
        ring_inv (reply_queue p) \<and>
        ring_bytes (reply_queue p) = ring_bytes (job_queue j) @ response_bytes (reply_response p) @
          located (job_stream j) (req_method (job_request j)) @ located (job_stream j) (resource (job_request j)) @
          located (job_stream j) (protocol (job_request j)) @ replicate chunk_number NUL \<and>
        buffers_ready (page_start (j\<lparr>job_one := reply_one p, job_two := reply_two p\<rparr>)))"

text \<open>The errors: an allocation that failed, with the action the code attaches to it.\<close>

definition reply_fails :: "exerror \<Rightarrow> bool" where
  "reply_fails err \<longleftrightarrow> (\<exists>m. ex_error err = Failed m) \<and>
     ex_flags err \<in> {EEF_CLOSE_LOG, EEF_SEND_CLOSE_LOG FR_UNKNOWN, EEF_SEND_SHUTDOWN_LOG FR_UNKNOWN}"

definition reply_result :: "job \<Rightarrow> byte list \<times> bool \<times> nat \<times> nat \<Rightarrow> reply exresult \<Rightarrow> bool" where
  "reply_result j answer r = (case r of Inl err \<Rightarrow> reply_fails err | Inr p \<Rightarrow> replies j answer p)"

text \<open>What the three locations of a request give.\<close>

definition gets :: "job \<Rightarrow> parts \<Rightarrow> parts \<Rightarrow> parts \<Rightarrow> bool" where
  "gets j mv rv pv \<longleftrightarrow>
     ring_get (job_stream j) (req_method (job_request j)) False = Inr mv \<and>
     ring_get (job_stream j) (resource (job_request j)) False = Inr rv \<and>
     ring_get (job_stream j) (protocol (job_request j)) False = Inr pv \<and>
     vbytes (ring_memory (job_stream j)) mv = located (job_stream j) (req_method (job_request j)) \<and>
     vbytes (ring_memory (job_stream j)) rv = located (job_stream j) (resource (job_request j)) \<and>
     vbytes (ring_memory (job_stream j)) pv = located (job_stream j) (protocol (job_request j)) \<and>
     value_size mv = loc_size (req_method (job_request j)) \<and> value_size rv = loc_size (resource (job_request j)) \<and>
     value_size pv = loc_size (protocol (job_request j)) \<and>
     value_size mv < 2 ^ 60 \<and> value_size rv < 2 ^ 60 \<and> value_size pv < 2 ^ 60"

lemma job_gets:
  assumes "job_ok j"
  obtains mv rv pv where "gets j mv rv pv"
proof -
  have inv: "ring_inv (job_stream j)" and size: "ring_size (job_stream j) < 2 ^ 60" using assms by (simp_all add: job_ok_def)
  have get: "\<exists>v. ring_get (job_stream j) l False = Inr v \<and> vbytes (ring_memory (job_stream j)) v = located (job_stream j) l \<and>
      value_size v = loc_size l \<and> value_size v < 2 ^ 60" if "loc_end l \<le> ring_size (job_stream j)" for l
    using ring_get_bytes [OF inv, of l False] that size by (auto simp: located_def loc_end_def)
  show thesis
    using get [of "req_method (job_request j)"] get [of "resource (job_request j)"] get [of "protocol (job_request j)"] assms
    by (fastforce simp: job_ok_def gets_def intro: that)
qed

lemma get_request_eq: "gets j mv rv pv \<Longrightarrow> get_request j k = k mv rv pv"
  by (simp add: gets_def get_request_def)

lemma construct_reply:
  assumes "job_ok j" and "gets j mv rv pv" and "site_ok e" and "length t < 2 ^ 62" and "n \<le> 2 ^ 32"
    and fc: "fc < 2 ^ 32"
    and "\<And>r g q. \<lbrakk>processor_construct_response (site_realloc e) (job_memory j) (ring_memory (job_stream j)) (job_queue j)
        (length t) keep fc n mv rv pv = Inr (r, g, q)\<rbrakk> \<Longrightarrow>
        k (r, g, q) = Inr \<lparr>reply_response = r, reply_memory = g, reply_queue = q, reply_one = one, reply_two = two,
          reply_source = source, reply_stream = stream\<rparr>"
    and "vbytes source stream = t" and "buffers_ready (page_start (j\<lparr>job_one := one, job_two := two\<rparr>))"
  shows "reply_result j (t, keep, fc, n) (expret (processor_construct_response (site_realloc e) (job_memory j)
      (ring_memory (job_stream j)) (job_queue j) (length t) keep fc n mv rv pv) k)"
proof -
  have lt: "value_size mv + value_size rv + value_size pv + n < 2 ^ 64" using assms(2,5) by (simp add: gets_def)
  have queue: "ring_inv (job_queue j)" using assms(1) by (simp add: job_ok_def)
  have room: "ring_size (job_queue j) + sizeof_Response + value_size mv + value_size rv + value_size pv + n \<le> 2 ^ 63"
    using assms(1,2,5) by (simp add: job_ok_def gets_def sizeof_Response_def)
  show ?thesis
  proof (rule construct_response_cases [OF queue site_okD(1) [OF assms(3)] room, where n = "length t" and g = "job_memory j"
        and m = "ring_memory (job_stream j)" and ka = keep and fc = fc], goal_cases)
    case 1
    then show ?case by (simp add: reply_result_def reply_fails_def exerror_append_def)
  next
    case (2 g' q')
    show ?case using assms(7) [OF 2(1)] 2 assms(2,8,9) response_header_sizes [OF lt, of "length t" keep fc]
        response_header_fits [OF lt _ fc, where n = "length t" and ka = keep] assms(4)
      by (simp add: reply_result_def replies_def gets_def loc_end_def response_header_def Let_def)
  qed
qed

lemma buffers_ready_start:
  "buffers_ready (page_start (j\<lparr>job_one := one, job_two := two\<rparr>)) \<longleftrightarrow>
     string_inv one \<and> string_shape two \<and> length (string_bytes one) < 2 ^ 62 \<and> length (string_bytes two) < 2 ^ 62"
  by (simp add: buffers_ready_def page_start_def)

lemma vbytes_text: "vbytes ((!) out) (zero_value[0 := \<lparr>part_p = 0, part_size = length out\<rparr>]) = out"
  by (simp add: zero_value_def zero_part_def pbytes_def map_nth)

lemma vbytes_two:
  "length one = n \<Longrightarrow> length two = k \<Longrightarrow>
     vbytes ((!) (one @ two)) [\<lparr>part_p = 0, part_size = n\<rparr>, \<lparr>part_p = n, part_size = k\<rparr>] = one @ two"
  by (auto simp: pbytes_def intro!: nth_equalityI simp: nth_append)

lemma reply_text_result:
  assumes "job_ok j" and "site_ok e" and "length out < 2 ^ 62"
  shows "reply_result j (out, False, 0, 0) (reply_text e j out)"
proof -
  obtain mv rv pv where g: "gets j mv rv pv" by (rule job_gets [OF assms(1)])
  have same: "j\<lparr>job_one := job_one j, job_two := job_two j\<rparr> = j" by simp
  have size: "part_size (zero_value[0 := \<lparr>part_p = 0, part_size = length out\<rparr>] ! 0) = length out"
    by (simp add: zero_value_def)
  show ?thesis
    unfolding reply_text_def Let_def get_request_eq [OF g] size
    by (rule construct_reply [OF assms(1) g assms(2,3) _ _ _ vbytes_text, where one = "job_one j" and two = "job_two j"])
      (use assms(1) in \<open>simp_all add: job_ok_def\<close>)
qed

lemma reply_buffers_result:
  assumes "job_ok j" and "site_ok e" and "gets j mv rv pv" and "string_shape one" and "string_shape two"
    and "string_bytes one @ string_bytes two = t" and "length t < 2 ^ 62" and "n \<le> 2 ^ 32" and "fc < 2 ^ 32"
    and "buffers_ready (page_start (j\<lparr>job_one := one, job_two := two\<rparr>))"
  shows "reply_result j (t, keep, fc, n) (reply_buffers e j one two keep fc n mv rv pv)"
proof -
  have len: "length (string_bytes one) = cb_size one" "length (string_bytes two) = cb_size two"
    using string_shapeD(6) assms(4,5) by auto
  then have t: "length t = cb_size one + cb_size two" using assms(6) by auto
  have size: "value_size [\<lparr>part_p = 0, part_size = cb_size one\<rparr>, \<lparr>part_p = cb_size one, part_size = cb_size two\<rparr>] = length t"
    by (simp add: t)
  show ?thesis
    unfolding reply_buffers_def Let_def size
    by (rule construct_reply [OF assms(1,3,2,7-9) _ _ assms(10), where source = "(!) (string_bytes one @ string_bytes two)"
          and stream = "[\<lparr>part_p = 0, part_size = cb_size one\<rparr>, \<lparr>part_p = cb_size one, part_size = cb_size two\<rparr>]"])
      (use vbytes_two [OF len] in \<open>simp_all add: assms(6)\<close>)
qed

section \<open>The pages of HTTP\<close>

lemma string_result_expretf:
  assumes "string_result r t" and "flags \<in> {EEF_CLOSE_LOG, EEF_SEND_CLOSE_LOG FR_UNKNOWN, EEF_SEND_SHUTDOWN_LOG FR_UNKNOWN}"
    and "\<And>s. \<lbrakk>string_inv s; string_bytes s = t\<rbrakk> \<Longrightarrow> case k s of Inl err \<Rightarrow> reply_fails err | Inr x \<Rightarrow> Q x"
  shows "case expretf r flags k of Inl err \<Rightarrow> reply_fails err | Inr x \<Rightarrow> Q x"
  using assms by (auto simp: string_result_def reply_fails_def exerror_append_extend_def)

text \<open>Two buffers with this text.\<close>

definition holds_text :: "byte list \<Rightarrow> char_buffer \<times> char_buffer \<Rightarrow> bool" where
  "holds_text t b \<longleftrightarrow> string_inv (fst b) \<and> string_inv (snd b) \<and> string_bytes (fst b) @ string_bytes (snd b) = t"

lemma http_error_buffers_result:
  assumes "site_ok e" and "job_ok j" and "length status < 100" and "length explanation < 100"
  shows "case http_error_buffers e j status explanation keep of
      Inl err \<Rightarrow> reply_fails err
    | Inr b \<Rightarrow> holds_text (http_error_page status explanation (if keep then ''keep-alive'' else ''close'')) b"
proof -
  note site = site_okD(1,2) [OF assms(1)]
  have ready: "string_inv (job_one j)" "string_shape (job_two j)" "length (string_bytes (job_two j)) < 2 ^ 62"
    using assms(2) by (simp_all add: job_ok_def buffers_ready_def page_start_def)
  let ?page = "''<p>'' @ status @ ''</p>'' @ [LF] @ ''<p>'' @ explanation @ ''</p>'' @ [LF]"
  let ?keep = "if keep then ''keep-alive'' else ''close''"
  have small: "length status < 2 ^ 31" "length explanation < 2 ^ 31" "length ?keep < 2 ^ 31" using assms(3,4) by simp_all
  have plain: "list_all plain_argument [VA_text status, VA_text explanation]" by simp
  show ?thesis unfolding http_error_buffers_def
  proof (rule string_result_expretf)
    show "string_result (string_copy_mem (site_realloc e) (job_two j) html_open) html_open"
      by (rule shape_copy_result [OF site(1) ready(2)]) (use ready(3) string_shapeD(6) [OF ready(2)] in \<open>simp add: html_lengths\<close>)
    fix s2 assume s2: "string_inv s2" "string_bytes s2 = html_open"
    show "case expretf (string_print_append (site_printf e) (site_realloc e) s2 html_template_error_page
               [VA_text status, VA_text explanation]) EEF_CLOSE_LOG (\<lambda>two.
     expretf (string_append_mem (site_realloc e) two html_close) EEF_CLOSE_LOG (\<lambda>two.
     expretf (string_print (site_printf e) (site_realloc e) (job_one j) http_template_error
               [VA_text status, VA_uint (cb_size two), VA_text ?keep]) EEF_CLOSE_LOG (\<lambda>one.
     Inr (one, two)))) of Inl err \<Rightarrow> reply_fails err | Inr b \<Rightarrow> holds_text (http_error_page status explanation ?keep) b"
    proof (rule string_result_expretf [OF print_append_result [OF site s2 plain format_page [OF small(1,2)]]])
      fix s3 assume s3: "string_inv s3" "string_bytes s3 = html_open @ ?page"
      show "case expretf (string_append_mem (site_realloc e) s3 html_close) EEF_CLOSE_LOG (\<lambda>two.
     expretf (string_print (site_printf e) (site_realloc e) (job_one j) http_template_error
               [VA_text status, VA_uint (cb_size two), VA_text ?keep]) EEF_CLOSE_LOG (\<lambda>one.
     Inr (one, two))) of Inl err \<Rightarrow> reply_fails err | Inr b \<Rightarrow> holds_text (http_error_page status explanation ?keep) b"
      proof (rule string_result_expretf [OF append_mem_result [OF site(1) s3]])
        fix s4 assume s4: "string_inv s4" "string_bytes s4 = (html_open @ ?page) @ html_close"
        then have body: "string_bytes s4 = html_error_body status explanation" by (simp add: html_error_body_def)
        then have n: "cb_size s4 = length (html_error_body status explanation)" using string_invD(6) [OF s4(1)] by simp
        have n32: "cb_size s4 < 2 ^ 32" using assms(3,4) by (simp add: n html_error_body_def html_lengths)
        have "list_all plain_argument [VA_text status, VA_uint (cb_size s4), VA_text ?keep]" by simp
        note header = print_result [OF site ready(1) this format_error [OF small(1,3) n32]]
        show "case expretf (string_print (site_printf e) (site_realloc e) (job_one j) http_template_error
               [VA_text status, VA_uint (cb_size s4), VA_text ?keep]) EEF_CLOSE_LOG (\<lambda>one. Inr (one, s4)) of
            Inl err \<Rightarrow> reply_fails err | Inr b \<Rightarrow> holds_text (http_error_page status explanation ?keep) b"
          by (rule string_result_expretf [OF header])
            (use assms(3) length_decimal_text_32 [OF n32] s4(1) n body in
              \<open>simp_all add: http_error_header_def holds_text_def http_error_page_def Let_def\<close>)
      qed (use assms(3,4) in \<open>simp_all add: html_lengths\<close>)
    qed (use assms(3,4) in \<open>simp_all add: html_lengths\<close>)
  qed simp
qed

lemma http_robots_buffers_result:
  assumes "site_ok e" and "job_ok j"
  shows "case http_robots_buffers e j keep of
      Inl err \<Rightarrow> reply_fails err
    | Inr b \<Rightarrow> holds_text (http_success_header e (length txt_robots) keep @ txt_robots) b"
proof -
  note site = site_okD(1,2) [OF assms(1)]
  have ready: "string_inv (job_one j)" "string_shape (job_two j)" "length (string_bytes (job_two j)) < 2 ^ 62"
    using assms(2) by (simp_all add: job_ok_def buffers_ready_def page_start_def)
  have robots: "length txt_robots = 26" by (simp add: txt_robots_def)
  show ?thesis unfolding http_robots_buffers_def
  proof (rule string_result_expretf)
    show "string_result (string_copy_mem (site_realloc e) (job_two j) txt_robots) txt_robots"
      by (rule shape_copy_result [OF site(1) ready(2)]) (use ready(3) string_shapeD(6) [OF ready(2)] in \<open>simp add: robots\<close>)
    fix s assume s: "string_inv s" "string_bytes s = txt_robots"
    then have n: "cb_size s = length txt_robots" using string_invD(6) [OF s(1)] by simp
    then have n32: "cb_size s < 2 ^ 32" by (simp add: robots)
    obtain rest where "list_all plain_argument (success_arguments e (cb_size s) keep)"
      "format_text (site_printf e) http_template_success (success_arguments e (cb_size s) keep) 0 =
         Some (http_success_header e (cb_size s) keep, rest, [])"
      using prints_success [OF assms(1) n32] unfolding prints_def by blast
    note header = print_result [OF site ready(1) this]
    show "case expretf (string_print (site_printf e) (site_realloc e) (job_one j) http_template_success
               (success_arguments e (cb_size s) keep)) EEF_CLOSE_LOG (\<lambda>one. Inr (one, s)) of
        Inl err \<Rightarrow> reply_fails err
      | Inr b \<Rightarrow> holds_text (http_success_header e (length txt_robots) keep @ txt_robots) b"
      by (rule string_result_expretf [OF header])
        (use length_success_header [OF assms(1) n32, of keep] s n in \<open>simp_all add: holds_text_def\<close>)
  qed simp
qed

lemma reply_holds:
  assumes "case r of Inl err \<Rightarrow> reply_fails err | Inr b \<Rightarrow> holds_text t b"
    and "job_ok j" and "site_ok e" and "gets j mv rv pv" and "length t < 2 ^ 62"
  shows "reply_result j (t, keep, 0, 0) (expret r (\<lambda>(one, two). reply_buffers e j one two keep 0 0 mv rv pv))"
proof (cases r)
  case (Inl err)
  then show ?thesis using assms(1) by (simp add: reply_result_def reply_fails_def exerror_append_def)
next
  case (Inr b)
  obtain one two where b: "b = (one, two)" by (cases b)
  have t: "string_inv one" "string_inv two" "string_bytes one @ string_bytes two = t"
    using assms(1) Inr by (simp_all add: b holds_text_def)
  have len: "length (string_bytes one) < 2 ^ 62" "length (string_bytes two) < 2 ^ 62"
    using arg_cong [OF t(3), of length] assms(5) by simp_all
  show ?thesis unfolding Inr b using reply_buffers_result [OF assms(2-4) _ _ t(3) assms(5), where n = 0 and keep = keep and fc = 0] t len
    by (simp add: string_inv_shape buffers_ready_start)
qed

section \<open>Every request\<close>

lemma length_http_error_page:
  assumes "length status < 100" and "length explanation < 100"
  shows "length (http_error_page status explanation (if keep then ''keep-alive'' else ''close'')) < 2 ^ 62"
proof -
  have "length (html_error_body status explanation) < 2 ^ 32" using assms by (simp add: html_error_body_def html_lengths)
  from length_decimal_text_32 [OF this] show ?thesis using assms
    by (simp add: http_error_page_def Let_def http_error_header_def html_error_body_def html_lengths)
qed

text \<open>The answer to a request that names no page or, in HTTP, is no GET request.\<close>

definition specific_answer :: "site \<Rightarrow> nat \<Rightarrow> request \<Rightarrow> byte list \<Rightarrow> byte list \<Rightarrow> byte list \<times> bool \<times> nat \<times> nat" where
  "specific_answer e a r meth res =
     (let keep = keep_alive r; connection = (if keep then ''keep-alive'' else ''close'')
      in if \<not> is_http a then (not_found a, False, 0, 0)
         else if map to_lower meth \<noteq> ''get''
         then (http_error_page ''405 Method Not Allowed'' ''Invalid method'' connection, keep, 0, 0)
         else if map to_lower res = ''/robots.txt''
         then (http_success_header e (length txt_robots) False @ txt_robots, False, 0, 0)
         else (http_error_page ''404 Not Found'' ''Invalid resource'' connection, keep, 0, 0))"

lemma reply_result_expret: "reply_result j t r \<Longrightarrow> reply_result j t (expret r (\<lambda>r. Inr r))"
  by (auto simp: reply_result_def reply_fails_def exerror_append_def split: sum.splits)

lemma processor_process_http_result:
  assumes "job_ok j" and "site_ok e" and "is_http a"
  shows "reply_result j (specific_answer e a (job_request j) (located (job_stream j) (req_method (job_request j)))
    (located (job_stream j) (resource (job_request j)))) (processor_process_http e j)"
proof -
  obtain mv rv pv where g: "gets j mv rv pv" by (rule job_gets [OF assms(1)])
  have robots: "length (http_success_header e (length txt_robots) False @ txt_robots) < 2 ^ 62"
    using length_success_header [OF assms(2), of "length txt_robots" False] by (simp add: txt_robots_def)
  have 405: "reply_result j (http_error_page ''405 Method Not Allowed'' ''Invalid method'' (if keep then ''keep-alive'' else ''close''), keep, 0, 0)
      (expret (http_error_buffers e j ''405 Method Not Allowed'' ''Invalid method'' keep)
        (\<lambda>(one, two). reply_buffers e j one two keep 0 0 mv rv pv))" for keep
    by (rule reply_holds [OF http_error_buffers_result [OF assms(2,1)] assms(1,2) g length_http_error_page]) simp_all
  have 404: "reply_result j (http_error_page ''404 Not Found'' ''Invalid resource'' (if keep then ''keep-alive'' else ''close''), keep, 0, 0)
      (expret (http_error_buffers e j ''404 Not Found'' ''Invalid resource'' keep)
        (\<lambda>(one, two). reply_buffers e j one two keep 0 0 mv rv pv))" for keep
    by (rule reply_holds [OF http_error_buffers_result [OF assms(2,1)] assms(1,2) g length_http_error_page]) simp_all
  have vb: "vbytes (ring_memory (job_stream j)) mv = located (job_stream j) (req_method (job_request j))"
    "vbytes (ring_memory (job_stream j)) rv = located (job_stream j) (resource (job_request j))" using g by (simp_all add: gets_def)
  note compare = value_compare_case_mem_iff [OF refl] vb
  show ?thesis
    using 405 [of "keep_alive (job_request j)"] 404 [of "keep_alive (job_request j)"] assms(3)
      reply_holds [OF http_robots_buffers_result [OF assms(2,1), of False] assms(1,2) g robots, of False]
    unfolding processor_process_http_def get_request_eq [OF g] Let_def compare specific_answer_def by auto
qed

lemma processor_specific_result:
  assumes "job_ok j" and "site_ok e" and "a < 18"
  shows "reply_result j (specific_answer e a (job_request j) (located (job_stream j) (req_method (job_request j)))
    (located (job_stream j) (resource (job_request j)))) (processor_specific e a j)"
proof -
  have replies: "length out < 2 ^ 62 \<Longrightarrow> reply_result j (out, False, 0, 0) (expret (reply_text e j out) (\<lambda>r. Inr r))"
    "length out < 2 ^ 62 \<Longrightarrow> reply_result j (out, False, 0, 0) (expret (expret (reply_text e j out) (\<lambda>r. Inr r)) (\<lambda>r. Inr r))" for out
    by (intro reply_result_expret reply_text_result [OF assms(1,2)]; assumption)+
  have "is_http a \<Longrightarrow> processor_specific e a j = expret (processor_process_http e j) (\<lambda>r. Inr r)"
    by (auto simp: processor_specific_def)
  then have http: "is_http a \<Longrightarrow> ?thesis"
    using reply_result_expret [OF processor_process_http_result [OF assms(1,2), of a]] by simp
  have "is_http a \<or> ACCEPTING_SOCKET_IS_GOPHER a \<or> ACCEPTING_SOCKET_IS_FINGER a \<or> ACCEPTING_SOCKET_IS_GEMINI a \<or>
      ACCEPTING_SOCKET_IS_SPARTAN a \<or> ACCEPTING_SOCKET_IS_NEX a \<or> ACCEPTING_SOCKET_IS_TEXT a \<or> ACCEPTING_SOCKET_IS_GUPPY a"
    unfolding accepting_socket_defs by linarith
  then show ?thesis
    by (elim disjE) (use http in \<open>simp_all add: processor_specific_def specific_answer_def not_found_def
        processor_process_gopher_def processor_process_finger_def processor_process_gemini_def processor_process_spartan_def
        processor_process_nex_def processor_process_text_def processor_process_guppy_def replies FAKE_ENDLINE_def
        accepting_socket_defs\<close>)
qed

lemma page_wanted_bytes:
  assumes "pc_requested_language c = NUL"
  shows "page_wanted a m v c = wanted a (pc_request c) (vbytes m v)"
  using normalize_question_spec [of m v NUL] normalize_slash_spec [of m v NUL] assms
  by (auto simp: page_wanted_def wanted_def split: prod.splits)

lemma page_start_lines:
  "lines_text e a (first_context ((page_start j)\<lparr>pc_requested_language := req, pc_language := lang\<rparr>)) ls =
     lines_text e a (blank_context (job_request j) req lang) ls"
proof -
  have "first_context ((page_start j)\<lparr>pc_requested_language := req, pc_language := lang\<rparr>) =
      (blank_context (job_request j) req lang)\<lparr>pc_one := job_one j, pc_two := job_two j\<rparr>"
    by (simp add: first_context_def page_start_def blank_context_def)
  then show ?thesis by (simp add: lines_buffers)
qed

lemma length_page_answer:
  assumes "site_ok e" and "length t + 100 < 2 ^ 31"
  shows "length (page_answer e a keep t) < 2 ^ 62" and "snd (page_chunks e a c t) \<le> max (pc_chunk_number c) (2 ^ 32)"
    and "pc_first_chunk c = 0 \<Longrightarrow> fst (page_chunks e a c t) < 2 ^ 32"
proof -
  have n: "length (t @ html_close) < 2 ^ 32" "length t < 2 ^ 31" using assms(2) by (simp_all add: html_lengths)
  let ?k = "6 + site_random e 0x1000000"
  have "?k + length t < 2 ^ 32" using assms by (simp add: site_ok_def)
  from guppy_chunks_facts [OF this, of True] have c: "length (guppy_chunks ?k True t) \<le> length t + 1" by blast
  show "length (page_answer e a keep t) < 2 ^ 62"
    using length_success_header [OF assms(1) n(1), of keep] length_guppy_answer [OF assms(1) n(2)] n(2)
    by (auto simp: page_answer_def html_lengths)
  show "snd (page_chunks e a c t) \<le> max (pc_chunk_number c) (2 ^ 32)"
    using c n(2) by (auto simp: page_chunks_def)
  show "pc_first_chunk c = 0 \<Longrightarrow> fst (page_chunks e a c t) < 2 ^ 32"
    using \<open>?k + length t < 2 ^ 32\<close> by (simp add: page_chunks_def)
qed

lemma answer_of_page:
  assumes "\<not> (is_http a \<and> map to_lower meth \<noteq> ''get'')" and "wanted a r res = (name, req, lang)"
  shows "answer_of e w a r meth res =
    (case page_lines e w a lang req name of
       Some ls \<Rightarrow> (let t = page_opening a @ lines_text e a (blank_context r req lang) ls
          in (page_answer e a (keep_alive r) t, keep_alive r, page_chunks e a (blank_context r NUL NUL) t))
     | None \<Rightarrow> specific_answer e a r meth res)"
  using assms by (auto simp: answer_of_def specific_answer_def page_of_def Let_def split: option.splits)

lemma answer_of_other:
  "is_http a \<Longrightarrow> map to_lower meth \<noteq> ''get'' \<Longrightarrow> answer_of e w a r meth res = specific_answer e a r meth res"
  by (auto simp: answer_of_def specific_answer_def Let_def)

lemma processor_process_spec:
  assumes "site_ok e" and "a < 18" and "almanac_ok e w" and "job_ok j"
    and meth: "meth = located (job_stream j) (req_method (job_request j))"
    and res: "res = located (job_stream j) (resource (job_request j))"
    and small: "\<And>t. page_of e w a (job_request j) res = Some t \<Longrightarrow> length t + 100 < 2 ^ 31"
  shows "reply_result j (answer_of e w a (job_request j) meth res) (processor_process e w a j)"
proof -
  obtain mv rv pv where g: "gets j mv rv pv" by (rule job_gets [OF assms(4)])
  have get: "ring_get (job_stream j) (req_method (job_request j)) False = Inr mv"
    "ring_get (job_stream j) (resource (job_request j)) False = Inr rv"
    "ring_get (job_stream j) (protocol (job_request j)) False = Inr pv"
    "vbytes (ring_memory (job_stream j)) mv = meth" "vbytes (ring_memory (job_stream j)) rv = res"
    using g by (simp_all add: gets_def meth res)
  have compare: "value_compare_case_mem (ring_memory (job_stream j)) mv ''get'' (length ''get'') \<longleftrightarrow> map to_lower meth = ''get''"
    by (simp only: value_compare_case_mem_iff [OF refl] get(4))
  note specific = reply_result_expret [OF processor_specific_result [OF _ assms(1,2)]]
  show ?thesis
  proof (cases "is_http a \<and> map to_lower meth \<noteq> ''get''")
    case True
    then have "processor_process e w a j = expret (processor_specific e a j) (\<lambda>r. Inr r)"
      using compare by (auto simp: processor_process_def Let_def get(1))
    then show ?thesis using specific [OF assms(4)] True by (simp add: answer_of_other meth res)
  next
    case page: False
    obtain name req lang where wanted: "wanted a (job_request j) res = (name, req, lang)" by (cases "wanted a (job_request j) res") auto
    let ?c0 = "(page_start j)\<lparr>pc_requested_language := req, pc_language := lang\<rparr>"
    have pw: "page_wanted a (ring_memory (job_stream j)) rv (page_start j) = (name, req, lang)"
      using wanted by (simp add: page_wanted_bytes get(5) page_start_def)
    have pg: "page_of e w a (job_request j) res =
        map_option (\<lambda>ls. page_opening a @ lines_text e a (blank_context (job_request j) req lang) ls) (page_lines e w a lang req name)"
      by (simp add: page_of_def wanted)
    have ready: "buffers_ready (page_start j)" "pc_previous_style (page_start j) = ES_INITIALIZE"
      using assms(4) by (simp_all add: job_ok_def page_start_def)
    note generic = processor_generic_spec [OF assms(1-3) ready pw refl, unfolded page_start_lines]
    have small': "length (page_opening a @ lines_text e a (blank_context (job_request j) req lang) ls) + 100 < 2 ^ 31"
      if "page_lines e w a lang req name = Some ls" for ls
      by (rule small) (simp add: pg that)
    have G: "case processor_generic e w a (ring_memory (job_stream j)) rv (page_start j) of
      Inl err \<Rightarrow> \<exists>m. err = Failed m
    | Inr (c', invalid) \<Rightarrow>
        (case page_lines e w a lang req name of
           None \<Rightarrow> invalid \<and> c' = ?c0
         | Some ls \<Rightarrow> \<not> invalid \<and> answers e a ?c0 (page_opening a @ lines_text e a (blank_context (job_request j) req lang) ls) c')"
      by (rule generic) (rule small')
    define rest where "rest = (\<lambda>(c :: page_context, invalid_resource).
        if \<not> invalid_resource
        then expret (reply_buffers e j (pc_one c) (pc_two c) (keep_alive (job_request j)) (pc_first_chunk c)
                       (pc_chunk_number c) mv rv pv) (\<lambda>r. Inr r)
        else expret (processor_specific e a (j\<lparr>job_one := pc_one c, job_two := pc_two c\<rparr>)) (\<lambda>r. Inr r))"
    have run: "processor_process e w a j =
        expretf (processor_generic e w a (ring_memory (job_stream j)) rv (page_start j)) (EEF_SEND_CLOSE_LOG FR_UNKNOWN) rest"
      using page compare by (auto simp: processor_process_def Let_def get(1-3) rest_def)
    show ?thesis
    proof (cases "processor_generic e w a (ring_memory (job_stream j)) rv (page_start j)")
      case (Inl err)
      then show ?thesis using G unfolding run
        by (auto simp: reply_result_def reply_fails_def exerror_append_extend_def)
    next
      case (Inr x)
      obtain c' invalid where x: "x = (c', invalid)" by (cases x)
      show ?thesis
      proof (cases "page_lines e w a lang req name")
        case None
        then have "invalid" "c' = ?c0" using G Inr by (simp_all add: x)
        then have "j\<lparr>job_one := pc_one c', job_two := pc_two c'\<rparr> = j" by (simp add: page_start_def)
        then show ?thesis using specific [OF assms(4)] None \<open>invalid\<close> unfolding run answer_of_page [OF page wanted]
          by (simp add: Inr x rest_def meth res)
      next
        case (Some ls)
        define t where "t = page_opening a @ lines_text e a (blank_context (job_request j) req lang) ls"
        have ans: "\<not> invalid" "answers e a ?c0 t c'" using G Inr Some by (simp_all add: x t_def)
        have small: "length t + 100 < 2 ^ 31" using small [of t] by (simp add: pg Some t_def)
        have chunks: "page_chunks e a ?c0 t = page_chunks e a (blank_context (job_request j) NUL NUL) t"
          by (simp add: page_chunks_def page_start_def blank_context_def)
        have a: "string_bytes (pc_one c') @ string_bytes (pc_two c') = page_answer e a (keep_alive (job_request j)) t"
          "(pc_first_chunk c', pc_chunk_number c') = page_chunks e a (blank_context (job_request j) NUL NUL) t"
          "string_inv (pc_one c')" "string_shape (pc_two c')" "length (string_bytes (pc_one c')) < 2 ^ 62"
          "length (string_bytes (pc_two c')) < 2 ^ 62"
          using ans(2) by (simp_all add: answers_def chunks buffers_ready_def) (simp add: page_start_def)
        have n: "pc_chunk_number c' \<le> 2 ^ 32" "pc_first_chunk c' < 2 ^ 32"
          using length_page_answer(2,3) [OF assms(1) small, where a = a and c = "blank_context (job_request j) NUL NUL"] a(2) [symmetric]
          by (simp_all add: blank_context_def)
        have "reply_result j (page_answer e a (keep_alive (job_request j)) t, keep_alive (job_request j), pc_first_chunk c', pc_chunk_number c')
            (reply_buffers e j (pc_one c') (pc_two c') (keep_alive (job_request j)) (pc_first_chunk c') (pc_chunk_number c') mv rv pv)"
          by (rule reply_buffers_result [OF assms(4,1) g _ a(4,1) length_page_answer(1) [OF assms(1) small] n])
            (use a in \<open>simp_all add: string_inv_shape buffers_ready_start\<close>)
        then show ?thesis unfolding run answer_of_page [OF page wanted]
          using ans(1) a(2) by (simp add: Inr x rest_def Some Let_def t_def [symmetric] reply_result_expret)
      qed
    qed
  qed
qed

section \<open>Properties\<close>

text \<open>
  C5: every parsed request, of every protocol, is answered with exactly the text the reference gives: the page
  it names, the 404 answer of the protocol, and in HTTP 405 for other methods and the robots file. The metadata
  behind the waiting ones in the response queue announces exactly the size of this text, whether the connection
  stays open, the first datagram and one counter per datagram, followed by method, resource and protocol of the
  request; the buffers are ready for the next request. The only failures are failed allocations, with one of
  three actions, none of which stops the server.
\<close>

theorem processor_process_correct:
  assumes "site_ok e" and "a < 18" and "almanac_ok e w" and "job_ok j"
    and "meth = located (job_stream j) (req_method (job_request j))"
    and "res = located (job_stream j) (resource (job_request j))"
    and "\<And>t. page_of e w a (job_request j) res = Some t \<Longrightarrow> length t + 100 < 2 ^ 31"
  shows "case processor_process e w a j of
      Inl err \<Rightarrow> (\<exists>m. ex_error err = Failed m) \<and>
        ex_flags err \<in> {EEF_CLOSE_LOG, EEF_SEND_CLOSE_LOG FR_UNKNOWN, EEF_SEND_SHUTDOWN_LOG FR_UNKNOWN}
    | Inr p \<Rightarrow>
        (case answer_of e w a (job_request j) meth res of (t, keep, first_chunk, chunk_number) \<Rightarrow>
           vbytes (reply_source p) (reply_stream p) = t \<and>
           rs_stream_size (reply_response p) = length t \<and> rs_keep_alive (reply_response p) = keep \<and>
           \<not> rs_silent (reply_response p) \<and> rs_first_chunk (reply_response p) = first_chunk \<and>
           loc_size (rs_chunks (reply_response p)) = chunk_number \<and>
           ring_inv (reply_queue p) \<and>
           ring_bytes (reply_queue p) = ring_bytes (job_queue j) @ response_bytes (reply_response p) @ meth @ res @
             located (job_stream j) (protocol (job_request j)) @ replicate chunk_number NUL \<and>
           buffers_ready (page_start (j\<lparr>job_one := reply_one p, job_two := reply_two p\<rparr>)))"
  using processor_process_spec [OF assms] assms(5,6)
  by (simp add: reply_result_def reply_fails_def replies_def split: sum.splits prod.splits)

definition sample_job :: job where
  "sample_job = \<lparr>job_request = zero_request\<lparr>resource := \<lparr>loc_offset = 0, loc_size = 3\<rparr>\<rparr>, job_stream = sample_ring, job_memory = 0,
     job_queue = zero_ring, job_one = zero_string, job_two = zero_string\<rparr>"

lemma sample_job_ok: "job_ok sample_job"
  using ring_inv_zero sample_ring_facts string_inv_zero
  by (simp add: job_ok_def sample_job_def zero_request_def zero_location_def loc_end_def buffers_ready_def page_start_def string_inv_shape)
    (simp add: zero_string_def string_bytes_def zero_ring_def)

lemma processor_process_correct_witness:
  "case processor_process sample_site sample_almanac 8 sample_job of
      Inl err \<Rightarrow> \<exists>m. ex_error err = Failed m
    | Inr p \<Rightarrow> vbytes (reply_source p) (reply_stream p) = ''40 Invalid resource'' @ CRLF \<and> \<not> rs_keep_alive (reply_response p)"
proof -
  have site: "site_ok sample_site" "almanac_ok sample_site sample_almanac" by (simp_all add: sample_site_ok sample_ready)
  have loc: "located (job_stream sample_job) (req_method (job_request sample_job)) = []"
    "located (job_stream sample_job) (resource (job_request sample_job)) = ''cab''"
    using sample_ring_facts(2) by (simp_all add: located_def sample_job_def zero_request_def zero_location_def)
  have "wanted 8 (job_request sample_job) ''cab'' = (''cab'', NUL, CHR ''e'')"
    by (simp add: wanted_def ACCEPTING_SOCKET_IS_QUESTION_def accepting_socket_defs question_name_def no_slashes_def no_slashes_back_def
        page_language_def sample_job_def zero_request_def to_lower_def is_upper_def Let_def)
  then have none: "page_of sample_site sample_almanac 8 (job_request sample_job) ''cab'' = None"
    using site_page_name [of sample_site sample_almanac 8 "CHR ''e''" "''cab''"]
    by (cases "site_page sample_site sample_almanac 8 CHR ''e'' ''cab''") (simp_all add: page_of_def page_lines_def page_names_def)
  have answer: "answer_of sample_site sample_almanac 8 (job_request sample_job) [] ''cab'' = (''40 Invalid resource'' @ CRLF, False, 0, 0)"
    unfolding answer_of_def by (simp only: none Let_def option.case) (simp add: not_found_def accepting_socket_defs)
  have small: "page_of sample_site sample_almanac 8 (job_request sample_job) ''cab'' = Some t \<Longrightarrow> length t + 100 < 2 ^ 31" for t
    by (simp add: none)
  have "(8::nat) < 18" by simp
  from processor_process_correct [OF site(1) this site(2) sample_job_ok loc [symmetric] small] show ?thesis
    unfolding answer by (auto split: sum.splits)
qed

end
