(* ===== verification/TS_Traffic.thy ===== *)
theory TS_Traffic
  imports TS_Crypto TS_Process
begin

text \<open>
  \<^verbatim>\<open>source/server/process.c\<close>: a complete request of a client becomes an answer it is owed. The answer is
  encrypted to the response stream of the client, appended to this stream, or, when nothing else waits there, left
  where the processor wrote it (the short response stream, which belongs to one client at a time).
\<close>

section \<open>The state\<close>

text \<open>
  What surrounds the program: the site, the fun facts and times, the rounding of floating point numbers (for
  language weights) and the cryptography library.
\<close>

record 's world =
  the_site :: site
  the_almanac :: almanac
  the_rounding :: "rat \<Rightarrow> rat"
  the_ssl :: "'s openssl"

text \<open>The clients with the handles of those that use cryptography, the global variables and the buffers of pages.\<close>

record 's server =
  sv_globals :: globals
  sv_clients :: "client list"
  sv_handles :: "'s list"
  sv_one :: char_buffer
  sv_two :: char_buffer

abbreviation set_client :: "nat \<Rightarrow> client \<Rightarrow> 's server \<Rightarrow> 's server" where
  "set_client i c S \<equiv> S\<lparr>sv_clients := (sv_clients S)[i := c]\<rparr>"

section \<open>The code\<close>

definition server_reserve_push_value :: "allocator \<Rightarrow> nat \<Rightarrow> ring \<Rightarrow> memory \<Rightarrow> parts \<Rightarrow> (nat \<times> ring) exresult" where
  "server_reserve_push_value realloc g stream m data =
     expretf (ring_reserve realloc g stream (size_add (ring_size stream) (value_size data))) EEF_CLOSE_LOG (\<lambda>(g, stream).
     expret (push_parts EEF_CLOSE_LOG_DIE m stream data) (\<lambda>stream.
     Inr (g, stream)))"

text \<open>Before the next answer is written, the short response stream moves to the stream of its owner.\<close>

definition flush_short :: "'s world \<Rightarrow> 's server \<Rightarrow> 's server exresult" where
  "flush_short W S =
     (let G = sv_globals S
      in case short_response_owner G of
           None \<Rightarrow> Inr S
         | Some k \<Rightarrow>
             expret (server_reserve_push_value (site_realloc (the_site W)) (g_memory G) (response_stream (sv_clients S ! k))
                       (processor_memory G) (short_response_stream G)) (\<lambda>(g, stream).
             Inr (set_client k ((sv_clients S ! k)\<lparr>response_stream := stream\<rparr>)
                   (S\<lparr>sv_globals := G\<lparr>short_response_stream := zero_value, short_response_owner := None, g_memory := g\<rparr>\<rparr>))))"

text \<open>The answer goes to the short-term or the long-term buffer.\<close>

definition save_response :: "'s world \<Rightarrow> nat \<Rightarrow> reply \<Rightarrow> client \<Rightarrow> 's server \<Rightarrow> (client \<times> 's server) exresult" where
  "save_response W i p c S =
     (let G = sv_globals S; realloc = site_realloc (the_site W)
      in if ssl c
         then expret (cryptography_encrypt realloc (the_ssl W) (g_memory G) c (sv_handles S ! i) (reply_response p)
                        (reply_source p) (reply_stream p)) (\<lambda>(g, c, h).
              Inr (c, S\<lparr>sv_globals := G\<lparr>g_memory := g\<rparr>, sv_handles := (sv_handles S)[i := h]\<rparr>))
         else if ring_size (response_stream c) > 0
         then expret (server_reserve_push_value realloc (g_memory G) (response_stream c) (reply_source p) (reply_stream p)) (\<lambda>(g, stream).
              Inr (c\<lparr>response_stream := stream\<rparr>, S\<lparr>sv_globals := G\<lparr>g_memory := g\<rparr>\<rparr>))
         else Inr (c, S\<lparr>sv_globals := G\<lparr>short_response_stream := reply_stream p, processor_memory := reply_source p,
                short_response_owner := Some i\<rparr>\<rparr>))"

text \<open>The end of \<^verbatim>\<open>server_process_traffic\<close>: ready for the next request, or the end of the secure connection.\<close>

definition reset_parser :: "'s world \<Rightarrow> nat \<Rightarrow> client \<Rightarrow> 's server \<Rightarrow> (client \<times> 's server) exresult" where
  "reset_parser W i c S =
     (if rs_keep_alive (client_response c)
      then Inr (c\<lparr>client_request := zero_request, client_parser := zero_parser\<rparr>, S)
      else if ssl c
      then expret (cryptography_finalize (site_realloc (the_site W)) (the_ssl W) (g_memory (sv_globals S)) c (sv_handles S ! i)) (\<lambda>(g, c).
           Inr (c, S\<lparr>sv_globals := (sv_globals S)\<lparr>g_memory := g\<rparr>\<rparr>))
      else Inr (c, S))"

definition server_process_traffic :: "'s world \<Rightarrow> nat \<Rightarrow> int \<Rightarrow> 's server \<Rightarrow> 's server exresult" where
  "server_process_traffic W i now S =
     (let c = sv_clients S ! i
      in case parser_parse (the_rounding W) (accepting_socket c) (client_parser c) (client_request c) (request_stream c) of
           (Some e, _, _) \<Rightarrow> Inl (exerror_append e)
         | (None, p, r) \<Rightarrow>
            (let c = c\<lparr>client_parser := p, client_request := r\<rparr>
             in if state p \<noteq> RPS_END then Inr (set_client i c S)
                else expret (flush_short W (set_client i (c\<lparr>last_request_complete := now\<rparr>) S)) (\<lambda>S.
                let c = sv_clients S ! i; G = sv_globals S
                in expret (processor_process (the_site W) (the_almanac W) (accepting_socket c)
                     \<lparr>job_request = client_request c, job_stream = request_stream c, job_memory = g_memory G,
                      job_queue = response_queue c, job_one = sv_one S, job_two = sv_two S\<rparr>) (\<lambda>reply.
                   expretf (ring_pop (request_stream c) (stream_size (client_request c))) EEF_CLOSE_LOG_DIE (\<lambda>stream.
                   let c = c\<lparr>response_queue := reply_queue reply, request_stream := stream\<rparr>;
                       c = (if response_count c = 0 then c\<lparr>client_response := reply_response reply\<rparr> else c);
                       S = S\<lparr>sv_globals := G\<lparr>g_memory := reply_memory reply\<rparr>, sv_one := reply_one reply, sv_two := reply_two reply\<rparr>
                   in expret (save_response W i reply c S) (\<lambda>(c, S).
                      expret (reset_parser W i (c\<lparr>response_count := size_add (response_count c) 1\<rparr>) S) (\<lambda>(c, S).
                      Inr (set_client i c S))))))))"

section \<open>The books of all clients\<close>

text \<open>
  Every client's books are balanced (\<open>ess\<close> are the responses each of them is still owed), and the owner of the short
  response stream has nothing in its own stream, so that the two may be joined in this order.
\<close>

definition server_ok :: "'s server \<Rightarrow> TS_Send.entry list list \<Rightarrow> bool" where
  "server_ok S ess \<longleftrightarrow> length ess = length (sv_clients S) \<and>
     (\<forall>k<length ess. send_inv (sv_globals S) k (sv_clients S ! k) (ess ! k)) \<and>
     (\<forall>k. short_response_owner (sv_globals S) = Some k \<longrightarrow> k < length ess \<and> ring_size (response_stream (sv_clients S ! k)) = 0)"

abbreviation owed_to :: "'s server \<Rightarrow> nat \<Rightarrow> byte list" where
  "owed_to S k \<equiv> owed (sv_globals S) k (sv_clients S ! k)"

lemma push_value_cases:
  assumes "ring_inv stream" and "realloc_ok realloc" and "ring_size stream + value_size data \<le> 2 ^ 63"
  obtains (fail) "server_reserve_push_value realloc g stream m data = Inl \<lparr>ex_error = Failed ''new_p != NULL'', ex_flags = EEF_CLOSE_LOG\<rparr>"
  | (ok) g' q where "server_reserve_push_value realloc g stream m data = Inr (g', q)" "ring_inv q"
      "ring_bytes q = ring_bytes stream @ vbytes m data"
proof -
  have add: "size_add (ring_size stream) (value_size data) = ring_size stream + value_size data" using assms(3) by simp
  have push: thesis if q: "ring_reserve realloc g stream (ring_size stream + value_size data) = Inr (g', q)" "ring_inv q"
    "ring_bytes q = ring_bytes stream" "ring_size q + value_size data \<le> ring_capacity q" for g' q
    using push_parts_ok [OF q(2,4), of EEF_CLOSE_LOG_DIE m] q(1,3)
    by (elim exE conjE) (rule ok; simp add: server_reserve_push_value_def add)
  show thesis
  proof (rule ring_reserve_cases [OF assms, of g], goal_cases)
    case 1
    then show ?case using push assms(1) by simp
  next
    case (2 nc)
    then show ?case by (intro fail) (simp add: server_reserve_push_value_def add exerror_append_extend_def)
  next
    case (3 q)
    then show ?case using push [of _ q] by simp
  qed
qed

text \<open>The owner's stream is empty: moving the short response stream there changes nothing that is owed to anyone.\<close>

lemma flush_short_ok:
  assumes "server_ok S ess" and "realloc_ok (site_realloc (the_site W))"
    and "\<And>k. k < length ess \<Longrightarrow> length (owed_to S k) \<le> 2 ^ 63"
  shows "case flush_short W S of
      Inl e \<Rightarrow> e = \<lparr>ex_error = Failed ''new_p != NULL'', ex_flags = EEF_CLOSE_LOG\<rparr>
    | Inr S' \<Rightarrow> server_ok S' ess \<and> short_response_owner (sv_globals S') = None \<and>
        (\<forall>k<length ess. owed_to S' k = owed_to S k \<and>
           (\<exists>s. sv_clients S' ! k = (sv_clients S ! k)\<lparr>response_stream := s\<rparr>)) \<and>
        sv_one S' = sv_one S \<and> sv_two S' = sv_two S \<and> sv_handles S' = sv_handles S"
proof (cases "short_response_owner (sv_globals S)")
  case None
  have "\<exists>s. c = c\<lparr>response_stream := s\<rparr>" for c :: client by (rule exI [of _ "response_stream c"]) simp
  then show ?thesis using None assms(1) by (simp add: flush_short_def)
next
  case (Some k)
  let ?G = "sv_globals S" and ?c = "sv_clients S ! k"
  let ?short = "vbytes (processor_memory ?G) (short_response_stream ?G)"
  have k: "k < length ess" "ring_size (response_stream ?c) = 0" "send_inv ?G k ?c (ess ! k)"
    using assms(1) Some by (auto simp: server_ok_def)
  then have inv: "ring_inv (response_stream ?c)" by (simp add: send_inv_def)
  have empty: "ring_bytes (response_stream ?c) = []" using length_ring_bytes [OF inv] k(2) by simp
  have owed: "owed_to S k = ?short" using Some empty by (simp add: owed_def)
  have room: "ring_size (response_stream ?c) + value_size (short_response_stream ?G) \<le> 2 ^ 63"
    using assms(3) [OF k(1)] k(2) unfolding owed by (simp add: value_size_length [of _ "processor_memory ?G"])
  show ?thesis
  proof (rule push_value_cases [OF inv assms(2) room, of "g_memory ?G" "processor_memory ?G"], goal_cases)
    case 1
    then show ?case by (simp add: flush_short_def Some Let_def exerror_append_def)
  next
    case (2 g' q)
    define G' where "G' = ?G\<lparr>short_response_stream := zero_value, short_response_owner := None, g_memory := g'\<rparr>"
    define S' where "S' = set_client k (?c\<lparr>response_stream := q\<rparr>) (S\<lparr>sv_globals := G'\<rparr>)"
    have run: "flush_short W S = Inr S'" using 2(1) by (simp add: flush_short_def Some Let_def S'_def G'_def)
    have len: "length ess = length (sv_clients S)" using assms(1) by (simp add: server_ok_def)
    have client: "sv_clients S' ! j = (if j = k then ?c\<lparr>response_stream := q\<rparr> else sv_clients S ! j)" if "j < length ess" for j
      using that k(1) len by (simp add: S'_def)
    have same: "owed_to S' j = owed_to S j" if "j < length ess" for j
    proof (cases "j = k")
      case True
      then show ?thesis using 2(3) empty owed client [OF that] by (simp add: S'_def G'_def owed_def)
    next
      case False
      then show ?thesis using client [OF that] Some by (simp add: S'_def G'_def owed_def)
    qed
    have "send_inv (sv_globals S') j (sv_clients S' ! j) (ess ! j)" if j: "j < length ess" for j
    proof -
      have I: "send_inv ?G j (sv_clients S ! j) (ess ! j)" using assms(1) j by (simp add: server_ok_def)
      show ?thesis
        using I same [OF j] 2(2) unfolding send_inv_def by (simp add: client [OF j] split: if_splits)
    qed
    then have "server_ok S' ess" using len by (simp add: server_ok_def) (simp add: S'_def G'_def)
    moreover have "\<exists>s. sv_clients S' ! j = (sv_clients S ! j)\<lparr>response_stream := s\<rparr>" if "j < length ess" for j
      using client [OF that] by (auto intro: exI [of _ "response_stream (sv_clients S ! j)"])
    ultimately show ?case using run same by (simp add: S'_def G'_def)
  qed
qed

section \<open>One answer\<close>

lemma books_append:
  assumes "send_inv G i c es" and "TS_Send.entry_ok (r, payload)" and "ring_inv q"
    and "ring_bytes q = ring_bytes (response_queue c) @ response_bytes r @ payload" and "length es < 2 ^ 63"
    and "response_queue c' = q" and "client_response c' = (if response_count c = 0 then r else client_response c)"
    and "response_count c' = size_add (response_count c) 1" and "ring_inv (response_stream c')"
    and "length (owed G' i c') = length (owed G i c) + rs_stream_size r" and "length (owed G' i c') < 2 ^ 64"
  shows "send_inv G' i c' (es @ [(r, payload)])"
proof -
  define d where "d = c\<lparr>response_queue := q, client_response := (if response_count c = 0 then r else client_response c),
      response_count := size_add (response_count c) 1\<rparr>"
  have d: "queue_holds d (es @ [(r, payload)])" "outstanding d (es @ [(r, payload)]) = outstanding c es @ [rs_stream_size r]"
    by (rule queue_append [OF _ assms(2-5) d_def]; use assms(1) in \<open>simp add: send_inv_def\<close>)+
  have "queue_holds c' (es @ [(r, payload)])" "outstanding c' (es @ [(r, payload)]) = outstanding d (es @ [(r, payload)])"
    using d(1) assms(6-8) by (auto simp: queue_holds_def outstanding_def d_def split: list.splits)
  then show ?thesis using d(2) assms(1,5,9-11) by (simp add: send_inv_def)
qed

lemma save_plain_ok:
  assumes "\<not> ssl c" and "realloc_ok (site_realloc (the_site W))" and "short_response_owner (sv_globals S) = None"
    and "ring_inv (response_stream c)" and "ring_size (response_stream c) + value_size (reply_stream p) \<le> 2 ^ 63"
    and "vbytes (reply_source p) (reply_stream p) = t"
  shows "case save_response W i p c S of
      Inl e \<Rightarrow> e = \<lparr>ex_error = Failed ''new_p != NULL'', ex_flags = EEF_CLOSE_LOG\<rparr>
    | Inr (c', S') \<Rightarrow> (\<exists>s. c' = c\<lparr>response_stream := s\<rparr> \<and> ring_inv s) \<and>
        owed (sv_globals S') i c' = ring_bytes (response_stream c) @ t \<and> sv_clients S' = sv_clients S \<and>
        (short_response_owner (sv_globals S') = None \<or>
           short_response_owner (sv_globals S') = Some i \<and> ring_size (response_stream c') = 0) \<and>
        sv_one S' = sv_one S \<and> sv_two S' = sv_two S \<and> sv_handles S' = sv_handles S"
proof (cases "ring_size (response_stream c) > 0")
  case True
  show ?thesis
    by (rule push_value_cases [OF assms(4,2,5), of "g_memory (sv_globals S)" "reply_source p"])
      (use True assms in \<open>auto simp: save_response_def Let_def owed_def exerror_append_def\<close>)
next
  case False
  then have "ring_bytes (response_stream c) = []" using length_ring_bytes [OF assms(4)] by simp
  moreover have "\<exists>s. c = c\<lparr>response_stream := s\<rparr> \<and> ring_inv s"
    using assms(4) by (intro exI [of _ "response_stream c"]) simp
  ultimately show ?thesis using False assms by (simp add: save_response_def Let_def owed_def)
qed

lemma length_answer_of:
  assumes "site_ok e" and "\<And>t. page_of e w a r res = Some t \<Longrightarrow> length t + 100 < 2 ^ 31"
  shows "length (fst (answer_of e w a r meth res)) < 2 ^ 62"
proof -
  have robots: "length (http_success_header e (length txt_robots) False @ txt_robots) < 2 ^ 62"
    using length_success_header [OF assms(1), of "length txt_robots" False] by (simp add: txt_robots_def)
  have none: "length (not_found a) < 2 ^ 62" by (simp add: not_found_def FAKE_ENDLINE_def)
  have pages: "length (http_error_page ''405 Method Not Allowed'' ''Invalid method'' (if k then ''keep-alive'' else ''close'')) < 2 ^ 62"
    "length (http_error_page ''404 Not Found'' ''Invalid resource'' (if k then ''keep-alive'' else ''close'')) < 2 ^ 62" for k
    by (rule length_http_error_page; simp)+
  show ?thesis
  proof (cases "page_of e w a r res")
    case None
    then show ?thesis unfolding answer_of_def Let_def by (simp only: option.case) (use robots none pages in \<open>simp only: fst_conv split: if_split; blast\<close>)
  next
    case (Some t)
    then show ?thesis unfolding answer_of_def Let_def
      by (simp only: option.case) (use pages length_page_answer(1) [OF assms(1) assms(2) [OF Some]] in \<open>simp only: fst_conv split: if_split; blast\<close>)
  qed
qed

text \<open>The state of a client between two rounds.\<close>

definition client_ok :: "client \<Rightarrow> bool" where
  "client_ok c \<longleftrightarrow> accepting_socket c < 18 \<and> ring_inv (request_stream c) \<and> ring_size (request_stream c) < 2 ^ 60 \<and>
     ring_size (response_queue c) < 2 ^ 60 \<and> parser_ok (accepting_socket c) (client_parser c) (client_request c) \<and>
     stream_size (client_request c) \<le> ring_size (request_stream c) \<and> stream_size (client_request c) \<le> MAX_REQUEST_SIZE"

definition pages_ready :: "'s server \<Rightarrow> bool" where
  "pages_ready S \<longleftrightarrow> string_inv (sv_one S) \<and> string_shape (sv_two S) \<and> length (string_bytes (sv_one S)) < 2 ^ 62 \<and>
     length (string_bytes (sv_two S)) < 2 ^ 62"

lemma parsed_located:
  assumes "client_ok c" and "parser_parse rnd (accepting_socket c) (client_parser c) (client_request c) (request_stream c) = (None, p, r)"
    and "state p = RPS_END"
  shows "locations_ok p r" and "stream_size r \<le> ring_size (request_stream c)"
proof -
  have "parsed_ok (accepting_socket c) (client_request c)
      (min (ring_size (request_stream c)) MAX_REQUEST_SIZE - stream_size (client_request c)) (None, p, r)"
    using parser_parse_ok [of "request_stream c" "accepting_socket c" "client_parser c" "client_request c" rnd] assms(1,2)
    by (simp add: client_ok_def)
  then have P: "parser_ok (accepting_socket c) p r" "stream_size r \<le> stream_size (client_request c) +
      (min (ring_size (request_stream c)) MAX_REQUEST_SIZE - stream_size (client_request c))"
    by (simp_all add: parsed_ok_def)
  show "locations_ok p r" by (rule parser_ok_end [OF P(1) assms(3)])
  show "stream_size r \<le> ring_size (request_stream c)" using P(2) assms(1) by (simp add: client_ok_def)
qed

text \<open>The new state after an answer \<open>(t, keep, first_chunk, chunk_number)\<close> to a request \<open>r\<close> of the client \<open>i\<close>.\<close>

definition served :: "nat \<Rightarrow> parser \<Rightarrow> request \<Rightarrow> int \<Rightarrow> byte list \<times> bool \<times> nat \<times> nat \<Rightarrow> 's server \<Rightarrow> TS_Send.entry list list \<Rightarrow> TS_Send.entry \<Rightarrow>
    's server \<Rightarrow> bool" where
  "served i p r now answer S ess new S' \<longleftrightarrow>
     (let c = sv_clients S ! i; c' = sv_clients S' ! i
      in case answer of (t, keep, first_chunk, chunk_number) \<Rightarrow>
        server_ok S' (ess[i := ess ! i @ [new]]) \<and> pages_ready S' \<and>
        rs_stream_size (fst new) = length t \<and> rs_keep_alive (fst new) = keep \<and> \<not> rs_silent (fst new) \<and>
        owed_to S' i = owed_to S i @ t \<and> (\<forall>k<length ess. k \<noteq> i \<longrightarrow> owed_to S' k = owed_to S k) \<and>
        ring_inv (request_stream c') \<and> ring_bytes (request_stream c') = drop (stream_size r) (ring_bytes (request_stream c)) \<and>
        last_request_complete c' = now \<and> accepting_socket c' = accepting_socket c \<and>
        (if rs_keep_alive (client_response c') then client_parser c' = zero_parser \<and> client_request c' = zero_request
         else client_parser c' = p \<and> client_request c' = r))"

lemma process_traffic_spec:
  assumes site: "site_ok (the_site W)" "almanac_ok (the_site W) (the_almanac W)"
    and ok: "server_ok S ess" "pages_ready S" "i < length ess"
    and c: "c = sv_clients S ! i" "client_ok c" "\<not> ssl c"
    and parse: "parser_parse (the_rounding W) (accepting_socket c) (client_parser c) (client_request c) (request_stream c) = (None, p, r)"
      "state p = RPS_END"
    and meth: "meth = located (request_stream c) (req_method r)" and res: "res = located (request_stream c) (resource r)"
    and small: "\<And>t. page_of (the_site W) (the_almanac W) (accepting_socket c) r res = Some t \<Longrightarrow> length t + 100 < 2 ^ 31"
    and room: "\<And>k. k < length ess \<Longrightarrow> length (owed_to S k) < 2 ^ 60" "length (ess ! i) < 2 ^ 60"
  shows "case server_process_traffic W i now S of
      Inl err \<Rightarrow> reply_fails err
    | Inr S' \<Rightarrow> \<exists>new. served i p r now (answer_of (the_site W) (the_almanac W) (accepting_socket c) r meth res) S ess new S'"
proof -
  let ?a = "accepting_socket c" and ?realloc = "site_realloc (the_site W)"
  let ?fail = "\<lparr>ex_error = Failed ''new_p != NULL'', ex_flags = EEF_CLOSE_LOG\<rparr>"
  have fails: "reply_fails ?fail" "reply_fails err \<Longrightarrow> reply_fails (exerror_append err)" for err
    by (auto simp: reply_fails_def exerror_append_def)
  obtain t keep fc n where answer: "answer_of (the_site W) (the_almanac W) ?a r meth res = (t, keep, fc, n)"
    by (metis prod.exhaust)
  have len: "length ess = length (sv_clients S)" using ok(1) by (simp add: server_ok_def)
  define c1 where "c1 = c\<lparr>client_parser := p, client_request := r, last_request_complete := now\<rparr>"
  define S1 where "S1 = set_client i c1 S"
  have client1: "sv_clients S1 ! k = (if k = i then c1 else sv_clients S ! k)" if "k < length ess" for k
    using that len by (simp add: S1_def)
  have books1: "owed_to S1 k = owed_to S k" "send_inv (sv_globals S1) k (sv_clients S1 ! k) es = send_inv (sv_globals S) k (sv_clients S ! k) es"
    if "k < length ess" for k es
  proof -
    have f: "response_stream (sv_clients S1 ! k) = response_stream (sv_clients S ! k)"
      "response_queue (sv_clients S1 ! k) = response_queue (sv_clients S ! k)"
      "client_response (sv_clients S1 ! k) = client_response (sv_clients S ! k)"
      "response_count (sv_clients S1 ! k) = response_count (sv_clients S ! k)"
      using client1 [OF that] c(1) by (simp_all add: c1_def)
    show "owed_to S1 k = owed_to S k" using send_inv_cong(3) [OF f] by (simp add: S1_def)
    show "send_inv (sv_globals S1) k (sv_clients S1 ! k) es = send_inv (sv_globals S) k (sv_clients S ! k) es"
      using send_inv_cong(4) [OF f] by (simp add: S1_def)
  qed
  have stream1: "response_stream (sv_clients S1 ! k) = response_stream (sv_clients S ! k)" if "k < length ess" for k
    using client1 [OF that] c(1) by (simp add: c1_def)
  have ok1: "server_ok S1 ess"
    using ok(1) books1(2) stream1 len unfolding server_ok_def by (auto simp: S1_def)
  have room1: "length (owed_to S1 k) \<le> 2 ^ 63" if "k < length ess" for k
    using room(1) [OF that] books1(1) [OF that] by simp
  define continue where "continue = (\<lambda>S. let c = sv_clients S ! i; G = sv_globals S
                in expret (processor_process (the_site W) (the_almanac W) (accepting_socket c)
                     \<lparr>job_request = client_request c, job_stream = request_stream c, job_memory = g_memory G,
                      job_queue = response_queue c, job_one = sv_one S, job_two = sv_two S\<rparr>) (\<lambda>reply.
                   expretf (ring_pop (request_stream c) (stream_size (client_request c))) EEF_CLOSE_LOG_DIE (\<lambda>stream.
                   let c = c\<lparr>response_queue := reply_queue reply, request_stream := stream\<rparr>;
                       c = (if response_count c = 0 then c\<lparr>client_response := reply_response reply\<rparr> else c);
                       S = S\<lparr>sv_globals := G\<lparr>g_memory := reply_memory reply\<rparr>, sv_one := reply_one reply, sv_two := reply_two reply\<rparr>
                   in expret (save_response W i reply c S) (\<lambda>(c, S).
                      expret (reset_parser W i (c\<lparr>response_count := size_add (response_count c) 1\<rparr>) S) (\<lambda>(c, S).
                      Inr (set_client i c S))))))"
  have run: "server_process_traffic W i now S = expret (flush_short W S1) continue"
    by (simp add: server_process_traffic_def c(1) [symmetric] parse Let_def S1_def c1_def continue_def)
  show ?thesis
  proof (cases "flush_short W S1")
    case (Inl err)
    then show ?thesis using flush_short_ok [OF ok1 site_okD(1) [OF site(1)] room1] fails by (simp add: run)
  next
    case (Inr S2)
    then have F: "server_ok S2 ess" "short_response_owner (sv_globals S2) = None"
      "\<And>k. k < length ess \<Longrightarrow> owed_to S2 k = owed_to S k"
      "\<And>k. k < length ess \<Longrightarrow> \<exists>s. sv_clients S2 ! k = (sv_clients S1 ! k)\<lparr>response_stream := s\<rparr>"
      "sv_one S2 = sv_one S" "sv_two S2 = sv_two S"
      using flush_short_ok [OF ok1 site_okD(1) [OF site(1)] room1] books1(1) by (auto simp: S1_def)
    define c2 where "c2 = sv_clients S2 ! i"
    obtain s where s: "c2 = c1\<lparr>response_stream := s\<rparr>" using F(4) [OF ok(3)] client1 [OF ok(3)] by (auto simp: c2_def)
    have I2: "send_inv (sv_globals S2) i c2 (ess ! i)" using F(1) ok(3) by (simp add: server_ok_def c2_def)
    have owed2: "owed (sv_globals S2) i c2 = ring_bytes (response_stream c2)" "owed (sv_globals S2) i c2 = owed_to S i"
      using F(2) F(3) [OF ok(3)] by (simp_all add: owed_def c2_def)
    define j where "j = \<lparr>job_request = r, job_stream = request_stream c, job_memory = g_memory (sv_globals S2),
      job_queue = response_queue c, job_one = sv_one S, job_two = sv_two S\<rparr>"
    note L = parsed_located [OF c(2) parse]
    have qi: "ring_inv (response_queue c)" "response_count c = length (ess ! i)"
      using ok(1,3) c(1) by (simp_all add: server_ok_def send_inv_def queue_holds_def)
    have job: "job_ok j"
      using c(2) ok(2) L qi by (simp add: job_ok_def j_def client_ok_def locations_ok_def pages_ready_def buffers_ready_def page_start_def)
    have process: "reply_result j (t, keep, fc, n) (processor_process (the_site W) (the_almanac W) ?a j)"
      using processor_process_spec [OF site(1) _ site(2) job, of ?a meth res] meth res small c(2) answer
      by (simp add: j_def client_ok_def)
    have fields: "accepting_socket c2 = ?a" "client_request c2 = r" "request_stream c2 = request_stream c" "response_queue c2 = response_queue c"
      "response_count c2 = response_count c" "client_response c2 = client_response c" "ssl c2 = ssl c" "client_parser c2 = p"
      "last_request_complete c2 = now" by (simp_all add: s c1_def)
    show ?thesis
    proof (cases "processor_process (the_site W) (the_almanac W) ?a j")
      case (Inl err)
      then have "continue S2 = Inl (exerror_append err)"
        by (simp add: continue_def Let_def c2_def [symmetric] fields F(5,6)) (simp add: j_def)
      then show ?thesis using process Inl fails \<open>flush_short W S1 = Inr S2\<close> by (simp add: run reply_result_def)
    next
      case (Inr reply)
      note R = process [unfolded Inr reply_result_def replies_def, simplified]
      have inv: "ring_inv (request_stream c)" using c(2) by (simp add: client_ok_def)
      from ring_pop_ok [OF inv L(2)] obtain q where q: "ring_pop (request_stream c) (stream_size r) = Inr q" "ring_inv q"
        "ring_bytes q = drop (stream_size r) (ring_bytes (request_stream c))" by blast
      let ?resp = "reply_response reply"
      define payload where "payload = located (request_stream c) (req_method r) @ located (request_stream c) (resource r) @
        located (request_stream c) (protocol r) @ replicate n NUL"
      define c3 where "c3 = c2\<lparr>response_queue := reply_queue reply, request_stream := q,
        client_response := (if response_count c = 0 then ?resp else client_response c)\<rparr>"
      define S3 where "S3 = S2\<lparr>sv_globals := (sv_globals S2)\<lparr>g_memory := reply_memory reply\<rparr>, sv_one := reply_one reply, sv_two := reply_two reply\<rparr>"
      have cont: "continue S2 = expret (save_response W i reply c3 S3) (\<lambda>(c, S).
          expret (reset_parser W i (c\<lparr>response_count := size_add (response_count c) 1\<rparr>) S) (\<lambda>(c, S). Inr (set_client i c S)))"
      proof -
        have "(if response_count (c2\<lparr>response_queue := reply_queue reply, request_stream := q\<rparr>) = 0
              then c2\<lparr>response_queue := reply_queue reply, request_stream := q\<rparr>\<lparr>client_response := ?resp\<rparr>
              else c2\<lparr>response_queue := reply_queue reply, request_stream := q\<rparr>) = c3"
          by (simp add: c3_def fields)
        then show ?thesis using Inr q(1)
          by (cases "response_count c = 0") (simp_all add: continue_def Let_def c2_def [symmetric] fields F(5,6) S3_def j_def)
      qed
      have lenloc: "length (located (request_stream c) l) = loc_size l" if "loc_end l \<le> stream_size r" for l
        using that L(2) length_ring_bytes [OF inv] by (simp add: located_def loc_end_def)
      have entry: "TS_Send.entry_ok (?resp, payload)"
        using R L(1) lenloc
        by (simp add: TS_Send.entry_ok_def payload_def j_def locations_ok_def loc_end_def)
      have queue: "ring_inv (reply_queue reply)"
        "ring_bytes (reply_queue reply) = ring_bytes (response_queue c2) @ response_bytes ?resp @ payload"
        using R fields(4) by (simp_all add: j_def payload_def)
      have "length (fst (answer_of (the_site W) (the_almanac W) ?a r meth res)) < 2 ^ 62"
        by (rule length_answer_of [OF site(1)]) (rule small)
      then have t: "length t < 2 ^ 62" "value_size (reply_stream reply) = length t"
        using answer R by (simp_all add: value_size_length [of _ "reply_source reply"])
      have inv2: "ring_inv (response_stream c2)" using I2 by (simp add: send_inv_def)
      have "length (ring_bytes (response_stream c2)) < 2 ^ 60" using room(1) [OF ok(3)] owed2 by simp
      then have fits: "ring_size (response_stream c3) + value_size (reply_stream reply) \<le> 2 ^ 63"
        using length_ring_bytes [OF inv2] t by (simp add: c3_def)
      have plain: "\<not> ssl c3" "short_response_owner (sv_globals S3) = None" "ring_inv (response_stream c3)"
        "vbytes (reply_source reply) (reply_stream reply) = t"
        using c(3) fields F(2) inv2 R by (simp_all add: c3_def S3_def)
      note save = save_plain_ok [OF plain(1) site_okD(1) [OF site(1)] plain(2,3) fits plain(4), of i]
      show ?thesis
      proof (cases "save_response W i reply c3 S3")
        case (Inl err)
        then show ?thesis using save fails \<open>flush_short W S1 = Inr S2\<close> by (simp add: run cont)
      next
        case saved: (Inr x)
        obtain c4 S4 where x: "x = (c4, S4)" by (cases x)
        obtain s4 where c4: "c4 = c3\<lparr>response_stream := s4\<rparr>" "ring_inv s4" using save saved by (auto simp: x)
        have V: "owed (sv_globals S4) i c4 = ring_bytes (response_stream c3) @ t" "sv_clients S4 = sv_clients S3"
          "short_response_owner (sv_globals S4) = None \<or> short_response_owner (sv_globals S4) = Some i \<and> ring_size (response_stream c4) = 0"
          "sv_one S4 = sv_one S3" "sv_two S4 = sv_two S3"
          using save saved by (simp_all add: x)
        define c5 where "c5 = c4\<lparr>response_count := size_add (response_count c4) 1\<rparr>"
        define c6 where "c6 = (if rs_keep_alive (client_response c5) then c5\<lparr>client_request := zero_request, client_parser := zero_parser\<rparr> else c5)"
        have nossl: "\<not> ssl c5" using plain(1) by (simp add: c5_def c4)
        then have reset: "reset_parser W i c5 S4 = Inr (c6, S4)" by (simp add: reset_parser_def c6_def)
        define S6 where "S6 = set_client i c6 S4"
        have final: "server_process_traffic W i now S = Inr S6"
          using \<open>flush_short W S1 = Inr S2\<close> saved reset [unfolded c5_def] by (simp add: run cont x S6_def)
        have len2: "length (sv_clients S2) = length ess" using F(1) by (simp add: server_ok_def)
        have client6: "sv_clients S6 ! k = (if k = i then c6 else sv_clients S2 ! k)" if "k < length ess" for k
          using that len2 V(2) by (simp add: S6_def S3_def)
        have out6: "response_stream c6 = response_stream c5" "response_queue c6 = response_queue c5"
          "client_response c6 = client_response c5" "response_count c6 = response_count c5" by (simp_all add: c6_def)
        have len6: "length (sv_clients S6) = length ess" using len2 V(2) by (simp add: S6_def S3_def)
        have G6: "sv_globals S6 = sv_globals S4" by (simp add: S6_def)
        have owed6: "owed (sv_globals S6) i c6 = owed_to S i @ t"
        proof -
          have "owed (sv_globals S6) i c6 = owed (sv_globals S4) i c4" using out6(1) by (simp add: owed_def G6 c5_def)
          then show ?thesis using V(1) owed2 by (simp add: c3_def)
        qed
        have others: "owed_to S6 k = owed_to S2 k" if "k < length ess" "k \<noteq> i" for k
          using client6 [OF that(1)] that(2) V(3) F(2) by (auto simp: owed_def G6)
        have "send_inv (sv_globals S6) i c6 (ess ! i @ [(?resp, payload)])"
        proof (rule books_append [OF I2 entry queue])
          show "length (owed (sv_globals S6) i c6) = length (owed (sv_globals S2) i c2) + rs_stream_size ?resp"
            using owed6 owed2(2) R by simp
          show "length (owed (sv_globals S6) i c6) < 2 ^ 64" using owed6 t(1) room(1) [OF ok(3)] by simp
        qed (use out6 room(2) c4 in \<open>simp_all add: c5_def c3_def fields\<close>)
        moreover have "send_inv (sv_globals S6) k (sv_clients S6 ! k) (ess ! k)" if k: "k < length ess" "k \<noteq> i" for k
        proof -
          have "send_inv (sv_globals S2) k (sv_clients S2 ! k) (ess ! k)" using F(1) k(1) by (simp add: server_ok_def)
          then show ?thesis using others [OF k] client6 [OF k(1)] k(2) by (simp add: send_inv_def)
        qed
        ultimately have "server_ok S6 (ess[i := ess ! i @ [(?resp, payload)]])"
          using V(2,3) len2 len6 ok(3) client6 out6(1)
          by (auto simp: server_ok_def nth_list_update G6 S3_def c5_def)
        moreover have "pages_ready S6"
          using R V(4,5) by (simp add: pages_ready_def S6_def S3_def buffers_ready_def page_start_def)
        moreover have "ring_bytes (request_stream c6) = drop (stream_size r) (ring_bytes (request_stream c))"
          "ring_inv (request_stream c6)" "last_request_complete c6 = now" "accepting_socket c6 = ?a"
          "if rs_keep_alive (client_response c6) then client_parser c6 = zero_parser \<and> client_request c6 = zero_request
           else client_parser c6 = p \<and> client_request c6 = r"
          using q fields by (simp_all add: c6_def c5_def c4 c3_def)
        ultimately have "served i p r now (t, keep, fc, n) S ess (?resp, payload) S6"
          using R owed6 others F(3) client6 [OF ok(3)] c(1) by (simp add: served_def Let_def)
        then show ?thesis unfolding final answer by auto
      qed
    qed
  qed
qed

section \<open>Properties\<close>


definition sample_line :: ring where
  "sample_line = \<lparr>ring_p = Some (''cab'' @ [CR, LF] @ ''...''), ring_size = 5, ring_capacity = 8, ring_begin = 0\<rparr>"

lemma sample_line_facts: "ring_inv sample_line" "ring_bytes sample_line = ''cab'' @ [CR, LF]" "ring_size sample_line = 5"
proof -
  have "capacity_ok (2 ^ 3)" by (rule capacity_ok_power) simp
  then show "ring_inv sample_line" by (simp add: ring_inv_def sample_line_def ring_block_def)
  show "ring_bytes sample_line = ''cab'' @ [CR, LF]"
    by (simp add: ring_bytes_def ring_index_def ring_memory_def ring_block_def sample_line_def upt_rec)
qed (simp add: sample_line_def)

lemma sample_parse:
  "parser_parse (\<lambda>q. q) 4 zero_parser zero_request sample_line =
     (None, zero_parser\<lparr>state := RPS_END\<rparr>, zero_request\<lparr>resource := \<lparr>loc_offset = 0, loc_size = 3\<rparr>, stream_size := 5\<rparr>)"
proof -
  have get: "ring_get sample_line \<lparr>loc_offset = 0, loc_size = 5\<rparr> False = Inr [\<lparr>part_p = 0, part_size = 5\<rparr>, zero_part]"
    by (simp add: ring_get_def sample_line_def aret_def Let_def)
  have bytes: "pbytes (ring_memory sample_line) \<lparr>part_p = 0, part_size = 5\<rparr> = [CHR ''c'', CHR ''a'', CHR ''b'', CR, LF]"
    by (simp add: pbytes_def upt_rec ring_memory_def ring_block_def sample_line_def)
  show ?thesis
    by (simp add: parser_parse_def zero_request_def constants sample_line_facts with_value_def get bytes parse_part_def
        accepting_socket_defs parser_parse_gopher_def gopher_step_def parse_defs start_state_def zero_parser_def zero_location_def)
qed

definition sample_gopher :: client where
  "sample_gopher = zero_client\<lparr>accepting_socket := 4, request_stream := sample_line\<rparr>"

definition sample_world :: "sample_handle world" where
  "sample_world = \<lparr>the_site = sample_site, the_almanac = sample_almanac, the_rounding = (\<lambda>q. q), the_ssl = sample_openssl\<rparr>"

definition sample_server :: "sample_handle server" where
  "sample_server = \<lparr>sv_globals = idle_globals, sv_clients = [sample_gopher], sv_handles = [([], [])], sv_one = zero_string, sv_two = zero_string\<rparr>"

lemma sample_server_ok: "server_ok sample_server [[]]" "pages_ready sample_server" "client_ok sample_gopher" "owed_to sample_server 0 = []"
proof -
  have "send_inv idle_globals 0 sample_gopher []"
    using zero_client_sends [of 0] by (subst send_inv_cong(4) [of _ zero_client]) (simp_all add: sample_gopher_def)
  then show "server_ok sample_server [[]]" by (simp add: server_ok_def sample_server_def idle_globals_def)
  show "pages_ready sample_server" using string_inv_zero
    by (simp add: pages_ready_def sample_server_def string_inv_shape) (simp add: zero_string_def string_bytes_def)
  show "client_ok sample_gopher" using parser_ok_zero sample_line_facts
    by (simp add: client_ok_def sample_gopher_def zero_client_def zero_ring_def zero_request_def)
  show "owed_to sample_server 0 = []" using ring_bytes_zero
    by (simp add: owed_def sample_server_def sample_gopher_def zero_client_def idle_globals_def)
qed


end
