(* ===== verification/TS_Receive.thy ===== *)
theory TS_Receive
  imports TS_Crypto
begin

text \<open>
  \<^verbatim>\<open>source/server/receive.c\<close>: bytes from a socket enter the request stream of a client, through the cryptography
  library if the client uses it. A Guppy client receives whole messages instead: a request, or the acknowledgement
  of a chunk, which is noted in the response queue. The message lies in \<^verbatim>\<open>g_short_request_message\<close>, 2048 bytes
  that keep what earlier messages left behind the end of a shorter one.
\<close>

section \<open>strtoul\<close>

definition is_space :: "byte \<Rightarrow> bool" where
  "is_space c \<longleftrightarrow> c = CHR '' '' \<or> c = CHR 0x09 \<or> c = CHR 0x0A \<or> c = CHR 0x0B \<or> c = CHR 0x0C \<or> c = CHR 0x0D"

definition decimal_digit :: "byte \<Rightarrow> bool" where
  "decimal_digit c \<longleftrightarrow> 48 \<le> (of_char c :: nat) \<and> (of_char c :: nat) \<le> 57"

definition decimal_value :: "byte list \<Rightarrow> nat" where
  "decimal_value ds = foldl (\<lambda>n c. 10 * n + (of_char c - 48)) 0 ds"

text \<open>
  \<^verbatim>\<open>strtoul(s, &end, 10)\<close> of the C library: the number, and what follows it. \<^const>\<open>None\<close> when the scan leaves the
  block, which has no terminator.
\<close>

definition strtoul :: "byte list \<Rightarrow> (nat \<times> byte list) option" where
  "strtoul s =
     (let t = dropWhile is_space s;
          negative = (t \<noteq> [] \<and> hd t = CHR ''-'');
          ds = (if t \<noteq> [] \<and> (hd t = CHR ''-'' \<or> hd t = CHR ''+'') then tl t else t);
          n = decimal_value (takeWhile decimal_digit ds);
          rest = dropWhile decimal_digit ds
      in if rest = [] then None
         else if rest = ds then Some (0, s)
         else Some (if n \<ge> 2 ^ 64 then 2 ^ 64 - 1 else if negative then size_sub 0 n else n, rest))"

section \<open>Messages\<close>

definition GUPPY_SCHEME :: "byte list" where
  "GUPPY_SCHEME = ''guppy://''"

text \<open>The acknowledgement of a chunk; \<^verbatim>\<open>memcmp(end, "\r\n", 3)\<close> includes the terminator of the literal.\<close>

definition acknowledge :: "byte list \<Rightarrow> client \<Rightarrow> client exresult" where
  "acknowledge message c =
     expretf (access (strtoul message) (\<lambda>(seq, rest). if length rest < 3 then Inl Undefined else Inr (seq, rest))) 0 (\<lambda>(seq, rest).
     let r = client_response c
     in exaret (take 3 rest \<noteq> [CR, LF, NUL] \<and> seq \<ge> rs_first_chunk r \<and>
                  seq < size_add (rs_first_chunk r) (loc_size (rs_chunks r)))
          ''Invalid acknowledgement'' (EEF_SEND_CLOSE_LOG FR_UNKNOWN)
          (let location = \<lparr>loc_offset = size_add (size_add sizeof_Response (loc_offset (rs_chunks r))) (size_sub seq (rs_first_chunk r)),
                           loc_size = 1\<rparr>
           in expretf (ring_get (response_queue c) location False) EEF_CLOSE_LOG (\<lambda>value.
              expretf (ring_write (response_queue c) value [CHR 0xFF]) 0 (\<lambda>q.
              Inr (c\<lparr>response_queue := q\<rparr>)))))"

definition server_receive_data_guppy :: "allocator \<Rightarrow> globals \<Rightarrow> nat \<Rightarrow> client \<Rightarrow> connection_flags \<Rightarrow>
    (globals \<times> client \<times> connection_flags) exresult" where
  "server_receive_data_guppy realloc G i c flags =
     (let message = short_request_message G; n = short_request_size G
      in if short_request_owner G \<noteq> Some i then Inr (G, c, flags\<lparr>cf_saturated := True\<rparr>)
         else expret
           (if n \<ge> length GUPPY_SCHEME \<and> take (length GUPPY_SCHEME) message = GUPPY_SCHEME
            then expretf (ring_reserve realloc (g_memory G) (request_stream c) (size_add (ring_size (request_stream c)) n))
                   EEF_CLOSE_LOG (\<lambda>(g, stream).
                 expretf (ring_push_write stream n message) EEF_CLOSE_LOG_DIE (\<lambda>stream.
                 Inr (G\<lparr>g_memory := g\<rparr>, c\<lparr>request_stream := stream\<rparr>)))
            else expret (acknowledge message c) (\<lambda>c. Inr (G, c)))
           (\<lambda>(G, c). Inr (G\<lparr>short_request_size := 0, short_request_owner := None\<rparr>, c, flags)))"

section \<open>Streams\<close>

definition note_request_stream :: "int \<Rightarrow> client \<Rightarrow> client" where
  "note_request_stream now c = (if ring_size (request_stream c) > 0 then c\<lparr>last_request_stream_not_empty := now\<rparr> else c)"

text \<open>How much is read: \<^verbatim>\<open>signed_available\<close> within the limits of the stream.\<close>

definition amount_to_read :: "nat \<Rightarrow> nat \<Rightarrow> nat" where
  "amount_to_read available n =
     (let available = (if available < MIN_AVAILABLE_REQUEST_STREAM then MIN_AVAILABLE_REQUEST_STREAM else available)
      in if available > size_sub MAX_REQUEST_STREAM_SIZE n then size_sub MAX_REQUEST_STREAM_SIZE n else available)"

text \<open>\<open>ioctl\<close> is the result of \<^verbatim>\<open>ioctl(fd, FIONREAD, ...)\<close> and the number it stores.\<close>

definition server_receive_traffic :: "allocator \<Rightarrow> 's openssl \<Rightarrow> int \<times> int \<Rightarrow> read_call \<Rightarrow> globals \<Rightarrow> nat \<Rightarrow> client \<Rightarrow> 's \<Rightarrow> int \<Rightarrow>
    connection_flags \<Rightarrow> (globals \<times> client \<times> 's \<times> connection_flags) exresult" where
  "server_receive_traffic realloc L ioctl read G i c h now flags =
     (let old_size = ring_size (request_stream c); (code, signed_available) = ioctl
      in if ACCEPTING_SOCKET_IS_MESSAGE (accepting_socket c)
         then expret (server_receive_data_guppy realloc G i c flags) (\<lambda>(G, c, flags).
              Inr (G, note_request_stream now c, h, flags\<lparr>cf_exhausted := True\<rparr>))
         else exaret (code \<ge> 0) ''ioctl() failed'' EEF_CLOSE_LOG (
              exaret (signed_available \<ge> 0) ''ioctl() failed'' EEF_CLOSE_LOG (
              exaret (nat signed_available \<le> MAX_AVAILABLE_REQUEST_STREAM) ''Too much data received''
                (EEF_SEND_CLOSE_LOG FR_MAX_AVAILABLE_REQUEST_STREAM) (
              expret (server_receive_stream realloc read (g_memory G) (request_stream c)
                        (amount_to_read (nat signed_available) old_size) flags) (\<lambda>(g, stream, flags).
              let c = note_request_stream now (c\<lparr>request_stream := stream\<rparr>)
              in if ssl c
                 then expret (cryptography_decrypt realloc L g c h old_size) (\<lambda>(g, c, h).
                      Inr (G\<lparr>g_memory := g\<rparr>, c, h, flags))
                 else Inr (G\<lparr>g_memory := g\<rparr>, c, h, flags))))))"

section \<open>Acknowledgements\<close>

text \<open>A number that is followed by something else.\<close>

lemma digit_signs: "decimal_digit c \<Longrightarrow> \<not> is_space c \<and> c \<noteq> CHR ''-'' \<and> c \<noteq> CHR ''+''"
  by (auto simp: decimal_digit_def is_space_def)

lemma strtoul_digits:
  assumes "ds \<noteq> []" and "\<forall>d\<in>set ds. decimal_digit d" and "\<not> decimal_digit b" and "decimal_value ds < 2 ^ 64"
  shows "strtoul (ds @ b # bs) = Some (decimal_value ds, b # bs)"
proof -
  obtain d ds' where d: "ds = d # ds'" "decimal_digit d" using assms(1,2) by (cases ds) auto
  have space: "dropWhile is_space (ds @ b # bs) = ds @ b # bs" using d digit_signs [of d] by simp
  have digits: "takeWhile decimal_digit (ds @ b # bs) = ds" "dropWhile decimal_digit (ds @ b # bs) = b # bs"
    using assms(2,3) by (simp_all add: takeWhile_append2 dropWhile_append2)
  show ?thesis using digit_signs [OF d(2)] digits assms(3,4) unfolding strtoul_def space
    by (simp add: d Let_def)
qed


lemma decimal_digit_no_end: "\<not> decimal_digit CR"
  by (simp add: decimal_digit_def)

text \<open>The first response of the queue is the one the client is being sent.\<close>

lemma queue_front:
  assumes "queue_holds c ((r, payload) # es)"
  shows "ring_inv (response_queue c)" "ring_bytes (response_queue c) = response_bytes r @ payload @ concat (map entry_bytes es)"
    "length payload = rs_size r" "rs_chunks (client_response c) = rs_chunks r" "rs_first_chunk (client_response c) = rs_first_chunk r"
  using assms by (auto simp: queue_holds_def entry_bytes_def entry_ok_def)

lemma ring_overwrite_byte:
  assumes "ring_inv r" and "k < ring_size r"
  obtains v r' where "ring_get r \<lparr>loc_offset = k, loc_size = 1\<rparr> False = Inr v" "ring_write r v [b] = Inr r'" "ring_inv r'"
    "ring_bytes r' = take k (ring_bytes r) @ [b] @ drop (k + 1) (ring_bytes r)"
proof -
  let ?l = "\<lparr>loc_offset = k, loc_size = 1\<rparr>"
  have "loc_offset ?l + loc_size ?l \<le> ring_size r" "length [b] = loc_size ?l" using assms(2) by simp_all
  then show thesis
  proof (rule ring_overwrite [OF assms(1) _ _ refl, where latest = False])
    fix v r' assume R: "ring_get r ?l False = Inr v" "ring_write r v [b] = Inr r'" "ring_inv r'" "ring_size r' = ring_size r"
      "ring_bytes r' = take (if False then ring_size r - loc_size ?l - loc_offset ?l else loc_offset ?l) (ring_bytes r) @ [b] @
         drop ((if False then ring_size r - loc_size ?l - loc_offset ?l else loc_offset ?l) + loc_size ?l) (ring_bytes r)"
    show thesis by (rule that [OF R(1-3)]) (use R(5) in simp)
  qed
qed

lemma acknowledge_marks:
  assumes "queue_holds c ((r, payload) # es)" and "strtoul message = Some (seq, rest)" and "length rest \<ge> 3" and "take 3 rest \<noteq> [CR, LF, NUL]"
    and "rs_first_chunk r \<le> seq" and "seq < rs_first_chunk r + loc_size (rs_chunks r)"
    and "rs_first_chunk r + loc_size (rs_chunks r) < 2 ^ 64"
    and "loc_offset (rs_chunks r) + loc_size (rs_chunks r) \<le> rs_size r"
  obtains q where "acknowledge message c = Inr (c\<lparr>response_queue := q\<rparr>)"
    "queue_holds (c\<lparr>response_queue := q\<rparr>) ((r, payload[loc_offset (rs_chunks r) + (seq - rs_first_chunk r) := CHR 0xFF]) # es)"
proof -
  let ?k = "loc_offset (rs_chunks r) + (seq - rs_first_chunk r)"
  let ?l = "\<lparr>loc_offset = sizeof_Response + ?k, loc_size = 1\<rparr>"
  note F = queue_front [OF assms(1)]
  have k: "?k < length payload" using assms(5,6,8) F(3) by simp
  have len: "ring_size (response_queue c) = sizeof_Response + length payload + length (concat (map entry_bytes es))"
    using length_ring_bytes [OF F(1)] unfolding F(2) by (simp add: add.assoc)
  have "ring_size (response_queue c) < 2 ^ 64" using ring_invD(2,7) [OF F(1)] by linarith
  then have small: "sizeof_Response + ?k < 2 ^ 64" using k len by linarith
  have loc: "size_add (size_add sizeof_Response (loc_offset (rs_chunks r))) (size_sub seq (rs_first_chunk r)) = sizeof_Response + ?k"
    using small assms(5-7) by simp
  have "sizeof_Response + ?k < ring_size (response_queue c)" using k len by simp
  then obtain v q where q: "ring_get (response_queue c) ?l False = Inr v" "ring_write (response_queue c) v [CHR 0xFF] = Inr q" "ring_inv q"
      "ring_bytes q = take (sizeof_Response + ?k) (ring_bytes (response_queue c)) @ [CHR 0xFF] @
         drop (sizeof_Response + ?k + 1) (ring_bytes (response_queue c))"
    by (rule ring_overwrite_byte [OF F(1)])
  have bytes: "ring_bytes q = entry_bytes (r, payload[?k := CHR 0xFF]) @ concat (map entry_bytes es)"
    using k unfolding q(4) F(2) by (simp add: entry_bytes_def upd_conv_take_nth_drop)
  have run: "acknowledge message c = Inr (c\<lparr>response_queue := q\<rparr>)"
  proof -
    have "acknowledge message c = expretf (ring_get (response_queue c) \<lparr>loc_offset = size_add (size_add sizeof_Response
        (loc_offset (rs_chunks r))) (size_sub seq (rs_first_chunk r)), loc_size = 1\<rparr> False) EEF_CLOSE_LOG (\<lambda>value.
        expretf (ring_write (response_queue c) value [CHR 0xFF]) 0 (\<lambda>q. Inr (c\<lparr>response_queue := q\<rparr>)))"
      using assms(2-7) by (simp add: acknowledge_def F(4,5) Let_def)
    then show ?thesis unfolding loc q(1) by (simp add: q(2))
  qed
  show thesis
  proof (rule that [OF run])
    show "queue_holds (c\<lparr>response_queue := q\<rparr>) ((r, payload[?k := CHR 0xFF]) # es)"
      using assms(1) q(3) bytes by (auto simp: queue_holds_def entry_ok_def)
  qed
qed


lemma acknowledge_refuses:
  assumes "strtoul message = Some (seq, rest)" and "length rest \<ge> 3"
    and "take 3 rest = [CR, LF, NUL] \<or> seq < rs_first_chunk (client_response c) \<or>
      rs_first_chunk (client_response c) + loc_size (rs_chunks (client_response c)) \<le> seq"
    and "rs_first_chunk (client_response c) + loc_size (rs_chunks (client_response c)) < 2 ^ 64"
  shows "acknowledge message c = Inl \<lparr>ex_error = Failed ''Invalid acknowledgement'', ex_flags = EEF_SEND_CLOSE_LOG FR_UNKNOWN\<rparr>"
  using assms by (auto simp: acknowledge_def exret_def exerror_allocate_def)

section \<open>Streams\<close>

lemma amount_to_read_fits: "n \<le> MAX_REQUEST_STREAM_SIZE \<Longrightarrow> n + amount_to_read available n \<le> MAX_REQUEST_STREAM_SIZE"
  by (auto simp: amount_to_read_def Let_def constants)


section \<open>Decrypting keeps the books\<close>

definition library_small :: "('s \<Rightarrow> byte list) \<Rightarrow> bool" where
  "library_small f \<longleftrightarrow> (\<forall>h. length (f h) < 2 ^ 60)"

definition closes :: "exerror \<Rightarrow> bool" where
  "closes e \<longleftrightarrow> ex_flags e = EEF_CLOSE_LOG \<and> (\<exists>m. ex_error e = Failed m)"

lemma bio_write_cases:
  "(\<exists>e. bio_write_parts L m h v = Inl e \<and> closes e) \<or> (\<exists>h'. bio_write_parts L m h v = Inr h')"
  by (induction v arbitrary: h)
    (auto simp: exaret_def exret_def exerror_allocate_def closes_def split: prod.splits)

text \<open>Only the state of the handshake changes.\<close>

definition only_state :: "client \<Rightarrow> client \<Rightarrow> bool" where
  "only_state c c' \<longleftrightarrow> (\<exists>s. c' = c\<lparr>cryptography_state := s\<rparr>)"

lemma only_state_refl: "only_state c c"
  unfolding only_state_def by (intro exI [of _ "cryptography_state c"]) simp

lemma handshake_cases:
  obtains (fail) e where "handshake L c h = Inl e" "closes e"
  | (ok) c' h' where "handshake L c h = Inr (c', h')" "only_state c c'"
proof (cases "handshake L c h")
  case (Inl e)
  then have "closes e"
    by (auto simp: handshake_def exaret_def exret_def exerror_allocate_def closes_def Let_def split: prod.splits if_splits)
  then show ?thesis using fail Inl by blast
next
  case (Inr x)
  then have "only_state c (fst x)"
    by (auto simp: handshake_def exaret_def Let_def only_state_refl split: prod.splits if_splits) (auto simp: only_state_def)
  then show ?thesis using ok Inr by (metis prod.collapse)
qed

lemma shutdown_code_cases:
  obtains (fail) e where "shutdown_code L h = Inl e" "closes e" | (ok) code h' where "shutdown_code L h = Inr (code, h')"
proof (cases "shutdown_code L h")
  case (Inl e)
  then have "closes e"
    by (auto simp: shutdown_code_def exaret_def exret_def exerror_allocate_def closes_def split: prod.splits if_splits)
  then show ?thesis using fail Inl by blast
qed (use ok in force)

text \<open>From here on the request stream may grow by what was decrypted.\<close>

lemma decrypt_operational_cases:
  assumes "source_ok L True avail" and "realloc_ok realloc" and "ring_inv (request_stream c)"
    and "ring_size (request_stream c) + length (avail h) + MIN_AVAILABLE_REQUEST_STREAM \<le> 2 ^ 63"
  obtains (fail) e where "decrypt_operational realloc L g c h = Inl e" "closes e"
  | (ok) g' c' h' q s got where "decrypt_operational realloc L g c h = Inr (g', c', h')"
      "c' = c\<lparr>request_stream := q, cryptography_state := s\<rparr>" "ring_inv q" "ring_bytes q = ring_bytes (request_stream c) @ got"
proof (cases "cryptography_state c = CS_OPERATIONAL")
  case False
  then show ?thesis using assms(3)
    by (intro ok [where q = "request_stream c" and s = "cryptography_state c" and got = "[]"]) (simp_all add: decrypt_operational_def)
next
  case True
  from pump_loop_ok [OF assms, of g False] consider
    e where "pump_loop realloc L True g h (request_stream c) False = Some (Inl e)" "closes e"
  | g' h' q shut got where "pump_loop realloc L True g h (request_stream c) False = Some (Inr (g', h', q, shut))" "ring_inv q"
      "ring_bytes q = ring_bytes (request_stream c) @ got"
    by (auto simp: closes_def ssl_read_failure_def)
  then show ?thesis
  proof cases
    case 1
    then show ?thesis using True by (intro fail [of e]) (simp_all add: decrypt_operational_def cryptography_pump_to_ring_def)
  next
    case 2
    then show ?thesis using True
      by (intro ok [where q = q and s = "if shut then CS_SHUTDOWN else cryptography_state c" and got = got])
        (simp_all add: decrypt_operational_def cryptography_pump_to_ring_def Let_def)
  qed
qed


lemma closing_cases:
  obtains (fail) e where "(if cryptography_state c = CS_PENDING_SHUTDOWN
        then expret (shutdown_code L h) (\<lambda>(code, h). Inr (if code > 0 then c\<lparr>cryptography_state := CS_SHUTDOWN\<rparr> else c, h))
        else Inr (c, h)) = Inl e" "closes e"
  | (ok) c' h' where "(if cryptography_state c = CS_PENDING_SHUTDOWN
        then expret (shutdown_code L h) (\<lambda>(code, h). Inr (if code > 0 then c\<lparr>cryptography_state := CS_SHUTDOWN\<rparr> else c, h))
        else Inr (c, h)) = Inr (c', h')" "only_state c c'"
proof (cases "cryptography_state c = CS_PENDING_SHUTDOWN")
  case False
  then show ?thesis using ok [of c h] by (simp add: only_state_refl)
next
  case True
  show ?thesis
  proof (cases rule: shutdown_code_cases [of L h])
    case (fail e)
    then show ?thesis using True by (intro that(1)) simp_all
  next
    case (ok code h')
    then show ?thesis using True
      by (intro that(2) [of "if code > 0 then c\<lparr>cryptography_state := CS_SHUTDOWN\<rparr> else c" h'])
        (auto simp: only_state_refl, auto simp: only_state_def)
  qed
qed

lemma cryptography_decrypt_ok:
  assumes "bio_ok L pending" and "source_ok L True avail" and "library_small pending" and "library_small avail" and "realloc_ok realloc"
    and "send_inv G i c es" and "length (owed G i c) < 2 ^ 60" and "ring_size (response_queue c) < 2 ^ 60" and "length es < 2 ^ 60"
    and "ring_inv (request_stream c)" and "ring_size (request_stream c) < 2 ^ 60" and "old \<le> ring_size (request_stream c)"
  shows "case cryptography_decrypt realloc L g c h old of
      Inl e \<Rightarrow> closes e
    | Inr (g', c', h') \<Rightarrow> (\<exists>got. ring_inv (request_stream c') \<and> ring_bytes (request_stream c') = take old (ring_bytes (request_stream c)) @ got) \<and>
        (\<exists>out. owed G i c' = owed G i c @ out \<and> send_inv G i c' (es @ silent_entries (length out))) \<and>
        pending h' = [] \<and> accepting_socket c' = accepting_socket c \<and> client_parser c' = client_parser c \<and>
        client_request c' = client_request c \<and> ssl c' = ssl c"
proof -
  let ?q = "request_stream c"
  let ?l = "\<lparr>loc_offset = 0, loc_size = ring_size ?q - old\<rparr>"
  have sub: "size_sub (ring_size ?q) old = ring_size ?q - old" using assms(11,12) by simp
  obtain v where v: "ring_get ?q ?l True = Inr v" using ring_get_ok [OF assms(10), of ?l True] by auto
  obtain q where q: "ring_unpush ?q (ring_size ?q - old) = Inr q" "ring_inv q" "ring_bytes q = take old (ring_bytes ?q)" "ring_size q = old"
    using ring_unpush_ok [OF assms(10), of "ring_size ?q - old"] assms(12) by auto
  show ?thesis
  proof (cases "bio_write_parts L (ring_memory ?q) h v")
    case (Inl e)
    then show ?thesis using bio_write_cases [of L "ring_memory ?q" h v] v by (simp add: cryptography_decrypt_def sub)
  next
    case wrote: (Inr h1)
    note run = cryptography_decrypt_def sub v wrote q(1)
    show ?thesis
    proof (cases rule: handshake_cases [of L "c\<lparr>request_stream := q\<rparr>" h1])
      case (fail e)
      then show ?thesis by (simp add: run Let_def)
    next
      case hand: (ok c2 h2)
      then obtain s2 where c2: "c2 = c\<lparr>request_stream := q, cryptography_state := s2\<rparr>" by (auto simp: only_state_def)
      have "ring_inv (request_stream c2)" "ring_size (request_stream c2) + length (avail h2) + MIN_AVAILABLE_REQUEST_STREAM \<le> 2 ^ 63"
        using q(2,4) assms(4,11,12) by (auto simp: c2 library_small_def constants dest!: spec [of _ h2])
      then show ?thesis
      proof (rule decrypt_operational_cases [OF assms(2,5), of c2 h2 g], goal_cases)
        case (1 e)
        then show ?case using hand(1) by (simp add: run Let_def)
      next
        case (2 g3 c3 h3 q3 s3 got)
        then obtain s3' where c3: "c3 = c\<lparr>request_stream := q3, cryptography_state := s3'\<rparr>" by (simp add: c2)
        show ?case
        proof (rule closing_cases [of c3 L h3], goal_cases)
          case (1 e)
          then show ?case using hand(1) 2(1) by (simp add: run Let_def)
        next
          case (2 c4 h4)
          then obtain s4 where c4: "c4 = c\<lparr>request_stream := q3, cryptography_state := s4\<rparr>" by (auto simp: only_state_def c3)
          have final: "cryptography_decrypt realloc L g c h old = flush_silently realloc L g3 c4 h4"
            using hand(1) \<open>decrypt_operational realloc L g c2 h2 = Inr (g3, c3, h3)\<close> 2(1) by (simp add: run Let_def)
          have same: "owed G i c4 = owed G i c" "response_queue c4 = response_queue c" by (simp_all add: c4 owed_def)
          have inv: "send_inv G i c4 es" using assms(6) by (subst send_inv_cong(4) [of _ c]) (simp_all add: c4)
          have room: "length (owed G i c4) + length (pending h4) + MIN_AVAILABLE_REQUEST_STREAM \<le> 2 ^ 63"
            "ring_size (response_queue c4) + sizeof_Response \<le> 2 ^ 63" "length es < 2 ^ 63"
            using assms(3,7-9) unfolding same library_small_def
            by (auto simp: constants sizeof_Response_def dest!: spec [of _ h4])
          show ?case using flush_silently_ok [OF assms(1,5) inv room, of g3] \<open>ring_inv q3\<close>
              \<open>ring_bytes q3 = ring_bytes (request_stream c2) @ got\<close>
            unfolding final same by (auto simp: c4 c2 q(3) closes_def dest: only_output_fields split: sum.splits)
        qed
      qed
    qed
  qed
qed

section \<open>Receiving keeps the books\<close>

definition too_much :: exerror where
  "too_much = \<lparr>ex_error = Failed ''Too much data received'', ex_flags = EEF_SEND_CLOSE_LOG FR_MAX_AVAILABLE_REQUEST_STREAM\<rparr>"

lemma note_request_stream_fields:
  "request_stream (note_request_stream now c) = request_stream c" "ssl (note_request_stream now c) = ssl c"
  "response_queue (note_request_stream now c) = response_queue c" "response_stream (note_request_stream now c) = response_stream c"
  "client_response (note_request_stream now c) = client_response c" "response_count (note_request_stream now c) = response_count c"
  by (simp_all add: note_request_stream_def)

text \<open>What the request stream gained, and what the client is owed in addition.\<close>

definition received :: "globals \<Rightarrow> nat \<Rightarrow> client \<Rightarrow> TS_Send.entry list \<Rightarrow> globals \<Rightarrow> client \<Rightarrow> byte list \<Rightarrow> byte list \<Rightarrow> bool" where
  "received G i c es G' c' got out \<longleftrightarrow>
     ring_inv (request_stream c') \<and> ring_bytes (request_stream c') = ring_bytes (request_stream c) @ got \<and>
     owed G' i c' = owed G i c @ out \<and> send_inv G' i c' (es @ silent_entries (length out))"

lemma server_receive_traffic_spec:
  assumes "realloc_ok realloc" and "read_ok read" and "\<not> ACCEPTING_SOCKET_IS_MESSAGE (accepting_socket c)"
    and "ring_inv (request_stream c)" and "ring_size (request_stream c) \<le> MAX_REQUEST_STREAM_SIZE"
    and "send_inv G i c es" and "length (owed G i c) < 2 ^ 60" and "ring_size (response_queue c) < 2 ^ 60" and "length es < 2 ^ 60"
    and "ssl c \<Longrightarrow> bio_ok L pending \<and> source_ok L True avail \<and> library_small pending \<and> library_small avail"
  shows "case server_receive_traffic realloc L ioctl read G i c h now flags of
      Inl e \<Rightarrow> closes e \<or> e = too_much
    | Inr (G', c', h', flags') \<Rightarrow> \<exists>got out. received G i c es G' c' got out \<and>
        (\<not> ssl c \<longrightarrow> out = [] \<and> ring_size (request_stream c') \<le> MAX_REQUEST_STREAM_SIZE \<and>
           (\<exists>a b. a + b = amount_to_read (nat (snd ioctl)) (ring_size (request_stream c)) \<and> got = os_input read 0 [a, b]))"
proof -
  obtain code available where io: "ioctl = (code, available)" by (cases ioctl)
  let ?n = "amount_to_read (nat available) (ring_size (request_stream c))"
  have n: "ring_size (request_stream c) + ?n \<le> MAX_REQUEST_STREAM_SIZE" by (rule amount_to_read_fits [OF assms(5)])
  then have small: "ring_size (request_stream c) + ?n \<le> 2 ^ 63" by (simp add: constants)
  show ?thesis
  proof (cases "code \<ge> 0 \<and> available \<ge> 0 \<and> nat available \<le> MAX_AVAILABLE_REQUEST_STREAM")
    case False
    then show ?thesis using assms(3)
      by (auto simp: server_receive_traffic_def io exaret_def exret_def exerror_allocate_def closes_def too_much_def Let_def)
  next
    case True
    note run = server_receive_traffic_def io Let_def
    show ?thesis
    proof (cases "server_receive_stream realloc read (g_memory G) (request_stream c) ?n flags")
      case (Inl e)
      then have "closes e" using server_receive_stream_appends [OF assms(4,1,2) small, of "g_memory G" flags] by (auto simp: closes_def)
      then show ?thesis using True assms(3) Inl by (simp add: run)
    next
      case (Inr x)
      then obtain g q fl where x: "server_receive_stream realloc read (g_memory G) (request_stream c) ?n flags = Inr (g, q, fl)"
        by (cases x) auto
      obtain got a where q: "ring_inv q" "ring_bytes q = ring_bytes (request_stream c) @ got" "ring_size q \<le> ring_size (request_stream c) + ?n"
          "a \<le> ?n" "got = os_input read 0 [a, ?n - a]"
        using server_receive_stream_appends [OF assms(4,1,2) small, of "g_memory G" flags] unfolding x by auto
      define c1 where "c1 = note_request_stream now (c\<lparr>request_stream := q\<rparr>)"
      have c1: "request_stream c1 = q" "owed G i c1 = owed G i c" "send_inv G i c1 es" "ssl c1 = ssl c" "response_queue c1 = response_queue c"
        using assms(6) by (simp add: c1_def note_request_stream_fields, simp add: c1_def note_request_stream_fields owed_def,
            subst send_inv_cong(4) [of _ c], simp_all add: c1_def note_request_stream_fields)
      have memory: "owed (G\<lparr>g_memory := g'\<rparr>) i c' = owed G i c'" "send_inv (G\<lparr>g_memory := g'\<rparr>) i c' es' = send_inv G i c' es'" for g' c' es'
        by (simp_all add: send_inv_def owed_def)
      show ?thesis
      proof (cases "ssl c")
        case False
        then have "server_receive_traffic realloc L ioctl read G i c h now flags = Inr (G\<lparr>g_memory := g\<rparr>, c1, h, fl)"
          using True assms(3) x by (simp add: run c1_def note_request_stream_fields)
        moreover have "received G i c es (G\<lparr>g_memory := g\<rparr>) c1 got []"
          using q c1 by (simp add: received_def memory silent_entries_def)
        moreover have "\<exists>a b. a + b = ?n \<and> got = os_input read 0 [a, b]"
          using q(4,5) by (intro exI [of _ a] exI [of _ "?n - a"]) simp
        moreover have "ring_size (request_stream c1) \<le> MAX_REQUEST_STREAM_SIZE" using q(3) n c1(1) by simp
        ultimately show ?thesis unfolding io by (simp del: os_input.simps) blast
      next
        case crypto: True
        have go: "server_receive_traffic realloc L ioctl read G i c h now flags =
            expret (cryptography_decrypt realloc L g c1 h (ring_size (request_stream c))) (\<lambda>(g, c, h). Inr (G\<lparr>g_memory := g\<rparr>, c, h, fl))"
          using True assms(3) x crypto by (simp add: run c1_def note_request_stream_fields)
        have old: "ring_size (request_stream c) \<le> ring_size (request_stream c1)" "ring_size (request_stream c1) < 2 ^ 60"
          "take (ring_size (request_stream c)) (ring_bytes q) = ring_bytes (request_stream c)"
          using q n length_ring_bytes [OF q(1)] length_ring_bytes [OF assms(4)] by (simp_all add: c1(1) constants)
        have inv: "ring_inv (request_stream c1)" using q(1) c1(1) by simp
        note L = assms(10) [OF crypto]
        have "case cryptography_decrypt realloc L g c1 h (ring_size (request_stream c)) of
            Inl e \<Rightarrow> closes e
          | Inr (g', c', h') \<Rightarrow> (\<exists>got. ring_inv (request_stream c') \<and> ring_bytes (request_stream c') = ring_bytes (request_stream c) @ got) \<and>
              (\<exists>out. owed G i c' = owed G i c @ out \<and> send_inv G i c' (es @ silent_entries (length out)))"
          using cryptography_decrypt_ok [of L pending avail realloc G i c1 es "ring_size (request_stream c)" g h] L assms(1,7-9) c1 inv old
          by (auto split: sum.splits)
        then show ?thesis unfolding go using crypto
          by (auto simp: received_def memory split: sum.splits)
      qed
    qed
  qed
qed

section \<open>Properties\<close>


text \<open>
  C30: the acknowledgement of a Guppy chunk, written as the protocol demands it (a number and a line end), is refused
  when the byte behind it in the message buffer is zero, as it is until a longer message has been received: the test
  has the wrong sense and compares the terminator of the literal too. Only when an earlier message left something
  else behind the line end is the chunk marked, and then exactly its byte in the response queue changes.
\<close>

theorem acknowledgement_needs_leftovers:
  assumes "queue_holds c ((r, payload) # es)" and "ds \<noteq> []" and "\<forall>d\<in>set ds. decimal_digit d" and "decimal_value ds = seq"
    and "rs_first_chunk r \<le> seq" and "seq < rs_first_chunk r + loc_size (rs_chunks r)"
    and "rs_first_chunk r + loc_size (rs_chunks r) < 2 ^ 64"
    and "loc_offset (rs_chunks r) + loc_size (rs_chunks r) \<le> rs_size r"
  shows "if b = NUL
    then acknowledge (ds @ [CR, LF, b] @ bs) c = Inl \<lparr>ex_error = Failed ''Invalid acknowledgement'', ex_flags = EEF_SEND_CLOSE_LOG FR_UNKNOWN\<rparr>
    else \<exists>q. acknowledge (ds @ [CR, LF, b] @ bs) c = Inr (c\<lparr>response_queue := q\<rparr>) \<and>
      queue_holds (c\<lparr>response_queue := q\<rparr>) ((r, payload[loc_offset (rs_chunks r) + (seq - rs_first_chunk r) := CHR 0xFF]) # es)"
proof -
  have number: "strtoul (ds @ [CR, LF, b] @ bs) = Some (seq, CR # LF # b # bs)"
    using strtoul_digits [OF assms(2,3) decimal_digit_no_end, of "LF # b # bs"] assms(4,6,7) by simp
  note F = queue_front [OF assms(1)]
  show ?thesis
  proof (cases "b = NUL")
    case True
    then show ?thesis using acknowledge_refuses [OF number, of c] assms(7) F(4,5) by simp
  next
    case False
    then show ?thesis using acknowledge_marks [OF assms(1) number _ _ assms(5-8)] by auto
  qed
qed

section \<open>Witnesses\<close>

text \<open>
  A library with at most 1000 bytes in each direction: the bytes that have arrived come out as they are, and
  accepting a connection writes a greeting.
\<close>

definition small_openssl :: "(byte list \<times> byte list) openssl" where
  "small_openssl = \<lparr>BIO_new = (\<lambda>_. True), SSL_new = Some ([], []), SSL_accept = (\<lambda>(a, b). (1, (a, b @ ''greeting''))),
     SSL_read = (\<lambda>(a, b) n. let a = take 1000 a in
        if a = [] then (- 1, [], (a, b)) else (int (min n (length a)), take n a, (drop n a, b))),
     SSL_write = (\<lambda>(a, b) w. (int (length w), (a, b @ w))), SSL_shutdown = (\<lambda>h. (0, h)),
     SSL_get_error = (\<lambda>_ _. SSL_ERROR_WANT_READ),
     BIO_read = (\<lambda>(a, b) n. let b = take 1000 b in
        if b = [] then (- 1, [], (a, b)) else (int (min n (length b)), take n b, (a, drop n b))),
     BIO_write = (\<lambda>(a, b) w. (int (length w), (a @ w, b)))\<rparr>"

lemma small_openssl_ok:
  "bio_ok small_openssl (\<lambda>h. take 1000 (snd h))" "source_ok small_openssl True (\<lambda>h. take 1000 (fst h))"
  "library_small (\<lambda>h :: byte list \<times> byte list. take 1000 (snd h))" "library_small (\<lambda>h :: byte list \<times> byte list. take 1000 (fst h))"
proof -
  show "bio_ok small_openssl (\<lambda>h. take 1000 (snd h))"
    by (auto simp: bio_ok_def small_openssl_def Let_def min_def split: prod.splits)
  have split: "n \<le> 1000 \<Longrightarrow> take 1000 a = take n a @ drop n (take 1000 a)" for n and a :: "byte list"
    by (metis append_take_drop_id min.absorb1 take_take)
  show "source_ok small_openssl True (\<lambda>h. take 1000 (fst h))"
    by (auto intro: split simp: source_ok_def small_openssl_def Let_def min_def split: prod.splits)
qed (auto simp: library_small_def min_def)

definition tls_start :: client where
  "tls_start = zero_client\<lparr>ssl := True\<rparr>"


definition chunk_response :: response where
  "chunk_response = zero_response\<lparr>rs_stream_size := 5, rs_size := 3, rs_chunks := \<lparr>loc_offset = 0, loc_size = 3\<rparr>, rs_first_chunk := 6\<rparr>"

definition chunk_client :: client where
  "chunk_client = zero_client\<lparr>client_response := chunk_response, response_count := 1,
     response_queue := \<lparr>ring_p = Some (response_bytes chunk_response @ replicate 40 NUL), ring_size = 91, ring_capacity = 128,
       ring_begin = 0\<rparr>\<rparr>"


lemma chunk_client_holds: "queue_holds chunk_client [(chunk_response, [NUL, NUL, NUL])]"
proof -
  have cap: "capacity_ok (2 ^ 7)" by (rule capacity_ok_power) simp
  have len: "length (response_bytes chunk_response) = 88" by (simp add: sizeof_Response_def)
  have inv: "ring_inv (response_queue chunk_client)" using cap len by (simp add: chunk_client_def ring_inv_def ring_block_def)
  have "ring_bytes (response_queue chunk_client) = take 91 (response_bytes chunk_response @ replicate 40 NUL)"
    using ring_bytes_block [OF inv] len by (simp add: chunk_client_def ring_block_def)
  then have bytes: "ring_bytes (response_queue chunk_client) = response_bytes chunk_response @ [NUL, NUL, NUL]"
    using len by (simp add: sizeof_Response_def) (simp add: numeral_3_eq_3)
  have "entry_ok (chunk_response, [NUL, NUL, NUL])"
    by (simp add: entry_ok_def chunk_response_def zero_response_def response_fits_def location_fits_def zero_location_def)
  then show ?thesis using inv bytes
    by (auto simp: queue_holds_def entry_bytes_def chunk_client_def chunk_response_def intro: exI [of _ 5])
qed

lemma acknowledgement_needs_leftovers_witness:
  "acknowledge (''7'' @ [CR, LF, NUL] @ replicate 2044 NUL) chunk_client =
     Inl \<lparr>ex_error = Failed ''Invalid acknowledgement'', ex_flags = EEF_SEND_CLOSE_LOG FR_UNKNOWN\<rparr> \<and>
   (\<exists>q. acknowledge (''7'' @ [CR, LF, CHR ''x''] @ replicate 2044 NUL) chunk_client = Inr (chunk_client\<lparr>response_queue := q\<rparr>) \<and>
     queue_holds (chunk_client\<lparr>response_queue := q\<rparr>) [(chunk_response, [NUL, CHR 0xFF, NUL])])"
proof -
  have digits: "''7'' \<noteq> []" "\<forall>d\<in>set ''7''. decimal_digit d" "decimal_value ''7'' = 7" by (simp_all add: decimal_digit_def decimal_value_def)
  have fields: "rs_first_chunk chunk_response \<le> 7" "7 < rs_first_chunk chunk_response + loc_size (rs_chunks chunk_response)"
    "rs_first_chunk chunk_response + loc_size (rs_chunks chunk_response) < 2 ^ 64"
    "loc_offset (rs_chunks chunk_response) + loc_size (rs_chunks chunk_response) \<le> rs_size chunk_response"
    by (simp_all add: chunk_response_def zero_response_def)
  have place: "loc_offset (rs_chunks chunk_response) + (7 - rs_first_chunk chunk_response) = 1" by (simp add: chunk_response_def)
  note ack = acknowledgement_needs_leftovers [OF chunk_client_holds digits fields, of _ "replicate 2044 NUL", unfolded place]
  show ?thesis using ack [of NUL] ack [of "CHR ''x''"] by simp
qed

end
