(* ===== verification/TS_Wait.thy ===== *)
theory TS_Wait
  imports TS_Traffic TS_Receive TS_Fixed
begin

text \<open>
  The decisions of \<^verbatim>\<open>source/server/high_level.c\<close>: when it makes sense to receive, parse or send, how long a client may
  wait and the server may sleep, and the answer to a client whose secure connection met an error.
\<close>

section \<open>What makes sense\<close>

definition get_makes_sense_to_receive :: "globals \<Rightarrow> nat \<Rightarrow> client \<Rightarrow> bool" where
  "get_makes_sense_to_receive G i c \<longleftrightarrow> cryptography_state c \<noteq> CS_SHUTDOWN \<and>
     (state (client_parser c) \<noteq> RPS_END \<or> ACCEPTING_SOCKET_IS_MESSAGE (accepting_socket c)) \<and>
     client_response_stream_size G i c < MAX_RESPONSE_STREAM_SIZE"

definition get_makes_sense_to_parse :: "globals \<Rightarrow> nat \<Rightarrow> client \<Rightarrow> bool" where
  "get_makes_sense_to_parse G i c \<longleftrightarrow> cryptography_state c = CS_OPERATIONAL \<and> state (client_parser c) \<noteq> RPS_END \<and>
     ring_size (request_stream c) > stream_size (client_request c) \<and> client_response_stream_size G i c < MAX_RESPONSE_STREAM_SIZE"

definition get_makes_sense_to_send :: "globals \<Rightarrow> nat \<Rightarrow> client \<Rightarrow> bool" where
  "get_makes_sense_to_send G i c \<longleftrightarrow> client_response_stream_size G i c > 0"

section \<open>Timeouts\<close>

text \<open>\<^verbatim>\<open>(int)\<close> of a \<^verbatim>\<open>time_t\<close>.\<close>

definition INT_MAX :: int where "INT_MAX = 2 ^ 31 - 1"

definition to_int :: "int \<Rightarrow> int" where
  "to_int x = (x + 2 ^ 31) mod 2 ^ 32 - 2 ^ 31"

text \<open>\<open>remaining\<close> is \<^const>\<open>None\<close> where the code passes \<^verbatim>\<open>NULL\<close>.\<close>

definition check_timeout :: "int \<Rightarrow> int \<Rightarrow> int option \<Rightarrow> int option result" where
  "check_timeout timeout now remaining =
     (case remaining of
        None \<Rightarrow> aret (timeout \<ge> now) ''timeout >= now'' (Inr None)
      | Some r \<Rightarrow> let local_remaining = to_int (timeout - now)
          in Inr (Some (if local_remaining < r then local_remaining else r)))"

definition check_timeouts :: "globals \<Rightarrow> nat \<Rightarrow> client \<Rightarrow> int \<Rightarrow> int option \<Rightarrow> int option exresult" where
  "check_timeouts G i c now remaining =
     expret (if ring_size (response_stream c) > 0
             then expretf (check_timeout (last_request_complete c + MAX_INCOMPLETE_REQUEST_TIME) now remaining)
                    (EEF_SEND_SHUTDOWN_LOG FR_MAX_INCOMPLETE_REQUEST_TIME) Inr
             else Inr remaining) (\<lambda>remaining.
     expret (if ring_size (request_stream c) = 0
             then expretf (check_timeout (last_request_stream_not_empty c + MAX_EMPTY_REQUEST_STREAM_TIME) now remaining)
                    EEF_SHUTDOWN_LOG Inr
             else Inr remaining) (\<lambda>remaining.
     expret (if client_response_stream_size G i c \<ge> MAX_RESPONSE_STREAM_SIZE
             then expretf (check_timeout (last_response_stream_not_full c + MAX_FULL_RESPONSE_STREAM_TIME) now remaining)
                    EEF_CLOSE_LOG Inr
             else Inr remaining) (\<lambda>remaining.
     if client_response_stream_size G i c > 0
     then expretf (check_timeout (last_response_complete c + MAX_INCOMPLETE_RESPONSE_TIME) now remaining) EEF_CLOSE_LOG Inr
     else Inr remaining)))"

text \<open>The last argument of \<^verbatim>\<open>poll\<close>, in milliseconds; a negative one waits without limit.\<close>

definition poll_timeout :: "int \<Rightarrow> int" where
  "poll_timeout remaining = (if remaining = INT_MAX then - 1 else remaining * 1000)"

section \<open>Recovery\<close>

definition server_process_client_round_recovery :: "http_pages \<Rightarrow> allocator \<Rightarrow> 's openssl \<Rightarrow> nat \<Rightarrow> client \<Rightarrow> 's \<Rightarrow> flags \<Rightarrow>
    (nat \<times> client) exresult" where
  "server_process_client_round_recovery P realloc L g c h fixed =
     expret (processor_fixed P realloc (accepting_socket c) g (response_queue c) fixed) (\<lambda>(response, g, q, stream).
     let c = c\<lparr>response_queue := q\<rparr>;
         c = (if response_count c = 0 then c\<lparr>client_response := response\<rparr> else c)
     in expret (cryptography_encrypt realloc L g c h response ((!) stream) (zero_value[0 := \<lparr>part_p = 0, part_size = length stream\<rparr>]))
          (\<lambda>(g, c, h).
        expret (cryptography_finalize realloc L g (c\<lparr>response_count := size_add (response_count c) 1\<rparr>) h) (\<lambda>(g, c). Inr (g, c))))"

section \<open>The deadlines of a client\<close>

text \<open>The reference: the deadlines that apply, with what is to be done about a late client.\<close>

definition deadlines :: "globals \<Rightarrow> nat \<Rightarrow> client \<Rightarrow> (int \<times> flags) list" where
  "deadlines G i c =
     (if ring_size (response_stream c) > 0
      then [(last_request_complete c + MAX_INCOMPLETE_REQUEST_TIME, EEF_SEND_SHUTDOWN_LOG FR_MAX_INCOMPLETE_REQUEST_TIME)] else []) @
     (if ring_size (request_stream c) = 0
      then [(last_request_stream_not_empty c + MAX_EMPTY_REQUEST_STREAM_TIME, EEF_SHUTDOWN_LOG)] else []) @
     (if client_response_stream_size G i c \<ge> MAX_RESPONSE_STREAM_SIZE
      then [(last_response_stream_not_full c + MAX_FULL_RESPONSE_STREAM_TIME, EEF_CLOSE_LOG)] else []) @
     (if client_response_stream_size G i c > 0
      then [(last_response_complete c + MAX_INCOMPLETE_RESPONSE_TIME, EEF_CLOSE_LOG)] else [])"

definition late :: "int \<Rightarrow> (int \<times> flags) list \<Rightarrow> (int \<times> flags) option" where
  "late now ds = List.find (\<lambda>d. fst d < now) ds"

lemma check_timeouts_check:
  "check_timeouts G i c now None =
     (case late now (deadlines G i c) of
        None \<Rightarrow> Inr None
      | Some d \<Rightarrow> Inl \<lparr>ex_error = Failed ''timeout >= now'', ex_flags = snd d\<rparr>)"
  by (auto simp: check_timeouts_def deadlines_def late_def check_timeout_def aret_def exerror_append_extend_def)

lemma check_timeouts_arm:
  "check_timeouts G i c now (Some r) =
     Inr (Some (foldl (\<lambda>r d. let l = to_int (fst d - now) in if l < r then l else r) r (deadlines G i c)))"
  by (auto simp: check_timeouts_def deadlines_def check_timeout_def Let_def)


lemma armed_le: "t \<le> foldl (\<lambda>r d. let l = to_int (fst d - now) in if l < r then l else r) r ds \<longleftrightarrow>
    t \<le> r \<and> (\<forall>d\<in>set ds. t \<le> to_int (fst d - now))"
  by (induction ds arbitrary: r) (auto simp: Let_def)

lemma to_int_small: "- (2 ^ 31) \<le> x \<Longrightarrow> x < 2 ^ 31 \<Longrightarrow> to_int x = x"
  by (simp add: to_int_def)

lemma late_none: "late now ds = None \<longleftrightarrow> (\<forall>d\<in>set ds. now \<le> fst d)"
  by (auto simp: late_def find_None_iff)

section \<open>Recovery answers\<close>

lemma ssl_write_cases:
  "(\<exists>e. ssl_write_parts L m h v = Inl e \<and> closes e) \<or> (\<exists>h'. ssl_write_parts L m h v = Inr h')"
  by (induction v arbitrary: h)
    (auto simp: exaret_def exret_def exerror_allocate_def closes_def split: prod.splits)

lemma entry_ok_size: "TS_Send.entry_ok (r, payload) \<Longrightarrow> n < 2 ^ 64 \<Longrightarrow> TS_Send.entry_ok (r\<lparr>rs_stream_size := n\<rparr>, payload)"
  by (simp add: TS_Send.entry_ok_def response_fits_def)

text \<open>One more response in the queue, and exactly its bytes in the stream.\<close>

lemma encrypt_appends:
  assumes "bio_ok L pending" and "library_small pending" and "realloc_ok realloc" and "send_inv G i c es"
    and "length (owed G i c) < 2 ^ 60" and "length es < 2 ^ 60" and "TS_Send.entry_ok (r, payload)" and "length payload < 2 ^ 60"
    and "ring_inv q" and "ring_bytes q = ring_bytes (response_queue c) @ response_bytes r @ payload"
    and "c1 = c\<lparr>response_queue := q, client_response := (if response_count c = 0 then r else client_response c)\<rparr>"
  shows "case cryptography_encrypt realloc L g c1 h r m stream of
      Inl e \<Rightarrow> closes e
    | Inr (g', c2, h') \<Rightarrow> \<exists>out. let c' = c2\<lparr>response_count := size_add (response_count c2) 1\<rparr>
        in owed G i c' = owed G i c @ out \<and> length out < 2 ^ 60 \<and>
           send_inv G i c' (es @ [(r\<lparr>rs_stream_size := length out\<rparr>, payload)]) \<and>
           cryptography_state c' = cryptography_state c \<and> ring_size (response_queue c') = ring_size q"
proof (cases "ssl_write_parts L m h stream")
  case (Inl e)
  then show ?thesis using ssl_write_cases [of L m h stream] by (simp add: cryptography_encrypt_def)
next
  case wrote: (Inr h1)
  note I = assms(4) [unfolded send_inv_def]
  have inv: "ring_inv (response_stream c1)" "ring_inv (response_queue c1)" using I assms(9,11) by simp_all
  have "ring_size (response_stream c) \<le> length (owed G i c)" using I length_ring_bytes [of "response_stream c"] by (simp add: owed_def)
  moreover have small: "length (pending h1) < 2 ^ 60" using assms(2) by (simp add: library_small_def)
  ultimately have room: "ring_size (response_stream c1) + length (pending h1) + MIN_AVAILABLE_REQUEST_STREAM \<le> 2 ^ 63"
    using assms(5,11) by (simp add: constants)
  have payload: "ring_bytes (response_queue c1) = ring_bytes (response_queue c) @ response_bytes r @ payload" "length payload = rs_size r"
    "rs_size r + sizeof_Response < 2 ^ 63"
    using assms(7,8,10,11) by (simp_all add: TS_Send.entry_ok_def sizeof_Response_def)
  show ?thesis
  proof (rule encrypt_cases [OF assms(1,3) wrote inv(1) room inv(2) payload, of g], goal_cases)
    case 1
    then show ?case by (simp add: closes_def)
  next
    case (2 g' h' ring q')
    define c2 where "c2 = (let c = c1\<lparr>response_stream := ring, response_queue := q'\<rparr>
       in if response_count c = 0
          then c\<lparr>client_response := (client_response c)\<lparr>rs_stream_size := length (pending h1)\<rparr>\<rparr> else c)"
    define c' where "c' = c2\<lparr>response_count := size_add (response_count c2) 1\<rparr>"
    have fields: "response_queue c' = q'" "response_stream c' = ring" "response_count c' = size_add (response_count c) 1"
      "client_response c' = (if response_count c = 0 then r\<lparr>rs_stream_size := length (pending h1)\<rparr> else client_response c)"
      "cryptography_state c' = cryptography_state c"
      by (simp_all add: c'_def c2_def assms(11) Let_def)
    have owed: "owed G i c' = owed G i c @ pending h1" using 2(3) fields(2) assms(11) by (simp add: owed_def)
    have books: "send_inv G i c' (es @ [(r\<lparr>rs_stream_size := length (pending h1)\<rparr>, payload)])"
    proof (rule books_append [OF assms(4) _ 2(4) 2(5)])
      show "TS_Send.entry_ok (r\<lparr>rs_stream_size := length (pending h1)\<rparr>, payload)" using entry_ok_size [OF assms(7)] small by simp
    qed (use owed small assms(5,6) fields 2(2) in simp_all)
    have "ring_size q' = ring_size q"
      using length_ring_bytes [OF 2(4)] length_ring_bytes [OF assms(9)] 2(5) assms(10) by simp
    then have "owed G i c' = owed G i c @ pending h1 \<and> length (pending h1) < 2 ^ 60 \<and>
        send_inv G i c' (es @ [(r\<lparr>rs_stream_size := length (pending h1)\<rparr>, payload)]) \<and>
        cryptography_state c' = cryptography_state c \<and> ring_size (response_queue c') = ring_size q"
      using owed books small fields(1,5) by simp
    moreover have "cryptography_encrypt realloc L g c1 h r m stream = Inr (g', c2, h')" using 2(1) unfolding c2_def .
    ultimately show ?case by (simp only: sum.case prod.case Let_def c'_def [symmetric]) (rule exI [of _ "pending h1"], simp)
  qed
qed


text \<open>Closing, whatever state the connection is in: \<open>ns\<close> are the sizes of the silent responses.\<close>

lemma finalize_appends:
  assumes "bio_ok L pending" and "library_small pending" and "realloc_ok realloc" and "send_inv G i c es"
    and "length (owed G i c) < 2 ^ 61" and "ring_size (response_queue c) < 2 ^ 61" and "length es < 2 ^ 61"
  shows "case cryptography_finalize realloc L g c h of
      Inl e \<Rightarrow> closes e
    | Inr (g', c') \<Rightarrow> \<not> ssl c' \<and> (\<exists>out. owed G i c' = owed G i c @ out \<and> send_inv G i c' (es @ silent_entries (length out)))"
proof (cases "cryptography_state c = CS_SHUTDOWN")
  case True
  have "owed G i (c\<lparr>ssl := False\<rparr>) = owed G i c" "send_inv G i (c\<lparr>ssl := False\<rparr>) es = send_inv G i c es"
    by (rule send_inv_cong; simp)+
  then show ?thesis using True assms(4) by (auto simp: cryptography_finalize_def silent_entries_def intro: exI [of _ "[]"])
next
  case False
  obtain code h1 where shut: "SSL_shutdown L h = (code, h1)" by fastforce
  have "length (owed G i c) + length (pending h1) + MIN_AVAILABLE_REQUEST_STREAM \<le> 2 ^ 63"
    "ring_size (response_queue c) + sizeof_Response \<le> 2 ^ 63" "length es < 2 ^ 63"
    using assms(2,5-7) by (auto simp: library_small_def constants sizeof_Response_def dest!: spec [of _ h1])
  from cryptography_finalize_ok [OF assms(1,3,4) shut this False, of g]
  show ?thesis by (auto simp: closes_def split: sum.splits)
qed

lemma recovery_spec:
  assumes "bio_ok L pending" and "library_small pending" and "realloc_ok realloc" and "send_inv G i c es"
    and "length (owed G i c) < 2 ^ 60" and "ring_size (response_queue c) < 2 ^ 60" and "length es < 2 ^ 60"
    and "length (processor_fixed_failsafe P (accepting_socket c) fixed) < 2 ^ 60"
  shows "case server_process_client_round_recovery P realloc L g c h fixed of
      Inl e \<Rightarrow> closes e \<or> e = \<lparr>ex_error = Failed ''new_p != NULL'', ex_flags = EEF_SEND_SHUTDOWN_LOG FR_UNKNOWN\<rparr>
    | Inr (g', c') \<Rightarrow> \<not> ssl c' \<and> (\<exists>r out bye. \<not> rs_keep_alive r \<and> rs_stream_size r = length out \<and> owed G i c' = owed G i c @ out @ bye \<and>
        send_inv G i c' (es @ [(r, [])] @ silent_entries (length bye)))"
proof -
  note I = assms(4) [unfolded send_inv_def queue_holds_def]
  have room: "ring_size (response_queue c) + sizeof_Response \<le> 2 ^ 63" using assms(6) by (simp add: sizeof_Response_def)
  have inv: "ring_inv (response_queue c)" using I by simp
  show ?thesis
  proof (rule construct_fixed_cases [OF inv assms(3) room, of g "processor_fixed_failsafe P (accepting_socket c) fixed"], goal_cases)
    case 1
    then show ?case by (simp add: server_process_client_round_recovery_def processor_fixed_eq)
  next
    case (2 r g1 q)
    let ?stream = "processor_fixed_failsafe P (accepting_socket c) fixed"
    let ?v = "zero_value[0 := \<lparr>part_p = 0, part_size = length ?stream\<rparr>]"
    have r: "TS_Send.entry_ok (r, [])" "\<not> rs_keep_alive r"
      using 2(2) assms(8) by (simp_all add: response_header_def Let_def zero_response_def zero_value_def zero_part_def TS_Send.entry_ok_def
          response_fits_def location_fits_def)
    define c1 where "c1 = c\<lparr>response_queue := q, client_response := (if response_count c = 0 then r else client_response c)\<rparr>"
    have run: "server_process_client_round_recovery P realloc L g c h fixed =
        expret (cryptography_encrypt realloc L g1 c1 h r ((!) ?stream) ?v) (\<lambda>(g, c, h).
        expret (cryptography_finalize realloc L g (c\<lparr>response_count := size_add (response_count c) 1\<rparr>) h) (\<lambda>(g, c). Inr (g, c)))"
      using 2(1) by (auto simp: server_process_client_round_recovery_def processor_fixed_eq c1_def Let_def)
    have bytes: "ring_bytes q = ring_bytes (response_queue c) @ response_bytes r @ []" using 2(4) by simp
    have size: "ring_size q < 2 ^ 61"
      using length_ring_bytes [OF 2(3)] length_ring_bytes [OF inv] 2(4) assms(6) by (simp add: sizeof_Response_def)
    have none: "length ([] :: byte list) < 2 ^ 60" by simp
    note E = encrypt_appends [OF assms(1-5,7) r(1) none 2(3) bytes c1_def, of g1 h "(!) ?stream" ?v]
    show ?case
    proof (cases "cryptography_encrypt realloc L g1 c1 h r ((!) ?stream) ?v")
      case (Inl e)
      then show ?thesis using E by (simp add: run)
    next
      case (Inr x)
      obtain g2 c2 h2 where x: "x = (g2, c2, h2)" by (cases x) auto
      define c3 where "c3 = c2\<lparr>response_count := size_add (response_count c2) 1\<rparr>"
      from E [unfolded Inr x sum.case prod.case Let_def, folded c3_def] obtain out where out: "owed G i c3 = owed G i c @ out" "length out < 2 ^ 60"
        "send_inv G i c3 (es @ [(r\<lparr>rs_stream_size := length out\<rparr>, [])])" "ring_size (response_queue c3) = ring_size q"
        by blast
      have "length (owed G i c3) < 2 ^ 61" "ring_size (response_queue c3) < 2 ^ 61"
        "length (es @ [(r\<lparr>rs_stream_size := length out\<rparr>, [])]) < 2 ^ 61"
        using out(1,2,4) size assms(5,7) by simp_all
      note F = finalize_appends [OF assms(1-3) out(3) this, of g2 h2]
      have final: "server_process_client_round_recovery P realloc L g c h fixed = cryptography_finalize realloc L g2 c3 h2"
        unfolding run Inr x by (cases "cryptography_finalize realloc L g2 c3 h2") (simp_all add: c3_def split: prod.splits)
      show ?thesis
      proof (cases "cryptography_finalize realloc L g2 c3 h2")
        case (Inl e)
        then show ?thesis using F by (simp add: final)
      next
        case (Inr y)
        then obtain g' c' bye where y: "y = (g', c')" "\<not> ssl c'" "owed G i c' = owed G i c3 @ bye"
          "send_inv G i c' ((es @ [(r\<lparr>rs_stream_size := length out\<rparr>, [])]) @ silent_entries (length bye))"
          using F by (cases y) auto
        then have "\<not> rs_keep_alive (r\<lparr>rs_stream_size := length out\<rparr>) \<and> rs_stream_size (r\<lparr>rs_stream_size := length out\<rparr>) = length out \<and>
            owed G i c' = owed G i c @ out @ bye \<and>
            send_inv G i c' (es @ [(r\<lparr>rs_stream_size := length out\<rparr>, [])] @ silent_entries (length bye))"
          using r(2) out(1) by simp
        then show ?thesis unfolding final Inr y(1) sum.case prod.case using y(2) by blast
      qed
    qed
  qed
qed

section \<open>Properties\<close>




section \<open>Witnesses\<close>

lemma idle_deadlines: "deadlines idle_globals 0 zero_client = [(600, EEF_SHUTDOWN_LOG)]"
  by (simp add: deadlines_def client_response_stream_size_def idle_globals_def zero_client_def zero_ring_def constants)



definition tls_gemini :: client where
  "tls_gemini = zero_client\<lparr>accepting_socket := 8, ssl := True, cryptography_state := CS_OPERATIONAL\<rparr>"


end
