(* ===== verification/TS_Accept.thy ===== *)
theory TS_Accept
  imports TS_Wait
begin

text \<open>
  \<^verbatim>\<open>source/server/accept.c\<close>: new connections and messages become clients, or are turned away when the server is
  short of resources. The system calls are parameters: \<open>network\<close> says what each listening socket has to offer and
  whether the buffers of clients and polls could grow.
\<close>

section \<open>The state and its surroundings\<close>

text \<open>The server with all polls: those of the 18 listening sockets, then one for each client.\<close>

record 's lobby = "'s server" +
  lb_polls :: "pollfd list"

definition POLLIN :: "16 word" where "POLLIN = 1"
definition POLLERR :: "16 word" where "POLLERR = 8"
definition POLLHUP :: "16 word" where "POLLHUP = 16"

definition MAX_PROCESSOR_UTILIZATION :: rat where "MAX_PROCESSOR_UTILIZATION = 95 / 100"

text \<open>
  For a socket: the descriptor and the address of \<^verbatim>\<open>accept\<close>, the results of the two \<^verbatim>\<open>fcntl\<close>, and what \<^verbatim>\<open>recvfrom\<close>
  returns (its result, whether it would have blocked, the bytes and the address).
\<close>

record network =
  net_accept :: "nat \<Rightarrow> int \<times> byte list"
  net_get_flags :: "nat \<Rightarrow> int"
  net_set_flags :: "nat \<Rightarrow> int"
  net_receive :: "nat \<Rightarrow> int \<times> bool \<times> byte list \<times> byte list"
  net_polls_grow :: "nat \<Rightarrow> bool"
  net_clients_grow :: "nat \<Rightarrow> bool"

text \<open>What goes out on which descriptor, and which descriptors are closed.\<close>

record sockets =
  sk_sent :: "(int \<times> byte list) list"
  sk_closed :: "int list"

definition quiet :: sockets where
  "quiet = \<lparr>sk_sent = [], sk_closed = []\<rparr>"

section \<open>Operations\<close>

definition server_low_resources_response :: "bool \<Rightarrow> bool \<Rightarrow> bool \<Rightarrow> fixed_response" where
  "server_low_resources_response max_clients max_memory max_utilization =
     (if max_clients then FR_MAX_CLIENTS else if max_memory then FR_MAX_MEMORY
      else if max_utilization then FR_MAX_UTILIZATION else FR_UNKNOWN)"

definition server_send_low_resources_connection :: "http_pages \<Rightarrow> nat \<Rightarrow> int \<Rightarrow> flags \<Rightarrow> sockets" where
  "server_send_low_resources_connection P index fd fixed =
     (if ACCEPTING_SOCKET_IS_HTTPS index \<or> ACCEPTING_SOCKET_IS_GEMINI index then quiet
      else let response_stream =
          (if ACCEPTING_SOCKET_IS_HTTP index then processor_fixed_http_failsafe P fixed
           else if ACCEPTING_SOCKET_IS_GOPHER index then processor_fixed_gopher_failsafe fixed
           else if ACCEPTING_SOCKET_IS_FINGER index then processor_fixed_finger_failsafe fixed
           else if ACCEPTING_SOCKET_IS_SPARTAN index then processor_fixed_spartan_failsafe fixed
           else if ACCEPTING_SOCKET_IS_NEX index then processor_fixed_nex_failsafe fixed
           else processor_fixed_text_failsafe fixed)
        in \<lparr>sk_sent = [(fd, response_stream)], sk_closed = [fd]\<rparr>)"

definition server_send_low_resources_message :: "int \<Rightarrow> flags \<Rightarrow> sockets" where
  "server_send_low_resources_message fd fixed = \<lparr>sk_sent = [(fd, processor_fixed_guppy_failsafe fixed)], sk_closed = []\<rparr>"

text \<open>\<^verbatim>\<open>struct sockaddr_storage\<close> as its bytes, in the layout of Linux; the ports are not compared.\<close>

definition ss_family :: "byte list \<Rightarrow> nat" where "ss_family a = le_value (take 2 a)"
definition sin_addr :: "byte list \<Rightarrow> byte list" where "sin_addr a = take 4 (drop 4 a)"
definition sin6_addr :: "byte list \<Rightarrow> byte list" where "sin6_addr a = take 16 (drop 8 a)"
definition AF_INET6 :: nat where "AF_INET6 = 10"

definition address_compare :: "byte list \<Rightarrow> byte list \<Rightarrow> bool" where
  "address_compare a b =
     (if ss_family a \<noteq> ss_family b then False
      else if ss_family a = AF_INET6 then sin6_addr a = sin6_addr b
      else sin_addr a = sin_addr b)"

text \<open>A pointer to a client is its index, so that a client buffer that moves changes no owner.\<close>

definition clients_append :: "bool \<Rightarrow> client list \<Rightarrow> client \<Rightarrow> client list result" where
  "clients_append grows clients c = aret grows ''new_p != NULL'' (Inr (clients @ [c]))"

definition new_client :: "nat \<Rightarrow> byte list \<Rightarrow> int \<Rightarrow> client" where
  "new_client index addr now = zero_client\<lparr>address := addr, accepting_socket := index, last_request_complete := now,
     last_request_stream_not_empty := now, last_response_stream_not_full := now, last_response_complete := now\<rparr>"

text \<open>
  What happens after \<^verbatim>\<open>accept\<close> succeeds and resources suffice: a failure has its error. \<open>null\<close> is the handle of a
  client without cryptography.
\<close>

definition admit_connection :: "'s world \<Rightarrow> 's \<Rightarrow> network \<Rightarrow> int \<Rightarrow> nat \<Rightarrow> int \<Rightarrow> byte list \<Rightarrow> 's lobby \<Rightarrow> 's lobby exresult" where
  "admit_connection W null N now index fd addr S =
     expret (if ACCEPTING_SOCKET_IS_HTTPS index \<or> ACCEPTING_SOCKET_IS_GEMINI index
             then case cryptography_initialize (site_realloc (the_site W)) (the_ssl W) (g_memory (sv_globals S)) (new_client index addr now) of
                 Inl (e, _) \<Rightarrow> Inl e
               | Inr r \<Rightarrow> Inr r
             else Inr (g_memory (sv_globals S), (new_client index addr now)\<lparr>cryptography_state := CS_OPERATIONAL\<rparr>, null)) (\<lambda>(g, c, h).
     expretf (aret (net_polls_grow N index) ''new_p != NULL''
                (Inr (lb_polls S @ [\<lparr>poll_fd = fd, poll_events = 0, poll_revents = 0\<rparr>]))) EEF_CLOSE_LOG (\<lambda>polls.
     expretf (clients_append (net_clients_grow N index) (sv_clients S) c) EEF_CLOSE_LOG (\<lambda>clients.
     Inr (S\<lparr>sv_globals := (sv_globals S)\<lparr>g_memory := g\<rparr>, sv_clients := clients, sv_handles := sv_handles S @ [h], lb_polls := polls\<rparr>))))"

text \<open>
  \<^verbatim>\<open>server_accept_connection\<close>. Its handler of failures closes the descriptor and leaves the buffers as they were;
  it passes only an error on that says the server has to stop. The rings of the new client are freed again, so that
  the count of the allocator is what it was.
\<close>

definition server_accept_connection :: "'s world \<Rightarrow> http_pages \<Rightarrow> 's \<Rightarrow> network \<Rightarrow> int \<Rightarrow> nat \<Rightarrow> bool \<Rightarrow> bool \<Rightarrow> bool \<Rightarrow> 's lobby \<Rightarrow>
    ('s lobby \<times> sockets) result" where
  "server_accept_connection W P null N now index max_clients max_memory max_utilization S =
     (case net_accept N index of (fd, addr) \<Rightarrow>
        case exaret (fd \<ge> 0) ''accept() failed'' EEF_CLOSE_LOG
            (exaret (net_get_flags N index \<ge> 0) ''fcntl() failed'' EEF_CLOSE_LOG
            (exaret (net_set_flags N index \<ge> 0) ''fcntl() failed'' EEF_CLOSE_LOG
            (if max_clients \<or> max_memory \<or> max_utilization
             then Inr (S, server_send_low_resources_connection P index fd
                    (fr_code (server_low_resources_response max_clients max_memory max_utilization)))
             else expret (admit_connection W null N now index fd addr S) (\<lambda>S. Inr (S, quiet))))) of
          Inr r \<Rightarrow> Inr r
        | Inl e \<Rightarrow>
            if has_flag (ex_flags e) PARTIAL_EEF_DIE then Inl (ex_error e)
            else Inr (S, quiet\<lparr>sk_closed := (if fd \<ge> 0 then [fd] else [])\<rparr>))"

definition guppy_client :: "client list \<Rightarrow> byte list \<Rightarrow> nat option" where
  "guppy_client clients addr =
     List.find (\<lambda>p. ACCEPTING_SOCKET_IS_GUPPY (accepting_socket (clients ! p)) \<and> address_compare addr (address (clients ! p)))
       [0..<length clients]"

definition server_accept_message :: "http_pages \<Rightarrow> 's \<Rightarrow> network \<Rightarrow> int \<Rightarrow> nat \<Rightarrow> bool \<Rightarrow> bool \<Rightarrow> bool \<Rightarrow> 's lobby \<Rightarrow>
    ('s lobby \<times> sockets) result" where
  "server_accept_message P null N now index max_clients max_memory max_utilization S =
     (case net_receive N index of (signed_received, would_block, bytes, addr) \<Rightarrow>
        if signed_received \<ge> 0
        then let received = nat signed_received;
                 G = sv_globals S;
                 G = G\<lparr>short_request_message := bytes @ drop (length bytes) (short_request_message G)\<rparr>;
                 S = S\<lparr>sv_globals := G\<rparr>;
                 fd = poll_fd (lb_polls S ! index)
             in case guppy_client (sv_clients S) addr of
                  Some p \<Rightarrow>
                    let poll = lb_polls S ! (p + ACCEPTING_SOCKETS)
                    in Inr (S\<lparr>sv_globals := G\<lparr>short_request_owner := Some p, short_request_size := received\<rparr>,
                         lb_polls := (lb_polls S)[p + ACCEPTING_SOCKETS := poll\<lparr>poll_revents := poll_revents poll OR POLLIN\<rparr>]\<rparr>, quiet)
                | None \<Rightarrow>
                    if received < length GUPPY_SCHEME \<or> take (length GUPPY_SCHEME) (short_request_message G) \<noteq> GUPPY_SCHEME
                    then Inr (S, quiet\<lparr>sk_sent := [(fd, ''4 No request'' @ CRLF)]\<rparr>)
                    else if max_clients \<or> max_memory \<or> max_utilization
                    then Inr (S, server_send_low_resources_message fd
                           (fr_code (server_low_resources_response max_clients max_memory max_utilization)))
                    else pret (aret (net_polls_grow N index) ''new_p != NULL''
                           (Inr (lb_polls S @ [\<lparr>poll_fd = -1, poll_events = 0, poll_revents = POLLIN\<rparr>]))) (\<lambda>polls.
                         pret (clients_append (net_clients_grow N index) (sv_clients S)
                                 ((new_client index addr now)\<lparr>cryptography_state := CS_OPERATIONAL\<rparr>)) (\<lambda>clients.
                         Inr (S\<lparr>sv_globals := G\<lparr>short_request_owner := Some (length clients - 1), short_request_size := received\<rparr>,
                                sv_clients := clients, sv_handles := sv_handles S @ [null], lb_polls := polls\<rparr>, quiet)))
        else aret would_block ''recvfrom() failed'' (Inr (S, quiet)))"

text \<open>The loop of \<^verbatim>\<open>server_accept_traffic\<close>; the limits were compared before it.\<close>

fun accept_sockets :: "'s world \<Rightarrow> http_pages \<Rightarrow> 's \<Rightarrow> network \<Rightarrow> int \<Rightarrow> bool \<Rightarrow> bool \<Rightarrow> bool \<Rightarrow> nat list \<Rightarrow> 's lobby \<Rightarrow>
    ('s lobby \<times> sockets) result" where
  "accept_sockets W P null N now max_clients max_memory max_utilization [] S = Inr (S, quiet)"
| "accept_sockets W P null N now max_clients max_memory max_utilization (index # indices) S =
     (let revents = poll_revents (lb_polls S ! index)
      in aret (revents AND (POLLERR OR POLLHUP) = 0) ''listening socket failed''
         (pret (if revents AND POLLIN = 0 then Inr (S, quiet)
                else if ACCEPTING_SOCKET_IS_CONNECTION index
                then server_accept_connection W P null N now index max_clients max_memory max_utilization S
                else if short_request_owner (sv_globals S) = None
                then server_accept_message P null N now index max_clients max_memory max_utilization S
                else Inr (S, quiet)) (\<lambda>(S, k).
          pret (accept_sockets W P null N now max_clients max_memory max_utilization indices S) (\<lambda>(S, l).
          Inr (S, \<lparr>sk_sent = sk_sent k @ sk_sent l, sk_closed = sk_closed k @ sk_closed l\<rparr>)))))"

definition server_accept_traffic :: "'s world \<Rightarrow> http_pages \<Rightarrow> 's \<Rightarrow> network \<Rightarrow> rat \<Rightarrow> int \<Rightarrow> 's lobby \<Rightarrow> ('s lobby \<times> sockets) result" where
  "server_accept_traffic W P null N utilization now S =
     accept_sockets W P null N now (length (sv_clients S) \<ge> MAX_CLIENTS) (g_memory (sv_globals S) \<ge> MAX_MEMORY_USAGE)
       (utilization \<ge> MAX_PROCESSOR_UTILIZATION) [0..<ACCEPTING_SOCKETS] S"


section \<open>What a new client brings\<close>

lemma truncated [simp]:
  "sv_globals (server.truncate S) = sv_globals S" "sv_clients (server.truncate S) = sv_clients S"
  by (simp_all add: server.truncate_def)

lemma new_client_books: "short_response_owner G \<noteq> Some k \<Longrightarrow> send_inv G k (new_client index addr now) []"
  using ring_inv_zero ring_bytes_zero
  by (simp add: send_inv_def owed_def queue_holds_def outstanding_def new_client_def zero_client_def)

lemma new_client_sizes: "ring_size (response_queue (new_client index addr now)) = 0" "response_stream (new_client index addr now) = zero_ring"
  by (simp_all add: new_client_def zero_client_def zero_ring_def)

lemma initialize_books:
  assumes "bio_ok L pending" and "library_small pending" and "realloc_ok realloc" and "short_response_owner G \<noteq> Some k"
    and "cryptography_initialize realloc L g (new_client index addr now) = Inr (g', c', h')"
  shows "\<exists>n. send_inv G k c' (silent_entries n)" "accepting_socket c' = index" "address c' = addr"
proof -
  let ?c = "new_client index addr now"
  note stream = new_client_sizes(2) [of index addr now]
  obtain h where h: "SSL_new L = Some h" "BIO_new L 0" "BIO_new L 1"
    using assms(5) by (auto simp: cryptography_initialize_def split: if_splits option.splits)
  have small: "length (pending h) < 2 ^ 60" using assms(2) by (simp add: library_small_def)
  then have room: "ring_size zero_ring + length (pending h) + MIN_AVAILABLE_REQUEST_STREAM \<le> 2 ^ 63"
    by (simp add: zero_ring_def constants)
  note run = cryptography_initialize_def h stream Let_def
  have "(\<exists>n. send_inv G k c' (silent_entries n)) \<and> accepting_socket c' = index \<and> address c' = addr"
  proof (rule pump_bio [OF assms(1,3) ring_inv_zero room, of g], goal_cases)
    case 1
    then show ?case using assms(5) h by (simp add: run)
  next
    case (2 g1 h1 q)
    let ?n = "ring_size q"
    have n: "?n = length (pending h)" using length_ring_bytes [OF 2(2)] 2(3) ring_bytes_zero by simp
    define c1 where "c1 = ?c\<lparr>response_stream := q\<rparr>"
    have c1: "queue_holds c1 []" "ring_size (response_queue c1) + sizeof_Response \<le> 2 ^ 63" "outstanding c1 [] = []"
      using new_client_books [OF assms(4), of index addr now] new_client_sizes(1) [of index addr now]
      by (simp_all add: send_inv_def queue_holds_def outstanding_def c1_def sizeof_Response_def)
    have len: "length ([] :: TS_Send.entry list) < 2 ^ 63" "?n < 2 ^ 64" using n small by simp_all
    show ?case
    proof (rule create_silent_cases [OF c1(1) assms(3) c1(2) len, of g1], goal_cases)
      case 1
      then show ?case using assms(5) 2(1) h by (simp add: run c1_def)
    next
      case (2 g2 c2)
      have c': "c' = c2\<lparr>ssl := True\<rparr>" using assms(5) \<open>cryptography_pump_to_ring _ _ _ _ _ _ = _\<close> 2(1) h by (simp add: run c1_def)
      have stream: "response_stream c2 = q" using 2(4) by (simp add: c1_def)
      have "send_inv G k c2 (silent_entries ?n)"
        using 2(2,3) c1(3) \<open>ring_inv q\<close> n len(2) assms(4) length_ring_bytes [OF \<open>ring_inv q\<close>]
        by (auto simp: send_inv_def owed_def stream silent_entries_def split: if_splits)
      then have "send_inv G k c' (silent_entries ?n)" unfolding c' by (subst send_inv_cong(4) [of _ c2]) simp_all
      moreover have "accepting_socket c' = index" "address c' = addr"
        using 2(5) unfolding c' by (auto simp: only_output_def c1_def new_client_def)
      ultimately show ?case by blast
    qed
  qed
  then show "\<exists>n. send_inv G k c' (silent_entries n)" "accepting_socket c' = index" "address c' = addr" by simp_all
qed

section \<open>The buffers stay in step\<close>

text \<open>
  One poll and one handle for each client; the books of all clients are balanced; the owner of the last message is a
  client; no two Guppy clients have the same address, so that a message belongs to one of them.
\<close>

definition one_per_address :: "client list \<Rightarrow> bool" where
  "one_per_address cs \<longleftrightarrow>
     (\<forall>j<length cs. \<forall>i<j. ACCEPTING_SOCKET_IS_GUPPY (accepting_socket (cs ! i)) \<and> ACCEPTING_SOCKET_IS_GUPPY (accepting_socket (cs ! j)) \<longrightarrow>
        \<not> address_compare (address (cs ! j)) (address (cs ! i)))"

definition lobby_ok :: "'s lobby \<Rightarrow> TS_Send.entry list list \<Rightarrow> bool" where
  "lobby_ok S ess \<longleftrightarrow> server_ok (server.truncate S) ess \<and> length (lb_polls S) = ACCEPTING_SOCKETS + length (sv_clients S) \<and>
     length (sv_handles S) = length (sv_clients S) \<and> one_per_address (sv_clients S) \<and>
     (\<forall>p. short_request_owner (sv_globals S) = Some p \<longrightarrow> p < length (sv_clients S))"

text \<open>Some new clients behind the old ones.\<close>

definition grown :: "nat \<Rightarrow> 's lobby \<Rightarrow> TS_Send.entry list list \<Rightarrow> 's lobby \<Rightarrow> bool" where
  "grown n S ess S' \<longleftrightarrow> (\<exists>extra new. lobby_ok S' (ess @ extra) \<and> sv_clients S' = sv_clients S @ new \<and> length new \<le> n)"

lemma one_per_address_new:
  assumes "one_per_address cs" and "ACCEPTING_SOCKET_IS_GUPPY (accepting_socket c) \<Longrightarrow> guppy_client cs (address c) = None"
  shows "one_per_address (cs @ [c])"
  using assms by (auto simp: one_per_address_def nth_append guppy_client_def find_None_iff less_Suc_eq)

lemma server_ok_cong:
  assumes "server_ok (server.truncate S) ess" and "sv_clients S' = sv_clients S @ new" and "length new = length extra"
    and "short_response_owner (sv_globals S') = short_response_owner (sv_globals S)"
    and "short_response_stream (sv_globals S') = short_response_stream (sv_globals S)"
    and "processor_memory (sv_globals S') = processor_memory (sv_globals S)"
    and "\<And>k. k < length new \<Longrightarrow> send_inv (sv_globals S) (length ess + k) (new ! k) (extra ! k)"
  shows "server_ok (server.truncate S') (ess @ extra)"
proof -
  have owed: "owed (sv_globals S') k c = owed (sv_globals S) k c" for k c using assms(4-6) by (simp add: owed_def)
  then have inv: "send_inv (sv_globals S') k c es = send_inv (sv_globals S) k c es" for k c es by (simp add: send_inv_def)
  have len: "length ess = length (sv_clients S)" using assms(1) by (simp add: server_ok_def)
  have "send_inv (sv_globals S) k (sv_clients S' ! k) ((ess @ extra) ! k)" if k: "k < length ess + length extra" for k
  proof (cases "k < length ess")
    case True
    then show ?thesis using assms(1,2) len by (simp add: server_ok_def nth_append)
  next
    case False
    then show ?thesis using assms(7) [of "k - length ess"] k assms(2,3) len by (simp add: nth_append)
  qed
  then show ?thesis using assms(1-4) len by (auto simp: server_ok_def inv nth_append)
qed

lemma owner_is_client: "server_ok (server.truncate S) ess \<Longrightarrow> short_response_owner (sv_globals S) \<noteq> Some (length ess)"
  by (auto simp: server_ok_def)

lemma find_client:
  assumes "guppy_client cs addr = Some p"
  shows "p < length cs" "ACCEPTING_SOCKET_IS_GUPPY (accepting_socket (cs ! p))" "address_compare addr (address (cs ! p))"
  using assms by (auto simp: guppy_client_def find_Some_iff)

text \<open>The new client of a connection; only a message makes a Guppy client.\<close>

lemma admit_grows:
  assumes "bio_ok (the_ssl W) pending" and "library_small pending" and "realloc_ok (site_realloc (the_site W))" and "lobby_ok S ess"
    and "\<not> ACCEPTING_SOCKET_IS_GUPPY index" and "admit_connection W null N now index fd addr S = Inr S'"
  shows "grown 1 S ess S'"
proof -
  let ?L = "the_ssl W" and ?c = "new_client index addr now"
  have no: "short_response_owner (sv_globals S) \<noteq> Some (length ess)" using assms(4) by (intro owner_is_client) (simp add: lobby_ok_def)
  obtain g c h where c: "S' = S\<lparr>sv_globals := (sv_globals S)\<lparr>g_memory := g\<rparr>, sv_clients := sv_clients S @ [c], sv_handles := sv_handles S @ [h],
        lb_polls := lb_polls S @ [\<lparr>poll_fd = fd, poll_events = 0, poll_revents = 0\<rparr>]\<rparr>"
    "\<exists>n. send_inv (sv_globals S) (length ess) c (silent_entries n)" "accepting_socket c = index"
  proof (cases "ACCEPTING_SOCKET_IS_HTTPS index \<or> ACCEPTING_SOCKET_IS_GEMINI index")
    case True
    then obtain g c h where init: "cryptography_initialize (site_realloc (the_site W)) ?L (g_memory (sv_globals S)) ?c = Inr (g, c, h)"
      using assms(6) by (auto simp: admit_connection_def expret_def split: sum.splits prod.splits)
    then have "S' = S\<lparr>sv_globals := (sv_globals S)\<lparr>g_memory := g\<rparr>, sv_clients := sv_clients S @ [c], sv_handles := sv_handles S @ [h],
        lb_polls := lb_polls S @ [\<lparr>poll_fd = fd, poll_events = 0, poll_revents = 0\<rparr>]\<rparr>"
      using True assms(6) by (auto simp: admit_connection_def clients_append_def aret_def split: if_splits)
    then show thesis using that initialize_books [OF assms(1-3) no init] by blast
  next
    case False
    let ?d = "?c\<lparr>cryptography_state := CS_OPERATIONAL\<rparr>"
    have inv: "send_inv (sv_globals S) (length ess) ?d []"
      using new_client_books [OF no, of index addr now] by (subst send_inv_cong(4) [of _ ?c]) simp_all
    have eq: "S' = S\<lparr>sv_globals := (sv_globals S)\<lparr>g_memory := g_memory (sv_globals S)\<rparr>, sv_clients := sv_clients S @ [?d],
        sv_handles := sv_handles S @ [null], lb_polls := lb_polls S @ [\<lparr>poll_fd = fd, poll_events = 0, poll_revents = 0\<rparr>]\<rparr>"
      using False assms(6) by (auto simp: admit_connection_def clients_append_def aret_def split: if_splits)
    show thesis by (rule that [OF eq]) (use inv in \<open>auto simp: silent_entries_def new_client_def intro: exI [of _ 0]\<close>)
  qed
  obtain n where n: "send_inv (sv_globals S) (length ess) c (silent_entries n)" using c(2) by blast
  have "server_ok (server.truncate S') (ess @ [silent_entries n])"
    by (rule server_ok_cong [of S _ _ "[c]"]) (use assms(4) n in \<open>simp_all add: c(1) lobby_ok_def\<close>)
  moreover have "one_per_address (sv_clients S @ [c])"
    using assms(4,5) c(3) by (intro one_per_address_new) (simp_all add: lobby_ok_def)
  ultimately show ?thesis using assms(4) unfolding grown_def
    by (intro exI [of _ "[silent_entries n]"] exI [of _ "[c]"]) (auto simp: c(1) lobby_ok_def less_Suc_eq)
qed

lemma grown_refl: "lobby_ok S ess \<Longrightarrow> grown n S ess S"
  unfolding grown_def by (intro exI [of _ "[]"]) simp

lemma connection_grows:
  assumes "bio_ok (the_ssl W) pending" and "library_small pending" and "realloc_ok (site_realloc (the_site W))" and "lobby_ok S ess"
    and "\<not> ACCEPTING_SOCKET_IS_GUPPY index"
    and "server_accept_connection W P null N now index a b d S = Inr (S', k)"
  shows "grown (if a \<or> b \<or> d then 0 else 1) S ess S'"
proof (cases "a \<or> b \<or> d")
  case True
  then have "S' = S" using assms(6)
    by (auto simp: server_accept_connection_def exaret_def exret_def split: prod.splits if_splits)
  then show ?thesis using grown_refl [OF assms(4)] by simp
next
  case False
  obtain fd addr where io: "net_accept N index = (fd, addr)" by fastforce
  show ?thesis
  proof (cases "admit_connection W null N now index fd addr S")
    case (Inl e)
    then have "S' = S" using False assms(6)
      by (auto simp: server_accept_connection_def io exaret_def exret_def split: if_splits)
    then show ?thesis using grown_refl [OF assms(4)] by simp
  next
    case (Inr T)
    have "S' = T \<or> S' = S" using False assms(6) Inr
      by (auto simp: server_accept_connection_def io exaret_def exret_def split: if_splits)
    then show ?thesis using False grown_refl [OF assms(4)] admit_grows [OF assms(1-5) Inr] by auto
  qed
qed

lemma message_grows:
  assumes "lobby_ok S ess" and "server_accept_message P null N now index a b d S = Inr (S', k)"
  shows "grown (if a \<or> b \<or> d then 0 else 1) S ess S'"
proof -
  obtain received would_block bytes addr where io: "net_receive N index = (received, would_block, bytes, addr)" by (cases "net_receive N index") auto
  let ?message = "bytes @ drop (length bytes) (short_request_message (sv_globals S))"
  define T where "T = S\<lparr>sv_globals := (sv_globals S)\<lparr>short_request_message := ?message\<rparr>\<rparr>"
  note ok = assms(1) [unfolded lobby_ok_def]
  have same: "server_ok (server.truncate S1) ess"
    if "sv_clients S1 = sv_clients S" "short_response_owner (sv_globals S1) = short_response_owner (sv_globals S)"
      "short_response_stream (sv_globals S1) = short_response_stream (sv_globals S)"
      "processor_memory (sv_globals S1) = processor_memory (sv_globals S)" for S1 :: "'a lobby"
    using server_ok_cong [of S ess S1 "[]" "[]"] ok that by simp
  have T: "lobby_ok T ess" using ok same [of T] by (simp add: lobby_ok_def T_def)
  show ?thesis
  proof (cases "received \<ge> 0")
    case False
    then have "S' = S" using assms(2) by (auto simp: server_accept_message_def io aret_def split: if_splits)
    then show ?thesis using grown_refl [OF assms(1)] by simp
  next
    case True
    show ?thesis
    proof (cases "guppy_client (sv_clients S) addr")
      case (Some p)
      then have S': "sv_clients S' = sv_clients S" "sv_handles S' = sv_handles S" "length (lb_polls S') = length (lb_polls S)"
        "sv_globals S' = (sv_globals S)\<lparr>short_request_message := ?message, short_request_owner := Some p, short_request_size := nat received\<rparr>"
        using assms(2) True by (auto simp: server_accept_message_def io Let_def)
      have "lobby_ok S' ess" using ok same [of S'] find_client(1) [OF Some] by (simp add: lobby_ok_def S')
      then show ?thesis unfolding grown_def using S'(1) by (intro exI [of _ "[]"]) simp
    next
      case None
      let ?c = "(new_client index addr now)\<lparr>cryptography_state := CS_OPERATIONAL\<rparr>"
      consider "S' = T" | "\<not> (a \<or> b \<or> d)" "S' = S\<lparr>sv_globals := (sv_globals S)\<lparr>short_request_message := ?message,
          short_request_owner := Some (length (sv_clients S)), short_request_size := nat received\<rparr>,
          sv_clients := sv_clients S @ [?c], sv_handles := sv_handles S @ [null],
          lb_polls := lb_polls S @ [\<lparr>poll_fd = -1, poll_events = 0, poll_revents = POLLIN\<rparr>]\<rparr>"
        using assms(2) True None
        by (auto simp: server_accept_message_def io Let_def T_def aret_def clients_append_def split: if_splits)
      then show ?thesis
      proof cases
        case 1
        then show ?thesis using T unfolding grown_def by (intro exI [of _ "[]"]) (simp add: T_def)
      next
        case 2
        have no: "short_response_owner (sv_globals S) \<noteq> Some (length ess)" using ok by (intro owner_is_client) simp
        have inv: "send_inv (sv_globals S) (length ess) ?c []"
          using new_client_books [OF no, of index addr now] by (subst send_inv_cong(4) [of _ "new_client index addr now"]) simp_all
        have "server_ok (server.truncate S') (ess @ [[]])"
          by (rule server_ok_cong [of S _ _ "[?c]"]) (use ok inv in \<open>simp_all add: 2(2)\<close>)
        moreover have "one_per_address (sv_clients S @ [?c])"
          using ok None by (intro one_per_address_new) (simp_all add: new_client_def)
        ultimately show ?thesis using ok 2(1) unfolding grown_def
          by (intro exI [of _ "[[]]"] exI [of _ "[?c]"]) (auto simp: 2(2) lobby_ok_def)
      qed
    qed
  qed
qed

lemma accept_sockets_grows:
  assumes "bio_ok (the_ssl W) pending" and "library_small pending" and "realloc_ok (site_realloc (the_site W))" and "lobby_ok S ess"
    and "accept_sockets W P null N now a b d indices S = Inr (S', k)"
  shows "grown (if a \<or> b \<or> d then 0 else length indices) S ess S'"
  using assms(4,5)
proof (induction indices arbitrary: S ess k)
  case Nil
  then show ?case using grown_refl [of S ess 0] by simp
next
  case (Cons index indices)
  let ?step = "if poll_revents (lb_polls S ! index) AND POLLIN = 0 then Inr (S, quiet)
                else if ACCEPTING_SOCKET_IS_CONNECTION index then server_accept_connection W P null N now index a b d S
                else if short_request_owner (sv_globals S) = None then server_accept_message P null N now index a b d S
                else Inr (S, quiet)"
  obtain T j l where T: "?step = Inr (T, j)" "accept_sockets W P null N now a b d indices T = Inr (S', l)"
    using Cons.prems(2) by (auto simp: aret_def pret_def Let_def split: if_splits sum.splits prod.splits)
  have "grown (if a \<or> b \<or> d then 0 else 1) S ess T"
  proof (cases "poll_revents (lb_polls S ! index) AND POLLIN = 0 \<or>
      \<not> ACCEPTING_SOCKET_IS_CONNECTION index \<and> short_request_owner (sv_globals S) \<noteq> None")
    case True
    then have "T = S" using T(1) by (auto split: if_splits)
    then show ?thesis using grown_refl [OF Cons.prems(1)] by simp
  next
    case False
    have kind: "ACCEPTING_SOCKET_IS_CONNECTION index \<Longrightarrow> \<not> ACCEPTING_SOCKET_IS_GUPPY index" by (simp add: accepting_socket_defs)
    show ?thesis
      using T(1) False connection_grows [OF assms(1-3) Cons.prems(1) kind, of P null N now a b d T j]
        message_grows [OF Cons.prems(1), of P null N now index a b d T j]
      by (auto split: if_splits)
  qed
  then obtain extra new where E: "lobby_ok T (ess @ extra)" "sv_clients T = sv_clients S @ new" "length new \<le> (if a \<or> b \<or> d then 0 else 1)"
    by (auto simp: grown_def)
  from Cons.IH [OF E(1) T(2)] obtain extra2 new2 where F: "lobby_ok S' ((ess @ extra) @ extra2)" "sv_clients S' = sv_clients T @ new2"
    "length new2 \<le> (if a \<or> b \<or> d then 0 else length indices)"
    by (auto simp: grown_def)
  show ?case unfolding grown_def
    using E F by (intro exI [of _ "extra @ extra2"] exI [of _ "new @ new2"]) (auto split: if_splits)
qed

section \<open>A connection never stops the server\<close>

lemma initialize_closes:
  assumes "bio_ok L pending" and "library_small pending" and "realloc_ok realloc"
    and "cryptography_initialize realloc L g (new_client index addr now) = Inl (e, freed)"
  shows "ex_flags e = EEF_CLOSE_LOG"
proof (cases "\<exists>h. SSL_new L = Some h \<and> BIO_new L 0 \<and> BIO_new L 1")
  case False
  then show ?thesis using assms(4)
    by (auto simp: cryptography_initialize_def exerror_allocate_def split: if_splits option.splits)
next
  case True
  then obtain h where h: "SSL_new L = Some h" "BIO_new L 0" "BIO_new L 1" by blast
  let ?c = "new_client index addr now"
  note stream = new_client_sizes(2) [of index addr now]
  note run = cryptography_initialize_def h stream Let_def
  have small: "length (pending h) < 2 ^ 60" using assms(2) by (simp add: library_small_def)
  then have room: "ring_size zero_ring + length (pending h) + MIN_AVAILABLE_REQUEST_STREAM \<le> 2 ^ 63"
    by (simp add: zero_ring_def constants)
  show ?thesis
  proof (rule pump_bio [OF assms(1,3) ring_inv_zero room, of g], goal_cases)
    case 1
    then show ?case using assms(4) h by (auto simp: run)
  next
    case (2 g1 h1 q)
    define c1 where "c1 = ?c\<lparr>response_stream := q\<rparr>"
    have books: "send_inv \<lparr>short_response_stream = [], short_response_owner = None, short_request_message = [], short_request_owner = None,
        short_request_size = 0, processor_memory = (\<lambda>_. NUL), g_memory = 0\<rparr> 0 ?c []"
      by (rule new_client_books) simp
    have c1: "queue_holds c1 []" "ring_size (response_queue c1) + sizeof_Response \<le> 2 ^ 63"
      using books new_client_sizes(1) [of index addr now] by (simp_all add: send_inv_def queue_holds_def c1_def sizeof_Response_def)
    have len: "length ([] :: TS_Send.entry list) < 2 ^ 63" "ring_size q < 2 ^ 64"
      using length_ring_bytes [OF 2(2)] 2(3) ring_bytes_zero small by simp_all
    show ?case
    proof (rule create_silent_cases [OF c1(1) assms(3) c1(2) len, of g1], goal_cases)
      case 1
      then show ?case using assms(4) 2(1) h by (auto simp: run c1_def)
    next
      case (2 g2 c2)
      then show ?case using assms(4) \<open>cryptography_pump_to_ring _ _ _ _ _ _ = _\<close> h by (simp add: run c1_def)
    qed
  qed
qed

lemma closing_is_not_dying: "\<not> has_flag EEF_CLOSE_LOG PARTIAL_EEF_DIE"
  by (simp add: flag_defs has_flag_def)

lemma connection_returns:
  assumes "bio_ok (the_ssl W) pending" and "library_small pending" and "realloc_ok (site_realloc (the_site W))"
  shows "\<exists>r. server_accept_connection W P null N now index a b d S = Inr r"
proof -
  obtain fd addr where io: "net_accept N index = (fd, addr)" by fastforce
  have "ex_flags e = EEF_CLOSE_LOG" if "admit_connection W null N now index fd addr S = Inl e" for e
    using that initialize_closes [OF assms]
    by (auto simp: admit_connection_def clients_append_def aret_def expret_def expretf_def exerror_append_def exerror_append_extend_def
        split: if_splits sum.splits prod.splits)
  then show ?thesis
    by (auto simp: server_accept_connection_def io exaret_def exret_def exerror_allocate_def expret_def exerror_append_def closing_is_not_dying
        split: sum.splits prod.splits)
qed

lemma message_fails:
  assumes "server_accept_message P null N now index a b d S = Inl e"
  shows "e \<in> {Failed ''new_p != NULL'', Failed ''recvfrom() failed''}"
  using assms by (auto simp: server_accept_message_def clients_append_def aret_def Let_def split: prod.splits if_splits option.splits)

lemma accept_sockets_fails:
  assumes "bio_ok (the_ssl W) pending" and "library_small pending" and "realloc_ok (site_realloc (the_site W))"
    and "accept_sockets W P null N now a b d indices S = Inl e"
  shows "e \<in> {Failed ''listening socket failed'', Failed ''new_p != NULL'', Failed ''recvfrom() failed''}"
  using assms(4)
proof (induction indices arbitrary: S e)
  case (Cons index indices)
  let ?revents = "poll_revents (lb_polls S ! index)"
  let ?step = "if ?revents AND POLLIN = 0 then Inr (S, quiet)
                else if ACCEPTING_SOCKET_IS_CONNECTION index then server_accept_connection W P null N now index a b d S
                else if short_request_owner (sv_globals S) = None then server_accept_message P null N now index a b d S
                else Inr (S, quiet)"
  show ?case
  proof (cases "?revents AND (POLLERR OR POLLHUP) = 0")
    case False
    then show ?thesis using Cons.prems by (simp add: aret_def Let_def)
  next
    case True
    then have run: "pret ?step (\<lambda>(S, k). pret (accept_sockets W P null N now a b d indices S) (\<lambda>(S, l).
          Inr (S, \<lparr>sk_sent = sk_sent k @ sk_sent l, sk_closed = sk_closed k @ sk_closed l\<rparr>))) = Inl e"
      using Cons.prems by (simp add: aret_def Let_def)
    show ?thesis
    proof (cases ?step)
      case (Inl e')
      have "e' = e" using run unfolding Inl by (simp add: pret_def)
      moreover have "e' \<in> {Failed ''new_p != NULL'', Failed ''recvfrom() failed''}"
      proof (cases "ACCEPTING_SOCKET_IS_CONNECTION index")
        case True
        then show ?thesis using Inl connection_returns [OF assms(1-3), of P null N now index a b d S] by (auto split: if_splits)
      next
        case False
        then have "server_accept_message P null N now index a b d S = Inl e'" using Inl by (simp split: if_splits)
        then show ?thesis by (rule message_fails)
      qed
      ultimately show ?thesis by simp
    next
      case (Inr r)
      obtain T k where r: "r = (T, k)" by (cases r)
      have "accept_sockets W P null N now a b d indices T = Inl e"
        using run unfolding Inr r by (auto simp: pret_def split: sum.splits)
      then show ?thesis by (rule Cons.IH)
    qed
  qed
qed simp

section \<open>Properties\<close>


text \<open>
  C25: the limits. When the clients, the memory or the utilization have reached their limit before the round, no client
  is added. The number of clients is compared once for all 18 listening sockets, so that a round may pass the limit of
  256 by up to 17 clients, and never by more.
\<close>

theorem accept_limits:
  assumes "bio_ok (the_ssl W) pending" and "library_small pending" and "realloc_ok (site_realloc (the_site W))" and "lobby_ok S ess"
    and "server_accept_traffic W P null N utilization now S = Inr (S', k)"
  shows "length (sv_clients S') \<le> max (length (sv_clients S)) (MAX_CLIENTS + 17) \<and>
    (length (sv_clients S) \<ge> MAX_CLIENTS \<or> g_memory (sv_globals S) \<ge> MAX_MEMORY_USAGE \<or> utilization \<ge> MAX_PROCESSOR_UTILIZATION \<longrightarrow>
      sv_clients S' = sv_clients S)"
proof -
  have len: "length [0..<ACCEPTING_SOCKETS] = 18" by (simp add: ACCEPTING_SOCKETS_def)
  obtain new where "sv_clients S' = sv_clients S @ new" "length new \<le> (if length (sv_clients S) \<ge> MAX_CLIENTS \<or>
      g_memory (sv_globals S) \<ge> MAX_MEMORY_USAGE \<or> utilization \<ge> MAX_PROCESSOR_UTILIZATION then 0 else 18)"
    using accept_sockets_grows [OF assms(1-4) assms(5) [unfolded server_accept_traffic_def]]
    unfolding grown_def len by blast
  then show ?thesis by (auto simp: constants split: if_splits)
qed

text \<open>
  C29: a message finds its client. When a message makes a client the owner of the message buffer, this client exists,
  it is a Guppy client with the address the message came from, and the buffer starts with the message.
\<close>

theorem accept_message_owner:
  assumes "server_accept_message P null N now index max_clients max_memory max_utilization S = Inr (S', k)"
    and "net_receive N index = (n, would_block, bytes, addr)" and "n = int (length bytes)"
    and "short_request_owner (sv_globals S) = None" and "short_request_owner (sv_globals S') = Some p"
    and "ACCEPTING_SOCKET_IS_GUPPY index"
  shows "p < length (sv_clients S') \<and> ACCEPTING_SOCKET_IS_GUPPY (accepting_socket (sv_clients S' ! p)) \<and>
    address_compare addr (address (sv_clients S' ! p)) \<and>
    take (short_request_size (sv_globals S')) (short_request_message (sv_globals S')) = bytes"
proof (cases "guppy_client (sv_clients S) addr")
  case (Some q)
  then show ?thesis using assms find_client [OF Some] by (auto simp: server_accept_message_def Let_def)
next
  case None
  have self: "address_compare a a" for a by (simp add: address_compare_def)
  show ?thesis using None assms self
    by (auto simp: server_accept_message_def Let_def aret_def clients_append_def new_client_def split: if_splits)
qed

text \<open>
  C31: an HTTPS or Gemini connection that is turned away for want of resources is neither kept nor closed: its
  descriptor is open, belongs to no poll and is never seen again.
\<close>

theorem refused_connection_leaks:
  assumes "ACCEPTING_SOCKET_IS_HTTPS index \<or> ACCEPTING_SOCKET_IS_GEMINI index" and "max_clients \<or> max_memory \<or> max_utilization"
    and "net_accept N index = (fd, addr)" and "fd \<ge> 0" and "net_get_flags N index \<ge> 0" and "net_set_flags N index \<ge> 0"
    and "fd \<notin> poll_fd ` set (lb_polls S)"
  shows "\<exists>S' k. server_accept_connection W P null N now index max_clients max_memory max_utilization S = Inr (S', k) \<and>
    fd \<notin> set (sk_closed k) \<and> fd \<notin> poll_fd ` set (lb_polls S') \<and> sk_sent k = []"
  using assms by (simp add: server_accept_connection_def server_send_low_resources_connection_def quiet_def)

section \<open>Witnesses\<close>

text \<open>An empty server; the Gopher socket and the first Guppy socket have something to offer.\<close>

definition empty_lobby :: "(byte list \<times> byte list) lobby" where
  "empty_lobby = \<lparr>sv_globals = idle_globals, sv_clients = [], sv_handles = [], sv_one = zero_string, sv_two = zero_string,
     lb_polls = map (\<lambda>i. \<lparr>poll_fd = int i, poll_events = POLLIN, poll_revents = (if i = 4 \<or> i = 16 then POLLIN else 0)\<rparr>) [0..<18]\<rparr>"

lemma empty_lobby_ok: "lobby_ok empty_lobby []"
  by (simp add: lobby_ok_def empty_lobby_def server_ok_def server.truncate_def one_per_address_def idle_globals_def ACCEPTING_SOCKETS_def)

definition small_world :: "(byte list \<times> byte list) world" where
  "small_world = \<lparr>the_site = sample_site, the_almanac = sample_almanac, the_rounding = (\<lambda>q. q), the_ssl = small_openssl\<rparr>"

lemma small_world_ok: "bio_ok (the_ssl small_world) (\<lambda>h. take 1000 (snd h))" "realloc_ok (site_realloc (the_site small_world))"
  using small_openssl_ok realloc_ok_zero by (simp_all add: small_world_def sample_site_def)

definition sample_network :: network where
  "sample_network = \<lparr>net_accept = (\<lambda>_. (20, replicate 128 NUL)), net_get_flags = (\<lambda>_. 0), net_set_flags = (\<lambda>_. 0),
     net_receive = (\<lambda>_. (14, True, ''guppy://host/'' @ [CR], replicate 128 NUL)), net_polls_grow = (\<lambda>_. True), net_clients_grow = (\<lambda>_. True)\<rparr>"


text \<open>A server with too much to do turns everyone away.\<close>

lemma busy_round:
  "\<exists>S' k. server_accept_traffic small_world zero_http_pages ([], []) sample_network 1 7 empty_lobby = Inr (S', k)"
  by (simp add: server_accept_traffic_def ACCEPTING_SOCKETS_def upt_rec empty_lobby_def server_accept_connection_def
      server_accept_message_def sample_network_def guppy_client_def Let_def POLLIN_def POLLERR_def POLLHUP_def
      idle_globals_def MAX_PROCESSOR_UTILIZATION_def accepting_socket_defs constants GUPPY_SCHEME_def aret_def)

lemma accept_limits_witness:
  "\<exists>S' k. server_accept_traffic small_world zero_http_pages ([], []) sample_network 1 7 empty_lobby = Inr (S', k) \<and>
     sv_clients S' = []"
proof -
  obtain S' k where r: "server_accept_traffic small_world zero_http_pages ([], []) sample_network 1 7 empty_lobby = Inr (S', k)"
    using busy_round by blast
  have "1 \<ge> MAX_PROCESSOR_UTILIZATION" by (simp add: MAX_PROCESSOR_UTILIZATION_def)
  then have "sv_clients S' = sv_clients empty_lobby"
    using accept_limits [OF small_world_ok(1) small_openssl_ok(3) small_world_ok(2) empty_lobby_ok r] by blast
  then show ?thesis using r by (simp add: empty_lobby_def)
qed

lemma accept_message_owner_witness:
  "\<exists>S' k. server_accept_message zero_http_pages ([], []) sample_network 7 16 False False False empty_lobby = Inr (S', k) \<and>
     take (short_request_size (sv_globals S')) (short_request_message (sv_globals S')) = ''guppy://host/'' @ [CR]"
proof -
  obtain S' k where r: "server_accept_message zero_http_pages ([], []) sample_network 7 16 False False False empty_lobby = Inr (S', k)"
    "short_request_owner (sv_globals S') = Some 0"
    by (auto simp: server_accept_message_def sample_network_def empty_lobby_def guppy_client_def Let_def GUPPY_SCHEME_def
        clients_append_def aret_def idle_globals_def)
  have "short_request_owner (sv_globals empty_lobby) = None" "ACCEPTING_SOCKET_IS_GUPPY 16"
    by (simp_all add: empty_lobby_def idle_globals_def accepting_socket_defs)
  moreover have "net_receive sample_network 16 = (14, True, ''guppy://host/'' @ [CR], replicate 128 NUL)"
    "(14 :: int) = int (length (''guppy://host/'' @ [CR]))"
    by (simp_all add: sample_network_def)
  ultimately show ?thesis using accept_message_owner [OF r(1) _ _ _ r(2)] r(1) by blast
qed

lemma refused_connection_leaks_witness:
  "\<exists>S' k. server_accept_connection small_world zero_http_pages ([], []) sample_network 7 2 True False False empty_lobby = Inr (S', k) \<and>
     20 \<notin> set (sk_closed k) \<and> 20 \<notin> poll_fd ` set (lb_polls S') \<and> sk_sent k = []"
  by (rule refused_connection_leaks) (auto simp: sample_network_def empty_lobby_def accepting_socket_defs)

end
