(* ===== verification/Spec2Isabelle.thy ===== *)
theory Spec2Isabelle
  imports TS_Buffer TS_Queue TS_Accept
begin

text \<open>
  Twinkleshine, a server for nine small-web protocols (HTTP(S), Gopher, Finger, Gemini, Spartan, Nex, Text and
  Guppy), modelled from its C sources under \<^verbatim>\<open>src/\<close>.

  \<^bold>\<open>The program.\<close> One process polls its listening sockets and its clients. A client (\<^verbatim>\<open>include/client.h\<close>) owns three
  rings: the request stream with what it sent, the response stream with what it will be sent, and the response
  queue with the metadata of every response that has not left completely. What arrives goes through a byte-wise
  request parser (\<^verbatim>\<open>source/parser\<close>); a complete request is answered by a processor (\<^verbatim>\<open>source/processor\<close>), which
  prints a page or an error into two global string buffers; the answer is encrypted (\<^verbatim>\<open>source/cryptography.c\<close>),
  appended to the response stream, or left in the buffers as the short response stream, which belongs to one client
  at a time (\<^verbatim>\<open>source/server/process.c\<close>); sending (\<^verbatim>\<open>source/server/send.c\<close>) pops the metadata of what has left.

  \<^bold>\<open>Theories and sources, from the bottom.\<close>
  \<^item> \<open>TS_Prelude\<close>: bytes, \<open>size_t\<close> with its wrap-around, and the error macros of \<^verbatim>\<open>commonlib/include/error.h\<close>;
    \<open>TS_Error\<close>: errors with flags (\<^verbatim>\<open>extended_error.h\<close>); \<open>TS_Constants\<close>: limits and socket numbers.
  \<^item> \<open>TS_Value\<close> (\<^verbatim>\<open>value.c\<close>), \<open>TS_Memory\<close> (\<^verbatim>\<open>memory.c\<close>), \<open>TS_Ring\<close> (\<^verbatim>\<open>ring.c\<close>): text in two parts and the growing
    ring. Every operation is shown to be a list operation, and the ring refines the bounded queue of \<open>TS_Queue\<close>.
  \<^item> \<open>TS_String\<close>, \<open>TS_Buffer\<close>, \<open>TS_Unicode\<close>, \<open>TS_Print\<close>, \<open>TS_Format\<close> (\<^verbatim>\<open>commonlib/source\<close>): growing strings and buffers,
    wide characters, and the engine of \<^verbatim>\<open>string_print\<close>, equal to a reference formatter on the formats the server uses.
  \<^item> \<open>TS_Tables\<close> (\<^verbatim>\<open>tables.c\<close>) and \<open>TS_Language\<close> (\<^verbatim>\<open>language.c\<close>, \<^verbatim>\<open>Accept-Language\<close>): character classes, and the
    choice of the language with the highest weight.
  \<^item> \<open>TS_Parser\<close>, \<open>TS_Parse_Text\<close>, \<open>TS_Parse_Http\<close>, \<open>TS_Parse\<close> (\<^verbatim>\<open>source/parser\<close>): a step function per protocol inside
    one loop. The locale \<open>request_parser\<close> states what \<^verbatim>\<open>parser_parse\<close> needs of each protocol, \<open>line_parser\<close> what
    makes the result independent of how the network cuts the stream; both are interpreted on every parser they fit.
  \<^item> \<open>TS_Response\<close> (metadata), \<open>TS_Fixed\<close> (fixed answers), \<open>TS_Style\<close>, \<open>TS_Page\<close> (the printers of the protocols; the
    locale \<open>line_printer\<close> for the four that print line by line), \<open>TS_Guppy\<close> (\<^verbatim>\<open>guppy_insert_markers\<close>), \<open>TS_Resource\<close>
    (names of pages), \<open>TS_Pages\<close>, \<open>TS_Generic\<close>, \<open>TS_Lines\<close>, \<open>TS_Site\<close>, \<open>TS_Answer\<close> (\<^verbatim>\<open>processor/generic.c\<close>), \<open>TS_Process\<close>
    (\<^verbatim>\<open>processor.c\<close> and the processors of the protocols): for every request the bytes of the answer are those of a
    reference without buffers, \<open>answer_of\<close>.
  \<^item> \<open>TS_Client\<close> (\<^verbatim>\<open>client.c\<close>), \<open>TS_Low_Level\<close> and \<open>TS_Message\<close> (\<^verbatim>\<open>server/low_level.c\<close>), \<open>TS_Send\<close> (\<^verbatim>\<open>server/send.c\<close>),
    \<open>TS_Crypto\<close> (\<^verbatim>\<open>cryptography.c\<close>), \<open>TS_Traffic\<close> (\<^verbatim>\<open>server/process.c\<close>): the books of a client (\<open>send_inv\<close>) say that the
    sizes announced in its queue add up to exactly the bytes it is owed; sending, encrypting, closing and
    answering keep them for all clients (\<open>server_ok\<close>), whoever owns the short response stream.
  \<^item> \<open>TS_Receive\<close> (\<^verbatim>\<open>server/receive.c\<close>), \<open>TS_Accept\<close> (\<^verbatim>\<open>server/accept.c\<close>), \<open>TS_Wait\<close> (parts of \<^verbatim>\<open>server/high_level.c\<close>):
    bytes and messages come in, new clients join with their polls and handles (\<open>lobby_ok\<close>), the poll is armed for
    exactly the first deadline, and an error on a secure connection is answered.
  \<^item> \<open>TS_Time\<close> (\<^verbatim>\<open>time.c\<close>, \<^verbatim>\<open>random.c\<close>): calendar, uptime, uniform random numbers.

  \<^bold>\<open>How the code is rendered.\<close> A structure is a record, a \<^verbatim>\<open>switch\<close> over a state a function on a datatype, an error an
  \<open>Inl\<close>; a pointer into a block is an index, a pointer to a client its index in the buffer. Flags are 32-bit words;
  \<open>size_t\<close> is a natural number with \<open>size_add\<close> and \<open>size_sub\<close> wrapping at \<open>2 ^ 64\<close>. An access outside a block is the
  error \<open>Undefined\<close>; a loop that does not end is \<open>Diverges\<close> (\<open>partial_function\<close> with the result \<open>None\<close>), so that the
  theorems can exclude both, and several show that one of them happens.

  \<^bold>\<open>Parameters.\<close> The C library and other code not in the repository are arguments: \<^verbatim>\<open>realloc\<close> (contract \<open>realloc_ok\<close>: a
  failure, or a block of the requested size that keeps the contents), \<^verbatim>\<open>send\<close> and \<^verbatim>\<open>read\<close>, the printing of floating
  point numbers (\<open>float_ok\<close>; nothing in the server prints one), the rounding of \<^verbatim>\<open>double\<close>, random numbers, the calendar,
  and OpenSSL (a record of its calls; \<open>bio_ok\<close> states what a memory BIO does). The tables of fun facts are data, given
  as an argument (\<open>almanac_ok\<close>: the fact that is drawn is shorter than \<open>2 ^ 31\<close> bytes). Each contract has an instance, used by the witnesses.

  \<^bold>\<open>Bounds.\<close> Where a sum of sizes could wrap, the theorems assume that sizes are below a power of two between \<open>2 ^ 60\<close>
  and \<open>2 ^ 63\<close> bytes, far beyond what an address space holds; pages below \<open>2 ^ 31\<close> bytes, since the code casts their
  length to \<^verbatim>\<open>unsigned int\<close> and \<^verbatim>\<open>int\<close>. No fuel is used.

  \<^bold>\<open>Not modelled.\<close> The text of error traces (\<^verbatim>\<open>error.c\<close>), logging (\<^verbatim>\<open>output.c\<close>), the creation of the listening sockets
  (\<^verbatim>\<open>initialize.c\<close>), the set-up of OpenSSL, console helpers of \<^verbatim>\<open>utility.c\<close>, and \<^verbatim>\<open>main.c\<close>: system calls and formatted
  output with no logic of their own. An error carries no state, so what a client or a buffer holds after a failed
  operation is left open. For this reason the rounds of \<^verbatim>\<open>high_level.c\<close> that call all of this are not composed into one
  function: their handlers of failures go on with the client as the failed call left it. The operations they call,
  their guards, their timeouts and the recovery are modelled one by one.
\<close>

end
